(* ===== verification/Prelude.thy ===== *)
theory Prelude
  imports Main "HOL-Library.List_Lexorder" "HOL-Library.Char_ord" "HOL-Library.Multiset"
begin

text \<open>
  What the components share: the Go values they compute with and the lemmas about them.

  \<^item> Instants (\<open>time.Time\<close>) are nanoseconds counted from the zero time of Go, so the zero
    time is \<open>0\<close> and \<open>IsZero\<close>, \<open>Before\<close>, \<open>After\<close> and \<open>Equal\<close> are
    comparisons of integers. \<open>Sub\<close> saturates at the range of \<open>time.Duration\<close>.
  \<^item> Strings are lists of bytes; \<open>strings.TrimSpace\<close> and \<open>strings.ToLower\<close> are modelled
    on ASCII, the alphabet of claims, opcodes, actors and wire frames.
  \<^item> \<open>strconv.ParseInt(s, 10, 64)\<close> and the decimal rendering of integers are written out
    with Go's range and syntax errors.
\<close>

named_theorems str_simps \<open>normal forms of trimmed and lower-cased strings\<close>
named_theorems queue_simps \<open>sets and identifiers of waiting lists under their operations\<close>

section \<open>Time\<close>

type_synonym gotime = int
type_synonym duration = int

abbreviation (input) time_zero :: gotime where "time_zero \<equiv> 0"

definition time_is_zero :: "gotime \<Rightarrow> bool" where
  "time_is_zero t \<longleftrightarrow> t = 0"

abbreviation (input) second :: duration where "second \<equiv> 1000000000"
abbreviation (input) minute :: duration where "minute \<equiv> 60000000000"
abbreviation (input) hour :: duration where "hour \<equiv> 3600000000000"

definition max_duration :: duration where "max_duration = 9223372036854775807"
definition min_duration :: duration where "min_duration = -9223372036854775808"

text \<open>\<open>t.Sub(u)\<close>: the difference, saturated to the range of a duration.\<close>

definition time_sub :: "gotime \<Rightarrow> gotime \<Rightarrow> duration" where
  "time_sub t u = max min_duration (min max_duration (t - u))"

text \<open>Go's integer division truncates towards zero.\<close>

definition go_quot :: "int \<Rightarrow> int \<Rightarrow> int" where
  "go_quot a b = sgn a * sgn b * (\<bar>a\<bar> div \<bar>b\<bar>)"

lemma go_quot_nonneg: "0 \<le> a \<Longrightarrow> 0 < b \<Longrightarrow> go_quot a b = a div b"
  by (cases "a = 0") (simp_all add: go_quot_def)

lemma go_quot_ge_0: "0 \<le> a \<Longrightarrow> 0 < b \<Longrightarrow> 0 \<le> go_quot a b"
  by (simp add: go_quot_nonneg pos_imp_zdiv_nonneg_iff)

lemma go_quot_mono: "0 \<le> a \<Longrightarrow> a \<le> a' \<Longrightarrow> 0 < b \<Longrightarrow> go_quot a b \<le> go_quot a' b"
  by (simp add: go_quot_nonneg zdiv_mono1)

lemma time_sub_mono: "t \<le> t' \<Longrightarrow> time_sub t u \<le> time_sub t' u"
  unfolding time_sub_def by (intro max.mono min.mono) simp_all

lemma time_sub_pos: "u < t \<Longrightarrow> 0 < time_sub t u"
  by (auto simp: time_sub_def max_duration_def min_duration_def)

section \<open>ASCII strings\<close>

definition is_space :: "char \<Rightarrow> bool" where
  "is_space c \<longleftrightarrow> (let n = (of_char c :: nat) in n = 32 \<or> (9 \<le> n \<and> n \<le> 13))"

definition to_lower_char :: "char \<Rightarrow> char" where
  "to_lower_char c = (let n = (of_char c :: nat) in if 65 \<le> n \<and> n \<le> 90 then char_of (n + 32) else c)"

definition to_lower :: "string \<Rightarrow> string" where
  "to_lower = map to_lower_char"

definition trim_left :: "string \<Rightarrow> string" where
  "trim_left = dropWhile is_space"

definition trim_space :: "string \<Rightarrow> string" where
  "trim_space s = rev (dropWhile is_space (rev (trim_left s)))"

definition has_prefix :: "string \<Rightarrow> string \<Rightarrow> bool" where
  "has_prefix s p \<longleftrightarrow> take (length p) s = p"

definition trim_prefix :: "string \<Rightarrow> string \<Rightarrow> string" where
  "trim_prefix s p = (if has_prefix s p then drop (length p) s else s)"

text \<open>\<open>strings.ToLower(strings.TrimSpace(s))\<close>, the normal form most of the code compares.\<close>

definition norm_str :: "string \<Rightarrow> string" where
  "norm_str s = to_lower (trim_space s)"

text \<open>\<open>strings.Split\<close> at a one-byte separator, and \<open>strings.Join\<close>.\<close>

fun split_on :: "char \<Rightarrow> string \<Rightarrow> string list" where
  "split_on c [] = [[]]"
| "split_on c (x # xs) =
     (if x = c then [] # split_on c xs
      else (case split_on c xs of [] \<Rightarrow> [[x]] | y # ys \<Rightarrow> (x # y) # ys))"

fun join_with :: "string \<Rightarrow> string list \<Rightarrow> string" where
  "join_with s [] = []"
| "join_with s [x] = x"
| "join_with s (x # y # ys) = x @ s @ join_with s (y # ys)"

lemma char_of_to_lower_nat:
  "(of_char (to_lower_char c) :: nat) =
     (let n = (of_char c :: nat) in if 65 \<le> n \<and> n \<le> 90 then n + 32 else n)"
  by (auto simp: to_lower_char_def Let_def)

lemma to_lower_char_idem [simp]: "to_lower_char (to_lower_char c) = to_lower_char c"
  using char_of_to_lower_nat [of c]
  by (auto simp: to_lower_char_def [of "to_lower_char c"] Let_def split: if_splits)

lemma is_space_to_lower [simp]: "is_space (to_lower_char c) = is_space c"
  by (auto simp: is_space_def char_of_to_lower_nat Let_def)

lemma to_lower_idem [str_simps]: "to_lower (to_lower s) = to_lower s"
  by (simp add: to_lower_def)

lemma to_lower_Nil [simp]: "to_lower [] = []" "to_lower s = [] \<longleftrightarrow> s = []"
  by (simp_all add: to_lower_def)

lemma trim_space_Nil [simp]: "trim_space [] = []"
  by (simp add: trim_space_def trim_left_def)

lemma dropWhile_rev_dropWhile_id:
  assumes "dropWhile p xs = xs"
  shows "dropWhile p (rev (dropWhile q (rev xs))) = rev (dropWhile q (rev xs))"
proof (cases "rev (dropWhile q (rev xs))")
  case (Cons y ys)
  have "rev xs = takeWhile q (rev xs) @ dropWhile q (rev xs)" by simp
  then have "xs = rev (dropWhile q (rev xs)) @ rev (takeWhile q (rev xs))"
    by (metis rev_append rev_rev_ident)
  with Cons have "xs = y # ys @ rev (takeWhile q (rev xs))" by simp
  with assms have "\<not> p y" by (metis dropWhile_eq_self_iff list.sel(1) list.distinct(1))
  with Cons show ?thesis by simp
next
  case Nil
  then show ?thesis by (simp only: dropWhile.simps)
qed

lemma trim_space_idem [str_simps]: "trim_space (trim_space s) = trim_space s"
proof -
  have "trim_left (trim_space s) = trim_space s"
    unfolding trim_space_def trim_left_def
    by (rule dropWhile_rev_dropWhile_id) (simp add: dropWhile_idem)
  then show ?thesis by (simp add: trim_space_def dropWhile_idem)
qed

lemma dropWhile_map_lower: "dropWhile is_space (map to_lower_char s) = map to_lower_char (dropWhile is_space s)"
  by (induction s) simp_all

lemma trim_space_to_lower [str_simps]: "trim_space (to_lower s) = to_lower (trim_space s)"
  by (simp add: trim_space_def trim_left_def to_lower_def dropWhile_map_lower rev_map)

lemma norm_str_idem [simp]: "norm_str (norm_str s) = norm_str s"
  by (simp add: norm_str_def str_simps)

lemma norm_str_Nil [simp]: "norm_str [] = []"
  by (simp add: norm_str_def)

lemma split_on_neq_Nil [simp]: "split_on c s \<noteq> []"
  by (cases s) (auto split: list.splits)

lemma join_with_Cons: "xs \<noteq> [] \<Longrightarrow> join_with s (x # xs) = x @ s @ join_with s xs"
  by (cases xs) simp_all

lemma join_with_Cons_char: "join_with s ((c # x) # xs) = c # join_with s (x # xs)"
  by (cases xs) simp_all

lemma join_split [simp]: "join_with [c] (split_on c s) = s"
proof (induction s)
  case (Cons x xs)
  show ?case
  proof (cases "x = c")
    case True
    with Cons.IH show ?thesis by (simp add: join_with_Cons)
  next
    case False
    obtain y ys where "split_on c xs = y # ys" by (cases "split_on c xs") auto
    with False Cons.IH show ?thesis by (simp add: join_with_Cons_char)
  qed
qed simp

lemma split_on_no_sep: "p \<in> set (split_on c s) \<Longrightarrow> c \<notin> set p"
proof (induction s arbitrary: p)
  case (Cons x xs)
  then show ?case by (auto split: if_splits list.splits)
qed simp

lemma split_on_free: "c \<notin> set s \<Longrightarrow> split_on c s = [s]"
  by (induction s) auto

lemma split_on_append: "c \<notin> set s \<Longrightarrow> split_on c (s @ c # t) = s # split_on c t"
  by (induction s) auto

lemma has_prefix_append [simp]: "has_prefix (p @ s) p"
  by (simp add: has_prefix_def)

lemma has_prefix_iff: "has_prefix s p \<longleftrightarrow> (\<exists>t. s = p @ t)"
  by (metis append_take_drop_id has_prefix_append has_prefix_def)

end
