(* ===== verification/Decimal.thy ===== *)
theory Decimal
  imports Prelude "HOL-Library.Word"
begin

text \<open>
  Decimal integers: \<open>strconv.ParseInt(s, 10, 64)\<close> and \<open>fmt\<close>'s \<open>%d\<close> from the
  standard library, as the source uses them, and \<open>PlainInt64\<close> of
  \<^verbatim>\<open>Server/Protocol/Integers.go\<close>, whose accumulator is a \<open>64 word\<close>.
\<close>

section \<open>Digits\<close>

definition is_digit :: "char \<Rightarrow> bool" where
  "is_digit c \<longleftrightarrow> 48 \<le> (of_char c :: nat) \<and> (of_char c :: nat) \<le> 57"

definition digit_val :: "char \<Rightarrow> nat" where
  "digit_val c = of_char c - 48"

definition digit_char :: "nat \<Rightarrow> char" where
  "digit_char d = char_of (d + 48)"

lemma digit_char_props:
  assumes "d < 10"
  shows "is_digit (digit_char d)" "digit_val (digit_char d) = d"
  using assms by (simp_all add: is_digit_def digit_val_def digit_char_def)

lemma digit_val_less: "is_digit c \<Longrightarrow> digit_val c < 10"
  by (auto simp: is_digit_def digit_val_def)

text \<open>The value of a digit string, most significant digit first.\<close>

definition digits_val :: "string \<Rightarrow> nat" where
  "digits_val s = foldl (\<lambda>n c. n * 10 + digit_val c) 0 s"

lemma digits_val_Nil [simp]: "digits_val [] = 0"
  by (simp add: digits_val_def)

lemma digits_val_snoc [simp]: "digits_val (s @ [c]) = digits_val s * 10 + digit_val c"
  by (simp add: digits_val_def)

lemma foldl_digits: "foldl (\<lambda>n c. n * 10 + digit_val c) m s = m * 10 ^ length s + digits_val s"
proof (induction s rule: rev_induct)
  case (snoc c s)
  then show ?case by (simp add: algebra_simps)
qed simp

lemma digits_val_Cons: "digits_val (c # s) = digit_val c * 10 ^ length s + digits_val s"
  using foldl_digits [of "digit_val c" s] by (simp add: digits_val_def)

lemma digits_val_bound: "\<forall>c \<in> set s. is_digit c \<Longrightarrow> digits_val s < 10 ^ length s"
proof (induction s)
  case (Cons c s)
  then have "digit_val c < 10" "digits_val s < 10 ^ length s" by (auto simp: digit_val_less)
  then have "digit_val c * 10 ^ length s + digits_val s < (digit_val c + 1) * 10 ^ length s"
    by simp
  also have "\<dots> \<le> 10 * 10 ^ length s"
    using \<open>digit_val c < 10\<close> by (intro mult_right_mono) simp_all
  finally show ?case by (simp add: digits_val_Cons)
qed simp

section \<open>Rendering\<close>

fun show_nat :: "nat \<Rightarrow> string" where
  "show_nat n = (if n < 10 then [digit_char n] else show_nat (n div 10) @ [digit_char (n mod 10)])"

declare show_nat.simps [simp del]

definition show_int :: "int \<Rightarrow> string" where
  "show_int i = (if i < 0 then CHR ''-'' # show_nat (nat (- i)) else show_nat (nat i))"

lemma show_nat_digits: "\<forall>c \<in> set (show_nat n). is_digit c"
proof (induction n rule: show_nat.induct)
  case (1 n)
  then show ?case
    by (cases "n < 10") (simp_all add: show_nat.simps [of n] digit_char_props)
qed

lemma show_nat_0: "show_nat 0 = ''0''"
proof -
  have "(of_char (digit_char 0) :: nat) = of_char (CHR ''0'')" by (simp add: digit_char_def)
  then have "digit_char 0 = CHR ''0''" by (metis of_char_eq_iff)
  then show ?thesis by (simp add: show_nat.simps)
qed

lemma show_nat_neq_Nil [simp]: "show_nat n \<noteq> []"
  by (subst show_nat.simps) simp

lemma digits_val_show_nat [simp]: "digits_val (show_nat n) = n"
proof (induction n rule: show_nat.induct)
  case (1 n)
  then show ?case
    by (cases "n < 10")
      (simp_all add: show_nat.simps [of n] digits_val_Cons digit_char_props)
qed

lemma digits_val_0 [simp]: "digits_val ''0'' = 0"
  using digits_val_show_nat [of 0] by (simp add: show_nat_0)

lemma show_nat_inj: "show_nat m = show_nat n \<Longrightarrow> m = n"
  by (metis digits_val_show_nat)

lemma minus_not_digit [simp]: "\<not> is_digit CHR ''-''" "\<not> is_digit CHR ''+''" "\<not> is_digit CHR ''|''"
  "\<not> is_digit CHR '':''" "\<not> is_digit CHR ''#''"
  by (simp_all add: is_digit_def)

lemma show_int_inj: "show_int i = show_int j \<Longrightarrow> i = j"
proof -
  assume eq: "show_int i = show_int j"
  have neg: "CHR ''-'' # s \<noteq> show_nat n" for s n
    using show_nat_digits [of n] by (metis list.set_intros(1) minus_not_digit(1))
  show "i = j"
    using eq neg [of "show_nat (nat (- i))" "nat j"] neg [of "show_nat (nat (- j))" "nat i"]
    by (auto simp: show_int_def split: if_splits dest!: show_nat_inj)
qed

lemma show_int_chars: "c \<in> set (show_int i) \<Longrightarrow> is_digit c \<or> c = CHR ''-''"
  using show_nat_digits by (auto simp: show_int_def split: if_splits)

lemma show_int_no_sep [simp]:
  "CHR ''|'' \<notin> set (show_int i)" "CHR '':'' \<notin> set (show_int i)" "CHR ''#'' \<notin> set (show_int i)"
  using show_int_chars [of _ i] by (auto dest: show_int_chars)

section \<open>strconv.ParseInt(s, 10, 64)\<close>

datatype num_status = NumOk | NumSyntax | NumRange

abbreviation max_uint64 :: nat where "max_uint64 \<equiv> 18446744073709551615"

text \<open>
  The loop of \<open>ParseUint\<close>: it stops at the first byte that is no digit, and at the first
  digit that overflows, whichever comes first.
\<close>

fun parse_uint_loop :: "string \<Rightarrow> nat \<Rightarrow> nat \<times> num_status" where
  "parse_uint_loop [] n = (n, NumOk)"
| "parse_uint_loop (c # cs) n =
     (if \<not> is_digit c then (0, NumSyntax)
      else if max_uint64 div 10 + 1 \<le> n then (max_uint64, NumRange)
      else if max_uint64 < n * 10 + digit_val c then (max_uint64, NumRange)
      else parse_uint_loop cs (n * 10 + digit_val c))"

definition parse_uint64 :: "string \<Rightarrow> nat \<times> num_status" where
  "parse_uint64 s = (if s = [] then (0, NumSyntax) else parse_uint_loop s 0)"

definition parse_int64 :: "string \<Rightarrow> int \<times> num_status" where
  "parse_int64 s =
     (let neg = (s \<noteq> [] \<and> hd s = CHR ''-'');
          body = (if s \<noteq> [] \<and> (hd s = CHR ''-'' \<or> hd s = CHR ''+'') then tl s else s);
          r = parse_uint64 body
      in if snd r = NumSyntax then (0, NumSyntax)
         else if \<not> neg \<and> 9223372036854775808 \<le> fst r then (9223372036854775807, NumRange)
         else if neg \<and> 9223372036854775808 < fst r then (-9223372036854775808, NumRange)
         else (if neg then - int (fst r) else int (fst r), NumOk))"

abbreviation parse_int_value :: "string \<Rightarrow> int" where
  "parse_int_value s \<equiv> fst (parse_int64 s)"

lemma parse_uint_loop_ok:
  "\<forall>c \<in> set s. is_digit c \<Longrightarrow> n * 10 ^ length s + digits_val s \<le> max_uint64
    \<Longrightarrow> parse_uint_loop s n = (n * 10 ^ length s + digits_val s, NumOk)"
proof (induction s arbitrary: n)
  case (Cons c s)
  let ?m = "n * 10 + digit_val c"
  have eq: "n * 10 ^ length (c # s) + digits_val (c # s) = ?m * 10 ^ length s + digits_val s"
    by (simp add: digits_val_Cons algebra_simps)
  have "?m \<le> ?m * 10 ^ length s" by simp
  with Cons.prems(2) eq have m: "?m \<le> max_uint64" by linarith
  then have "\<not> max_uint64 div 10 + 1 \<le> n" by simp
  with m Cons eq show ?case by simp
qed simp

lemma parse_int64_show: "-9223372036854775808 \<le> i \<Longrightarrow> i \<le> 9223372036854775807 \<Longrightarrow>
    parse_int64 (show_int i) = (i, NumOk)"
proof -
  assume i: "-9223372036854775808 \<le> i" "i \<le> 9223372036854775807"
  have p: "parse_uint64 (show_nat n) = (n, NumOk)" if "n \<le> max_uint64" for n
    using parse_uint_loop_ok [OF show_nat_digits [of n], of 0] that by (simp add: parse_uint64_def)
  have h: "hd (show_nat n) \<noteq> CHR ''-''" "hd (show_nat n) \<noteq> CHR ''+''" for n
    using show_nat_digits [of n] by (metis hd_in_set show_nat_neq_Nil minus_not_digit(1,2))+
  show ?thesis
    using i by (auto simp: show_int_def parse_int64_def Let_def h p)
qed

lemma parse_int64_range: "-9223372036854775808 \<le> parse_int_value s \<and> parse_int_value s \<le> 9223372036854775807"
  by (auto simp: parse_int64_def Let_def)

section \<open>PlainInt64\<close>

text \<open>
  \<open>Protocol.PlainInt64\<close>: the loop over the digits keeps the magnitude in a
  \<open>uint64\<close>; the sign is applied by negating the word and reading it as \<open>int64\<close>.
\<close>

fun plain_magnitude :: "string \<Rightarrow> 64 word \<Rightarrow> 64 word option" where
  "plain_magnitude [] m = Some m"
| "plain_magnitude (c # cs) m =
     (if (of_char c :: nat) < 48 \<or> 57 < (of_char c :: nat) then None
      else plain_magnitude cs (m * 10 + of_nat (of_char c - 48)))"

definition plain_int64 :: "string \<Rightarrow> int option" where
  "plain_int64 raw =
     (let negative = (raw \<noteq> [] \<and> hd raw = CHR ''-'');
          digits = (if negative then tl raw else raw)
      in if digits = [] \<or> 19 < length digits \<or> (hd digits = CHR ''0'' \<and> 1 < length digits) then None
         else case plain_magnitude digits 0 of
             None \<Rightarrow> None
           | Some m \<Rightarrow>
               if negative then (if 9223372036854775808 < m then None else Some (sint (- m)))
               else (if 9223372036854775807 < m then None else Some (sint m)))"

lemma plain_magnitude_None: "plain_magnitude s m = None \<longleftrightarrow> \<not> (\<forall>c \<in> set s. is_digit c)"
  by (induction s arbitrary: m) (auto simp: is_digit_def)

lemma plain_magnitude_Some:
  "\<forall>c \<in> set s. is_digit c \<Longrightarrow>
    plain_magnitude s m = Some (m * 10 ^ length s + of_nat (digits_val s))"
proof (induction s arbitrary: m)
  case (Cons c s)
  then have "plain_magnitude (c # s) m = plain_magnitude s (m * 10 + of_nat (digit_val c))"
    by (simp add: is_digit_def digit_val_def)
  with Cons show ?case by (simp add: digits_val_Cons algebra_simps)
qed simp

lemma digit_val_pos:
  assumes "is_digit c" "c \<noteq> CHR ''0''"
  shows "0 < digit_val c"
proof (rule ccontr)
  assume "\<not> 0 < digit_val c"
  with assms(1) have "(of_char c :: nat) = 48" by (simp add: digit_val_def is_digit_def)
  moreover have "(of_char (CHR ''0'') :: nat) = 48" by simp
  ultimately have "c = CHR ''0''" by (metis of_char_eq_iff)
  with assms(2) show False by simp
qed

text \<open>A digit string without a leading zero is the rendering of its value.\<close>

lemma show_nat_digits_val:
  "s \<noteq> [] \<Longrightarrow> \<forall>c \<in> set s. is_digit c \<Longrightarrow> hd s \<noteq> CHR ''0'' \<or> length s = 1 \<Longrightarrow>
    show_nat (digits_val s) = s"
proof (induction s rule: rev_induct)
  case (snoc c s)
  have c: "digit_val c < 10" "digit_char (digit_val c) = c"
    using snoc.prems by (auto simp: digit_val_less digit_char_def digit_val_def is_digit_def)
  show ?case
  proof (cases "s = []")
    case True
    with c show ?thesis by (simp add: show_nat.simps digits_val_Cons)
  next
    case False
    with snoc have IH: "show_nat (digits_val s) = s" by auto
    from False snoc.prems have "hd s \<noteq> CHR ''0''" "is_digit (hd s)" by auto
    then have "0 < digit_val (hd s)" by (simp add: digit_val_pos)
    then have "0 < digits_val s"
      using False digits_val_Cons [of "hd s" "tl s"] by simp
    then have "\<not> digits_val (s @ [c]) < 10" by simp
    then show ?thesis
      using c IH by (subst show_nat.simps) simp
  qed
qed simp

lemma show_nat_hd: "0 < n \<Longrightarrow> hd (show_nat n) \<noteq> CHR ''0''"
proof (induction n rule: show_nat.induct)
  case (1 n)
  show ?case
  proof (cases "n < 10")
    case True
    then have "digit_val (hd (show_nat n)) = n"
      by (subst show_nat.simps) (simp add: digit_char_props)
    with 1(2) show ?thesis by (auto simp: digit_val_def)
  next
    case False
    with 1 show ?thesis by (subst show_nat.simps) (simp add: hd_append)
  qed
qed

lemma show_nat_length: "n < 10 ^ k \<Longrightarrow> 0 < k \<Longrightarrow> length (show_nat n) \<le> k"
proof (induction n arbitrary: k rule: show_nat.induct)
  case (1 n)
  show ?case
  proof (cases "n < 10")
    case True
    with 1(3) show ?thesis by (subst show_nat.simps) simp
  next
    case False
    then obtain j where k: "k = Suc j" "0 < j"
      using 1(2,3) by (cases k; cases "k - 1") auto
    with 1(2) have "n div 10 < 10 ^ j" by (simp add: less_mult_imp_div_less)
    from 1(1) [OF False this k(2)] False k show ?thesis
      by (subst show_nat.simps) simp
  qed
qed

text \<open>Nineteen digits fit in the accumulator, so the words read back as the numbers.\<close>

lemma plain_magnitude_value:
  assumes "\<forall>c \<in> set s. is_digit c" "length s \<le> 19"
  shows "plain_magnitude s 0 = Some (of_nat (digits_val s))" "digits_val s < 10 ^ 19"
proof -
  have "digits_val s < 10 ^ length s" using assms(1) by (rule digits_val_bound)
  also have "(10::nat) ^ length s \<le> 10 ^ 19" using assms(2) by (intro power_increasing) simp_all
  finally show "digits_val s < 10 ^ 19" .
qed (use plain_magnitude_Some [OF assms(1), of 0] in simp)

lemma word64_le_iff:
  "n < 2 ^ 64 \<Longrightarrow> m < 2 ^ 64 \<Longrightarrow> (of_nat m :: 64 word) < of_nat n \<longleftrightarrow> m < n"
  by (simp add: word_less_nat_alt unat_of_nat)

lemma sint_of_int64:
  "-9223372036854775808 \<le> i \<Longrightarrow> i < 9223372036854775808 \<Longrightarrow> sint (of_int i :: 64 word) = i"
  by (simp add: signed_of_int signed_take_bit_int_eq_self)

lemma sint_of_nat64: "n < 9223372036854775808 \<Longrightarrow> sint (of_nat n :: 64 word) = int n"
  using sint_of_int64 [of "int n"] by simp

lemma sint_neg_of_nat64: "n \<le> 9223372036854775808 \<Longrightarrow> sint (- of_nat n :: 64 word) = - int n"
  using sint_of_int64 [of "- int n"] by simp

definition int64_range :: "int \<Rightarrow> bool" where
  "int64_range i \<longleftrightarrow> -9223372036854775808 \<le> i \<and> i \<le> 9223372036854775807"

lemma plain_int64_digits:
  assumes "\<forall>c \<in> set ds. is_digit c" "ds \<noteq> []" "length ds \<le> 19" "hd ds \<noteq> CHR ''0'' \<or> length ds = 1"
  shows "plain_int64 ds = (if digits_val ds \<le> 9223372036854775807 then Some (int (digits_val ds)) else None)"
    and "plain_int64 (CHR ''-'' # ds) =
      (if digits_val ds \<le> 9223372036854775808 then Some (- int (digits_val ds)) else None)"
proof -
  note v = plain_magnitude_value [OF assms(1,3)]
  have lt: "(9223372036854775807 :: 64 word) < of_nat (digits_val ds) \<longleftrightarrow> 9223372036854775807 < digits_val ds"
    "(9223372036854775808 :: 64 word) < of_nat (digits_val ds) \<longleftrightarrow> 9223372036854775808 < digits_val ds"
    using word64_le_iff [of "digits_val ds" 9223372036854775807]
      word64_le_iff [of "digits_val ds" 9223372036854775808] v(2) by simp_all
  have "hd ds \<noteq> CHR ''-''" using assms(1,2) by (metis hd_in_set minus_not_digit(1))
  then show "plain_int64 ds = (if digits_val ds \<le> 9223372036854775807 then Some (int (digits_val ds)) else None)"
    using assms v(1) lt by (auto simp: plain_int64_def Let_def sint_of_nat64 split: option.splits)
  show "plain_int64 (CHR ''-'' # ds) =
      (if digits_val ds \<le> 9223372036854775808 then Some (- int (digits_val ds)) else None)"
    using assms v(1) lt by (auto simp: plain_int64_def Let_def sint_neg_of_nat64 split: option.splits)
qed

lemma plain_int64_Some_digits:
  assumes "plain_int64 raw = Some i"
  obtains ds where "raw = ds \<or> raw = CHR ''-'' # ds" "\<forall>c \<in> set ds. is_digit c" "ds \<noteq> []"
    "length ds \<le> 19" "hd ds \<noteq> CHR ''0'' \<or> length ds = 1"
proof -
  define neg where "neg \<longleftrightarrow> raw \<noteq> [] \<and> hd raw = CHR ''-''"
  define ds where "ds = (if neg then tl raw else raw)"
  have raw: "raw = ds \<or> raw = CHR ''-'' # ds"
    by (cases raw) (auto simp: ds_def neg_def)
  have "\<not> (ds = [] \<or> 19 < length ds \<or> (hd ds = CHR ''0'' \<and> 1 < length ds))"
    using assms by (simp add: plain_int64_def Let_def flip: neg_def ds_def split: if_splits)
  moreover from this have "plain_magnitude ds 0 \<noteq> None"
    using assms by (simp add: plain_int64_def Let_def flip: neg_def ds_def split: option.splits)
  moreover have "length ds = 1 \<or> 1 < length ds" if "ds \<noteq> []"
    using that by (cases ds) auto
  ultimately show thesis using that raw plain_magnitude_None by (metis linorder_not_less)
qed

text \<open>\<open>PlainInt64\<close> accepts exactly the canonical decimal renderings of the 64-bit
  integers, and the literal \<open>-0\<close>, and returns their value.\<close>

theorem plain_int64_exact:
  "plain_int64 raw = Some i \<longleftrightarrow> int64_range i \<and> (raw = show_int i \<or> raw = ''-0'' \<and> i = 0)"
proof
  assume "plain_int64 raw = Some i"
  then obtain ds where ds: "raw = ds \<or> raw = CHR ''-'' # ds" "\<forall>c \<in> set ds. is_digit c" "ds \<noteq> []"
    "length ds \<le> 19" "hd ds \<noteq> CHR ''0'' \<or> length ds = 1"
    by (rule plain_int64_Some_digits)
  note eval = plain_int64_digits [OF ds(2-5)] and canon = show_nat_digits_val [OF ds(3,2,5)]
  from ds(1) show "int64_range i \<and> (raw = show_int i \<or> raw = ''-0'' \<and> i = 0)"
  proof
    assume "raw = ds"
    with eval(1) canon \<open>plain_int64 raw = Some i\<close> show ?thesis
      by (auto simp: int64_range_def show_int_def split: if_splits)
  next
    assume raw: "raw = CHR ''-'' # ds"
    with eval(2) \<open>plain_int64 raw = Some i\<close>
    have i: "i = - int (digits_val ds)" "digits_val ds \<le> 9223372036854775808" by (auto split: if_splits)
    show ?thesis
    proof (cases "digits_val ds = 0")
      case True
      with canon have "ds = ''0''" by (simp add: show_nat_0)
      with raw i True show ?thesis by (simp add: int64_range_def)
    next
      case False
      with raw i canon show ?thesis by (simp add: int64_range_def show_int_def)
    qed
  qed
next
  assume asm: "int64_range i \<and> (raw = show_int i \<or> raw = ''-0'' \<and> i = 0)"
  have ok: "\<forall>c \<in> set (show_nat n). is_digit c" "show_nat n \<noteq> []" "length (show_nat n) \<le> 19"
    "hd (show_nat n) \<noteq> CHR ''0'' \<or> length (show_nat n) = 1" if "n \<le> 9223372036854775808" for n
  proof -
    show "length (show_nat n) \<le> 19" using that by (intro show_nat_length) simp_all
    show "hd (show_nat n) \<noteq> CHR ''0'' \<or> length (show_nat n) = 1"
      by (cases "n = 0") (simp_all add: show_nat_0 show_nat_hd)
  qed (simp_all add: show_nat_digits)
  have "plain_int64 ''-0'' = Some 0"
    using plain_int64_digits(2) [OF ok, of 0] by (simp add: show_nat_0)
  moreover have "plain_int64 (show_int i) = Some i" if "int64_range i"
    using that plain_int64_digits [OF ok, of "nat \<bar>i\<bar>"] by (auto simp: int64_range_def show_int_def)
  ultimately show "plain_int64 raw = Some i" using asm by auto
qed

end
