(* ===== verification/ResourceKeys.thy ===== *)
theory ResourceKeys
  imports Decimal
begin

text \<open>
  Resource keys (\<^verbatim>\<open>Server/Intent/Resources.go\<close>): the authority an operation needs
  before it may run. Two keys \<^emph>\<open>overlap\<close> when two operations holding them must not run
  together; keys are normalised before they are compared, and the claim strings of older
  planners are translated to keys. \<open>BoundAccount\<close> is from \<^verbatim>\<open>Server/State/Partitions.go\<close>.
\<close>

section \<open>Keys, their canonical text and normalisation\<close>

record resource_key =
  rk_account :: string
  rk_scope :: string
  rk_kingdom :: int
  rk_castle :: int
  rk_capability :: string
  rk_kind :: string
  rk_id :: string

abbreviation (input) scope_application :: string where "scope_application \<equiv> ''application''"
abbreviation (input) scope_session :: string where "scope_session \<equiv> ''session''"
abbreviation (input) scope_account :: string where "scope_account \<equiv> ''account''"
abbreviation (input) scope_kingdom :: string where "scope_kingdom \<equiv> ''kingdom''"
abbreviation (input) scope_castle :: string where "scope_castle \<equiv> ''castle''"

definition canonical :: "resource_key \<Rightarrow> string" where
  "canonical r = join_with ''|''
     [rk_account r, rk_scope r, show_int (rk_kingdom r), show_int (rk_castle r),
      rk_capability r, rk_kind r, rk_id r]"

text \<open>The body of the loop of \<open>normalizeResourceKeys\<close>: \<open>None\<close> is its \<open>continue\<close>.\<close>

definition normalize_key :: "resource_key \<Rightarrow> resource_key option" where
  "normalize_key r =
     (let a = norm_str (rk_account r); s = norm_str (rk_scope r); c = norm_str (rk_capability r);
          k = norm_str (rk_kind r); i = norm_str (rk_id r)
      in if s = [] \<or> c = [] \<or> k = [] then None
         else Some (r\<lparr>rk_account := a, rk_scope := s, rk_capability := c, rk_kind := k,
                      rk_id := (if i = [] then ''*'' else i)\<rparr>))"

text \<open>
  The map \<open>byCanonical\<close> keeps the last key of each canonical text; its keys are then read
  in sorted order.
\<close>

definition normalize_resource_keys :: "resource_key list \<Rightarrow> resource_key list" where
  "normalize_resource_keys ks =
     (let rs = List.map_filter normalize_key ks;
          by_canonical = map_of (rev (map (\<lambda>r. (canonical r, r)) rs));
          keys = sort (remdups (map canonical rs))
      in map (\<lambda>k. the (by_canonical k)) keys)"

section \<open>Overlap and containment\<close>

definition dimensions_overlap :: "string \<Rightarrow> string \<Rightarrow> bool" where
  "dimensions_overlap l r \<longleftrightarrow> l = ''*'' \<or> r = ''*'' \<or> l = r"

definition dimension_contains :: "string \<Rightarrow> string \<Rightarrow> bool" where
  "dimension_contains p c \<longleftrightarrow> p = ''*'' \<or> p = c"

definition dims_overlap :: "resource_key \<Rightarrow> resource_key \<Rightarrow> bool" where
  "dims_overlap l r \<longleftrightarrow> dimensions_overlap (rk_capability l) (rk_capability r) \<and>
     dimensions_overlap (rk_kind l) (rk_kind r) \<and> dimensions_overlap (rk_id l) (rk_id r)"

text \<open>The account-scoped key against a castle- or kingdom-scoped one.\<close>

definition cross_scope_overlap :: "resource_key \<Rightarrow> resource_key \<Rightarrow> bool" where
  "cross_scope_overlap parent child \<longleftrightarrow>
     (if rk_scope child \<noteq> scope_castle \<and> rk_scope child \<noteq> scope_kingdom then False
      else if rk_capability child = ''*'' then False
      else dims_overlap parent child)"

definition resource_keys_overlap :: "resource_key \<Rightarrow> resource_key \<Rightarrow> bool" where
  "resource_keys_overlap l r \<longleftrightarrow>
     (if canonical l = canonical r then True
      else if rk_account l \<noteq> [] \<and> rk_account r \<noteq> [] \<and> rk_account l \<noteq> rk_account r then False
      else if rk_scope l \<noteq> rk_scope r then
        (if rk_scope l = scope_account then cross_scope_overlap l r
         else if rk_scope r = scope_account then cross_scope_overlap r l
         else False)
      else if rk_scope l = scope_castle \<and> rk_castle l \<noteq> rk_castle r then False
      else if rk_scope l = scope_kingdom \<and> rk_kingdom l \<noteq> rk_kingdom r then False
      else dims_overlap l r)"

definition resources_overlap :: "resource_key list \<Rightarrow> resource_key list \<Rightarrow> bool" where
  "resources_overlap ls rs \<longleftrightarrow> list_ex (\<lambda>l. list_ex (resource_keys_overlap l) rs) ls"

definition resource_contains :: "resource_key \<Rightarrow> resource_key \<Rightarrow> bool" where
  "resource_contains p c \<longleftrightarrow>
     (if rk_account p \<noteq> [] \<and> rk_account p \<noteq> rk_account c then False
      else if rk_scope p \<noteq> rk_scope c \<or> rk_kingdom p \<noteq> rk_kingdom c \<or> rk_castle p \<noteq> rk_castle c then False
      else dimension_contains (rk_capability p) (rk_capability c) \<and>
           dimension_contains (rk_kind p) (rk_kind c) \<and> dimension_contains (rk_id p) (rk_id c))"

definition same_resource_keys :: "resource_key list \<Rightarrow> resource_key list \<Rightarrow> bool" where
  "same_resource_keys ls rs \<longleftrightarrow> length ls = length rs \<and> list_all2 (\<lambda>l r. canonical l = canonical r) ls rs"

definition has_legacy_resource :: "resource_key list \<Rightarrow> bool" where
  "has_legacy_resource rs \<longleftrightarrow> list_ex (\<lambda>r. rk_capability r = ''legacy'') rs"

section \<open>Laws of overlap\<close>

lemma dimensions_overlap_sym: "dimensions_overlap l r = dimensions_overlap r l"
  by (auto simp: dimensions_overlap_def)

lemma dims_overlap_sym: "dims_overlap l r = dims_overlap r l"
  by (simp add: dims_overlap_def dimensions_overlap_sym)

lemma dims_overlap_refl [simp]: "dims_overlap r r"
  by (simp add: dims_overlap_def dimensions_overlap_def)

lemma resource_keys_overlap_sym: "resource_keys_overlap l r = resource_keys_overlap r l"
  by (auto simp: resource_keys_overlap_def dims_overlap_sym)

lemma resource_keys_overlap_refl [simp]: "resource_keys_overlap r r"
  by (simp add: resource_keys_overlap_def)

lemma resources_overlap_iff: "resources_overlap ls rs \<longleftrightarrow> (\<exists>l \<in> set ls. \<exists>r \<in> set rs. resource_keys_overlap l r)"
  by (simp add: resources_overlap_def list_ex_iff)

lemma resources_overlap_sym: "resources_overlap ls rs = resources_overlap rs ls"
  unfolding resources_overlap_iff using resource_keys_overlap_sym by blast

lemma resources_overlap_refl: "rs \<noteq> [] \<Longrightarrow> resources_overlap rs rs"
  by (cases rs) (auto simp: resources_overlap_iff)

section \<open>Canonical texts and normal forms\<close>

text \<open>The separator of the canonical text does not occur in a clean key.\<close>

definition clean_key :: "resource_key \<Rightarrow> bool" where
  "clean_key r \<longleftrightarrow> CHR ''|'' \<notin> set (rk_account r) \<union> set (rk_scope r) \<union> set (rk_capability r) \<union> set (rk_kind r)"

lemma split_canonical:
  "CHR ''|'' \<notin> set a \<Longrightarrow> split_on CHR ''|'' (a @ CHR ''|'' # t) = a # split_on CHR ''|'' t"
  by (rule split_on_append)

lemma append_sep_inj:
  "c \<notin> set a \<Longrightarrow> c \<notin> set b \<Longrightarrow> a @ c # s = b @ c # t \<longleftrightarrow> a = b \<and> s = t"
proof (induction a arbitrary: b)
  case Nil
  then show ?case by (cases b) auto
next
  case (Cons x a)
  then show ?case by (cases b) auto
qed

lemma canonical_inj:
  assumes "clean_key l" "clean_key r" "canonical l = canonical r"
  shows "l = r"
  using assms by (auto simp: canonical_def clean_key_def append_sep_inj dest!: show_int_inj)

lemma to_lower_char_pipe [simp]: "to_lower_char d = CHR ''|'' \<longleftrightarrow> d = CHR ''|''"
proof -
  have p: "(of_char (CHR ''|'') :: nat) = 124" by simp
  have "to_lower_char d = CHR ''|'' \<longleftrightarrow> (of_char (to_lower_char d) :: nat) = 124"
    by (simp only: p [symmetric] of_char_eq_iff)
  also have "\<dots> \<longleftrightarrow> (of_char d :: nat) = 124" by (auto simp: char_of_to_lower_nat Let_def)
  also have "\<dots> \<longleftrightarrow> d = CHR ''|''" by (simp only: p [symmetric] of_char_eq_iff)
  finally show ?thesis .
qed

lemma set_trim_space: "set (trim_space s) \<subseteq> set s"
  by (auto simp: trim_space_def trim_left_def dest!: set_dropWhileD)

lemma pipe_in_norm_str: "CHR ''|'' \<in> set (norm_str s) \<Longrightarrow> CHR ''|'' \<in> set s"
  by (auto simp: norm_str_def to_lower_def image_iff dest!: subsetD [OF set_trim_space] sym [of "CHR ''|''"])

text \<open>A key is in normal form when normalisation returns it unchanged.\<close>

lemma normalize_key_Some:
  "normalize_key r = Some r' \<longleftrightarrow> norm_str (rk_scope r) \<noteq> [] \<and> norm_str (rk_capability r) \<noteq> [] \<and>
     norm_str (rk_kind r) \<noteq> [] \<and>
     r' = r\<lparr>rk_account := norm_str (rk_account r), rk_scope := norm_str (rk_scope r),
            rk_capability := norm_str (rk_capability r), rk_kind := norm_str (rk_kind r),
            rk_id := (if norm_str (rk_id r) = [] then ''*'' else norm_str (rk_id r))\<rparr>"
  by (auto simp: normalize_key_def Let_def)

lemma norm_str_star [simp]: "norm_str ''*'' = ''*''"
  by code_simp

lemma normalize_key_idem: "normalize_key r = Some r' \<Longrightarrow> normalize_key r' = Some r'"
  by (auto simp: normalize_key_Some)

lemma normalize_key_clean: "clean_key r \<Longrightarrow> normalize_key r = Some r' \<Longrightarrow> clean_key r'"
  by (auto simp: normalize_key_Some clean_key_def dest: pipe_in_norm_str)

text \<open>The lookup table of \<open>normalizeResourceKeys\<close>: every key comes back under its own text.\<close>

lemma by_canonical_lookup:
  assumes "k \<in> canonical ` set rs"
  obtains r where "map_of (rev (map (\<lambda>r. (canonical r, r)) rs)) k = Some r" "r \<in> set rs" "canonical r = k"
proof -
  let ?m = "map_of (rev (map (\<lambda>r. (canonical r, r)) rs))"
  have "k \<in> dom ?m" using assms by (auto simp: dom_map_of_conv_image_fst image_image)
  then obtain r where r: "?m k = Some r" by auto
  then have "(k, r) \<in> set (rev (map (\<lambda>r. (canonical r, r)) rs))" by (rule map_of_SomeD)
  with r that show thesis by auto
qed

definition canonical_sorted :: "resource_key list \<Rightarrow> bool" where
  "canonical_sorted ks \<longleftrightarrow> sorted (map canonical ks) \<and> distinct (map canonical ks)"

lemma map_canonical_normalize:
  "map canonical (normalize_resource_keys ks) = sort (remdups (map canonical (List.map_filter normalize_key ks)))"
proof -
  let ?rs = "List.map_filter normalize_key ks"
  have "canonical (the (map_of (rev (map (\<lambda>r. (canonical r, r)) ?rs)) k)) = k"
    if "k \<in> canonical ` set ?rs" for k
    using that by (rule by_canonical_lookup) simp
  then show ?thesis
    unfolding normalize_resource_keys_def Let_def map_map by (intro map_idI) simp
qed

lemma normalize_sorted: "canonical_sorted (normalize_resource_keys ks)"
  by (simp add: canonical_sorted_def map_canonical_normalize)

lemma set_normalize_subset: "set (normalize_resource_keys ks) \<subseteq> set (List.map_filter normalize_key ks)"
proof
  fix r assume "r \<in> set (normalize_resource_keys ks)"
  then obtain k where k: "k \<in> canonical ` set (List.map_filter normalize_key ks)"
    and r: "r = the (map_of (rev (map (\<lambda>r. (canonical r, r)) (List.map_filter normalize_key ks))) k)"
    by (auto simp: normalize_resource_keys_def Let_def)
  from k show "r \<in> set (List.map_filter normalize_key ks)"
    by (rule by_canonical_lookup) (simp add: r)
qed

lemma set_map_filter_normalize: "set (List.map_filter normalize_key ks) = {r'. \<exists>r \<in> set ks. normalize_key r = Some r'}"
  by (force simp: map_filter_def)

lemma normalize_member_normal: "r \<in> set (normalize_resource_keys ks) \<Longrightarrow> normalize_key r = Some r"
  using set_normalize_subset [of ks] by (auto simp: set_map_filter_normalize dest: normalize_key_idem)

text \<open>No authority is lost: each admissible key is represented by one with its canonical text.\<close>

lemma normalize_covers:
  assumes "r \<in> set ks" "normalize_key r = Some r'"
  shows "\<exists>q \<in> set (normalize_resource_keys ks). canonical q = canonical r'"
proof -
  have "canonical r' \<in> set (map canonical (normalize_resource_keys ks))"
    using assms by (auto simp: map_canonical_normalize set_map_filter_normalize)
  then show ?thesis by auto
qed

lemma map_the_map_of_zip:
  assumes "distinct (map canonical ks)"
  shows "map (\<lambda>k. the (map_of (rev (map (\<lambda>r. (canonical r, r)) ks)) k)) (map canonical ks) = ks"
proof -
  have "map_of (rev (map (\<lambda>r. (canonical r, r)) ks)) (canonical r) = Some r" if "r \<in> set ks" for r
    using that assms by (intro map_of_is_SomeI) (auto simp: rev_map [symmetric] comp_def)
  then show ?thesis by (simp add: map_idI)
qed

lemma normalize_normal:
  assumes "canonical_sorted ks" "\<forall>r \<in> set ks. normalize_key r = Some r"
  shows "normalize_resource_keys ks = ks"
proof -
  have "List.map_filter normalize_key ks = ks"
    using assms(2) by (induction ks) (simp_all add: map_filter_simps)
  moreover have "sort (remdups (map canonical ks)) = map canonical ks"
    using assms(1) by (simp add: canonical_sorted_def distinct_remdups_id sorted_sort_id)
  ultimately show ?thesis
    using assms(1) map_the_map_of_zip
    by (simp add: normalize_resource_keys_def Let_def canonical_sorted_def del: map_map)
qed

lemma normalize_idem: "normalize_resource_keys (normalize_resource_keys ks) = normalize_resource_keys ks"
  by (rule normalize_normal) (auto simp: normalize_sorted normalize_member_normal)

text \<open>On clean keys the result holds exactly the admissible keys, so it conflicts with the same keys.\<close>

lemma set_normalize_clean:
  assumes "\<forall>r \<in> set ks. clean_key r"
  shows "set (normalize_resource_keys ks) = set (List.map_filter normalize_key ks)"
proof (intro equalityI set_normalize_subset subsetI)
  fix r' assume "r' \<in> set (List.map_filter normalize_key ks)"
  then obtain r where r: "r \<in> set ks" "normalize_key r = Some r'" by (auto simp: set_map_filter_normalize)
  then obtain q where q: "q \<in> set (normalize_resource_keys ks)" "canonical q = canonical r'"
    using normalize_covers by blast
  moreover have "clean_key x" if "x \<in> set (List.map_filter normalize_key ks)" for x
    using that assms normalize_key_clean by (auto simp: set_map_filter_normalize)
  ultimately have "q = r'"
    using set_normalize_subset [of ks] r by (intro canonical_inj) (auto simp: set_map_filter_normalize)
  with q show "r' \<in> set (normalize_resource_keys ks)" by simp
qed

section \<open>Containment\<close>

lemma dimension_contains_trans:
  "dimension_contains a b \<Longrightarrow> dimension_contains b c \<Longrightarrow> dimension_contains a c"
  by (auto simp: dimension_contains_def)

lemma resource_contains_refl: "resource_contains r r"
  by (simp add: resource_contains_def dimension_contains_def)

lemma resource_contains_trans: "resource_contains a b \<Longrightarrow> resource_contains b c \<Longrightarrow> resource_contains a c"
  by (auto simp: resource_contains_def split: if_splits intro: dimension_contains_trans)

lemma contains_overlap_dimension:
  "dimension_contains p c \<Longrightarrow> dimensions_overlap c x \<Longrightarrow> dimensions_overlap p x"
  by (auto simp: dimension_contains_def dimensions_overlap_def)

lemma contains_dims_overlap:
  assumes "resource_contains p c" "dims_overlap c x"
  shows "dims_overlap p x"
  using assms contains_overlap_dimension
  by (auto simp: resource_contains_def dims_overlap_def split: if_splits)

text \<open>
  The one exception to monotonicity: a castle or kingdom key with capability \<open>*\<close> does not
  conflict with account-scoped keys, even where one of the keys it contains does.
\<close>

definition scope_wildcard :: "resource_key \<Rightarrow> resource_key \<Rightarrow> bool" where
  "scope_wildcard p x \<longleftrightarrow> rk_capability p = ''*'' \<and> rk_scope p \<noteq> rk_scope x \<and> rk_scope x = scope_account"

text \<open>Containment is sound for conflicts: whatever conflicts with a key also conflicts
  with every key that contains it, except an account-scoped key against a whole castle or
  kingdom.\<close>

theorem contains_keeps_conflicts:
  assumes "resource_contains p c" "resource_keys_overlap c x" "\<not> scope_wildcard p x"
    and "clean_key c" "clean_key x"
  shows "resource_keys_overlap p x"
proof (cases "c = x")
  case True
  have "dims_overlap p x" using assms(1) True by (intro contains_dims_overlap [of p c x]) simp_all
  with True assms(1) show ?thesis by (auto simp: resource_contains_def resource_keys_overlap_def split: if_splits)
next
  case False
  then have ne: "canonical c \<noteq> canonical x" using assms(4,5) canonical_inj by blast
  have acc: "\<not> (rk_account p \<noteq> [] \<and> rk_account x \<noteq> [] \<and> rk_account p \<noteq> rk_account x)"
    using assms(1,2) ne by (auto simp: resource_contains_def resource_keys_overlap_def split: if_splits)
  have sc: "rk_scope p = rk_scope c" "rk_kingdom p = rk_kingdom c" "rk_castle p = rk_castle c"
    using assms(1) by (auto simp: resource_contains_def split: if_splits)
  show ?thesis
  proof (cases "rk_scope c = rk_scope x")
    case True
    with assms(2) ne have "dims_overlap c x" by (simp add: resource_keys_overlap_def split: if_splits)
    then have "dims_overlap p x" by (rule contains_dims_overlap [OF assms(1)])
    with True assms(2) ne acc sc show ?thesis by (auto simp: resource_keys_overlap_def split: if_splits)
  next
    case False
    with assms(2) ne have "dims_overlap c x" "rk_scope c = scope_account \<or> rk_scope x = scope_account"
      by (auto simp: resource_keys_overlap_def cross_scope_overlap_def dims_overlap_sym [of x] split: if_splits)
    moreover from this have "dims_overlap p x" by (intro contains_dims_overlap [OF assms(1)])
    ultimately show ?thesis
      using False assms(2,3) ne acc sc
      by (auto simp: resource_keys_overlap_def cross_scope_overlap_def scope_wildcard_def
          dims_overlap_sym [of x] split: if_splits)
  qed
qed

theorem contains_keeps_conflicts_witness:
  "resource_keys_overlap
     \<lparr>rk_account = ''eu1#3'', rk_scope = ''castle'', rk_kingdom = 0, rk_castle = 7,
      rk_capability = ''*'', rk_kind = ''*'', rk_id = ''*''\<rparr>
     \<lparr>rk_account = ''eu1#3'', rk_scope = ''castle'', rk_kingdom = 0, rk_castle = 7,
      rk_capability = ''buildings'', rk_kind = ''instance'', rk_id = ''*''\<rparr>"
  by (rule contains_keeps_conflicts [where c = "\<lparr>rk_account = ''eu1#3'', rk_scope = ''castle'', rk_kingdom = 0,
      rk_castle = 7, rk_capability = ''buildings'', rk_kind = ''instance'', rk_id = ''55''\<rparr>"])
    (simp_all add: resource_contains_def dimension_contains_def resource_keys_overlap_def dims_overlap_def
      dimensions_overlap_def scope_wildcard_def clean_key_def)

end
