(* ===== verification/LegacyClaims.thy ===== *)
theory LegacyClaims
  imports ResourceKeys
begin

text \<open>
  The translation of claim strings (\<open>castle:12\<close>, \<open>khan-lane:defense\<close>, ...) to resource
  keys: \<open>legacyClaimsToResources\<close> and its parts in \<^verbatim>\<open>Server/Intent/Resources.go\<close>,
  \<open>normalizeClaims\<close> of \<^verbatim>\<open>Server/Intent/Claims.go\<close>. Of the game state the translation
  reads the bound account and the kingdom of each castle.
\<close>

record account_view =
  av_world_id :: string
  av_server_url :: string
  av_account_player :: int
  av_player :: int
  av_castle_kingdom :: "int \<rightharpoonup> int"

definition bound_account :: "account_view \<Rightarrow> string \<times> int" where
  "bound_account g =
     (let world = trim_space (av_world_id g);
          world = (if world = [] then trim_space (av_server_url g) else world);
          player = av_account_player g
      in (world, if player = 0 then av_player g else player))"

definition resource_account :: "account_view \<Rightarrow> string" where
  "resource_account g =
     (let world = fst (bound_account g); player = snd (bound_account g); server = norm_str world
      in if server = [] \<and> player = 0 then [] else server @ ''#'' @ show_int player)"

definition normalize_claims :: "string list \<Rightarrow> string list" where
  "normalize_claims claims = sort (remdups (filter (\<lambda>c. c \<noteq> []) (map trim_space claims)))"

text \<open>
  The loop of \<open>legacyClaimScope\<close> with \<open>castleID\<close> as its variable; two different castles
  among the claims give none.
\<close>

fun legacy_scope_loop :: "string list \<Rightarrow> int \<Rightarrow> int option" where
  "legacy_scope_loop [] castle = Some castle"
| "legacy_scope_loop (claim # claims) castle =
     (let parts = split_on CHR '':'' claim
      in if length parts \<noteq> 2 \<or> parts ! 0 \<noteq> ''castle'' then legacy_scope_loop claims castle
         else let v = parse_int64 (parts ! 1)
           in if snd v \<noteq> NumOk \<or> fst v \<le> 0 then legacy_scope_loop claims castle
              else if castle \<noteq> 0 \<and> castle \<noteq> fst v then None
              else legacy_scope_loop claims (fst v))"

definition legacy_claim_scope :: "account_view \<Rightarrow> string list \<Rightarrow> int \<times> int" where
  "legacy_claim_scope g claims =
     (case legacy_scope_loop claims 0 of
        None \<Rightarrow> (0, 0)
      | Some castle \<Rightarrow>
          if castle = 0 then (0, 0)
          else (castle, case av_castle_kingdom g castle of None \<Rightarrow> 0 | Some k \<Rightarrow> k))"

definition scoped_key :: "string \<Rightarrow> string \<Rightarrow> int \<Rightarrow> int \<Rightarrow> string \<Rightarrow> string \<Rightarrow> string \<Rightarrow> resource_key" where
  "scoped_key account scope kingdom castle capability kind i =
     \<lparr>rk_account = account, rk_scope = scope, rk_kingdom = kingdom, rk_castle = castle,
      rk_capability = capability, rk_kind = kind, rk_id = i\<rparr>"

text \<open>
  The \<open>switch\<close> of \<open>legacyClaimResource\<close>, its cases in the source's order; a case whose
  inner test fails falls out of the switch to the final \<open>legacy\<close> key.
\<close>

definition legacy_switch :: "string \<Rightarrow> int \<Rightarrow> int \<Rightarrow> string list \<Rightarrow> string \<Rightarrow> string \<Rightarrow> resource_key" where
  "legacy_switch account default_castle default_kingdom parts prefix value =
     (let
      account_key = scoped_key account scope_account 0 0;
          session_key = scoped_key account scope_session 0 0;
          castle_key = scoped_key account scope_castle default_kingdom default_castle;
          kingdom_key = (\<lambda>k. scoped_key account scope_kingdom k 0);
          castle_of = (\<lambda>castle. scoped_key account scope_castle 0 castle);
          legacy = account_key ''legacy'' prefix value
      in
        if prefix = ''game-data'' then scoped_key [] scope_application 0 0 ''catalog'' ''official-game-data'' ''*''
        else if prefix = ''application-update'' then scoped_key [] scope_application 0 0 ''application-update'' ''release'' ''*''
        else if prefix = ''event-difficulty'' then account_key ''events'' ''difficulty'' ''*''
        else if prefix = ''events'' then account_key ''events'' ''*'' ''*''
        else if prefix = ''event'' then account_key ''events'' ''event'' value
        else if prefix = ''global-effect'' then account_key ''events'' ''global-effect'' value
        else if prefix = ''advisor'' then account_key ''combat'' ''advisor'' value
        else if prefix = ''khan-protection'' then account_key ''combat'' ''khan-protection'' ''*''
        else if prefix = ''khan-lane'' then account_key ''combat'' ''khan-lane'' value
        else if prefix = ''auto-bird-control'' then account_key ''stationing'' ''auto-bird-control'' value
        else if prefix = ''auto-bird-cycle'' then account_key ''stationing'' ''auto-bird-cycle'' value
        else if prefix = ''session'' then session_key ''session'' ''lifecycle'' ''*''
        else if prefix = ''castle-focus'' then session_key ''session'' ''focus'' ''*''
        else if prefix = ''response'' then session_key ''protocol'' ''response'' value
        else if prefix = ''game-ui'' \<or> prefix = ''attack-context'' then session_key ''combat'' ''attack-context'' ''*''
        else if prefix = ''castle'' then
          (let castle = parse_int_value value; kingdom = (if castle \<noteq> default_castle then 0 else default_kingdom)
           in scoped_key account scope_castle kingdom castle ''*'' ''*'' ''*'')
        else if prefix = ''kingdom'' then kingdom_key (parse_int_value value) ''kingdom'' ''state'' ''*''
        else if prefix = ''map'' then kingdom_key (parse_int_value value) ''world-map'' ''partition'' ''*''
        else if prefix = ''account-resources'' then account_key ''economy'' ''spendable'' ''*''
        else if prefix = ''currency'' then account_key ''economy'' ''spendable'' value
        else if prefix = ''market'' \<or> prefix = ''specialist'' then account_key ''economy'' prefix value
        else if prefix = ''hall-of-legends'' then account_key ''economy'' ''spendable'' ''legend-skills''
        else if prefix = ''construction-inventory'' then account_key ''inventory'' ''construction-item'' ''*''
        else if prefix = ''inventory'' then account_key ''inventory'' value ''*''
        else if prefix = ''storage'' then account_key ''inventory'' ''storage'' value
        else if prefix = ''equipment'' \<or> prefix = ''gem'' then account_key ''equipment'' prefix value
        else if prefix = ''game'' then
          (if value = ''equipment'' then account_key ''equipment'' ''state'' ''*''
           else if value = ''movements'' then account_key ''movements'' ''movement'' ''*''
           else if value = ''crafting'' then account_key ''crafting'' ''*'' ''*''
           else account_key ''game'' value ''*'')
        else if prefix = ''commander'' then account_key ''leaders'' ''commander'' value
        else if prefix = ''leader'' then
          (if 3 \<le> length parts then account_key ''leaders'' (parts ! 1) (join_with '':'' (drop 2 parts)) else legacy)
        else if prefix = ''building-layout'' then castle_key ''buildings'' ''layout'' ''*''
        else if prefix = ''building-construction'' then castle_key ''construction'' ''queue'' ''*''
        else if prefix = ''building'' then castle_key ''buildings'' ''instance'' value
        else if prefix = ''building-position'' then
          (if 4 \<le> length parts
           then castle_of (parse_int_value (parts ! 1)) ''buildings'' ''position'' (join_with '':'' (drop 2 parts))
           else legacy)
        else if prefix = ''decoration-layout'' then castle_key ''buildings'' ''decoration-layout'' ''*''
        else if prefix = ''defense'' then castle_of (parse_int_value value) ''defense'' ''setup'' ''*''
        else if prefix = ''attack-inventory'' then castle_of (parse_int_value value) ''garrison'' ''attack-inventory'' ''*''
        else if prefix = ''unit'' then
          (if 0 < default_castle then castle_key ''garrison'' ''unit'' value else account_key ''garrison'' ''unit'' value)
        else if prefix = ''beri-capacity'' then castle_of (parse_int_value value) ''garrison'' ''beri-capacity'' ''*''
        else if prefix = ''hospital'' then castle_key ''garrison'' ''hospital'' ''*''
        else if prefix = ''production-line'' then castle_key ''production'' ''line'' value
        else if prefix = ''crafting-building'' then castle_key ''crafting'' ''building'' value
        else if prefix = ''shop'' then account_key ''shop'' ''dialog'' (if value = [] then ''*'' else value)
        else if prefix = ''construction-shop'' then account_key ''shop'' ''dialog'' ''construction''
        else if prefix = ''reports'' then account_key ''reports'' ''message'' ''*''
        else if prefix = ''report-message'' then account_key ''reports'' ''message'' value
        else if prefix = ''battle-report'' then account_key ''reports'' ''battle'' value
        else if prefix = ''alliance-directory'' then account_key ''alliance'' ''directory'' ''*''
        else if prefix = ''castle-directory'' then account_key ''castle-directory'' ''directory'' ''*''
        else if prefix = ''alliance-help'' then account_key ''alliance'' ''help'' value
        else if prefix = ''alliance-holding'' then account_key ''alliance'' ''holding'' value
        else if prefix = ''configuration'' then scoped_key [] scope_application 0 0 ''configuration'' ''section'' value
        else if prefix = ''resource-transport'' \<or> prefix = ''troop-transport'' then account_key ''transport'' prefix ''*''
        else if prefix = ''movement'' then account_key ''movements'' ''movement'' value
        else if prefix = ''scheduled-operation'' then account_key ''scheduling'' ''operation'' value
        else if prefix = ''rift-launch'' then account_key ''rift'' ''launch'' value
        else if prefix = ''beri-target'' then
          (if 2 \<le> length parts
           then kingdom_key (parse_int_value (parts ! 1)) ''combat'' ''target''
                  (if 4 \<le> length parts then join_with '':'' (drop 2 parts) else ''*'')
           else legacy)
        else if prefix \<in> {''tower-target'', ''fortress-target'', ''nomad-target'', ''storm-target'',
            ''invasion-target'', ''spy-target'', ''khan-target'', ''player-target''} then
          (if 4 \<le> length parts
           then kingdom_key (parse_int_value (parts ! 1)) ''combat'' ''target'' (join_with '':'' (drop 2 parts))
           else legacy)
        else legacy)"

definition legacy_claim_resource :: "string \<Rightarrow> int \<Rightarrow> int \<Rightarrow> string \<Rightarrow> resource_key" where
  "legacy_claim_resource account default_castle default_kingdom claim =
     (let parts = split_on CHR '':'' (norm_str claim)
      in legacy_switch account default_castle default_kingdom parts (hd parts) (join_with '':'' (tl parts)))"

definition legacy_claims_to_resources :: "account_view \<Rightarrow> string list \<Rightarrow> resource_key list" where
  "legacy_claims_to_resources g claims =
     (let cs = normalize_claims claims;
          account = resource_account g;
          scope = legacy_claim_scope g cs
      in normalize_resource_keys (map (legacy_claim_resource account (fst scope) (snd scope)) cs))"

definition derive_plan_resources :: "account_view \<Rightarrow> resource_key list \<Rightarrow> string list \<Rightarrow> resource_key list" where
  "derive_plan_resources g resources claims =
     normalize_resource_keys (resources @ legacy_claims_to_resources g claims)"

section \<open>Which claims carry authority\<close>

lemma trim_space_Nil_iff: "trim_space s = [] \<longleftrightarrow> (\<forall>c \<in> set s. is_space c)"
proof
  assume "trim_space s = []"
  then have "\<forall>c \<in> set (trim_left s). is_space c"
    by (simp add: trim_space_def dropWhile_eq_Nil_conv)
  moreover have "trim_left s \<noteq> [] \<Longrightarrow> \<not> is_space (hd (trim_left s))"
    by (simp add: trim_left_def hd_dropWhile dropWhile_eq_Nil_conv)
  ultimately have "trim_left s = []" by (cases "trim_left s") auto
  then show "\<forall>c \<in> set s. is_space c" by (simp add: trim_left_def dropWhile_eq_Nil_conv)
next
  assume "\<forall>c \<in> set s. is_space c"
  then have "trim_left s = []" by (simp add: trim_left_def dropWhile_eq_Nil_conv)
  then show "trim_space s = []" by (simp add: trim_space_def)
qed

lemma norm_str_Nil_iff: "norm_str s = [] \<longleftrightarrow> (\<forall>c \<in> set s. is_space c)"
  by (simp add: norm_str_def trim_space_Nil_iff)

lemma norm_key_None:
  "normalize_key (scoped_key a s k c cap kind i) = None \<longleftrightarrow>
     norm_str s = [] \<or> norm_str cap = [] \<or> norm_str kind = []"
  by (auto simp: normalize_key_def scoped_key_def Let_def)

lemma letter_not_space [simp]:
  "\<not> is_space CHR ''a''" "\<not> is_space CHR ''b''" "\<not> is_space CHR ''c''" "\<not> is_space CHR ''d''"
  "\<not> is_space CHR ''e''" "\<not> is_space CHR ''g''" "\<not> is_space CHR ''h''" "\<not> is_space CHR ''i''"
  "\<not> is_space CHR ''j''" "\<not> is_space CHR ''k''" "\<not> is_space CHR ''l''" "\<not> is_space CHR ''m''"
  "\<not> is_space CHR ''o''" "\<not> is_space CHR ''p''" "\<not> is_space CHR ''q''" "\<not> is_space CHR ''r''"
  "\<not> is_space CHR ''s''" "\<not> is_space CHR ''t''" "\<not> is_space CHR ''u''" "\<not> is_space CHR ''w''"
  "\<not> is_space CHR ''*''" "\<not> is_space CHR '':''" "\<not> is_space CHR ''-''"
  by (simp_all add: is_space_def)

lemma dropped_if:
  "(b \<Longrightarrow> normalize_key x = None \<longleftrightarrow> Q) \<Longrightarrow> (normalize_key y = None \<longleftrightarrow> Q) \<Longrightarrow>
    normalize_key (if b then x else y) = None \<longleftrightarrow> Q"
  by simp

lemma legacy_switch_dropped:
  assumes "prefix \<noteq> ''inventory''" "prefix \<noteq> ''game''" "prefix \<noteq> ''leader''"
  shows "normalize_key (legacy_switch account castle kingdom parts prefix value) = None \<longleftrightarrow> norm_str prefix = []"
  unfolding legacy_switch_def Let_def
  by (intro dropped_if;
      ((simp add: assms norm_key_None norm_str_Nil_iff; fail)
       | ((simp only: insert_iff empty_iff)?, elim disjE; simp add: norm_key_None norm_str_Nil_iff)))

lemma legacy_switch_special:
  "normalize_key (legacy_switch account castle kingdom parts ''inventory'' value) = None \<longleftrightarrow> norm_str value = []"
  "normalize_key (legacy_switch account castle kingdom parts ''game'' value) = None \<longleftrightarrow> norm_str value = []"
  "normalize_key (legacy_switch account castle kingdom parts ''leader'' value) = None \<longleftrightarrow>
     3 \<le> length parts \<and> norm_str (parts ! 1) = []"
  by (auto simp: legacy_switch_def Let_def norm_key_None norm_str_Nil_iff)

text \<open>Which claims carry authority: every claim yields a key that normalisation keeps,
  except the unqualified \<open>inventory\<close> and \<open>game\<close> claims, a \<open>leader\<close> claim with
  a blank kind and a claim with a blank prefix, which are dropped without an error.\<close>

theorem legacy_claim_dropped_iff:
  "normalize_key (legacy_claim_resource account castle kingdom claim) = None \<longleftrightarrow>
     (let parts = split_on CHR '':'' (norm_str claim); value = join_with '':'' (tl parts) in
        (hd parts = ''inventory'' \<or> hd parts = ''game'') \<and> norm_str value = []
        \<or> hd parts = ''leader'' \<and> 3 \<le> length parts \<and> norm_str (parts ! 1) = []
        \<or> norm_str (hd parts) = [])"
proof -
  let ?p = "hd (split_on CHR '':'' (norm_str claim))"
  consider "?p = ''inventory'' \<or> ?p = ''game'' \<or> ?p = ''leader''"
    | "?p \<noteq> ''inventory''" "?p \<noteq> ''game''" "?p \<noteq> ''leader''"
    by blast
  then show ?thesis
    by cases (auto simp: legacy_claim_resource_def Let_def legacy_switch_special legacy_switch_dropped norm_str_Nil_iff)
qed

section \<open>Single claims\<close>

lemma normalize_single:
  "normalize_resource_keys [k] = (case normalize_key k of None \<Rightarrow> [] | Some r \<Rightarrow> [r])"
  by (simp add: normalize_resource_keys_def map_filter_simps split: option.splits)

lemma normalize_claims_single: "trim_space c = c \<Longrightarrow> c \<noteq> [] \<Longrightarrow> normalize_claims [c] = [c]"
  by (simp add: normalize_claims_def)

lemma trim_left_Cons: "\<not> is_space x \<Longrightarrow> trim_left (x # s) = x # s"
  by (simp add: trim_left_def)

lemma trim_space_append_trimmed:
  assumes "\<not> is_space x" "trim_space l = l" "l \<noteq> []"
  shows "trim_space (x # p @ l) = x # p @ l"
proof -
  have "dropWhile is_space (rev l) = rev l"
    using assms(2) by (metis dropWhile_idem rev_rev_ident trim_space_def)
  then have "\<not> is_space (hd (rev l))"
    using assms(3) by (simp add: dropWhile_eq_self_iff)
  then have "dropWhile is_space (rev l @ rev p @ [x]) = rev l @ rev p @ [x]"
    using assms(3) by (cases "rev l") simp_all
  with assms(1) show ?thesis by (simp add: trim_space_def trim_left_Cons)
qed

lemma norm_str_trimmed: "norm_str l = l \<Longrightarrow> trim_space l = l"
  by (metis norm_str_def trim_space_idem trim_space_to_lower)

lemma norm_str_lower: "norm_str l = l \<Longrightarrow> to_lower l = l"
  by (metis norm_str_def to_lower_idem)

lemma to_lower_append: "to_lower (a @ b) = to_lower a @ to_lower b"
  by (simp add: to_lower_def)

lemma khan_lane_lower: "to_lower ''khan-lane:'' = ''khan-lane:''" "to_lower ''khan-lane'' = ''khan-lane''"
  by (code_simp, code_simp)

lemma khan_lane_trim: "trim_space ''khan-lane'' = ''khan-lane''"
  by code_simp

lemma khan_lane_resource:
  assumes "norm_str l = l" "l \<noteq> []"
  shows "legacy_claims_to_resources g [''khan-lane:'' @ l] =
    [scoped_key (norm_str (resource_account g)) scope_account 0 0 ''combat'' ''khan-lane'' l]"
proof -
  let ?c = "''khan-lane:'' @ l"
  have t: "trim_space ?c = ?c"
    using trim_space_append_trimmed [of "CHR ''k''" l "''han-lane:''"] assms norm_str_trimmed by simp
  then have n: "norm_str ?c = ?c"
    using assms norm_str_lower by (simp only: norm_str_def to_lower_append khan_lane_lower)
  have sp: "split_on CHR '':'' ?c = ''khan-lane'' # split_on CHR '':'' l"
    using split_on_append [of "CHR '':''" "''khan-lane''" l] by simp
  have sc: "legacy_claim_scope g [?c] = (0, 0)"
    by (simp add: legacy_claim_scope_def Let_def sp del: append_Cons)
  have r: "legacy_claim_resource a 0 0 ?c = scoped_key a scope_account 0 0 ''combat'' ''khan-lane'' l" for a
    unfolding legacy_claim_resource_def n sp by (simp add: legacy_switch_def)
  have "normalize_claims [?c] = [?c]" by (rule normalize_claims_single [OF t]) simp
  then have "legacy_claims_to_resources g [?c] =
      normalize_resource_keys [scoped_key (resource_account g) scope_account 0 0 ''combat'' ''khan-lane'' l]"
    by (simp only: legacy_claims_to_resources_def Let_def sc list.map fst_conv snd_conv r)
  moreover have "norm_str scope_account = scope_account" "norm_str ''combat'' = ''combat''" "norm_str ''khan-lane'' = ''khan-lane''"
    by (code_simp, code_simp, code_simp)
  ultimately show ?thesis
    using assms by (simp add: normalize_single normalize_key_def scoped_key_def Let_def)
qed

lemma khan_lane_bare_resource:
  "legacy_claims_to_resources g [''khan-lane''] =
    [scoped_key (norm_str (resource_account g)) scope_account 0 0 ''combat'' ''khan-lane'' ''*'']"
proof -
  let ?c = "''khan-lane''"
  have n: "norm_str ?c = ?c" "norm_str scope_account = scope_account" "norm_str ''combat'' = ''combat''"
    by (code_simp, code_simp, code_simp)
  have sp: "split_on CHR '':'' ?c = [?c]" by simp
  have sc: "legacy_claim_scope g [?c] = (0, 0)"
    by (simp add: legacy_claim_scope_def Let_def)
  have r: "legacy_claim_resource a 0 0 ?c = scoped_key a scope_account 0 0 ''combat'' ''khan-lane'' []" for a
    unfolding legacy_claim_resource_def n sp by (simp add: legacy_switch_def)
  have "normalize_claims [?c] = [?c]" by (rule normalize_claims_single [OF khan_lane_trim]) simp
  then have "legacy_claims_to_resources g [?c] =
      normalize_resource_keys [scoped_key (resource_account g) scope_account 0 0 ''combat'' ''khan-lane'' []]"
    by (simp only: legacy_claims_to_resources_def Let_def sc list.map fst_conv snd_conv r)
  with n show ?thesis
    by (simp add: normalize_single normalize_key_def scoped_key_def Let_def)
qed

lemma canonical_same_but_id:
  "canonical (scoped_key a s k c cap kind i) = canonical (scoped_key a s k c cap kind j) \<longleftrightarrow> i = j"
  by (simp add: canonical_def scoped_key_def)

lemma overlap_same_but_id:
  "resource_keys_overlap (scoped_key a s k c cap kind i) (scoped_key a s k c cap kind j) \<longleftrightarrow>
     dimensions_overlap i j"
  unfolding resource_keys_overlap_def canonical_same_but_id
  by (auto simp: dims_overlap_def dimensions_overlap_def scoped_key_def)

text \<open>The Auto Khan lanes: an unqualified \<open>khan-lane\<close> claim conflicts with every lane,
  while two qualified lanes conflict exactly when they are the same lane.\<close>

theorem khan_lanes_conflict:
  assumes "norm_str l = l" "l \<notin> {[], ''*''}" "norm_str m = m" "m \<notin> {[], ''*''}"
  shows "(resources_overlap (legacy_claims_to_resources g [''khan-lane:'' @ l])
            (legacy_claims_to_resources g [''khan-lane:'' @ m]) \<longleftrightarrow> l = m)
    \<and> resources_overlap (legacy_claims_to_resources g [''khan-lane''])
        (legacy_claims_to_resources g [''khan-lane:'' @ l])"
proof -
  from assms have l: "l \<noteq> []" "l \<noteq> ''*''" and m: "m \<noteq> []" "m \<noteq> ''*''" by auto
  show ?thesis
    unfolding khan_lane_resource [OF assms(1) l(1)] khan_lane_resource [OF assms(3) m(1)] khan_lane_bare_resource
    using l m by (simp add: resources_overlap_def overlap_same_but_id dimensions_overlap_def)
qed

section \<open>Castle claims\<close>

definition castle_claim :: "int \<Rightarrow> string" where
  "castle_claim a = ''castle:'' @ show_int a"

text \<open>Claims whose key lies in the castle \<open>a\<close> named by the plan's castle claim.\<close>

definition castle_local :: "int \<Rightarrow> string \<Rightarrow> bool" where
  "castle_local a c \<longleftrightarrow> c = castle_claim a \<or>
     hd (split_on CHR '':'' (norm_str c)) \<in> {''building-layout'', ''building-construction'', ''building'',
       ''decoration-layout'', ''hospital'', ''production-line'', ''crafting-building''}"

lemma digit_facts: "is_digit c \<or> c = CHR ''-'' \<Longrightarrow> \<not> is_space c \<and> to_lower_char c = c"
  by (auto simp: is_digit_def is_space_def to_lower_char_def Let_def)

lemma trim_space_no_space: "\<forall>c \<in> set s. \<not> is_space c \<Longrightarrow> trim_space s = s"
proof -
  have *: "dropWhile is_space xs = xs" if "\<forall>c \<in> set xs. \<not> is_space c" for xs
    using that by (cases xs) simp_all
  assume "\<forall>c \<in> set s. \<not> is_space c"
  then show "trim_space s = s" by (simp add: trim_space_def trim_left_def *)
qed

lemma castle_claim_facts:
  "trim_space (castle_claim a) = castle_claim a" "norm_str (castle_claim a) = castle_claim a"
  "split_on CHR '':'' (castle_claim a) = [''castle'', show_int a]"
proof -
  have d: "\<forall>c \<in> set (show_int a). \<not> is_space c \<and> to_lower_char c = c"
    using show_int_chars [of _ a] digit_facts by fast
  have "\<forall>c \<in> set (castle_claim a). \<not> is_space c"
    using d unfolding castle_claim_def set_append by (intro ballI, elim UnE) auto
  then show t: "trim_space (castle_claim a) = castle_claim a" by (rule trim_space_no_space)
  have "to_lower ''castle:'' = ''castle:''" by code_simp
  moreover have "to_lower (show_int a) = show_int a" using d by (simp add: to_lower_def map_idI)
  ultimately show "norm_str (castle_claim a) = castle_claim a"
    by (simp only: norm_str_def t) (simp only: castle_claim_def to_lower_append)
  show "split_on CHR '':'' (castle_claim a) = [''castle'', show_int a]"
    using split_on_append [of "CHR '':''" "''castle''" "show_int a"]
    by (simp add: castle_claim_def split_on_free)
qed

lemma norm_str_trim [simp]: "norm_str (trim_space c) = norm_str c"
  by (simp add: norm_str_def str_simps)

lemma castle_local_trim: "castle_local a c \<Longrightarrow> castle_local a (trim_space c)"
  using castle_claim_facts(1) by (auto simp: castle_local_def)

lemma to_lower_char_colon [simp]: "to_lower_char d = CHR '':'' \<longleftrightarrow> d = CHR '':''"
proof -
  have p: "(of_char (CHR '':'') :: nat) = 58" by simp
  have "to_lower_char d = CHR '':'' \<longleftrightarrow> (of_char (to_lower_char d) :: nat) = 58"
    by (simp only: p [symmetric] of_char_eq_iff)
  also have "\<dots> \<longleftrightarrow> (of_char d :: nat) = 58" by (auto simp: char_of_to_lower_nat Let_def)
  also have "\<dots> \<longleftrightarrow> d = CHR '':''" by (simp only: p [symmetric] of_char_eq_iff)
  finally show ?thesis .
qed

lemma split_on_lower: "split_on CHR '':'' (to_lower s) = map to_lower (split_on CHR '':'' s)"
  by (induction s) (simp_all add: to_lower_def split: list.splits)

text \<open>A trimmed claim of castle \<open>a\<close> that starts with \<open>castle:\<close> is the castle claim itself.\<close>

lemma castle_local_head:
  assumes "castle_local a c" "trim_space c = c" "split_on CHR '':'' c ! 0 = ''castle''"
  shows "c = castle_claim a"
proof -
  have "norm_str c = to_lower c" using assms(2) by (simp add: norm_str_def)
  then have "hd (split_on CHR '':'' (norm_str c)) = to_lower (split_on CHR '':'' c ! 0)"
    by (simp add: split_on_lower hd_map) (simp add: hd_conv_nth)
  moreover have "to_lower ''castle'' = ''castle''" by code_simp
  ultimately show ?thesis using assms(1,3) by (simp add: castle_local_def)
qed

lemma legacy_scope_loop_step:
  assumes "0 < a" "x \<in> {0, a}" "parse_int64 (show_int a) = (a, NumOk)"
  shows "legacy_scope_loop (castle_claim a # cs) x = legacy_scope_loop cs a"
  unfolding legacy_scope_loop.simps castle_claim_facts(3) Let_def
  using assms(1,2) by (elim insertE emptyE) (simp_all add: assms(3))

lemma legacy_scope_loop_castle:
  assumes "0 < a" "a \<le> 9223372036854775807" "x \<in> {0, a}"
    and "\<forall>c \<in> set cs. split_on CHR '':'' c ! 0 = ''castle'' \<longrightarrow> c = castle_claim a"
  shows "legacy_scope_loop cs x = Some (if x = a \<or> castle_claim a \<in> set cs then a else 0)"
  using assms(3,4)
proof (induction cs arbitrary: x)
  case Nil
  then show ?case by auto
next
  case (Cons c cs)
  have p: "parse_int64 (show_int a) = (a, NumOk)" using assms(1,2) by (intro parse_int64_show) simp_all
  show ?case
  proof (cases "c = castle_claim a")
    case True
    have "legacy_scope_loop (c # cs) x = legacy_scope_loop cs a"
      unfolding True by (rule legacy_scope_loop_step [OF assms(1) Cons.prems(1) p])
    also have "\<dots> = Some a"
      using Cons.IH [of a] Cons.prems(2) by (auto simp only: list.set insert_iff ball_simps simp_thms if_True)
    finally show ?thesis using True by simp
  next
    case False
    have ne: "split_on CHR '':'' c ! 0 \<noteq> ''castle''"
      using False Cons.prems(2) by (auto simp only: list.set insert_iff)
    have "legacy_scope_loop cs x = Some (if x = a \<or> castle_claim a \<in> set cs then a else 0)"
      using Cons.prems by (intro Cons.IH) (auto simp only: list.set insert_iff)
    with False ne show ?thesis by (simp add: Let_def)
  qed
qed

lemma castle_local_resource:
  assumes "castle_local a c" "0 < a" "a \<le> 9223372036854775807"
  shows "rk_account (legacy_claim_resource acct a k c) = acct \<and>
    rk_scope (legacy_claim_resource acct a k c) = scope_castle \<and> rk_castle (legacy_claim_resource acct a k c) = a"
proof (cases "c = castle_claim a")
  case True
  have "parse_int_value (show_int a) = a" using assms(2,3) by (simp add: parse_int64_show)
  with True show ?thesis
    by (simp add: legacy_claim_resource_def castle_claim_facts legacy_switch_def Let_def scoped_key_def)
next
  case False
  with assms(1) show ?thesis
    unfolding castle_local_def legacy_claim_resource_def Let_def
    by (elim disjE insertE emptyE) (simp_all add: legacy_switch_def scoped_key_def)
qed

lemma different_castles_no_overlap:
  assumes "rk_account l = rk_account r" "rk_scope l = scope_castle" "rk_scope r = scope_castle"
    and "rk_castle l \<noteq> rk_castle r"
  shows "\<not> resource_keys_overlap l r"
proof -
  have "canonical l \<noteq> canonical r"
    using assms by (auto simp: canonical_def append_sep_inj dest!: show_int_inj)
  with assms show ?thesis by (simp add: resource_keys_overlap_def)
qed

lemma castle_plan_resources:
  assumes "0 < a" "a \<le> 9223372036854775807" "castle_claim a \<in> set cs" "\<forall>c \<in> set cs. castle_local a c"
    and "r \<in> set (legacy_claims_to_resources g cs)"
  shows "rk_account r = norm_str (resource_account g) \<and> rk_scope r = scope_castle \<and> rk_castle r = a"
proof -
  let ?cs = "normalize_claims cs"
  have n: "set ?cs = {c \<in> trim_space ` set cs. c \<noteq> []}" by (auto simp: normalize_claims_def)
  have trimmed: "trim_space c = c" "castle_local a c" if "c \<in> set ?cs" for c
    using that assms(4) castle_local_trim by (auto simp: n str_simps)
  have "castle_claim a \<noteq> []" by (simp add: castle_claim_def)
  with assms(3) have "castle_claim a \<in> set ?cs"
    using castle_claim_facts(1) [of a] by (metis (mono_tags, lifting) image_eqI mem_Collect_eq n)
  moreover have "\<forall>c \<in> set ?cs. split_on CHR '':'' c ! 0 = ''castle'' \<longrightarrow> c = castle_claim a"
    using trimmed castle_local_head by blast
  ultimately have "legacy_scope_loop ?cs 0 = Some a"
    using legacy_scope_loop_castle [OF assms(1,2), of 0 ?cs] by simp
  then obtain k where sc: "legacy_claim_scope g ?cs = (a, k)"
    using assms(1) by (auto simp: legacy_claim_scope_def)
  from assms(5) obtain c where c: "c \<in> set ?cs"
    "normalize_key (legacy_claim_resource (resource_account g) a k c) = Some r"
    using set_normalize_subset
    by (fastforce simp: legacy_claims_to_resources_def Let_def sc set_map_filter_normalize)
  moreover have "norm_str scope_castle = scope_castle" by code_simp
  ultimately show ?thesis
    using castle_local_resource [OF trimmed(2) [OF c(1)] assms(1,2), of "resource_account g" k]
    by (auto simp: normalize_key_Some)
qed

text \<open>Plans that claim different castles, and otherwise only resources inside their own
  castle, never wait for each other.\<close>

theorem castle_plans_independent:
  assumes "a \<noteq> b" "0 < a" "a \<le> 9223372036854775807" "0 < b" "b \<le> 9223372036854775807"
    and "castle_claim a \<in> set cs" "\<forall>c \<in> set cs. castle_local a c"
    and "castle_claim b \<in> set ds" "\<forall>d \<in> set ds. castle_local b d"
  shows "\<not> resources_overlap (legacy_claims_to_resources g cs) (legacy_claims_to_resources g ds)"
proof -
  have "\<not> resource_keys_overlap l r"
    if "l \<in> set (legacy_claims_to_resources g cs)" "r \<in> set (legacy_claims_to_resources g ds)" for l r
    using castle_plan_resources [OF assms(2,3,6,7) that(1)] castle_plan_resources [OF assms(4,5,8,9) that(2)] assms(1)
    by (intro different_castles_no_overlap) auto
  then show ?thesis by (auto simp: resources_overlap_iff)
qed

section \<open>Witnesses\<close>

lemma castle_local_witness_claims:
  "castle_local 7 (castle_claim 7)" "castle_local 7 ''building-layout''" "castle_local 9 (castle_claim 9)"
  by (simp add: castle_local_def, unfold castle_local_def, code_simp, simp)

theorem castle_plans_independent_witness:
  "\<not> resources_overlap
      (legacy_claims_to_resources \<lparr>av_world_id = ''EU1'', av_server_url = [], av_account_player = 3,
         av_player = 0, av_castle_kingdom = [7 \<mapsto> 0, 9 \<mapsto> 2]\<rparr> [castle_claim 7, ''building-layout''])
      (legacy_claims_to_resources \<lparr>av_world_id = ''EU1'', av_server_url = [], av_account_player = 3,
         av_player = 0, av_castle_kingdom = [7 \<mapsto> 0, 9 \<mapsto> 2]\<rparr> [castle_claim 9])"
  by (rule castle_plans_independent [of 7 9]) (simp_all add: castle_local_witness_claims)

theorem khan_lanes_conflict_witness:
  "\<not> resources_overlap
      (legacy_claims_to_resources \<lparr>av_world_id = ''EU1'', av_server_url = [], av_account_player = 3,
         av_player = 0, av_castle_kingdom = Map.empty\<rparr> [''khan-lane:'' @ ''rage''])
      (legacy_claims_to_resources \<lparr>av_world_id = ''EU1'', av_server_url = [], av_account_player = 3,
         av_player = 0, av_castle_kingdom = Map.empty\<rparr> [''khan-lane:'' @ ''defense''])"
proof -
  have n: "norm_str ''rage'' = ''rage''" "norm_str ''defense'' = ''defense''" by (code_simp, code_simp)
  show ?thesis using khan_lanes_conflict [OF n(1) _ n(2)] by simp
qed

end
