(* ===== verification/Priority.thy ===== *)
theory Priority
  imports Prelude
begin

text \<open>
  Outbound priorities and the metadata that travels with a command
  (\<^verbatim>\<open>Server/Outbound/Priority.go\<close>): the ageing of waiting work, the default
  priority of an actor, and the normalisation of metadata against a context's deadline.
\<close>

section \<open>Priorities\<close>

type_synonym priority = int

abbreviation (input) priority_background :: priority where "priority_background \<equiv> 10"
abbreviation (input) priority_service :: priority where "priority_service \<equiv> 20"
abbreviation (input) priority_scheduled :: priority where "priority_scheduled \<equiv> 95"
abbreviation (input) priority_interactive :: priority where "priority_interactive \<equiv> 100"
abbreviation (input) minimum_priority :: priority where "minimum_priority \<equiv> 1"
abbreviation (input) maximum_priority :: priority where "maximum_priority \<equiv> 100"
abbreviation (input) priority_aging_interval :: duration where "priority_aging_interval \<equiv> second"

definition aged_priority :: "priority \<Rightarrow> gotime \<Rightarrow> gotime \<Rightarrow> priority" where
  "aged_priority priority enqueued_at now =
     (let p = (if priority < minimum_priority then minimum_priority else priority)
      in if maximum_priority \<le> p \<or> time_is_zero enqueued_at \<or> \<not> enqueued_at < now then min p maximum_priority
         else let bonus = go_quot (time_sub now enqueued_at) priority_aging_interval
           in if maximum_priority - p \<le> bonus then maximum_priority else p + bonus)"

definition default_priority :: "string \<Rightarrow> priority" where
  "default_priority actor =
     (let a = norm_str actor
      in if has_prefix a ''scheduler'' then priority_scheduled
         else if a = ''report-manager'' then priority_service
         else if has_prefix a ''automation:'' then
           (let policy = trim_prefix a ''automation:''
            in if policy = ''autostation'' then 90
               else if policy = ''autotci'' then 70
               else if policy = ''autobird'' then 80
               else if policy = ''autohospital'' then 50
               else if policy = ''autosceatres'' then 45
               else if policy = ''autorecruit'' then 40
               else if policy = ''autotool'' then 40
               else if policy = ''autoberiworld'' then 30
               else if policy = ''autokhan'' then 35
               else priority_background)
         else priority_interactive)"

definition resolve_priority :: "string \<Rightarrow> priority \<Rightarrow> string + priority" where
  "resolve_priority actor requested =
     (if requested \<noteq> 0 then
        (if requested < minimum_priority \<or> maximum_priority < requested
         then Inl ''priority must be between 1 and 100'' else Inr requested)
      else Inr (default_priority actor))"

definition yields_to_automation_lock :: "string \<Rightarrow> bool" where
  "yields_to_automation_lock actor =
     (let a = norm_str actor
      in has_prefix a ''automation:'' \<or> has_prefix a ''scheduler:'' \<or> has_prefix a ''background:'')"

definition yields_to_direct_traffic :: "string \<Rightarrow> bool" where
  "yields_to_direct_traffic actor =
     (let a = norm_str actor in yields_to_automation_lock a \<and> a \<noteq> ''automation:autostation'')"

section \<open>Metadata\<close>

record response_identity =
  ri_player_id :: int
  ri_castle_id :: int

text \<open>
  \<open>FinalDispatchValidation\<close> is a callback of the caller: a function from the instant at which
  it runs to its error, if any.
\<close>

record metadata =
  md_operation_id :: string
  md_intent :: string
  md_actor :: string
  md_submitted_at :: gotime
  md_priority :: priority
  md_deadline :: gotime
  md_connection_generation :: nat
  md_response_token :: string
  md_response_opcodes :: "string list"
  md_response_timeout_millis :: int
  md_response_identity :: response_identity
  md_final_dispatch_validation :: "(gotime \<Rightarrow> string option) option"

text \<open>A context as these functions see it: its deadline and the metadata stored in it.\<close>

record go_context =
  ctx_deadline :: "gotime option"
  ctx_metadata :: "metadata option"

definition zero_metadata :: metadata where
  "zero_metadata = \<lparr>md_operation_id = [], md_intent = [], md_actor = [], md_submitted_at = time_zero, md_priority = 0,
     md_deadline = time_zero, md_connection_generation = 0, md_response_token = [], md_response_opcodes = [],
     md_response_timeout_millis = 0, md_response_identity = \<lparr>ri_player_id = 0, ri_castle_id = 0\<rparr>,
     md_final_dispatch_validation = None\<rparr>"

definition normalize_metadata :: "gotime option \<Rightarrow> metadata \<Rightarrow> metadata" where
  "normalize_metadata deadline md =
     (let md = (if md_priority md < minimum_priority \<or> maximum_priority < md_priority md
                then md\<lparr>md_priority := default_priority (md_actor md)\<rparr> else md)
      in case deadline of
           Some d \<Rightarrow> if time_is_zero (md_deadline md) \<or> d < md_deadline md then md\<lparr>md_deadline := d\<rparr> else md
         | None \<Rightarrow> md)"

definition with_metadata :: "go_context \<Rightarrow> metadata \<Rightarrow> go_context" where
  "with_metadata ctx md = ctx\<lparr>ctx_metadata := Some (normalize_metadata (ctx_deadline ctx) md)\<rparr>"

text \<open>A nil context is \<open>None\<close>.\<close>

definition metadata_from_context :: "go_context option \<Rightarrow> metadata" where
  "metadata_from_context c =
     (case c of
        None \<Rightarrow> zero_metadata\<lparr>md_priority := priority_interactive\<rparr>
      | Some ctx \<Rightarrow> normalize_metadata (ctx_deadline ctx)
          (case ctx_metadata ctx of None \<Rightarrow> zero_metadata | Some md \<Rightarrow> md))"

definition with_final_dispatch_validation :: "go_context \<Rightarrow> (gotime \<Rightarrow> string option) option \<Rightarrow> go_context" where
  "with_final_dispatch_validation ctx validate =
     with_metadata ctx ((metadata_from_context (Some ctx))\<lparr>md_final_dispatch_validation := validate\<rparr>)"

definition validate_final_dispatch :: "gotime \<Rightarrow> go_context \<Rightarrow> string option" where
  "validate_final_dispatch now ctx =
     (case md_final_dispatch_validation (metadata_from_context (Some ctx)) of
        Some validate \<Rightarrow> validate now
      | None \<Rightarrow> None)"

section \<open>Bounds of ageing\<close>

lemma aged_priority_zero_enqueue: "time_is_zero e \<Longrightarrow> aged_priority p e t = min (max p 1) 100"
  by (auto simp: aged_priority_def Let_def)

lemma aged_bonus_nonneg: "e < t \<Longrightarrow> 0 \<le> go_quot (time_sub t e) second"
  using time_sub_pos [of e t] by (intro go_quot_ge_0) simp_all

lemma aged_priority_range: "1 \<le> aged_priority p e t" "aged_priority p e t \<le> 100"
  using aged_bonus_nonneg [of e t] by (auto simp: aged_priority_def Let_def)

lemma aged_priority_ge: "p \<le> 100 \<Longrightarrow> p \<le> aged_priority p e t"
  using aged_bonus_nonneg [of e t] by (auto simp: aged_priority_def Let_def)

lemma aged_priority_mono_time: "t \<le> t' \<Longrightarrow> aged_priority p e t \<le> aged_priority p e t'"
proof -
  assume le: "t \<le> t'"
  show ?thesis
  proof (cases "e < t")
    case True
    have "go_quot (time_sub t e) second \<le> go_quot (time_sub t' e) second"
      using True le time_sub_pos [of e t] by (intro go_quot_mono time_sub_mono) simp_all
    with True le show ?thesis by (auto simp: aged_priority_def Let_def)
  next
    case False
    then have "aged_priority p e t = min (max p 1) 100" by (auto simp: aged_priority_def Let_def)
    moreover have "min (max p 1) 100 \<le> aged_priority p e t'"
      using aged_bonus_nonneg [of e t'] by (auto simp: aged_priority_def Let_def)
    ultimately show ?thesis by simp
  qed
qed

lemma aged_priority_mono: "p \<le> q \<Longrightarrow> aged_priority p e t \<le> aged_priority q e t"
  using aged_bonus_nonneg [of e t] by (auto simp: aged_priority_def Let_def)

text \<open>Waiting \<open>100 - p\<close> seconds is enough to reach the ceiling.\<close>

lemma aged_priority_ceiling:
  assumes "1 \<le> p" "p \<le> 100" "e \<noteq> 0" "e + (100 - p) * second \<le> t"
  shows "aged_priority p e t = 100"
proof (cases "p = 100")
  case True
  then show ?thesis by (simp add: aged_priority_def)
next
  case False
  with assms have lt: "e < t" by simp
  have "(100 - p) * second \<le> time_sub t e"
    using assms by (auto simp: time_sub_def max_duration_def min_duration_def)
  moreover have "0 \<le> (100 - p) * second" using assms by simp
  ultimately have "go_quot ((100 - p) * second) second \<le> go_quot (time_sub t e) second"
    by (intro go_quot_mono) simp_all
  moreover have "go_quot ((100 - p) * second) second = 100 - p"
    using assms by (simp add: go_quot_nonneg)
  ultimately show ?thesis using assms lt False by (simp add: aged_priority_def time_is_zero_def Let_def)
qed

lemma default_priority_range: "1 \<le> default_priority a \<and> default_priority a \<le> 100"
  by (simp add: default_priority_def Let_def)

lemma normalize_metadata_idem: "normalize_metadata d (normalize_metadata d md) = normalize_metadata d md"
  using default_priority_range [of "md_actor md"]
  by (auto simp: normalize_metadata_def Let_def time_is_zero_def split: option.splits)

section \<open>Properties\<close>

text \<open>Ageing is bounded and monotone: an aged priority lies between 1 and 100, never falls
  below a valid starting priority, never falls as time passes and keeps the order of the
  starting priorities of two requests queued together.\<close>

theorem aged_priority_bounds:
  assumes "t \<le> t'" "p \<le> q" "q \<le> 100"
  shows "1 \<le> aged_priority p e t \<and> aged_priority q e t' \<le> 100 \<and> q \<le> aged_priority q e t \<and>
    aged_priority p e t \<le> aged_priority p e t' \<and> aged_priority p e t \<le> aged_priority q e t"
  using assms by (simp add: aged_priority_range aged_priority_ge aged_priority_mono_time aged_priority_mono)

theorem aged_priority_bounds_witness:
  "1 \<le> aged_priority 10 5 6 \<and> aged_priority 40 5 7 \<le> 100 \<and> 40 \<le> aged_priority 40 5 6 \<and>
    aged_priority 10 5 6 \<le> aged_priority 10 5 7 \<and> aged_priority 10 5 6 \<le> aged_priority 40 5 6"
  by (rule aged_priority_bounds) simp_all

text \<open>Metadata stored in a context and read back is the same as reading it directly: it is
  normalised once and for all, its priority is within 1..100 and its deadline is not after the
  context's.\<close>

theorem metadata_roundtrip:
  assumes "ctx_deadline ctx = Some d" "d \<noteq> 0"
  shows "metadata_from_context (Some (with_metadata ctx md)) = normalize_metadata (Some d) md \<and>
    1 \<le> md_priority (normalize_metadata (Some d) md) \<and> md_priority (normalize_metadata (Some d) md) \<le> 100 \<and>
    md_deadline (normalize_metadata (Some d) md) \<le> d \<and> md_deadline (normalize_metadata (Some d) md) \<noteq> 0"
proof -
  let ?n = "normalize_metadata (Some d) md"
  have "metadata_from_context (Some (with_metadata ctx md)) = ?n"
    using assms by (simp add: metadata_from_context_def with_metadata_def normalize_metadata_idem)
  moreover have "1 \<le> md_priority ?n \<and> md_priority ?n \<le> 100"
    using default_priority_range [of "md_actor md"] by (simp add: normalize_metadata_def Let_def)
  moreover have "md_deadline ?n \<le> d \<and> md_deadline ?n \<noteq> 0"
    using assms by (auto simp: normalize_metadata_def Let_def time_is_zero_def)
  ultimately show ?thesis by simp
qed

theorem metadata_roundtrip_witness:
  "metadata_from_context (Some (with_metadata \<lparr>ctx_deadline = Some 9, ctx_metadata = None\<rparr> zero_metadata)) =
      normalize_metadata (Some 9) zero_metadata \<and>
    1 \<le> md_priority (normalize_metadata (Some 9) zero_metadata) \<and>
    md_priority (normalize_metadata (Some 9) zero_metadata) \<le> 100 \<and>
    md_deadline (normalize_metadata (Some 9) zero_metadata) \<le> 9 \<and>
    md_deadline (normalize_metadata (Some 9) zero_metadata) \<noteq> 0"
  by (rule metadata_roundtrip) simp_all

end
