(* ===== verification/WaitOrder.thy ===== *)
theory WaitOrder
  imports Prelude
begin

text \<open>
  Waiting lists and the order in which they are served. Three components keep a list of
  waiters and serve it by a \<open>before\<close> comparison with the waiter's number as last resort: the
  claim manager, the admission manager and the outbound router. The locale
  \<open>waiter_order\<close> is what they rely on; each interprets it for its own comparison. The
  two ways of serving are \<open>sort.SliceStable\<close> and a linear search for the best candidate.
\<close>

section \<open>Stable sorting and selecting by a comparison\<close>

fun insert_stable :: "('w \<Rightarrow> 'w \<Rightarrow> bool) \<Rightarrow> 'w \<Rightarrow> 'w list \<Rightarrow> 'w list" where
  "insert_stable lt x [] = [x]"
| "insert_stable lt x (y # ys) = (if lt y x then y # insert_stable lt x ys else x # y # ys)"

definition stable_sort :: "('w \<Rightarrow> 'w \<Rightarrow> bool) \<Rightarrow> 'w list \<Rightarrow> 'w list" where
  "stable_sort lt xs = foldr (insert_stable lt) xs []"

text \<open>
  The search loop \<open>if selected < 0 || before(waiter, selected) { selected = index }\<close> over
  the candidates \<open>p\<close>, with the index and the waiter found so far.
\<close>

fun select_best :: "('w \<Rightarrow> 'w \<Rightarrow> bool) \<Rightarrow> ('w \<Rightarrow> bool) \<Rightarrow> nat \<Rightarrow> 'w list \<Rightarrow> (nat \<times> 'w) option \<Rightarrow> (nat \<times> 'w) option" where
  "select_best lt p i [] cur = cur"
| "select_best lt p i (w # ws) cur =
     select_best lt p (Suc i) ws
       (if p w \<and> (case cur of None \<Rightarrow> True | Some (_, c) \<Rightarrow> lt w c) then Some (i, w) else cur)"

text \<open>\<open>append(xs[:i], xs[i+1:]...)\<close>, and the removal of the first entry with a number.\<close>

definition remove_at :: "nat \<Rightarrow> 'w list \<Rightarrow> 'w list" where
  "remove_at i xs = take i xs @ drop (Suc i) xs"

fun remove_first :: "('w \<Rightarrow> bool) \<Rightarrow> 'w list \<Rightarrow> 'w list" where
  "remove_first p [] = []"
| "remove_first p (x # xs) = (if p x then xs else x # remove_first p xs)"

lemma mset_insert_stable: "mset (insert_stable lt x ys) = add_mset x (mset ys)"
  by (induction ys) auto

lemma mset_stable_sort [simp]: "mset (stable_sort lt xs) = mset xs"
  by (induction xs) (simp_all add: stable_sort_def mset_insert_stable)

lemma set_stable_sort [simp]: "set (stable_sort lt xs) = set xs"
  by (metis mset_stable_sort set_mset_mset)

lemma length_stable_sort [simp]: "length (stable_sort lt xs) = length xs"
  by (metis mset_stable_sort size_mset)

lemma distinct_map_stable_sort [simp]: "distinct (map f (stable_sort lt xs)) = distinct (map f xs)"
  by (metis mset_map mset_stable_sort mset_eq_imp_distinct_iff)

lemma remove_at_append [simp]: "remove_at (length a) (a @ w # b) = a @ b"
  by (simp add: remove_at_def)

lemma split_at:
  assumes "i < length xs"
  obtains a b where "xs = a @ xs ! i # b" "length a = i" "remove_at i xs = a @ b"
  using assms id_take_nth_drop [OF assms] by (intro that) (auto simp: remove_at_def)

lemma set_remove_at_subset: "set (remove_at i xs) \<subseteq> set xs"
  by (auto simp: remove_at_def dest: in_set_takeD in_set_dropD)

lemma set_remove_first_subset: "set (remove_first p xs) \<subseteq> set xs"
  by (induction xs) auto

lemma mset_remove_first: "mset (remove_first p xs) \<subseteq># mset xs"
proof (induction xs)
  case (Cons x xs)
  then show ?case by (auto intro: subset_mset.order_trans)
qed simp

lemma distinct_mset_sub:
  assumes "mset xs \<subseteq># mset ys" "distinct ys"
  shows "distinct xs"
proof -
  have "count (mset ys) a \<le> 1" for a
    using assms(2) by (cases "a \<in> set ys") (simp_all add: distinct_count_atmost_1)
  then have "count (mset xs) a \<le> 1" for a
    using mset_subset_eq_count [OF assms(1), of a] by (meson le_trans)
  moreover have "a \<in> set xs \<Longrightarrow> 0 < count (mset xs) a" for a by simp
  ultimately show ?thesis
    unfolding distinct_count_atmost_1 by (metis One_nat_def count_mset_0_iff le_0_eq le_SucE)
qed

lemma remove_first_none: "\<forall>x \<in> set xs. \<not> p x \<Longrightarrow> remove_first p xs = xs"
  by (induction xs) auto

lemma remove_first_id:
  "distinct (map f xs) \<Longrightarrow> remove_first (\<lambda>x. f x = i) xs = filter (\<lambda>x. f x \<noteq> i) xs"
proof (induction xs)
  case (Cons x xs)
  then show ?case by (cases "f x = i") (auto simp: image_iff intro!: filter_True [symmetric])
qed simp

lemma distinct_map_remove_at: "distinct (map f xs) \<Longrightarrow> i < length xs \<Longrightarrow> distinct (map f (remove_at i xs))"
proof (erule split_at)
  fix a b assume "distinct (map f xs)" and x: "xs = a @ xs ! i # b" and r: "remove_at i xs = a @ b"
  then have "distinct (map f (a @ xs ! i # b))" by metis
  with r show ?thesis by auto
qed

lemma remove_at_not_in:
  "distinct (map f xs) \<Longrightarrow> i < length xs \<Longrightarrow> y \<in> set (remove_at i xs) \<Longrightarrow> f y \<noteq> f (xs ! i)"
proof (erule split_at)
  fix a b assume "distinct (map f xs)" and x: "xs = a @ xs ! i # b" and r: "remove_at i xs = a @ b"
    and y: "y \<in> set (remove_at i xs)"
  then have "distinct (map f (a @ xs ! i # b))" by metis
  with r y show ?thesis by (auto simp: image_iff)
qed

lemma set_remove_at_iff:
  "distinct (map f xs) \<Longrightarrow> i < length xs \<Longrightarrow> set (remove_at i xs) = {y \<in> set xs. f y \<noteq> f (xs ! i)}"
proof (erule split_at)
  fix a b assume "distinct (map f xs)" and x: "xs = a @ xs ! i # b" and r: "remove_at i xs = a @ b"
  then have "distinct (map f (a @ xs ! i # b))" "set xs = insert (xs ! i) (set (a @ b))"
    by (metis, metis Un_insert_right list.set(2) set_append)
  with r show ?thesis by (auto simp: image_iff)
qed

lemma select_best_cases:
  assumes "select_best lt p i ws cur = Some (j, w)"
  shows "cur = Some (j, w) \<or> (i \<le> j \<and> j < i + length ws \<and> ws ! (j - i) = w \<and> p w)"
  using assms
proof (induction ws arbitrary: i cur)
  case (Cons a ws)
  from Cons.IH [OF Cons.prems [unfolded select_best.simps]] show ?case
    by (auto split: if_splits simp: nth_Cons')
qed simp

lemma select_best_None: "select_best lt p i ws None = None \<longleftrightarrow> (\<forall>w \<in> set ws. \<not> p w)"
proof -
  have "select_best lt p i ws (Some c) \<noteq> None" for i c ws
    by (induction ws arbitrary: i c) auto
  then show ?thesis by (induction ws arbitrary: i) (auto simp del: not_None_eq)
qed

lemma remove_at_filter: "distinct xs \<Longrightarrow> i < length xs \<Longrightarrow> remove_at i xs = filter (\<lambda>y. y \<noteq> xs ! i) xs"
proof (erule split_at)
  fix a b assume "distinct xs" and x: "xs = a @ xs ! i # b" and r: "remove_at i xs = a @ b"
  then have "distinct (a @ xs ! i # b)" by metis
  then have "filter (\<lambda>y. y \<noteq> xs ! i) a = a" "filter (\<lambda>y. y \<noteq> xs ! i) b = b"
    by (auto simp: filter_id_conv)
  then have "filter (\<lambda>y. y \<noteq> xs ! i) (a @ xs ! i # b) = a @ b" by simp
  with x r show ?thesis by metis
qed

lemma distinct_mapD: "distinct (map f xs) \<Longrightarrow> distinct xs"
  by (simp add: distinct_map)

text \<open>The choice depends on the candidates only.\<close>

lemma select_best_snd:
  "map_option snd (select_best lt p i ws cur) =
     fold (\<lambda>w c. case c of None \<Rightarrow> Some w | Some v \<Rightarrow> if lt w v then Some w else c) (filter p ws) (map_option snd cur)"
proof (induction ws arbitrary: i cur)
  case (Cons w ws)
  then show ?case by (cases cur) (auto split: prod.splits)
qed simp

lemma select_best_filter:
  "filter p ws = filter p vs \<Longrightarrow>
    map_option snd (select_best lt p i ws None) = map_option snd (select_best lt p j vs None)"
  by (simp add: select_best_snd)

section \<open>The interface\<close>

locale waiter_order =
  fixes before :: "'w \<Rightarrow> 'w \<Rightarrow> bool" and ident :: "'w \<Rightarrow> nat"
  assumes before_irrefl: "\<not> before w w"
    and before_trans: "before u v \<Longrightarrow> before v w \<Longrightarrow> before u w"
    and before_total: "ident u \<noteq> ident v \<Longrightarrow> before u v \<or> before v u"
begin

lemma before_asym: "before u v \<Longrightarrow> \<not> before v u"
  using before_irrefl before_trans by blast

lemma sorted_insert_stable:
  assumes "sorted_wrt before ys" "ident x \<notin> ident ` set ys"
  shows "sorted_wrt before (insert_stable before x ys)"
  using assms
proof (induction ys)
  case (Cons y ys)
  have s: "set (insert_stable before x ys) = insert x (set ys)"
    by (metis mset_insert_stable set_mset_add_mset_insert set_mset_mset)
  show ?case
  proof (cases "before y x")
    case True
    with Cons s show ?thesis by auto
  next
    case False
    with Cons.prems before_total have "before x y" by fastforce
    with False Cons.prems show ?thesis by (auto intro: before_trans)
  qed
qed simp

lemma sorted_stable_sort:
  "distinct (map ident xs) \<Longrightarrow> sorted_wrt before (stable_sort before xs)"
proof (induction xs)
  case (Cons x xs)
  then have "sorted_wrt before (stable_sort before xs)" "ident x \<notin> ident ` set (stable_sort before xs)"
    by auto
  then have "sorted_wrt before (insert_stable before x (stable_sort before xs))"
    by (rule sorted_insert_stable)
  then show ?case by (simp add: stable_sort_def)
qed (simp add: stable_sort_def)

lemma select_best_least:
  assumes "select_best before p i ws cur = Some (j, w)" "distinct (map ident ws)"
    and "\<And>k c. cur = Some (k, c) \<Longrightarrow> ident c \<notin> ident ` set ws"
  shows "(\<forall>v \<in> set ws. p v \<longrightarrow> v = w \<or> before w v) \<and> (\<forall>k c. cur = Some (k, c) \<longrightarrow> c = w \<or> before w c)"
  using assms
proof (induction ws arbitrary: i cur)
  case (Cons a ws)
  define cur' where "cur' = (if p a \<and> (case cur of None \<Rightarrow> True | Some (_, c) \<Rightarrow> before a c) then Some (i, a) else cur)"
  have "ident c \<notin> ident ` set ws" if "cur' = Some (k, c)" for k c
    using that Cons.prems(2,3) by (auto simp: cur'_def split: if_splits)
  with Cons.IH [of "Suc i" cur'] Cons.prems(1,2)
  have ws: "\<forall>v \<in> set ws. p v \<longrightarrow> v = w \<or> before w v" and cur: "\<forall>k c. cur' = Some (k, c) \<longrightarrow> c = w \<or> before w c"
    by (auto simp: cur'_def)
  show ?case
  proof (cases cur)
    case None
    with ws cur show ?thesis by (auto simp: cur'_def split: if_splits)
  next
    case (Some kc)
    obtain k c where kc: "kc = (k, c)" by (cases kc)
    from Some kc Cons.prems(3) have "ident c \<noteq> ident a" by auto
    then have "before a c \<or> before c a" using before_total by metis
    with Some kc ws cur show ?thesis by (auto simp: cur'_def split: if_splits intro: before_trans)
  qed
qed simp

end

section \<open>Building waiter orders layer by layer\<close>

text \<open>
  The comparison of deadlines shared by the claim queue and the outbound queues; a missing
  deadline (the zero time) comes last. \<open>rest\<close> decides between equal deadlines.
\<close>

definition deadline_before :: "gotime \<Rightarrow> gotime \<Rightarrow> bool \<Rightarrow> bool" where
  "deadline_before l r rest \<longleftrightarrow>
     (if \<not> time_is_zero l \<or> \<not> time_is_zero r then
        (if time_is_zero l then False
         else if time_is_zero r then True
         else if l \<noteq> r then l < r
         else rest)
      else rest)"

lemma deadline_before_irrefl: "deadline_before d d rest = rest"
  by (simp add: deadline_before_def)

lemma waiter_order_ident: "waiter_order (\<lambda>u v. ident u < ident v) ident"
  by unfold_locales auto

lemma waiter_orderI:
  assumes "\<And>w. \<not> R w w" "\<And>u v w. R u v \<Longrightarrow> R v w \<Longrightarrow> R u w" "\<And>u v. ident u \<noteq> ident v \<Longrightarrow> R u v \<or> R v u"
  shows "waiter_order R ident"
  using assms by unfold_locales blast+

text \<open>Compare by a number first, smaller or larger first, or by a deadline, then by \<open>R\<close>.\<close>

lemma waiter_order_asc:
  fixes f :: "'w \<Rightarrow> int"
  assumes "waiter_order R ident"
  shows "waiter_order (\<lambda>u v. if f u \<noteq> f v then f u < f v else R u v) ident"
proof (rule waiter_orderI)
  fix u v w
  show "\<not> (if f w \<noteq> f w then f w < f w else R w w)" using waiter_order.before_irrefl [OF assms] by simp
  show "(if f u \<noteq> f v then f u < f v else R u v) \<Longrightarrow> (if f v \<noteq> f w then f v < f w else R v w) \<Longrightarrow>
      (if f u \<noteq> f w then f u < f w else R u w)"
    using waiter_order.before_trans [OF assms, of u v w] by (auto split: if_splits)
  show "ident u \<noteq> ident v \<Longrightarrow> (if f u \<noteq> f v then f u < f v else R u v) \<or> (if f v \<noteq> f u then f v < f u else R v u)"
    using waiter_order.before_total [OF assms, of u v] by auto
qed

lemma waiter_order_desc:
  fixes f :: "'w \<Rightarrow> int"
  assumes "waiter_order R ident"
  shows "waiter_order (\<lambda>u v. if f u \<noteq> f v then f v < f u else R u v) ident"
  using waiter_order_asc [OF assms, of "\<lambda>w. - f w"] by (simp only: neg_less_iff_less neg_equal_iff_equal)

lemma waiter_order_deadline:
  assumes "waiter_order R ident"
  shows "waiter_order (\<lambda>u v. deadline_before (d u) (d v) (R u v)) ident"
proof (rule waiter_orderI)
  fix u v w
  show "\<not> deadline_before (d w) (d w) (R w w)"
    using waiter_order.before_irrefl [OF assms] by (simp add: deadline_before_def)
  show "deadline_before (d u) (d v) (R u v) \<Longrightarrow> deadline_before (d v) (d w) (R v w) \<Longrightarrow> deadline_before (d u) (d w) (R u w)"
    using waiter_order.before_trans [OF assms, of u v w] by (auto simp: deadline_before_def split: if_splits)
  show "ident u \<noteq> ident v \<Longrightarrow> deadline_before (d u) (d v) (R u v) \<or> deadline_before (d v) (d u) (R v u)"
    using waiter_order.before_total [OF assms, of u v] by (auto simp: deadline_before_def)
qed

section \<open>Conflicts\<close>

text \<open>
  What a component that grants exclusive access needs of the conflict relation between
  requests: symmetry, so that checking a newcomer against the holders is enough.
\<close>

definition exclusive :: "('k \<Rightarrow> 'k \<Rightarrow> bool) \<Rightarrow> (nat \<times> 'k) list \<Rightarrow> bool" where
  "exclusive conflict hs \<longleftrightarrow>
     (\<forall>g \<in> set hs. \<forall>h \<in> set hs. fst g \<noteq> fst h \<longrightarrow> \<not> conflict (snd g) (snd h))"

locale conflict_relation =
  fixes conflict :: "'k \<Rightarrow> 'k \<Rightarrow> bool"
  assumes conflict_sym: "conflict a b = conflict b a"
begin

lemma exclusive_snoc:
  assumes "exclusive conflict hs" "\<forall>h \<in> set hs. \<not> conflict r (snd h)"
  shows "exclusive conflict (hs @ [(i, r)])"
  unfolding exclusive_def
proof (intro ballI impI)
  fix g h assume gh: "g \<in> set (hs @ [(i, r)])" "h \<in> set (hs @ [(i, r)])" "fst g \<noteq> fst h"
  then consider "g \<in> set hs" "h \<in> set hs" | "g = (i, r)" "h \<in> set hs" | "g \<in> set hs" "h = (i, r)"
    by auto
  then show "\<not> conflict (snd g) (snd h)"
  proof cases
    case 1
    with assms(1) gh(3) show ?thesis by (simp add: exclusive_def)
  next
    case 2
    with assms(2) show ?thesis by simp
  next
    case 3
    with assms(2) show ?thesis by (subst conflict_sym) simp
  qed
qed

lemma exclusive_subset: "exclusive conflict hs \<Longrightarrow> set gs \<subseteq> set hs \<Longrightarrow> exclusive conflict gs"
  by (auto simp: exclusive_def)

end

end
