(* ===== verification/Claims.thy ===== *)
theory Claims
  imports LegacyClaims Priority WaitOrder
begin

text \<open>
  The claim manager (\<^verbatim>\<open>Server/Intent/Claims.go\<close>). Operations queue for the resource keys
  they need; \<open>dispatchLocked\<close> grants every waiter whose keys overlap neither a held key
  nor those of an earlier waiter that stays in the queue. The mutex makes each of the
  manager's critical sections one step. The clock and the contexts are the environment: a
  step takes \<open>now\<close> and the predicate \<open>cancelled\<close>, which tells for each waiter
  whether \<open>ctx.Err() \<noteq> nil\<close>. Waiter numbers are natural numbers (the code counts in a
  \<open>uint64\<close> that no run exhausts). \<open>granted\<close> collects the waiters whose channel
  \<open>ready\<close> has been closed.
\<close>

section \<open>State and order of service\<close>

record claim_waiter =
  cw_id :: nat
  cw_resources :: "resource_key list"
  cw_priority :: priority
  cw_enqueued_at :: gotime
  cw_deadline :: gotime

record claim_manager =
  cm_next_id :: nat
  cm_held :: "(nat \<times> resource_key list) list"
  cm_waiters :: "claim_waiter list"
  cm_granted :: "nat list"

definition new_claim_manager :: claim_manager where
  "new_claim_manager = \<lparr>cm_next_id = 0, cm_held = [], cm_waiters = [], cm_granted = []\<rparr>"

definition claim_waiter_before_at :: "gotime \<Rightarrow> claim_waiter \<Rightarrow> claim_waiter \<Rightarrow> bool" where
  "claim_waiter_before_at now l r \<longleftrightarrow>
     (let lp = aged_priority (cw_priority l) (cw_enqueued_at l) now;
          rp = aged_priority (cw_priority r) (cw_enqueued_at r) now
      in if lp \<noteq> rp then rp < lp
         else deadline_before (cw_deadline l) (cw_deadline r) (cw_id l < cw_id r))"

section \<open>Operations\<close>

definition claims_available :: "(nat \<times> resource_key list) list \<Rightarrow> resource_key list list \<Rightarrow> resource_key list \<Rightarrow> bool" where
  "claims_available held reserved resources \<longleftrightarrow>
     \<not> list_ex (\<lambda>h. resources_overlap resources (snd h)) held \<and>
     \<not> list_ex (\<lambda>e. resources_overlap resources e) reserved"

text \<open>
  The loop of \<open>dispatchLocked\<close> over the sorted waiters: \<open>reserved\<close> grows with each
  waiter that stays, \<open>held\<close> with each that is granted.
\<close>

fun dispatch_loop :: "(nat \<Rightarrow> bool) \<Rightarrow> claim_waiter list \<Rightarrow> resource_key list list \<Rightarrow> claim_waiter list \<Rightarrow>
    (nat \<times> resource_key list) list \<Rightarrow> nat list \<Rightarrow>
    claim_waiter list \<times> (nat \<times> resource_key list) list \<times> nat list" where
  "dispatch_loop cancelled [] reserved remaining held granted = (remaining, held, granted)"
| "dispatch_loop cancelled (w # ws) reserved remaining held granted =
     (if cancelled (cw_id w) then dispatch_loop cancelled ws reserved remaining held granted
      else if \<not> claims_available held reserved (cw_resources w) then
        dispatch_loop cancelled ws (reserved @ [cw_resources w]) (remaining @ [w]) held granted
      else dispatch_loop cancelled ws reserved remaining (held @ [(cw_id w, cw_resources w)]) (granted @ [cw_id w]))"

definition claims_dispatch :: "gotime \<Rightarrow> (nat \<Rightarrow> bool) \<Rightarrow> claim_manager \<Rightarrow> claim_manager" where
  "claims_dispatch now cancelled m =
     (let sorted_waiters = stable_sort (claim_waiter_before_at now) (cm_waiters m);
          (remaining, held, granted) = dispatch_loop cancelled sorted_waiters [] [] (cm_held m) (cm_granted m)
      in m\<lparr>cm_waiters := remaining, cm_held := held, cm_granted := granted\<rparr>)"

text \<open>
  The critical section in which \<open>acquireResources\<close> queues a waiter. \<open>None\<close> is the
  early return of a request without resources, which holds nothing; otherwise the result is
  the waiter's number, whether it must wait, and the new state.
\<close>

definition claims_acquire :: "gotime \<Rightarrow> (nat \<Rightarrow> bool) \<Rightarrow> resource_key list \<Rightarrow> priority \<Rightarrow> gotime option \<Rightarrow>
    claim_manager \<Rightarrow> (nat \<times> bool \<times> claim_manager) option" where
  "claims_acquire now cancelled requested priority deadline m =
     (let resources = normalize_resource_keys requested in
      if resources = [] then None
      else let i = Suc (cm_next_id m);
               w = \<lparr>cw_id = i, cw_resources = resources, cw_priority = priority, cw_enqueued_at = now,
                    cw_deadline = (case deadline of None \<Rightarrow> time_zero | Some d \<Rightarrow> d)\<rparr>;
               m' = claims_dispatch now cancelled (m\<lparr>cm_next_id := i, cm_waiters := cm_waiters m @ [w]\<rparr>)
           in Some (i, i \<notin> set (cm_granted m'), m'))"

text \<open>The body of \<open>release\<close>, which \<open>sync.Once\<close> runs at most once per waiter.\<close>

definition claims_release :: "gotime \<Rightarrow> (nat \<Rightarrow> bool) \<Rightarrow> nat \<Rightarrow> claim_manager \<Rightarrow> claim_manager" where
  "claims_release now cancelled i m =
     claims_dispatch now cancelled (m\<lparr>cm_held := filter (\<lambda>h. fst h \<noteq> i) (cm_held m)\<rparr>)"

text \<open>The branch \<open><-ctx.Done()\<close>: leave the queue, or release what was granted meanwhile.\<close>

definition claims_cancel :: "gotime \<Rightarrow> (nat \<Rightarrow> bool) \<Rightarrow> nat \<Rightarrow> claim_manager \<Rightarrow> claim_manager" where
  "claims_cancel now cancelled i m =
     (if i \<notin> set (cm_granted m)
      then claims_dispatch now cancelled (m\<lparr>cm_waiters := remove_first (\<lambda>w. cw_id w = i) (cm_waiters m)\<rparr>)
      else claims_release now cancelled i m)"

section \<open>The order of service is a waiter order\<close>

interpretation claim_order: waiter_order "claim_waiter_before_at now" cw_id for now
  unfolding claim_waiter_before_at_def Let_def
  by (intro waiter_order_desc waiter_order_deadline waiter_order_ident)

interpretation claim_conflicts: conflict_relation resources_overlap
  by unfold_locales (rule resources_overlap_sym)

section \<open>What a dispatch does\<close>

lemma claims_available_iff:
  "claims_available held reserved rs \<longleftrightarrow>
     (\<forall>h \<in> set held. \<not> resources_overlap rs (snd h)) \<and> (\<forall>e \<in> set reserved. \<not> resources_overlap rs e)"
  by (auto simp: claims_available_def list_ex_iff)

text \<open>The loop splits the live waiters into those granted and those that stay, in order.\<close>

lemma dispatch_loop_shape:
  "\<exists>G R. dispatch_loop c ws rs rem held gr = (rem @ R, held @ map (\<lambda>w. (cw_id w, cw_resources w)) G, gr @ map cw_id G) \<and>
     mset G + mset R = mset (filter (\<lambda>w. \<not> c (cw_id w)) ws)"
proof (induction c ws rs rem held gr rule: dispatch_loop.induct)
  case (2 c w ws rs rem held gr)
  show ?case
  proof (cases "c (cw_id w)")
    case True
    with 2(1) show ?thesis by simp
  next
    case live: False
    show ?thesis
    proof (cases "claims_available held rs (cw_resources w)")
      case True
      with live 2(3) obtain G R where
        "dispatch_loop c (w # ws) rs rem held gr = (rem @ R, held @ map (\<lambda>w. (cw_id w, cw_resources w)) (w # G), gr @ map cw_id (w # G))"
        "mset G + mset R = mset (filter (\<lambda>w. \<not> c (cw_id w)) ws)" by auto
      with live show ?thesis by (intro exI [of _ "w # G"] exI [of _ R]) simp
    next
      case False
      with live 2(2) obtain G R where
        "dispatch_loop c (w # ws) rs rem held gr = (rem @ w # R, held @ map (\<lambda>w. (cw_id w, cw_resources w)) G, gr @ map cw_id G)"
        "mset G + mset R = mset (filter (\<lambda>w. \<not> c (cw_id w)) ws)" by auto
      with live show ?thesis by (intro exI [of _ G] exI [of _ "w # R"]) simp
    qed
  qed
qed simp

lemma dispatch_loop_exclusive:
  "dispatch_loop c ws rs rem held gr = (rem', held', gr') \<Longrightarrow> exclusive resources_overlap held \<Longrightarrow>
    exclusive resources_overlap held'"
proof (induction c ws rs rem held gr rule: dispatch_loop.induct)
  case (2 c w ws rs rem held gr)
  then show ?case
    by (cases "c (cw_id w)"; cases "claims_available held rs (cw_resources w)")
      (auto simp: claims_available_iff intro: claim_conflicts.exclusive_snoc)
qed simp

text \<open>Whoever stays is blocked by a holder or by somebody who stays and is served earlier.\<close>

definition blocked_by :: "(nat \<times> resource_key list) list \<Rightarrow> resource_key list list \<Rightarrow> claim_waiter \<Rightarrow> bool" where
  "blocked_by held earlier w \<longleftrightarrow> \<not> claims_available held earlier (cw_resources w)"

fun settled :: "(nat \<times> resource_key list) list \<Rightarrow> resource_key list list \<Rightarrow> claim_waiter list \<Rightarrow> bool" where
  "settled held earlier [] = True"
| "settled held earlier (w # ws) \<longleftrightarrow> blocked_by held earlier w \<and> settled held (earlier @ [cw_resources w]) ws"

lemma settled_append:
  "settled held e (xs @ ys) \<longleftrightarrow> settled held e xs \<and> settled held (e @ map cw_resources xs) ys"
  by (induction xs arbitrary: e) auto

lemma blocked_by_mono: "blocked_by held e w \<Longrightarrow> set held \<subseteq> set held' \<Longrightarrow> blocked_by held' e w"
  by (auto simp: blocked_by_def claims_available_iff)

lemma settled_mono: "settled held e ws \<Longrightarrow> set held \<subseteq> set held' \<Longrightarrow> settled held' e ws"
  by (induction ws arbitrary: e) (auto intro: blocked_by_mono)

lemma dispatch_loop_settled:
  "dispatch_loop c ws (map cw_resources rem) rem held gr = (rem', held', gr') \<Longrightarrow> settled held [] rem \<Longrightarrow>
    settled held' [] rem'"
proof (induction ws arbitrary: rem held gr)
  case (Cons w ws)
  consider "c (cw_id w)" | "\<not> c (cw_id w)" "claims_available held (map cw_resources rem) (cw_resources w)"
    | "\<not> c (cw_id w)" "\<not> claims_available held (map cw_resources rem) (cw_resources w)" by blast
  then show ?case
  proof cases
    case 1
    with Cons show ?thesis by simp
  next
    case 2
    have "settled (held @ [(cw_id w, cw_resources w)]) [] rem"
      using Cons.prems(2) by (rule settled_mono) auto
    with 2 Cons show ?thesis by simp
  next
    case 3
    then have "settled held [] (rem @ [w])"
      using Cons.prems(2) by (simp add: settled_append blocked_by_def)
    with 3 Cons.IH [of "rem @ [w]"] Cons.prems(1) show ?thesis by simp
  qed
qed simp

lemma dispatch_loop_sets:
  assumes "dispatch_loop c ws rs rem held gr = (rem', held', gr')"
  shows "set rem' \<subseteq> set rem \<union> set ws"
    and "set held' \<subseteq> set held \<union> (\<lambda>w. (cw_id w, cw_resources w)) ` set ws"
proof -
  obtain G R where GR: "rem' = rem @ R" "held' = held @ map (\<lambda>w. (cw_id w, cw_resources w)) G"
    "mset G + mset R = mset (filter (\<lambda>w. \<not> c (cw_id w)) ws)"
    using dispatch_loop_shape [of c ws rs rem held gr] assms by auto
  from GR(3) have "set G \<union> set R \<subseteq> set ws"
    by (metis filter_is_subset set_mset_mset set_mset_union)
  with GR show "set rem' \<subseteq> set rem \<union> set ws"
    "set held' \<subseteq> set held \<union> (\<lambda>w. (cw_id w, cw_resources w)) ` set ws" by auto
qed

text \<open>Nothing granted after a reservation conflicts with it.\<close>

lemma dispatch_loop_respects_reserved:
  "dispatch_loop c ws rs rem held gr = (rem', held', gr') \<Longrightarrow> e \<in> set rs \<Longrightarrow> h \<in> set held' \<Longrightarrow> h \<notin> set held \<Longrightarrow>
    \<not> resources_overlap (snd h) e"
proof (induction c ws rs rem held gr rule: dispatch_loop.induct)
  case (2 c w ws rs rem held gr)
  then show ?case
    by (cases "c (cw_id w)"; cases "claims_available held rs (cw_resources w)"; cases "h = (cw_id w, cw_resources w)")
      (auto simp: claims_available_iff)
qed simp

lemma dispatch_loop_no_overtaking:
  assumes "dispatch_loop c ws rs rem held gr = (rem', held', gr')"
    and "sorted_wrt lt ws" "\<And>u v. lt u v \<Longrightarrow> \<not> lt v u" "distinct (map cw_id ws)"
    and "\<forall>w \<in> set ws. cw_id w \<notin> cw_id ` set rem \<and> cw_id w \<notin> fst ` set held"
    and "w \<in> set ws" "g \<in> set ws" "w \<in> set rem'" "(cw_id g, cw_resources g) \<in> set held'" "lt w g"
  shows "\<not> resources_overlap (cw_resources g) (cw_resources w)"
  using assms
proof (induction ws arbitrary: rs rem held gr)
  case (Cons x xs)
  let ?avail = "claims_available held rs (cw_resources x)"
  have later: "lt x w" if "w \<in> set xs" using Cons.prems(2) that by simp
  have ne: "cw_id y \<noteq> cw_id x" if "y \<in> set xs" for y using Cons.prems(4) that by (auto simp: image_iff)
  have gx: "g \<in> set xs"
    using Cons.prems(3,6,7,10) later by auto
  consider "c (cw_id x)" | "\<not> c (cw_id x)" "?avail" | "\<not> c (cw_id x)" "\<not> ?avail" by blast
  then show ?case
  proof cases
    case 1
    have "w \<noteq> x"
      using 1 Cons.prems(1,5,8) dispatch_loop_sets(1) [of c xs rs rem held gr rem' held' gr'] ne by auto
    with 1 gx Cons show ?thesis by (intro Cons.IH [of rs rem held gr]) auto
  next
    case 2
    have "w \<noteq> x"
      using 2 Cons.prems(1,5,8) dispatch_loop_sets(1) [of c xs rs rem "held @ [(cw_id x, cw_resources x)]" "gr @ [cw_id x]" rem' held' gr'] ne
      by auto
    with 2 gx Cons ne show ?thesis
      by (intro Cons.IH [of rs rem "held @ [(cw_id x, cw_resources x)]" "gr @ [cw_id x]"]) auto
  next
    case 3
    then have d: "dispatch_loop c xs (rs @ [cw_resources x]) (rem @ [x]) held gr = (rem', held', gr')"
      using Cons.prems(1) by simp
    show ?thesis
    proof (cases "w = x")
      case True
      have "(cw_id g, cw_resources g) \<notin> set held" using Cons.prems(5,7) by force
      with d True Cons.prems(9) show ?thesis
        using dispatch_loop_respects_reserved [OF d, of "cw_resources x" "(cw_id g, cw_resources g)"] by simp
    next
      case False
      with d gx Cons ne show ?thesis
        by (intro Cons.IH [OF d]) auto
    qed
  qed
qed simp

section \<open>Invariant and reachable states\<close>

definition claims_ids :: "claim_manager \<Rightarrow> nat list" where
  "claims_ids m = map fst (cm_held m) @ map cw_id (cm_waiters m)"

definition claims_inv :: "claim_manager \<Rightarrow> bool" where
  "claims_inv m \<longleftrightarrow>
     distinct (claims_ids m) \<and> (\<forall>i \<in> set (claims_ids m). i \<le> cm_next_id m) \<and>
     exclusive resources_overlap (cm_held m)"

lemma claims_inv_new: "claims_inv new_claim_manager"
  by (simp add: claims_inv_def claims_ids_def new_claim_manager_def exclusive_def)

text \<open>Fewer entries keep the invariant.\<close>

lemma claims_inv_sub:
  assumes "claims_inv m" "mset (claims_ids m') \<subseteq># mset (claims_ids m)" "cm_next_id m \<le> cm_next_id m'"
    and "exclusive resources_overlap (cm_held m')"
  shows "claims_inv m'"
proof -
  from assms(2) have "set (claims_ids m') \<subseteq> set (claims_ids m)" by (metis set_mset_mono set_mset_mset)
  with assms(1,3) have "\<forall>i \<in> set (claims_ids m'). i \<le> cm_next_id m'"
    unfolding claims_inv_def by (meson le_trans subsetD)
  moreover from assms(1,2) have "distinct (claims_ids m')"
    unfolding claims_inv_def by (blast intro: distinct_mset_sub)
  ultimately show ?thesis using assms(4) by (simp add: claims_inv_def)
qed

lemma claims_dispatch_cases:
  obtains G R where
    "claims_dispatch now c m = m\<lparr>cm_waiters := R, cm_held := cm_held m @ map (\<lambda>w. (cw_id w, cw_resources w)) G,
       cm_granted := cm_granted m @ map cw_id G\<rparr>"
    "mset G + mset R = mset (filter (\<lambda>w. \<not> c (cw_id w)) (cm_waiters m))"
    "dispatch_loop c (stable_sort (claim_waiter_before_at now) (cm_waiters m)) [] [] (cm_held m) (cm_granted m)
       = (R, cm_held m @ map (\<lambda>w. (cw_id w, cw_resources w)) G, cm_granted m @ map cw_id G)"
proof -
  let ?ws = "stable_sort (claim_waiter_before_at now) (cm_waiters m)"
  obtain G R where "dispatch_loop c ?ws [] [] (cm_held m) (cm_granted m)
      = (R, cm_held m @ map (\<lambda>w. (cw_id w, cw_resources w)) G, cm_granted m @ map cw_id G)"
    "mset G + mset R = mset (filter (\<lambda>w. \<not> c (cw_id w)) ?ws)"
    using dispatch_loop_shape [of c ?ws "[]" "[]" "cm_held m" "cm_granted m"] by auto
  then show thesis by (intro that [of G R]) (simp_all add: claims_dispatch_def Let_def mset_filter)
qed

lemma claims_inv_dispatch: "claims_inv m \<Longrightarrow> claims_inv (claims_dispatch now c m)"
proof -
  assume inv: "claims_inv m"
  obtain G R where d: "claims_dispatch now c m = m\<lparr>cm_waiters := R,
       cm_held := cm_held m @ map (\<lambda>w. (cw_id w, cw_resources w)) G, cm_granted := cm_granted m @ map cw_id G\<rparr>"
    and GR: "mset G + mset R = mset (filter (\<lambda>w. \<not> c (cw_id w)) (cm_waiters m))"
    and loop: "dispatch_loop c (stable_sort (claim_waiter_before_at now) (cm_waiters m)) [] [] (cm_held m) (cm_granted m)
       = (R, cm_held m @ map (\<lambda>w. (cw_id w, cw_resources w)) G, cm_granted m @ map cw_id G)"
    by (rule claims_dispatch_cases)
  have "mset (map cw_id (G @ R)) = image_mset cw_id (mset G + mset R)" by simp
  also have "\<dots> \<subseteq># image_mset cw_id (mset (cm_waiters m))"
    unfolding GR by (intro image_mset_subseteq_mono) (simp add: mset_filter)
  finally have "mset (claims_ids (claims_dispatch now c m)) \<subseteq># mset (claims_ids m)"
    by (simp add: d claims_ids_def comp_def add.assoc)
  moreover have "exclusive resources_overlap (cm_held m @ map (\<lambda>w. (cw_id w, cw_resources w)) G)"
    using dispatch_loop_exclusive [OF loop] inv by (simp add: claims_inv_def)
  ultimately show "claims_inv (claims_dispatch now c m)"
    by (intro claims_inv_sub [OF inv]) (simp_all add: d)
qed

lemma claims_dispatch_next_id [simp]: "cm_next_id (claims_dispatch now c m) = cm_next_id m"
  by (simp add: claims_dispatch_def Let_def split: prod.splits)

lemma claims_inv_enqueue:
  assumes "claims_inv m" "cw_id w = Suc (cm_next_id m)"
  shows "claims_inv (m\<lparr>cm_next_id := Suc (cm_next_id m), cm_waiters := cm_waiters m @ [w]\<rparr>)" (is "claims_inv ?m")
proof -
  have ids: "claims_ids ?m = claims_ids m @ [Suc (cm_next_id m)]" by (simp add: claims_ids_def assms(2))
  have "Suc (cm_next_id m) \<notin> set (claims_ids m)" using assms(1) by (auto simp: claims_inv_def)
  then show ?thesis unfolding claims_inv_def ids using assms(1) by (auto simp: claims_inv_def le_SucI)
qed

lemma claims_inv_acquire:
  assumes "claims_inv m" "claims_acquire now c rs p d m = Some (i, waited, m')"
  shows "claims_inv m'"
proof -
  let ?w = "\<lparr>cw_id = Suc (cm_next_id m), cw_resources = normalize_resource_keys rs, cw_priority = p, cw_enqueued_at = now,
                    cw_deadline = (case d of None \<Rightarrow> time_zero | Some d \<Rightarrow> d)\<rparr>"
  from assms(2) have
    "m' = claims_dispatch now c (m\<lparr>cm_next_id := Suc (cm_next_id m), cm_waiters := cm_waiters m @ [?w]\<rparr>)"
    unfolding claims_acquire_def Let_def by (auto simp only: option.inject prod.inject option.distinct split: if_split_asm)
  with assms(1) show ?thesis by (simp add: claims_inv_dispatch claims_inv_enqueue)
qed

lemma claims_inv_unhold: "claims_inv m \<Longrightarrow> claims_inv (m\<lparr>cm_held := filter (\<lambda>h. fst h \<noteq> i) (cm_held m)\<rparr>)"
proof (rule claims_inv_sub [of m])
  assume "claims_inv m"
  then show "exclusive resources_overlap (cm_held (m\<lparr>cm_held := filter (\<lambda>h. fst h \<noteq> i) (cm_held m)\<rparr>))"
    by (auto simp: claims_inv_def intro: claim_conflicts.exclusive_subset)
  show "mset (claims_ids (m\<lparr>cm_held := filter (\<lambda>h. fst h \<noteq> i) (cm_held m)\<rparr>)) \<subseteq># mset (claims_ids m)"
    by (simp add: claims_ids_def mset_filter image_mset_subseteq_mono)
qed simp_all

lemma claims_inv_release: "claims_inv m \<Longrightarrow> claims_inv (claims_release now c i m)"
  unfolding claims_release_def by (intro claims_inv_dispatch claims_inv_unhold)

lemma claims_inv_cancel: "claims_inv m \<Longrightarrow> claims_inv (claims_cancel now c i m)"
proof -
  assume inv: "claims_inv m"
  have "mset (claims_ids (m\<lparr>cm_waiters := remove_first (\<lambda>w. cw_id w = i) (cm_waiters m)\<rparr>)) \<subseteq># mset (claims_ids m)"
    by (simp add: claims_ids_def image_mset_subseteq_mono mset_remove_first)
  then have "claims_inv (m\<lparr>cm_waiters := remove_first (\<lambda>w. cw_id w = i) (cm_waiters m)\<rparr>)"
    using inv by (intro claims_inv_sub [OF inv]) (simp_all add: claims_inv_def)
  then show ?thesis
    using inv by (simp add: claims_cancel_def claims_inv_dispatch claims_inv_release)
qed

text \<open>The steps of the manager, in any order, at any time and under any cancellations.\<close>

inductive claims_step :: "claim_manager \<Rightarrow> claim_manager \<Rightarrow> bool" where
  acquire: "claims_acquire now c rs p d m = Some (i, waited, m') \<Longrightarrow> claims_step m m'"
| release: "i \<in> set (cm_granted m) \<Longrightarrow> claims_step m (claims_release now c i m)"
| cancel: "claims_step m (claims_cancel now c i m)"

inductive claims_reachable :: "claim_manager \<Rightarrow> bool" where
  start: "claims_reachable new_claim_manager"
| step: "claims_reachable m \<Longrightarrow> claims_step m m' \<Longrightarrow> claims_reachable m'"

lemma claims_step_inv: "claims_step m m' \<Longrightarrow> claims_inv m \<Longrightarrow> claims_inv m'"
  by (induction rule: claims_step.induct) (auto intro: claims_inv_acquire claims_inv_release claims_inv_cancel)

lemma claims_reachable_inv: "claims_reachable m \<Longrightarrow> claims_inv m"
  by (induction rule: claims_reachable.induct) (auto intro: claims_inv_new claims_step_inv)

lemma claims_exclusive:
  assumes "claims_reachable m" "(i, rs) \<in> set (cm_held m)" "(j, ss) \<in> set (cm_held m)" "i \<noteq> j"
  shows "\<not> resources_overlap rs ss \<and> i \<notin> cw_id ` set (cm_waiters m)"
proof -
  from assms(1) have inv: "claims_inv m" by (rule claims_reachable_inv)
  then have "exclusive resources_overlap (cm_held m)" by (simp add: claims_inv_def)
  from this [unfolded exclusive_def, rule_format, OF assms(2,3)] assms(4)
  have "\<not> resources_overlap rs ss" by simp
  moreover have "i \<in> fst ` set (cm_held m)" using assms(2) by force
  ultimately show ?thesis using inv by (auto simp: claims_inv_def claims_ids_def)
qed


section \<open>Progress and fairness\<close>

lemma claims_dispatch_settled: "settled (cm_held (claims_dispatch now c m)) [] (cm_waiters (claims_dispatch now c m))"
  using dispatch_loop_settled [of c "stable_sort (claim_waiter_before_at now) (cm_waiters m)" "[]" "cm_held m" "cm_granted m"]
  by (auto simp: claims_dispatch_def Let_def split: prod.splits)

lemma claims_step_settled: "claims_step m m' \<Longrightarrow> settled (cm_held m') [] (cm_waiters m')"
  by (induction rule: claims_step.induct)
    (auto simp: claims_acquire_def claims_release_def claims_cancel_def Let_def claims_dispatch_settled split: if_splits)

lemma claims_reachable_settled: "claims_reachable m \<Longrightarrow> settled (cm_held m) [] (cm_waiters m)"
  by (induction rule: claims_reachable.induct) (auto simp: new_claim_manager_def intro: claims_step_settled)

lemma settled_nth:
  "settled held e ws \<Longrightarrow> k < length ws \<Longrightarrow> blocked_by held (e @ map cw_resources (take k ws)) (ws ! k)"
proof (induction ws arbitrary: e k)
  case (Cons w ws)
  show ?case
  proof (cases k)
    case (Suc n)
    with Cons.IH [of "e @ [cw_resources w]" n] Cons.prems show ?thesis by simp
  qed (use Cons.prems in simp)
qed simp

text \<open>No lost wake-up: in every reachable state each waiter overlaps a holder or a waiter
  queued before it; so a non-empty queue always has a holder whose release serves it.\<close>

theorem claims_waiters_blocked:
  assumes "claims_reachable m" "k < length (cm_waiters m)"
  shows "(\<exists>h \<in> set (cm_held m). resources_overlap (cw_resources (cm_waiters m ! k)) (snd h))
    \<or> (\<exists>j<k. resources_overlap (cw_resources (cm_waiters m ! k)) (cw_resources (cm_waiters m ! j)))"
proof -
  from settled_nth [OF claims_reachable_settled [OF assms(1)] assms(2)]
  have "blocked_by (cm_held m) (map cw_resources (take k (cm_waiters m))) (cm_waiters m ! k)" by simp
  then show ?thesis
    using assms(2) by (auto simp: blocked_by_def claims_available_iff in_set_conv_nth)
qed

lemma claims_dispatch_no_overtaking:
  assumes inv: "claims_inv m" and m': "m' = claims_dispatch now c m"
    and w: "w \<in> set (cm_waiters m')" and g: "g \<in> set (cm_waiters m)" "(cw_id g, cw_resources g) \<in> set (cm_held m')"
    and before: "claim_waiter_before_at now w g"
  shows "\<not> resources_overlap (cw_resources g) (cw_resources w)"
proof -
  let ?ws = "stable_sort (claim_waiter_before_at now) (cm_waiters m)"
  obtain G R where d: "claims_dispatch now c m = m\<lparr>cm_waiters := R,
       cm_held := cm_held m @ map (\<lambda>w. (cw_id w, cw_resources w)) G, cm_granted := cm_granted m @ map cw_id G\<rparr>"
    and GR: "mset G + mset R = mset (filter (\<lambda>w. \<not> c (cw_id w)) (cm_waiters m))"
    and loop: "dispatch_loop c ?ws [] [] (cm_held m) (cm_granted m)
       = (R, cm_held m @ map (\<lambda>w. (cw_id w, cw_resources w)) G, cm_granted m @ map cw_id G)"
    by (rule claims_dispatch_cases)
  have sub: "set R \<subseteq> set (cm_waiters m)"
    using GR by (metis filter_is_subset set_mset_mset set_mset_union le_sup_iff)
  have ids: "distinct (map cw_id ?ws)" and apart: "\<forall>w \<in> set ?ws. cw_id w \<notin> cw_id ` set [] \<and> cw_id w \<notin> fst ` set (cm_held m)"
    using inv by (auto simp: claims_inv_def claims_ids_def)
  have wR: "w \<in> set R" and gH: "(cw_id g, cw_resources g) \<in> set (cm_held m @ map (\<lambda>w. (cw_id w, cw_resources w)) G)"
    using w g(2) m' by (simp_all add: d)
  have ws: "w \<in> set ?ws" "g \<in> set ?ws" using wR sub g(1) by auto
  show ?thesis
    by (rule dispatch_loop_no_overtaking [OF loop claim_order.sorted_stable_sort claim_order.before_asym
        ids apart ws wR gH before]) (use ids in simp_all)
qed

text \<open>No overtaking: when a holder releases, nobody is granted whose resources overlap those
  of a waiter that precedes it in the order of service and still waits.\<close>

theorem claims_no_overtaking:
  assumes "claims_reachable m" "m' = claims_release now c i m"
    and "w \<in> set (cm_waiters m')" "g \<in> set (cm_waiters m)" "(cw_id g, cw_resources g) \<in> set (cm_held m')"
    and "claim_waiter_before_at now w g"
  shows "\<not> resources_overlap (cw_resources g) (cw_resources w)"
proof (rule claims_dispatch_no_overtaking [OF _ _ assms(3) _ assms(5,6)])
  show "claims_inv (m\<lparr>cm_held := filter (\<lambda>h. fst h \<noteq> i) (cm_held m)\<rparr>)"
    using claims_reachable_inv [OF assms(1)] by (rule claims_inv_unhold)
qed (use assms in \<open>simp_all add: claims_release_def\<close>)

text \<open>Ageing restores the order of arrival: once a waiter has waited \<open>100 - p\<close> seconds, it
  precedes every waiter with a later number and the same deadline, whatever their priorities.\<close>

theorem aged_waiter_precedes:
  assumes "1 \<le> cw_priority w" "cw_priority w \<le> 100" "cw_enqueued_at w \<noteq> 0"
    and "cw_enqueued_at w + (100 - cw_priority w) * second \<le> now"
    and "cw_id w < cw_id v" "cw_deadline v = cw_deadline w"
  shows "claim_waiter_before_at now w v"
  using aged_priority_ceiling [OF assms(1-4)] aged_priority_range [of "cw_priority v" "cw_enqueued_at v" now] assms(5,6)
  by (simp add: claim_waiter_before_at_def deadline_before_irrefl)

text \<open>Ageing does not outlast deadlines: a waiter without a deadline comes after every waiter
  of priority 100 that has one, however much later that one arrives and however long the first
  has waited.\<close>

theorem deadline_overtakes_aged_waiter:
  assumes "cw_deadline w = 0" "cw_priority v = 100" "cw_deadline v \<noteq> 0"
  shows "claim_waiter_before_at now v w"
proof -
  have "aged_priority (cw_priority v) (cw_enqueued_at v) now = 100" using assms by (simp add: aged_priority_def)
  with aged_priority_range [of "cw_priority w" "cw_enqueued_at w" now] assms show ?thesis
    by (auto simp: claim_waiter_before_at_def deadline_before_def time_is_zero_def Let_def)
qed

section \<open>A concrete run\<close>

definition demo_key :: "string \<Rightarrow> resource_key" where
  "demo_key i = \<lparr>rk_account = ''a'', rk_scope = ''account'', rk_kingdom = 0, rk_castle = 0, rk_capability = ''march'',
     rk_kind = ''army'', rk_id = i\<rparr>"

abbreviation (input) demo_waiter :: "nat \<Rightarrow> string \<Rightarrow> int \<Rightarrow> gotime \<Rightarrow> claim_waiter" where
  "demo_waiter i k p t \<equiv> \<lparr>cw_id = i, cw_resources = [demo_key k], cw_priority = p, cw_enqueued_at = t, cw_deadline = 0\<rparr>"

text \<open>Holders of \<open>x\<close> and \<open>y\<close>, and a waiter for each.\<close>

definition demo_claims :: claim_manager where
  "demo_claims = \<lparr>cm_next_id = 4, cm_held = [(1, [demo_key ''x'']), (2, [demo_key ''y''])],
     cm_waiters = [demo_waiter 3 ''y'' 60 7, demo_waiter 4 ''x'' 50 8], cm_granted = [1, 2]\<rparr>"

lemma demo_claims_reachable: "claims_reachable demo_claims"
proof -
  let ?none = "\<lambda>_. False"
  let ?m1 = "\<lparr>cm_next_id = 1, cm_held = [(1, [demo_key ''x''])], cm_waiters = [], cm_granted = [1]\<rparr>"
  let ?m2 = "\<lparr>cm_next_id = 2, cm_held = [(1, [demo_key ''x'']), (2, [demo_key ''y''])], cm_waiters = [], cm_granted = [1, 2]\<rparr>"
  let ?m3 = "\<lparr>cm_next_id = 3, cm_held = [(1, [demo_key ''x'']), (2, [demo_key ''y''])],
     cm_waiters = [demo_waiter 3 ''y'' 60 7], cm_granted = [1, 2]\<rparr>"
  have "claims_acquire 5 ?none [demo_key ''x''] 50 None new_claim_manager = Some (1, False, ?m1)" by code_simp
  then have "claims_reachable ?m1" by (blast intro: claims_reachable.intros claims_step.acquire)
  moreover have "claims_acquire 6 ?none [demo_key ''y''] 50 None ?m1 = Some (2, False, ?m2)" by code_simp
  ultimately have "claims_reachable ?m2" by (blast intro: claims_reachable.intros claims_step.acquire)
  moreover have "claims_acquire 7 ?none [demo_key ''y''] 60 None ?m2 = Some (3, True, ?m3)" by code_simp
  ultimately have "claims_reachable ?m3" by (blast intro: claims_reachable.intros claims_step.acquire)
  moreover have "claims_acquire 8 ?none [demo_key ''x''] 50 None ?m3 = Some (4, True, demo_claims)" by code_simp
  ultimately show ?thesis by (blast intro: claims_reachable.intros claims_step.acquire)
qed


theorem claims_waiters_blocked_witness:
  "(\<exists>h \<in> set (cm_held demo_claims). resources_overlap (cw_resources (cm_waiters demo_claims ! 0)) (snd h))
    \<or> (\<exists>j<0. resources_overlap (cw_resources (cm_waiters demo_claims ! 0)) (cw_resources (cm_waiters demo_claims ! j)))"
  by (rule claims_waiters_blocked [OF demo_claims_reachable]) (simp add: demo_claims_def)

text \<open>Releasing \<open>x\<close> grants waiter 4 although waiter 3 precedes it and still waits for \<open>y\<close>.\<close>

lemma demo_claims_release:
  "claims_release 9 (\<lambda>_. False) 1 demo_claims =
    \<lparr>cm_next_id = 4, cm_held = [(2, [demo_key ''y'']), (4, [demo_key ''x''])],
     cm_waiters = [demo_waiter 3 ''y'' 60 7], cm_granted = [1, 2, 4]\<rparr>"
  by code_simp

theorem claims_no_overtaking_witness: "\<not> resources_overlap [demo_key ''x''] [demo_key ''y'']"
proof -
  have "claim_waiter_before_at 9 (demo_waiter 3 ''y'' 60 7) (demo_waiter 4 ''x'' 50 8)" by code_simp
  from claims_no_overtaking [OF demo_claims_reachable refl, of _ 9 "\<lambda>_. False" 1, unfolded demo_claims_release, OF _ _ _ this]
  show ?thesis by (simp add: demo_claims_def)
qed

theorem aged_waiter_precedes_witness:
  "claim_waiter_before_at (60 * second) (demo_waiter 3 ''x'' 50 7) (demo_waiter 4 ''x'' 100 8)"
  by (rule aged_waiter_precedes) simp_all

theorem deadline_overtakes_aged_waiter_witness:
  "claim_waiter_before_at (10 ^ 18) (demo_waiter 9 ''x'' 100 8\<lparr>cw_deadline := 10 ^ 19\<rparr>) (demo_waiter 3 ''x'' 50 7)"
  by (rule deadline_overtakes_aged_waiter) simp_all

end
