(* ===== verification/Admission.thy ===== *)
theory Admission
  imports Claims
begin

text \<open>
  The admission manager (\<^verbatim>\<open>Server/Intent/Admission.go\<close>): at most one operation per
  admission class proceeds at a time. \<open>dispatchLocked\<close> gives each free and available class to
  the first eligible waiter in the order \<open>admissionWaiterBefore\<close>. As in the claim manager a
  critical section is one step; the clock \<open>now\<close>, the cancellations and the engine's
  availability function \<open>avail\<close> (the earliest instant at which a class may be used) are
  arguments of it. \<open>am_granted\<close> holds the numbers of the granted waiters. The loop over the set of
  classes runs in the order of their first waiters; \<open>admission_order_irrelevant\<close> shows that
  Go's unspecified order of iteration makes no difference.
\<close>

section \<open>Requests\<close>

record admission =
  ad_class :: string
  ad_module :: string
  ad_affinity :: string
  ad_not_before :: gotime
  ad_deadline :: gotime

record admission_request =
  ar_operation_id :: string
  ar_actor :: string
  ar_priority :: priority
  ar_weight :: int
  ar_submitted_at :: gotime
  ar_admission :: admission

record admission_waiter =
  aw_id :: nat
  aw_request :: admission_request

record admission_manager =
  am_next_id :: nat
  am_held :: "string \<Rightarrow> nat option"
  am_waiters :: "admission_waiter list"
  am_granted :: "nat set"

definition new_admission_manager :: admission_manager where
  "new_admission_manager = \<lparr>am_next_id = 0, am_held = (\<lambda>_. None), am_waiters = [], am_granted = {}\<rparr>"

abbreviation aw_class :: "admission_waiter \<Rightarrow> string" where
  "aw_class w \<equiv> ad_class (ar_admission (aw_request w))"

abbreviation aw_not_before :: "admission_waiter \<Rightarrow> gotime" where
  "aw_not_before w \<equiv> ad_not_before (ar_admission (aw_request w))"

text \<open>Reading the map \<open>held\<close> yields 0 for a missing class.\<close>

definition held_by :: "admission_manager \<Rightarrow> string \<Rightarrow> nat" where
  "held_by m class = (case am_held m class of None \<Rightarrow> 0 | Some i \<Rightarrow> i)"

section \<open>Weights and order of service\<close>

abbreviation (input) default_admission_weight :: int where "default_admission_weight \<equiv> 50"
abbreviation (input) admission_aging_interval :: duration where "admission_aging_interval \<equiv> 15 * second"

definition normalize_admission_weight :: "int \<Rightarrow> int" where
  "normalize_admission_weight value =
     (if value \<le> 0 then default_admission_weight else if 100 < value then 100 else value)"

definition effective_admission_weight :: "admission_request \<Rightarrow> gotime \<Rightarrow> int" where
  "effective_admission_weight r now =
     (let age = time_sub now (ar_submitted_at r);
          age = (if age < 0 then 0 else age);
          bonus = go_quot age admission_aging_interval;
          bonus = (if 100 < bonus then 100 else bonus)
      in normalize_admission_weight (ar_weight r) + bonus)"

definition admission_tier :: "string \<Rightarrow> int" where
  "admission_tier actor =
     (let a = norm_str actor
      in if has_prefix a ''automation:'' \<or> has_prefix a ''background:'' \<or> a = ''report-manager'' then 1
         else if has_prefix a ''scheduler'' then 3
         else 4)"

definition admission_waiter_before :: "gotime \<Rightarrow> admission_waiter \<Rightarrow> admission_waiter \<Rightarrow> bool" where
  "admission_waiter_before now l r \<longleftrightarrow>
     (let lq = aw_request l; rq = aw_request r;
          lt = admission_tier (ar_actor lq); rt = admission_tier (ar_actor rq);
          lw = effective_admission_weight lq now; rw = effective_admission_weight rq now
      in if lt \<noteq> rt then rt < lt
         else deadline_before (ad_deadline (ar_admission lq)) (ad_deadline (ar_admission rq))
           (if lt = 1 \<and> lw \<noteq> rw then rw < lw
            else if ar_priority lq \<noteq> ar_priority rq then ar_priority rq < ar_priority lq
            else if ar_submitted_at lq \<noteq> ar_submitted_at rq then ar_submitted_at lq < ar_submitted_at rq
            else aw_id l < aw_id r))"

section \<open>Operations\<close>

definition remove_cancelled :: "(nat \<Rightarrow> bool) \<Rightarrow> admission_manager \<Rightarrow> admission_manager" where
  "remove_cancelled cancelled m = m\<lparr>am_waiters := filter (\<lambda>w. \<not> cancelled (aw_id w)) (am_waiters m)\<rparr>"

text \<open>The body of the loop over the classes.\<close>

definition admission_eligible :: "gotime \<Rightarrow> string \<Rightarrow> admission_waiter \<Rightarrow> bool" where
  "admission_eligible now class w \<longleftrightarrow> aw_class w = class \<and> \<not> now < aw_not_before w"

definition dispatch_class :: "gotime \<Rightarrow> (string \<Rightarrow> gotime) \<Rightarrow> string \<Rightarrow> admission_manager \<Rightarrow> admission_manager" where
  "dispatch_class now avail class m =
     (if held_by m class \<noteq> 0 \<or> now < avail class then m
      else case select_best (admission_waiter_before now) (admission_eligible now class) 0 (am_waiters m) None of
             None \<Rightarrow> m
           | Some (selected, w) \<Rightarrow>
               m\<lparr>am_waiters := remove_at selected (am_waiters m),
                 am_held := (am_held m)(class \<mapsto> aw_id w),
                 am_granted := insert (aw_id w) (am_granted m)\<rparr>)"

definition admission_dispatch :: "gotime \<Rightarrow> (string \<Rightarrow> gotime) \<Rightarrow> (nat \<Rightarrow> bool) \<Rightarrow> admission_manager \<Rightarrow> admission_manager" where
  "admission_dispatch now avail cancelled m =
     (let m = remove_cancelled cancelled m
      in fold (dispatch_class now avail) (remdups (map aw_class (am_waiters m))) m)"

definition normalize_admission_request :: "gotime \<Rightarrow> admission_request \<Rightarrow> admission_request" where
  "normalize_admission_request now r =
     r\<lparr>ar_admission := (ar_admission r)\<lparr>ad_class := trim_space (ad_class (ar_admission r)),
         ad_module := trim_space (ad_module (ar_admission r)),
         ad_affinity := trim_space (ad_affinity (ar_admission r))\<rparr>,
       ar_weight := normalize_admission_weight (ar_weight r),
       ar_submitted_at := (if time_is_zero (ar_submitted_at r) then now else ar_submitted_at r)\<rparr>"

text \<open>The first critical section of \<open>acquire\<close>; \<open>None\<close> when the request names no class.\<close>

definition admission_acquire :: "gotime \<Rightarrow> (string \<Rightarrow> gotime) \<Rightarrow> (nat \<Rightarrow> bool) \<Rightarrow> admission_request \<Rightarrow>
    admission_manager \<Rightarrow> (nat \<times> admission_manager) option" where
  "admission_acquire now avail cancelled r m =
     (let r = normalize_admission_request now r in
      if ad_class (ar_admission r) = [] then None
      else let i = Suc (am_next_id m)
           in Some (i, admission_dispatch now avail cancelled
                (m\<lparr>am_next_id := i, am_waiters := am_waiters m @ [\<lparr>aw_id = i, aw_request = r\<rparr>]\<rparr>)))"

text \<open>\<open>release\<close>, also the way out of a cancelled wait; it runs once per waiter.\<close>

definition admission_release :: "gotime \<Rightarrow> (string \<Rightarrow> gotime) \<Rightarrow> (nat \<Rightarrow> bool) \<Rightarrow> string \<Rightarrow> nat \<Rightarrow>
    admission_manager \<Rightarrow> admission_manager" where
  "admission_release now avail cancelled class i m =
     (let m = (if held_by m class = i then m\<lparr>am_held := (am_held m)(class := None)\<rparr> else m)
      in admission_dispatch now avail cancelled
           (m\<lparr>am_waiters := remove_first (\<lambda>w. aw_id w = i) (am_waiters m)\<rparr>))"

text \<open>The instant for which a waiting goroutine sets its timer; the zero time sets none.\<close>

definition next_wake :: "admission_manager \<Rightarrow> (string \<Rightarrow> gotime) \<Rightarrow> (nat \<Rightarrow> bool) \<Rightarrow> admission_waiter \<Rightarrow> gotime \<Rightarrow> gotime" where
  "next_wake m avail cancelled w now =
     (if aw_id w \<in> am_granted m \<or> cancelled (aw_id w) then time_zero
      else let wake_at = aw_not_before w;
               available_at = avail (aw_class w);
               wake_at = (if wake_at < available_at then available_at else wake_at)
           in if \<not> now < wake_at \<or> held_by m (aw_class w) \<noteq> 0 then time_zero else wake_at)"

section \<open>The order of service is a waiter order\<close>

text \<open>The weight decides only in the lowest tier; elsewhere it counts as a constant.\<close>

definition admission_rank :: "gotime \<Rightarrow> admission_waiter \<Rightarrow> int" where
  "admission_rank now w =
     (if admission_tier (ar_actor (aw_request w)) = 1 then effective_admission_weight (aw_request w) now else 0)"

lemma admission_waiter_before_alt:
  "admission_waiter_before now l r \<longleftrightarrow>
     (if admission_tier (ar_actor (aw_request l)) \<noteq> admission_tier (ar_actor (aw_request r))
      then admission_tier (ar_actor (aw_request r)) < admission_tier (ar_actor (aw_request l))
      else deadline_before (ad_deadline (ar_admission (aw_request l))) (ad_deadline (ar_admission (aw_request r)))
        (if admission_rank now l \<noteq> admission_rank now r then admission_rank now r < admission_rank now l
         else if ar_priority (aw_request l) \<noteq> ar_priority (aw_request r)
           then ar_priority (aw_request r) < ar_priority (aw_request l)
         else if ar_submitted_at (aw_request l) \<noteq> ar_submitted_at (aw_request r)
           then ar_submitted_at (aw_request l) < ar_submitted_at (aw_request r)
         else aw_id l < aw_id r))"
  by (simp add: admission_waiter_before_def admission_rank_def Let_def)

interpretation admission_order: waiter_order "admission_waiter_before now" aw_id for now
  unfolding admission_waiter_before_alt
  by (intro waiter_order_desc waiter_order_asc waiter_order_deadline waiter_order_ident)

section \<open>What a dispatch does\<close>

text \<open>The waiter the loop body picks for a class, and the effect of picking one for each class of a set.\<close>

definition class_choice :: "gotime \<Rightarrow> (string \<Rightarrow> gotime) \<Rightarrow> admission_manager \<Rightarrow> string \<Rightarrow> admission_waiter option" where
  "class_choice now avail m class =
     (if held_by m class \<noteq> 0 \<or> now < avail class then None
      else map_option snd (select_best (admission_waiter_before now) (admission_eligible now class) 0 (am_waiters m) None))"

definition grant_classes :: "gotime \<Rightarrow> (string \<Rightarrow> gotime) \<Rightarrow> string set \<Rightarrow> admission_manager \<Rightarrow> admission_manager" where
  "grant_classes now avail C m = m\<lparr>
     am_waiters := filter (\<lambda>w. \<not> (aw_class w \<in> C \<and> class_choice now avail m (aw_class w) = Some w)) (am_waiters m),
     am_held := (\<lambda>c. if c \<in> C then (case class_choice now avail m c of None \<Rightarrow> am_held m c | Some w \<Rightarrow> Some (aw_id w))
                     else am_held m c),
     am_granted := am_granted m \<union> {aw_id w |w c. c \<in> C \<and> class_choice now avail m c = Some w}\<rparr>"

lemma class_choice_SomeD:
  assumes "class_choice now avail m c = Some w" "distinct (map aw_id (am_waiters m))"
  shows "w \<in> set (am_waiters m)" "admission_eligible now c w" "aw_class w = c" "held_by m c = 0" "avail c \<le> now"
    "\<forall>v \<in> set (am_waiters m). admission_eligible now c v \<longrightarrow> v = w \<or> admission_waiter_before now w v"
proof -
  from assms(1) obtain i where
    s: "select_best (admission_waiter_before now) (admission_eligible now c) 0 (am_waiters m) None = Some (i, w)"
    and free: "held_by m c = 0" "avail c \<le> now"
    by (auto simp: class_choice_def split: if_splits)
  from select_best_cases [OF s] show "w \<in> set (am_waiters m)" and e: "admission_eligible now c w" by auto
  from e show "aw_class w = c" by (simp add: admission_eligible_def)
  from free show "held_by m c = 0" "avail c \<le> now" .
  from admission_order.select_best_least [OF s assms(2)]
  show "\<forall>v \<in> set (am_waiters m). admission_eligible now c v \<longrightarrow> v = w \<or> admission_waiter_before now w v" by simp
qed

lemma class_choice_NoneD:
  "class_choice now avail m c = None \<Longrightarrow>
    held_by m c \<noteq> 0 \<or> now < avail c \<or> (\<forall>v \<in> set (am_waiters m). \<not> admission_eligible now c v)"
  by (auto simp: class_choice_def select_best_None split: if_splits)

lemma dispatch_class_choice:
  assumes "distinct (map aw_id (am_waiters m))"
  shows "dispatch_class now avail c m = (case class_choice now avail m c of None \<Rightarrow> m
     | Some w \<Rightarrow> m\<lparr>am_waiters := filter (\<lambda>v. v \<noteq> w) (am_waiters m), am_held := (am_held m)(c \<mapsto> aw_id w),
                  am_granted := insert (aw_id w) (am_granted m)\<rparr>)"
proof (cases "class_choice now avail m c")
  case None
  then show ?thesis by (auto simp: class_choice_def dispatch_class_def)
next
  case (Some w)
  then obtain i where
    s: "select_best (admission_waiter_before now) (admission_eligible now c) 0 (am_waiters m) None = Some (i, w)"
    and free: "held_by m c = 0" "avail c \<le> now"
    by (auto simp: class_choice_def split: if_splits)
  from select_best_cases [OF s] have i: "i < length (am_waiters m)" "am_waiters m ! i = w" by auto
  have "remove_at i (am_waiters m) = filter (\<lambda>v. v \<noteq> w) (am_waiters m)"
    using remove_at_filter [OF distinct_mapD [OF assms] i(1)] i(2) by simp
  with s free Some show ?thesis by (simp add: dispatch_class_def)
qed

lemma class_choice_other:
  assumes "filter (admission_eligible now c) (am_waiters m') = filter (admission_eligible now c) (am_waiters m)"
    and "am_held m' c = am_held m c"
  shows "class_choice now avail m' c = class_choice now avail m c"
  unfolding class_choice_def held_by_def assms(2) using select_best_filter [OF assms(1)] by simp

lemma grant_classes_ids: "distinct (map aw_id (am_waiters m)) \<Longrightarrow> distinct (map aw_id (am_waiters (grant_classes now avail C m)))"
  by (simp add: grant_classes_def distinct_map_filter)

lemma fold_dispatch_classes:
  assumes "distinct (map aw_id (am_waiters m))"
  shows "distinct cs \<Longrightarrow> fold (dispatch_class now avail) cs m = grant_classes now avail (set cs) m"
proof (induction cs rule: rev_induct)
  case Nil
  then show ?case by (simp add: grant_classes_def)
next
  case (snoc c cs)
  let ?m = "grant_classes now avail (set cs) m"
  have c: "c \<notin> set cs" using snoc.prems by simp
  have "filter (admission_eligible now c) (am_waiters ?m) = filter (admission_eligible now c) (am_waiters m)"
    using c by (auto simp: grant_classes_def admission_eligible_def intro!: filter_cong)
  then have choice: "class_choice now avail ?m c = class_choice now avail m c"
    by (rule class_choice_other) (use c in \<open>simp add: grant_classes_def\<close>)
  have "fold (dispatch_class now avail) (cs @ [c]) m = dispatch_class now avail c ?m" using snoc by simp
  also have "\<dots> = grant_classes now avail (set (cs @ [c])) m"
  proof (cases "class_choice now avail m c")
    case None
    have "am_waiters ?m = am_waiters (grant_classes now avail (set (cs @ [c])) m)"
      using None by (auto simp: grant_classes_def intro!: filter_cong)
    moreover have "am_held ?m = am_held (grant_classes now avail (set (cs @ [c])) m)"
      using None c by (auto simp: grant_classes_def fun_eq_iff)
    moreover have "am_granted ?m = am_granted (grant_classes now avail (set (cs @ [c])) m)"
      using None by (auto simp: grant_classes_def)
    ultimately show ?thesis
      unfolding dispatch_class_choice [OF grant_classes_ids [OF assms]] choice
      using None by (simp add: grant_classes_def)
  next
    case (Some w)
    have w: "aw_class w = c" using class_choice_SomeD [OF Some assms] by simp
    have "filter (\<lambda>v. v \<noteq> w) (am_waiters ?m) = am_waiters (grant_classes now avail (set (cs @ [c])) m)"
      using Some w by (auto simp: grant_classes_def intro!: filter_cong)
    moreover have "(am_held ?m)(c \<mapsto> aw_id w) = am_held (grant_classes now avail (set (cs @ [c])) m)"
      using Some c by (auto simp: grant_classes_def fun_eq_iff)
    moreover have "insert (aw_id w) (am_granted ?m) = am_granted (grant_classes now avail (set (cs @ [c])) m)"
      using Some by (auto simp: grant_classes_def)
    ultimately show ?thesis
      unfolding dispatch_class_choice [OF grant_classes_ids [OF assms]] choice
      using Some by (simp add: grant_classes_def)
  qed
  finally show ?case .
qed

lemma remove_cancelled_ids: "distinct (map aw_id (am_waiters m)) \<Longrightarrow> distinct (map aw_id (am_waiters (remove_cancelled c m)))"
  by (simp add: remove_cancelled_def distinct_map_filter)

abbreviation live_classes :: "(nat \<Rightarrow> bool) \<Rightarrow> admission_manager \<Rightarrow> string set" where
  "live_classes cancelled m \<equiv> aw_class ` set (am_waiters (remove_cancelled cancelled m))"

lemma admission_dispatch_grant:
  assumes "distinct (map aw_id (am_waiters m))"
  shows "admission_dispatch now avail cancelled m =
    grant_classes now avail (live_classes cancelled m) (remove_cancelled cancelled m)"
  using fold_dispatch_classes [OF remove_cancelled_ids [OF assms], of "remdups (map aw_class (am_waiters (remove_cancelled cancelled m)))"]
  by (simp add: admission_dispatch_def Let_def)

section \<open>Invariant and reachable states\<close>

definition admission_inv :: "admission_manager \<Rightarrow> bool" where
  "admission_inv m \<longleftrightarrow>
     distinct (map aw_id (am_waiters m)) \<and>
     (\<forall>w \<in> set (am_waiters m). 0 < aw_id w \<and> aw_id w \<le> am_next_id m \<and> aw_id w \<notin> am_granted m) \<and>
     (\<forall>i \<in> am_granted m. 0 < i \<and> i \<le> am_next_id m) \<and>
     ran (am_held m) \<subseteq> am_granted m \<and> inj_on (am_held m) (dom (am_held m))"

lemma admission_invI:
  assumes "distinct (map aw_id (am_waiters m))"
    "\<And>w. w \<in> set (am_waiters m) \<Longrightarrow> 0 < aw_id w \<and> aw_id w \<le> am_next_id m \<and> aw_id w \<notin> am_granted m"
    "\<And>i. i \<in> am_granted m \<Longrightarrow> 0 < i \<and> i \<le> am_next_id m"
    "\<And>c i. am_held m c = Some i \<Longrightarrow> i \<in> am_granted m"
    "\<And>c d i. am_held m c = Some i \<Longrightarrow> am_held m d = Some i \<Longrightarrow> c = d"
  shows "admission_inv m"
  using assms unfolding admission_inv_def ran_def inj_on_def dom_def by (auto; metis)

lemma admission_invD:
  assumes "admission_inv m"
  shows "distinct (map aw_id (am_waiters m))"
    "w \<in> set (am_waiters m) \<Longrightarrow> 0 < aw_id w \<and> aw_id w \<le> am_next_id m \<and> aw_id w \<notin> am_granted m"
    "i \<in> am_granted m \<Longrightarrow> 0 < i \<and> i \<le> am_next_id m"
    "am_held m c = Some i \<Longrightarrow> i \<in> am_granted m"
    "am_held m c = Some i \<Longrightarrow> am_held m d = Some i \<Longrightarrow> c = d"
  using assms unfolding admission_inv_def ran_def inj_on_def dom_def by auto

lemma held_by_iff: "admission_inv m \<Longrightarrow> held_by m c = 0 \<longleftrightarrow> am_held m c = None"
  using admission_invD(3,4) [of m] by (fastforce simp: held_by_def split: option.splits)

lemma admission_inv_new: "admission_inv new_admission_manager"
  by (rule admission_invI) (simp_all add: new_admission_manager_def)

lemma admission_inv_grant:
  assumes inv: "admission_inv m"
  shows "admission_inv (grant_classes now avail C m)" (is "admission_inv ?m")
proof (rule admission_invI)
  note D = admission_invD [OF inv]
  note choice = class_choice_SomeD [OF _ D(1)]
  show "distinct (map aw_id (am_waiters ?m))" using D(1) by (rule grant_classes_ids)
  show "0 < aw_id w \<and> aw_id w \<le> am_next_id ?m \<and> aw_id w \<notin> am_granted ?m" if "w \<in> set (am_waiters ?m)" for w
  proof -
    from that have w: "w \<in> set (am_waiters m)" and n: "aw_class w \<in> C \<Longrightarrow> class_choice now avail m (aw_class w) \<noteq> Some w"
      by (auto simp: grant_classes_def)
    have "aw_id w \<noteq> aw_id v" if "c \<in> C" "class_choice now avail m c = Some v" for v c
      using choice [OF that(2)] that n w D(1) by (metis eq_key_imp_eq_value distinct_map inj_onD)
    with D(2) [OF w] show ?thesis by (auto simp: grant_classes_def)
  qed
  show "0 < i \<and> i \<le> am_next_id ?m" if "i \<in> am_granted ?m" for i
    using that D(2,3) choice(1) by (auto simp: grant_classes_def)
  show "i \<in> am_granted ?m" if "am_held ?m c = Some i" for c i
    using that D(4) by (auto simp: grant_classes_def split: if_splits option.splits)
  show "c = d" if held: "am_held ?m c = Some i" "am_held ?m d = Some i" for c d i
  proof -
    have src: "am_held m c = Some i \<or> (\<exists>w \<in> set (am_waiters m). aw_class w = c \<and> aw_id w = i)"
      if "am_held ?m c = Some i" for c
      using that choice(1,3) by (fastforce simp: grant_classes_def split: if_splits option.splits)
    have once: "\<not> (am_held m c = Some i \<and> w \<in> set (am_waiters m) \<and> aw_id w = i)" for c w
      using D(2) [of w] D(4) [of c i] by auto
    have "v = w" if "v \<in> set (am_waiters m)" "w \<in> set (am_waiters m)" "aw_id v = i" "aw_id w = i" for v w
      using that D(1) by (auto simp: distinct_map inj_on_def)
    then show ?thesis using src [OF held(1)] src [OF held(2)] once D(5) by metis
  qed
qed

lemma admission_inv_remove_cancelled: "admission_inv m \<Longrightarrow> admission_inv (remove_cancelled c m)"
  by (rule admission_invI) (auto simp: remove_cancelled_def distinct_map_filter dest: admission_invD)

lemma admission_inv_dispatch: "admission_inv m \<Longrightarrow> admission_inv (admission_dispatch now avail c m)"
  by (simp add: admission_dispatch_grant admission_invD(1) admission_inv_grant admission_inv_remove_cancelled)

lemma admission_inv_enqueue:
  assumes inv: "admission_inv m" and w: "aw_id w = Suc (am_next_id m)"
  shows "admission_inv (m\<lparr>am_next_id := Suc (am_next_id m), am_waiters := am_waiters m @ [w]\<rparr>)"
proof -
  note D = admission_invD [OF inv]
  have fresh: "Suc (am_next_id m) \<notin> aw_id ` set (am_waiters m)" "Suc (am_next_id m) \<notin> am_granted m"
    using D(2,3) by fastforce+
  show ?thesis
  proof (rule admission_invI)
    show "distinct (map aw_id (am_waiters (m\<lparr>am_next_id := Suc (am_next_id m), am_waiters := am_waiters m @ [w]\<rparr>)))"
      using D(1) fresh w by simp
  qed (use D(2-5) fresh w in \<open>auto simp: le_SucI\<close>)
qed

lemma admission_inv_release_pre:
  fixes m cls i
  defines "m' \<equiv> (if held_by m cls = i then m\<lparr>am_held := (am_held m)(cls := None)\<rparr> else m)"
  assumes "admission_inv m"
  shows "admission_inv (m'\<lparr>am_waiters := remove_first (\<lambda>w. aw_id w = i) (am_waiters m')\<rparr>)"
proof (rule admission_invI)
  note D = admission_invD [OF assms(2)]
  have [simp]: "am_waiters m' = am_waiters m" "am_next_id m' = am_next_id m" "am_granted m' = am_granted m"
    and sub: "am_held m' c = Some j \<Longrightarrow> am_held m c = Some j" for c j
    by (simp_all add: m'_def split: if_splits)
  let ?n = "m'\<lparr>am_waiters := remove_first (\<lambda>w. aw_id w = i) (am_waiters m')\<rparr>"
  show "distinct (map aw_id (am_waiters ?n))" using D(1) by (simp add: remove_first_id distinct_map_filter)
  show "w \<in> set (am_waiters ?n) \<Longrightarrow> 0 < aw_id w \<and> aw_id w \<le> am_next_id ?n \<and> aw_id w \<notin> am_granted ?n" for w
    using D(2) [of w] set_remove_first_subset [of "\<lambda>w. aw_id w = i" "am_waiters m"] by auto
  show "j \<in> am_granted ?n \<Longrightarrow> 0 < j \<and> j \<le> am_next_id ?n" for j using D(3) [of j] by simp
  show "am_held ?n c = Some j \<Longrightarrow> j \<in> am_granted ?n" for c j using D(4) sub by auto
  show "am_held ?n c = Some j \<Longrightarrow> am_held ?n d = Some j \<Longrightarrow> c = d" for c d j using D(5) sub by auto
qed

lemma admission_inv_release: "admission_inv m \<Longrightarrow> admission_inv (admission_release now avail c class i m)"
  unfolding admission_release_def Let_def by (intro admission_inv_dispatch admission_inv_release_pre)

text \<open>
  The steps of the manager. A timer only dispatches; a release is labelled with the waiter
  it serves. Numbers start at 1, so no release is for the number 0.
\<close>

datatype admission_event = Acquire | Timer | Release string nat

inductive admission_step :: "admission_event \<Rightarrow> admission_manager \<Rightarrow> admission_manager \<Rightarrow> bool" where
  acquire: "admission_acquire now avail c r m = Some (i, m') \<Longrightarrow> admission_step Acquire m m'"
| timer: "admission_step Timer m (admission_dispatch now avail c m)"
| release: "0 < i \<Longrightarrow> admission_step (Release class i) m (admission_release now avail c class i m)"

inductive admission_reachable :: "admission_manager \<Rightarrow> bool" where
  start: "admission_reachable new_admission_manager"
| step: "admission_reachable m \<Longrightarrow> admission_step e m m' \<Longrightarrow> admission_reachable m'"

lemma admission_acquire_SomeD:
  assumes "admission_acquire now avail c r m = Some (i, m')"
  shows "i = Suc (am_next_id m)"
    "m' = admission_dispatch now avail c (m\<lparr>am_next_id := Suc (am_next_id m),
       am_waiters := am_waiters m @ [\<lparr>aw_id = Suc (am_next_id m), aw_request = normalize_admission_request now r\<rparr>]\<rparr>)"
  using assms unfolding admission_acquire_def Let_def
  by (auto simp only: option.inject prod.inject option.distinct split: if_split_asm)

lemma admission_step_inv: "admission_step e m m' \<Longrightarrow> admission_inv m \<Longrightarrow> admission_inv m'"
proof (induction rule: admission_step.induct)
  case (acquire now avail c r m i m')
  then show ?case
    using admission_acquire_SomeD [OF acquire.hyps] by (simp add: admission_inv_dispatch admission_inv_enqueue)
qed (simp_all add: admission_inv_dispatch admission_inv_release)

lemma admission_reachable_inv: "admission_reachable m \<Longrightarrow> admission_inv m"
  by (induction rule: admission_reachable.induct) (auto intro: admission_inv_new admission_step_inv)

section \<open>Properties\<close>

text \<open>The order in which a dispatch visits the classes, which Go leaves open, is irrelevant.\<close>

theorem admission_order_irrelevant:
  assumes "admission_reachable m" "distinct cs" "set cs = live_classes cancelled m"
  shows "fold (dispatch_class now avail) cs (remove_cancelled cancelled m) = admission_dispatch now avail cancelled m"
proof -
  have ids: "distinct (map aw_id (am_waiters m))"
    using admission_reachable_inv [OF assms(1)] by (rule admission_invD)
  show ?thesis
    unfolding admission_dispatch_grant [OF ids] assms(3) [symmetric]
    by (rule fold_dispatch_classes [OF remove_cancelled_ids [OF ids] assms(2)])
qed

text \<open>A grant is sound: a class that changes hands in a dispatch was free and available, and
  goes to a live waiter of that class whose time has come and who precedes every other such
  waiter left in the queue.\<close>

theorem admission_grant_sound:
  assumes "admission_reachable m" "m' = admission_dispatch now avail cancelled m" "am_held m' c \<noteq> am_held m c"
  shows "am_held m c = None \<and> avail c \<le> now \<and>
    (\<exists>w \<in> set (am_waiters m). am_held m' c = Some (aw_id w) \<and> aw_class w = c \<and> \<not> cancelled (aw_id w) \<and>
      aw_not_before w \<le> now \<and>
      (\<forall>v \<in> set (am_waiters m'). aw_class v = c \<and> aw_not_before v \<le> now \<longrightarrow> admission_waiter_before now w v))"
proof -
  have inv: "admission_inv m" by (rule admission_reachable_inv [OF assms(1)])
  note ids = admission_invD(1) [OF inv]
  let ?r = "remove_cancelled cancelled m"
  have m': "m' = grant_classes now avail (live_classes cancelled m) ?r"
    using assms(2) ids by (simp add: admission_dispatch_grant)
  have [simp]: "am_held ?r = am_held m" by (simp add: remove_cancelled_def)
  from assms(3) m' obtain w where c: "c \<in> live_classes cancelled m" and w: "class_choice now avail ?r c = Some w"
    and held: "am_held m' c = Some (aw_id w)"
    by (auto simp: grant_classes_def split: if_splits option.splits)
  note W = class_choice_SomeD [OF w remove_cancelled_ids [OF ids]]
  have "am_held m c = None"
    using W(4) held_by_iff [OF admission_inv_remove_cancelled [OF inv]] by simp
  moreover have "w \<in> set (am_waiters m) \<and> \<not> cancelled (aw_id w)" using W(1) by (simp add: remove_cancelled_def)
  moreover have "admission_waiter_before now w v"
    if "v \<in> set (am_waiters m')" "aw_class v = c" "aw_not_before v \<le> now" for v
  proof -
    from that(1) m' have "v \<in> set (am_waiters ?r)" "\<not> (aw_class v \<in> live_classes cancelled m \<and> class_choice now avail ?r (aw_class v) = Some v)"
      by (auto simp: grant_classes_def)
    with that(2,3) c w W(6) show ?thesis by (auto simp: admission_eligible_def)
  qed
  ultimately show ?thesis using W(2,3,5) held by (auto simp: admission_eligible_def)
qed

text \<open>Work conservation: a dispatch leaves no class idle that is available and has a waiter
  whose time has come.\<close>

theorem admission_work_conserving:
  assumes "admission_reachable m" "m' = admission_dispatch now avail cancelled m"
    and "w \<in> set (am_waiters m')" "aw_not_before w \<le> now" "avail (aw_class w) \<le> now"
  shows "am_held m' (aw_class w) \<noteq> None"
proof -
  have inv: "admission_inv m" by (rule admission_reachable_inv [OF assms(1)])
  let ?r = "remove_cancelled cancelled m"
  have m': "m' = grant_classes now avail (live_classes cancelled m) ?r"
    using assms(2) admission_invD(1) [OF inv] by (simp add: admission_dispatch_grant)
  with assms(3) have w: "w \<in> set (am_waiters ?r)" by (auto simp: grant_classes_def)
  show ?thesis
  proof (cases "class_choice now avail ?r (aw_class w)")
    case None
    from class_choice_NoneD [OF this] w assms(4,5) have "held_by ?r (aw_class w) \<noteq> 0"
      by (auto simp: admission_eligible_def)
    with held_by_iff [OF admission_inv_remove_cancelled [OF inv]] None w show ?thesis
      by (auto simp: m' grant_classes_def)
  next
    case (Some v)
    with w show ?thesis by (auto simp: m' grant_classes_def)
  qed
qed

lemma admission_dispatch_keeps_holder:
  assumes "admission_inv m" "am_held m c = Some i"
  shows "am_held (admission_dispatch now avail cancelled m) c = Some i"
proof -
  have "held_by (remove_cancelled cancelled m) c \<noteq> 0"
    using held_by_iff [OF assms(1), of c] assms(2) by (simp add: held_by_def remove_cancelled_def split: option.splits)
  then have "class_choice now avail (remove_cancelled cancelled m) c = None" by (simp add: class_choice_def)
  then show ?thesis
    using assms admission_invD(1) [OF assms(1)]
    by (simp add: admission_dispatch_grant grant_classes_def remove_cancelled_def)
qed

text \<open>C40. Exclusive admission: in every reachable state the holder of a class keeps it through
  every step but its own release, holds no other class and does not wait.\<close>

theorem admission_exclusive:
  assumes "admission_reachable m" "am_held m c = Some i" "admission_step e m m'" "e \<noteq> Release c i"
  shows "am_held m' c = Some i \<and> (\<forall>d. am_held m' d = Some i \<longrightarrow> d = c) \<and> i \<notin> aw_id ` set (am_waiters m')"
proof -
  have inv: "admission_inv m" by (rule admission_reachable_inv [OF assms(1)])
  have inv': "admission_inv m'" by (rule admission_step_inv [OF assms(3) inv])
  from assms(3) have "am_held m' c = Some i"
  proof cases
    case (acquire now avail ca r j)
    then show ?thesis
      using admission_acquire_SomeD [OF acquire(2)] assms(2) inv
      by (simp add: admission_dispatch_keeps_holder admission_inv_enqueue)
  next
    case (timer now avail ca)
    then show ?thesis using assms(2) inv by (simp add: admission_dispatch_keeps_holder)
  next
    case (release j cls now avail ca)
    let ?m = "if held_by m cls = j then m\<lparr>am_held := (am_held m)(cls := None)\<rparr> else m"
    let ?n = "?m\<lparr>am_waiters := remove_first (\<lambda>w. aw_id w = j) (am_waiters ?m)\<rparr>"
    have "held_by m c = i" using assms(2) by (simp add: held_by_def)
    then have "am_held ?n c = Some i" using release assms(2,4) by auto
    moreover have "admission_inv ?n" by (rule admission_inv_release_pre [OF inv])
    ultimately show ?thesis using release by (simp add: admission_release_def Let_def admission_dispatch_keeps_holder)
  qed
  with admission_invD(2,4,5) [OF inv'] show ?thesis by auto
qed

text \<open>A wake-up can be lost: when the time of a waiter comes between the dispatch of its
  \<open>acquire\<close> and the computation of its timer, it sets no timer, although its class is free
  and a dispatch would now give the class away.\<close>

theorem admission_due_waiter_sets_no_timer:
  assumes "admission_reachable m" "w \<in> set (am_waiters m)" "\<not> cancelled (aw_id w)"
    and "aw_not_before w \<le> now" "avail (aw_class w) \<le> now" "am_held m (aw_class w) = None"
  shows "next_wake m avail cancelled w now = 0 \<and>
    am_held (admission_dispatch now avail cancelled m) (aw_class w) \<noteq> None"
proof
  have inv: "admission_inv m" by (rule admission_reachable_inv [OF assms(1)])
  show "next_wake m avail cancelled w now = 0" using assms(4,5) by (simp add: next_wake_def Let_def)
  let ?r = "remove_cancelled cancelled m"
  have w: "w \<in> set (am_waiters ?r)" using assms(2,3) by (simp add: remove_cancelled_def)
  have "held_by ?r (aw_class w) = 0" using assms(6) by (simp add: held_by_def remove_cancelled_def)
  with w assms(4,5) obtain v where "class_choice now avail ?r (aw_class w) = Some v"
    using class_choice_NoneD [of now avail ?r "aw_class w"] by (force simp: admission_eligible_def)
  with w show "am_held (admission_dispatch now avail cancelled m) (aw_class w) \<noteq> None"
    using admission_invD(1) [OF inv] by (auto simp: admission_dispatch_grant grant_classes_def)
qed

text \<open>The weight of a request is bounded and grows with its age: between 1 and 200, and never
  smaller later.\<close>

theorem effective_admission_weight_bounds:
  assumes "t \<le> t'"
  shows "1 \<le> effective_admission_weight r t \<and> effective_admission_weight r t' \<le> 200 \<and>
    effective_admission_weight r t \<le> effective_admission_weight r t'"
proof -
  let ?age = "\<lambda>t. if time_sub t (ar_submitted_at r) < 0 then 0 else time_sub t (ar_submitted_at r)"
  let ?bonus = "\<lambda>t. go_quot (?age t) admission_aging_interval"
  have nonneg: "0 \<le> ?bonus t" for t by (intro go_quot_ge_0) auto
  have mono: "?bonus t \<le> ?bonus t'" using time_sub_mono [OF assms, of "ar_submitted_at r"] by (intro go_quot_mono) auto
  have weight: "1 \<le> normalize_admission_weight v" "normalize_admission_weight v \<le> 100" for v
    by (simp_all add: normalize_admission_weight_def)
  have e: "effective_admission_weight r t = normalize_admission_weight (ar_weight r) + min 100 (?bonus t)" for t
    by (simp add: effective_admission_weight_def Let_def)
  show ?thesis unfolding e using nonneg [of t] mono weight [of "ar_weight r"] by (simp add: min_def)
qed

section \<open>A concrete run\<close>

definition demo_request :: "string \<Rightarrow> int \<Rightarrow> gotime \<Rightarrow> admission_request" where
  "demo_request actor priority not_before = \<lparr>ar_operation_id = ''op'', ar_actor = actor, ar_priority = priority,
     ar_weight = 50, ar_submitted_at = 5, ar_admission = \<lparr>ad_class = ''attack'', ad_module = [], ad_affinity = [],
     ad_not_before = not_before, ad_deadline = 0\<rparr>\<rparr>"

abbreviation (input) demo_waiting_for :: "nat \<Rightarrow> int \<Rightarrow> admission_waiter" where
  "demo_waiting_for i p \<equiv> \<lparr>aw_id = i, aw_request = demo_request ''user'' p 20\<rparr>"

definition demo_first :: admission_manager where
  "demo_first = \<lparr>am_next_id = 1, am_held = (\<lambda>_. None), am_waiters = [demo_waiting_for 1 90], am_granted = {}\<rparr>"

definition demo_waiting :: admission_manager where
  "demo_waiting = \<lparr>am_next_id = 2, am_held = (\<lambda>_. None),
     am_waiters = [demo_waiting_for 1 90, demo_waiting_for 2 100], am_granted = {}\<rparr>"

definition demo_granted :: admission_manager where
  "demo_granted = \<lparr>am_next_id = 2, am_held = [''attack'' \<mapsto> 2], am_waiters = [demo_waiting_for 1 90], am_granted = {2}\<rparr>"

lemma demo_trim: "trim_space ''attack'' = ''attack''" by code_simp

lemma demo_request_normal: "normalize_admission_request now (demo_request a p n) = demo_request a p n"
  by (simp add: normalize_admission_request_def demo_request_def demo_trim normalize_admission_weight_def time_is_zero_def)

lemma demo_request_class [simp]:
  "ad_class (ar_admission (demo_request a p n)) = ''attack''"
  "ad_not_before (ar_admission (demo_request a p n)) = n"
  by (simp_all add: demo_request_def)

lemma demo_tier: "admission_tier ''user'' = 4" by code_simp

lemma demo_order: "admission_waiter_before 30 (demo_waiting_for 2 100) (demo_waiting_for 1 90)"
  by (simp add: admission_waiter_before_def demo_request_def demo_tier deadline_before_def time_is_zero_def)

lemmas demo_dispatch_simps = admission_dispatch_def remove_cancelled_def dispatch_class_def held_by_def
  admission_eligible_def remove_at_def demo_order [simplified]

abbreviation (input) demo_dispatch :: "gotime \<Rightarrow> admission_manager \<Rightarrow> admission_manager" where
  "demo_dispatch now m \<equiv> admission_dispatch now (\<lambda>_. 0) (\<lambda>_. False) m"

lemma demo_dispatch_idle: "demo_dispatch 10 demo_first = demo_first" "demo_dispatch 10 demo_waiting = demo_waiting"
  by (simp_all add: demo_first_def demo_waiting_def demo_dispatch_simps)

lemma demo_dispatch_grants: "demo_dispatch 30 demo_waiting = demo_granted"
  by (simp add: demo_waiting_def demo_granted_def demo_dispatch_simps)

lemma demo_waiting_reachable: "admission_reachable demo_waiting"
proof -
  have "admission_acquire 10 (\<lambda>_. 0) (\<lambda>_. False) (demo_request ''user'' 90 20) new_admission_manager
      = Some (1, demo_dispatch 10 demo_first)"
    by (simp add: admission_acquire_def new_admission_manager_def demo_first_def demo_request_normal)
  then have "admission_reachable demo_first"
    unfolding demo_dispatch_idle by (blast intro: admission_reachable.intros admission_step.acquire)
  moreover have "admission_acquire 10 (\<lambda>_. 0) (\<lambda>_. False) (demo_request ''user'' 100 20) demo_first
      = Some (2, demo_dispatch 10 demo_waiting)"
    by (simp add: admission_acquire_def demo_first_def demo_waiting_def demo_request_normal numeral_2_eq_2)
  ultimately show ?thesis
    unfolding demo_dispatch_idle by (blast intro: admission_reachable.intros admission_step.acquire)
qed

lemma demo_timer_step: "admission_step Timer demo_waiting demo_granted"
  unfolding demo_dispatch_grants [symmetric] by (rule admission_step.timer)

lemma demo_granted_reachable: "admission_reachable demo_granted"
  using demo_waiting_reachable demo_timer_step by (rule admission_reachable.step)

theorem admission_order_irrelevant_witness:
  "fold (dispatch_class 30 (\<lambda>_. 0)) [''attack''] (remove_cancelled (\<lambda>_. False) demo_waiting) = demo_granted"
  unfolding demo_dispatch_grants [symmetric]
  by (rule admission_order_irrelevant [OF demo_waiting_reachable]) (simp_all add: remove_cancelled_def demo_waiting_def)

theorem admission_grant_sound_witness: "am_held demo_waiting ''attack'' = None \<and> (0::gotime) \<le> 30"
  using admission_grant_sound [OF demo_waiting_reachable demo_dispatch_grants [symmetric], of "''attack''"]
  by (simp add: demo_waiting_def demo_granted_def)

theorem admission_work_conserving_witness: "am_held demo_granted ''attack'' \<noteq> None"
  using admission_work_conserving [OF demo_waiting_reachable demo_dispatch_grants [symmetric], of "demo_waiting_for 1 90"]
  by (simp add: demo_granted_def)

theorem admission_exclusive_witness:
  "am_held (demo_dispatch 40 demo_granted) ''attack'' = Some 2 \<and>
    2 \<notin> aw_id ` set (am_waiters (demo_dispatch 40 demo_granted))"
  using admission_exclusive [OF demo_granted_reachable _ admission_step.timer, of "''attack''" 2 40 "\<lambda>_. 0" "\<lambda>_. False"]
  by (simp add: demo_granted_def)

theorem admission_due_waiter_sets_no_timer_witness:
  "next_wake demo_waiting (\<lambda>_. 0) (\<lambda>_. False) (demo_waiting_for 2 100) 20 = 0 \<and>
    am_held (demo_dispatch 20 demo_waiting) (aw_class (demo_waiting_for 2 100)) \<noteq> None"
  by (rule admission_due_waiter_sets_no_timer [OF demo_waiting_reachable]) (simp_all add: demo_waiting_def)

theorem effective_admission_weight_bounds_witness:
  "1 \<le> effective_admission_weight (demo_request ''user'' 90 20) 7 \<and>
    effective_admission_weight (demo_request ''user'' 90 20) 8 \<le> 200 \<and>
    effective_admission_weight (demo_request ''user'' 90 20) 7 \<le> effective_admission_weight (demo_request ''user'' 90 20) 8"
  by (rule effective_admission_weight_bounds) simp

end
