(* ===== verification/Latency.thy ===== *)
theory Latency
  imports Prelude
begin

text \<open>
  The window of dispatch latencies (\<^verbatim>\<open>Server/Outbound/Latency.go\<close>): a ring buffer of
  samples and the percentiles reported from it. Durations are in nanoseconds; the reported
  milliseconds are kept here as the whole microseconds from which \<open>durationMilliseconds\<close>
  computes them. \<open>nearestRank\<close> multiplies by a floating-point percentile; the model uses the
  exact quotient, and for the windows of at most 512 samples the two agree, since
  \<open>0.95 * n\<close> and \<open>0.99 * n\<close> are within half a unit in the last place of an integer only
  when they are that integer.
\<close>

section \<open>The ring buffer\<close>

record latency_sample =
  ls_observed_at :: gotime
  ls_intent_origin :: bool
  ls_fast_path :: bool
  ls_intent_to_dispatch :: duration
  ls_queue :: duration
  ls_transport :: duration
  ls_intent_to_transport :: duration

record latency_window =
  lw_capacity :: nat
  lw_samples :: "latency_sample list"
  lw_next :: nat
  lw_full :: bool
  lw_updated_at :: gotime

abbreviation (input) default_dispatch_latency_window :: nat where "default_dispatch_latency_window \<equiv> 512"

definition new_latency_window :: "int \<Rightarrow> latency_window" where
  "new_latency_window capacity = \<lparr>lw_capacity = (if capacity < 1 then default_dispatch_latency_window else nat capacity),
     lw_samples = [], lw_next = 0, lw_full = False, lw_updated_at = time_zero\<rparr>"

definition record_sample :: "latency_sample \<Rightarrow> latency_window \<Rightarrow> latency_window" where
  "record_sample s w =
     (let w = w\<lparr>lw_updated_at := ls_observed_at s\<rparr> in
      if length (lw_samples w) < lw_capacity w then
        (let w = w\<lparr>lw_samples := lw_samples w @ [s]\<rparr> in
         if length (lw_samples w) = lw_capacity w then w\<lparr>lw_full := True, lw_next := 0\<rparr> else w)
      else w\<lparr>lw_samples := (lw_samples w)[lw_next w := s], lw_next := (lw_next w + 1) mod lw_capacity w\<rparr>)"

text \<open>The samples in the order in which \<open>snapshot\<close> copies them.\<close>

definition window_contents :: "latency_window \<Rightarrow> latency_sample list" where
  "window_contents w =
     (if lw_full w then drop (lw_next w) (lw_samples w) @ take (lw_next w) (lw_samples w) else lw_samples w)"

section \<open>Percentiles\<close>

record latency_distribution =
  ld_count :: nat
  ld_last :: int
  ld_p50 :: int
  ld_p95 :: int
  ld_p99 :: int
  ld_maximum :: int

record latency_profile =
  lp_count :: nat
  lp_intent_to_dispatch :: latency_distribution
  lp_queue :: latency_distribution
  lp_transport :: latency_distribution
  lp_intent_to_transport :: latency_distribution

record latency_stats =
  st_target :: int
  st_window_size :: nat
  st_updated_at :: "gotime option"
  st_all :: latency_profile
  st_fast_path :: latency_profile
  st_fast_path_target_met :: bool

text \<open>Whole microseconds, half a microsecond rounded away from zero.\<close>

definition duration_micros :: "duration \<Rightarrow> int" where
  "duration_micros d = sgn d * ((\<bar>d\<bar> + 500) div 1000)"

definition non_negative_duration :: "duration \<Rightarrow> duration" where
  "non_negative_duration d = (if d < 0 then 0 else d)"

definition nearest_rank :: "duration list \<Rightarrow> nat \<Rightarrow> duration" where
  "nearest_rank ordered percent =
     (let index = int ((percent * length ordered + 99) div 100) - 1;
          index = (if index < 0 then 0 else index);
          index = (if int (length ordered) \<le> index then int (length ordered) - 1 else index)
      in ordered ! nat index)"

definition empty_distribution :: latency_distribution where
  "empty_distribution = \<lparr>ld_count = 0, ld_last = 0, ld_p50 = 0, ld_p95 = 0, ld_p99 = 0, ld_maximum = 0\<rparr>"

definition latency_distribution :: "duration list \<Rightarrow> latency_distribution" where
  "latency_distribution values =
     (if values = [] then empty_distribution
      else let ordered = sort values in
        \<lparr>ld_count = length values, ld_last = duration_micros (last values),
         ld_p50 = duration_micros (nearest_rank ordered 50), ld_p95 = duration_micros (nearest_rank ordered 95),
         ld_p99 = duration_micros (nearest_rank ordered 99), ld_maximum = duration_micros (last ordered)\<rparr>)"

definition latency_profile :: "latency_sample list \<Rightarrow> latency_profile" where
  "latency_profile samples =
     (let origin = filter ls_intent_origin samples in
      \<lparr>lp_count = length samples, lp_intent_to_dispatch = latency_distribution (map ls_intent_to_dispatch origin),
       lp_queue = latency_distribution (map ls_queue samples), lp_transport = latency_distribution (map ls_transport samples),
       lp_intent_to_transport = latency_distribution (map ls_intent_to_transport origin)\<rparr>)"

abbreviation (input) dispatch_latency_target :: duration where "dispatch_latency_target \<equiv> 25000000"

definition latency_snapshot :: "latency_window \<Rightarrow> latency_stats" where
  "latency_snapshot w =
     (let samples = window_contents w;
          fast = latency_profile (filter ls_fast_path samples);
          target = duration_micros dispatch_latency_target
      in \<lparr>st_target = target, st_window_size = lw_capacity w,
          st_updated_at = (if time_is_zero (lw_updated_at w) then None else Some (lw_updated_at w)),
          st_all = latency_profile samples, st_fast_path = fast,
          st_fast_path_target_met = (0 < ld_count (lp_intent_to_transport fast) \<and> ld_p95 (lp_intent_to_transport fast) \<le> target)\<rparr>)"

section \<open>The ring holds the last samples\<close>

definition last_n :: "nat \<Rightarrow> 'a list \<Rightarrow> 'a list" where
  "last_n n xs = drop (length xs - n) xs"

text \<open>The abstraction: after the samples \<open>xs\<close> the ring contains the last \<open>capacity\<close> of them.\<close>

definition window_rep :: "nat \<Rightarrow> latency_sample list \<Rightarrow> latency_window \<Rightarrow> bool" where
  "window_rep n xs w \<longleftrightarrow> lw_capacity w = n \<and> 0 < n \<and> window_contents w = last_n n xs \<and>
     length (lw_samples w) \<le> n \<and> lw_next w < n \<and> (lw_full w \<longleftrightarrow> length (lw_samples w) = n)"

lemma last_n_snoc: "0 < n \<Longrightarrow> last_n n (xs @ [x]) = (if length xs < n then last_n n xs @ [x] else tl (last_n n xs) @ [x])"
  by (auto simp: last_n_def tl_drop Suc_diff_le drop_Suc)

lemma length_last_n: "length (last_n n xs) = min n (length xs)"
  by (simp add: last_n_def)

lemma length_window_contents: "length (window_contents w) = length (lw_samples w)"
  by (auto simp: window_contents_def min_def)

lemma rotate_update:
  assumes "k < length xs"
  shows "drop (Suc k) xs @ take k xs @ [x] = tl (drop k xs @ take k xs) @ [x]"
  using assms by (cases "drop k xs") (auto simp: drop_Suc tl_drop [symmetric])

lemma window_rep_record:
  assumes "window_rep n xs w"
  shows "window_rep n (xs @ [s]) (record_sample s w)"
proof -
  from assms have n: "lw_capacity w = n" "0 < n" and c: "window_contents w = last_n n xs"
    and le: "length (lw_samples w) \<le> n" and next_lt: "lw_next w < n" and full: "lw_full w \<longleftrightarrow> length (lw_samples w) = n"
    by (simp_all add: window_rep_def)
  have len: "length (lw_samples w) = min n (length xs)"
    using c length_window_contents [of w] by (simp add: length_last_n)
  show ?thesis
  proof (cases "length (lw_samples w) < n")
    case True
    with full len have "\<not> lw_full w" "length xs < n" by auto
    with True c n show ?thesis
      using next_lt by (auto simp: window_rep_def record_sample_def Let_def window_contents_def last_n_snoc)
  next
    case False
    let ?k = "lw_next w" and ?xs = "lw_samples w"
    from False le len full have lens: "length ?xs = n" "n \<le> length xs" "lw_full w" by auto
    have k: "?k < length ?xs" using next_lt lens by simp
    have rot: "drop (Suc ?k) ?xs @ take ?k ?xs @ [s] = last_n n (xs @ [s])"
      using rotate_update [OF k, of s] c lens n by (simp add: window_contents_def last_n_snoc)
    have "window_contents (record_sample s w) = last_n n (xs @ [s])"
    proof (cases "Suc ?k = n")
      case True
      with rot lens n False show ?thesis
        by (auto simp: record_sample_def window_contents_def Let_def list_update_append upd_conv_take_nth_drop)
    next
      case False2: False
      then have "Suc ?k < n" using next_lt by simp
      with rot lens n False k show ?thesis
        by (auto simp: record_sample_def window_contents_def Let_def upd_conv_take_nth_drop)
    qed
    with lens n False show ?thesis by (simp add: window_rep_def record_sample_def Let_def)
  qed
qed

lemma window_rep_new: "window_rep (lw_capacity (new_latency_window c)) [] (new_latency_window c)"
  by (auto simp: window_rep_def new_latency_window_def window_contents_def last_n_def)

lemma window_rep_fold:
  "window_rep (lw_capacity (new_latency_window c)) xs (fold record_sample xs (new_latency_window c))"
proof (induction xs rule: rev_induct)
  case Nil
  then show ?case by (simp add: window_rep_new)
next
  case (snoc s xs)
  then show ?case using window_rep_record by simp
qed

text \<open>The latency window refines \<open>the last capacity samples\<close>: whatever is recorded, a
  snapshot sees the most recent samples, oldest first, and never more than the capacity.\<close>

theorem latency_window_refines:
  "window_contents (fold record_sample xs (new_latency_window c)) = last_n (lw_capacity (new_latency_window c)) xs \<and>
   length (lw_samples (fold record_sample xs (new_latency_window c))) \<le> lw_capacity (new_latency_window c)"
  using window_rep_fold [of c xs] by (simp add: window_rep_def)

section \<open>The percentiles are percentiles\<close>

lemma length_filter_le_nth:
  fixes xs :: "int list"
  assumes s: "sorted xs" "i < length xs"
  shows "Suc i \<le> length (filter (\<lambda>x. x \<le> xs ! i) xs)"
proof -
  from s have "\<forall>x \<in> set (take (Suc i) xs). x \<le> xs ! i"
    unfolding sorted_iff_nth_mono by (auto simp: in_set_conv_nth less_Suc_eq_le)
  then have "filter (\<lambda>x. x \<le> xs ! i) (take (Suc i) xs) = take (Suc i) xs" by (rule filter_True)
  moreover have "filter (\<lambda>x. x \<le> xs ! i) xs = filter (\<lambda>x. x \<le> xs ! i) (take (Suc i) xs) @ filter (\<lambda>x. x \<le> xs ! i) (drop (Suc i) xs)"
    by (metis append_take_drop_id filter_append)
  ultimately show ?thesis using s(2) by simp
qed

lemma length_filter_less_nth:
  fixes xs :: "int list"
  assumes s: "sorted xs" "i < length xs"
  shows "length (filter (\<lambda>x. x < xs ! i) xs) \<le> i"
proof -
  from s have "\<forall>x \<in> set (drop i xs). \<not> x < xs ! i"
    unfolding sorted_iff_nth_mono by (auto simp: in_set_conv_nth not_less)
  then have "filter (\<lambda>x. x < xs ! i) (drop i xs) = []" by (rule filter_False)
  moreover have "filter (\<lambda>x. x < xs ! i) xs = filter (\<lambda>x. x < xs ! i) (take i xs) @ filter (\<lambda>x. x < xs ! i) (drop i xs)"
    by (metis append_take_drop_id filter_append)
  ultimately show ?thesis by (metis append_Nil2 length_filter_le length_take min.bounded_iff)
qed

lemma nearest_rank_nth:
  assumes "xs \<noteq> []" "0 < p" "p \<le> 100"
  shows "nearest_rank xs p = xs ! ((p * length xs + 99) div 100 - 1)"
    and "(p * length xs + 99) div 100 - 1 < length xs" "1 \<le> (p * length xs + 99) div 100"
proof -
  let ?k = "(p * length xs + 99) div 100"
  have "p * length xs \<le> 100 * length xs" using assms(3) by simp
  then have le: "?k \<le> length xs" by linarith
  have "1 * 1 \<le> p * length xs" using assms(1,2) by (intro mult_le_mono) (auto simp: Suc_le_eq)
  then show ge: "1 \<le> ?k" by linarith
  from le ge show "?k - 1 < length xs" by simp
  have "nat (int ?k - 1) = ?k - 1" by (metis int_ops(2) nat_int ge of_nat_diff)
  then show "nearest_rank xs p = xs ! (?k - 1)"
    using le ge by (auto simp: nearest_rank_def Let_def)
qed

text \<open>Each reported percentile is one of the measured values: at least \<open>p\<close> per cent of the
  values are at most as large and fewer than \<open>p\<close> per cent are smaller.\<close>

lemma nearest_rank_covers:
  assumes "values \<noteq> []" "0 < p" "p \<le> 100" "v = nearest_rank (sort values) p"
  shows "v \<in> set values \<and> p * length values \<le> 100 * length (filter (\<lambda>x. x \<le> v) values) \<and>
    100 * length (filter (\<lambda>x. x < v) values) < p * length values"
proof -
  let ?xs = "sort values" and ?k = "(p * length values + 99) div 100"
  have ne: "?xs \<noteq> []" using assms(1) by (metis length_0_conv length_sort)
  note N = nearest_rank_nth [OF ne assms(2,3), unfolded length_sort]
  have cnt: "length (filter Q ?xs) = length (filter Q values)" for Q
    by (metis filter_sort length_sort)
  have v: "v = ?xs ! (?k - 1)" using N(1) assms(4) by simp
  have "Suc (?k - 1) \<le> length (filter (\<lambda>x. x \<le> v) values)"
    unfolding v cnt [symmetric] using N(2) by (intro length_filter_le_nth) simp_all
  moreover have "length (filter (\<lambda>x. x < v) values) \<le> ?k - 1"
    unfolding v cnt [symmetric] using N(2) by (intro length_filter_less_nth) simp_all
  moreover have "v \<in> set values" unfolding v using N(2) by (metis length_sort nth_mem set_sort)
  ultimately show ?thesis using N(3) by (intro conjI) linarith+
qed

lemma length_filter_mono: "(\<And>x. x \<in> set xs \<Longrightarrow> P x \<Longrightarrow> Q x) \<Longrightarrow> length (filter P xs) \<le> length (filter Q xs)"
  by (induction xs) (auto simp: le_SucI)

lemma duration_micros_le: "0 \<le> k \<Longrightarrow> duration_micros d \<le> k \<longleftrightarrow> d < k * 1000 + 500"
proof (cases d "0 :: int" rule: linorder_cases)
  case less
  assume "0 \<le> k"
  moreover from less have "0 \<le> (- d + 500) div 1000" by (simp add: pos_imp_zdiv_nonneg_iff)
  ultimately show ?thesis using less by (simp add: duration_micros_def)
next
  case greater
  have "(d + 500) div 1000 \<le> k \<longleftrightarrow> d + 500 < 1000 * k + 1000" by (intro iffI) linarith+
  with greater show ?thesis by (simp add: duration_micros_def algebra_simps)
qed (simp add: duration_micros_def)

text \<open>The values behind \<open>FastPath.IntentToTransport\<close>.\<close>

definition fast_path_values :: "latency_window \<Rightarrow> duration list" where
  "fast_path_values w = map ls_intent_to_transport (filter ls_intent_origin (filter ls_fast_path (window_contents w)))"

text \<open>The target is reported met exactly when there are fast-path samples of intents and at
  least 95 per cent of them reached the transport within 25 ms (to the nearest microsecond).\<close>

theorem fast_path_target_met_iff:
  "st_fast_path_target_met (latency_snapshot w) \<longleftrightarrow> fast_path_values w \<noteq> [] \<and>
     95 * length (fast_path_values w) \<le> 100 * length (filter (\<lambda>d. d < 25000500) (fast_path_values w))"
proof (cases "fast_path_values w = []")
  case True
  then show ?thesis
    by (simp add: latency_snapshot_def latency_profile_def latency_distribution_def empty_distribution_def
        fast_path_values_def Let_def)
next
  case False
  let ?vs = "fast_path_values w"
  define v where "v = nearest_rank (sort ?vs) 95"
  have cover: "95 * length ?vs \<le> 100 * length (filter (\<lambda>x. x \<le> v) ?vs)"
    "100 * length (filter (\<lambda>x. x < v) ?vs) < 95 * length ?vs"
    using nearest_rank_covers [OF False _ _ v_def] by simp_all
  have "st_fast_path_target_met (latency_snapshot w) \<longleftrightarrow> duration_micros v \<le> 25000"
    using False unfolding latency_snapshot_def latency_profile_def latency_distribution_def Let_def v_def
    by (simp add: fast_path_values_def duration_micros_def)
  also have "\<dots> \<longleftrightarrow> v < 25000500" by (simp add: duration_micros_le)
  also have "\<dots> \<longleftrightarrow> 95 * length ?vs \<le> 100 * length (filter (\<lambda>d. d < 25000500) ?vs)"
  proof
    assume "v < 25000500"
    then have "length (filter (\<lambda>x. x \<le> v) ?vs) \<le> length (filter (\<lambda>d. d < 25000500) ?vs)"
      by (intro length_filter_mono) simp
    with cover(1) show "95 * length ?vs \<le> 100 * length (filter (\<lambda>d. d < 25000500) ?vs)" by linarith
  next
    assume le: "95 * length ?vs \<le> 100 * length (filter (\<lambda>d. d < 25000500) ?vs)"
    show "v < 25000500"
    proof (rule ccontr)
      assume "\<not> v < 25000500"
      then have "length (filter (\<lambda>d. d < 25000500) ?vs) \<le> length (filter (\<lambda>x. x < v) ?vs)"
        by (intro length_filter_mono) simp
      with cover(2) le show False by linarith
    qed
  qed
  finally show ?thesis using False by simp
qed

end
