(* ===== verification/Router.thy ===== *)
theory Router
  imports Claims Latency
begin

text \<open>
  The outbound router (\<^verbatim>\<open>Server/Outbound/Router.go\<close>, \<^verbatim>\<open>Outcome.go\<close>): commands
  wait in one queue per lane; a single goroutine repeatedly takes the best command of the lanes
  whose pause is over, checks and sends it, and answers the caller. The router's mutex makes
  each critical section one step; what the environment decides is an argument: the clock, the
  error of each caller's context (\<open>ctx_err\<close>), the readiness of the connection, the gate, the
  outcome of the transport.

  The answer of a command is the first value sent to its channel of capacity one
  (\<open>completeQueuedCommand\<close> drops later ones); \<open>rt_results\<close> maps a command's number to it.
  The goroutine \<open>run\<close> is at one of three places, \<open>rt_run\<close>. \<open>rt_withdrawn\<close> and
  \<open>rt_cancelled\<close> collect the commands withdrawn by \<open>removeQueued\<close> and those whose context
  the router cancelled.
\<close>

section \<open>Errors\<close>

datatype lane = Lane_command | Lane_attack_launch

datatype go_error = Err_closed | Err_not_ready | Err_queue_full lane | Err_reset | Err_connection_changed
  | Ctx_canceled | Ctx_deadline_exceeded | Err_indeterminate
  | Indeterminate_error go_error | Wrapped_error string go_error | Other_error string

text \<open>\<open>errors.Is(err, ErrIndeterminate)\<close>: along the chain of wrapped errors.\<close>

fun error_is_indeterminate :: "go_error \<Rightarrow> bool" where
  "error_is_indeterminate Err_indeterminate = True"
| "error_is_indeterminate (Indeterminate_error e) = True"
| "error_is_indeterminate (Wrapped_error s e) = error_is_indeterminate e"
| "error_is_indeterminate e = False"

definition is_indeterminate :: "go_error option \<Rightarrow> bool" where
  "is_indeterminate err = (case err of None \<Rightarrow> False | Some e \<Rightarrow> error_is_indeterminate e)"

definition mark_indeterminate :: "go_error option \<Rightarrow> go_error option" where
  "mark_indeterminate err =
     (if err = None \<or> is_indeterminate err then err else map_option Indeterminate_error err)"

section \<open>State\<close>

record queued_command =
  qc_id :: nat
  qc_lane :: lane
  qc_metadata :: metadata
  qc_payload :: string
  qc_ctx :: go_context
  qc_enqueued_at :: gotime
  qc_dispatched_at :: gotime
  qc_fast_path :: bool

datatype run_state = Run_idle | Run_dispatching queued_command | Run_sending queued_command

record router =
  rt_maximum :: nat
  rt_next_id :: nat
  rt_queues :: "lane \<Rightarrow> queued_command list"
  rt_in_flight :: "queued_command list"
  rt_next_allowed :: "lane \<Rightarrow> gotime"
  rt_latency :: latency_window
  rt_measured_operations :: "string set"
  rt_measured_order :: "string list"
  rt_closed :: bool
  rt_close_err :: "go_error option"
  rt_results :: "nat \<Rightarrow> go_error option option"
  rt_withdrawn :: "nat set"
  rt_cancelled :: "nat set"
  rt_run :: run_state

abbreviation (input) default_maximum_queued_per_lane :: nat where "default_maximum_queued_per_lane \<equiv> 2048"
abbreviation (input) maximum_measured_operations :: nat where "maximum_measured_operations \<equiv> 4096"

definition new_router :: "int \<Rightarrow> router" where
  "new_router maximum = \<lparr>rt_maximum = (if maximum \<le> 0 then default_maximum_queued_per_lane else nat maximum),
     rt_next_id = 0, rt_queues = (\<lambda>_. []), rt_in_flight = [], rt_next_allowed = (\<lambda>_. time_zero),
     rt_latency = new_latency_window (int default_dispatch_latency_window),
     rt_measured_operations = {}, rt_measured_order = [], rt_closed = False, rt_close_err = None,
     rt_results = (\<lambda>_. None), rt_withdrawn = {}, rt_cancelled = {}, rt_run = Run_idle\<rparr>"

text \<open>\<open>completeQueuedCommand\<close> and \<open>cancel\<close>.\<close>

definition complete_command :: "nat \<Rightarrow> go_error option \<Rightarrow> router \<Rightarrow> router" where
  "complete_command i err r =
     (case rt_results r i of None \<Rightarrow> r\<lparr>rt_results := (rt_results r)(i := Some err)\<rparr> | Some _ \<Rightarrow> r)"

definition cancel_command :: "nat \<Rightarrow> router \<Rightarrow> router" where
  "cancel_command i r = r\<lparr>rt_cancelled := insert i (rt_cancelled r)\<rparr>"

text \<open>\<open>command.ctx.Err()\<close>.\<close>

definition command_ctx_err :: "(nat \<Rightarrow> go_error option) \<Rightarrow> router \<Rightarrow> queued_command \<Rightarrow> go_error option" where
  "command_ctx_err ctx_err r c =
     (case ctx_err (qc_id c) of Some e \<Rightarrow> Some e
      | None \<Rightarrow> if qc_id c \<in> rt_cancelled r then Some Ctx_canceled else None)"

section \<open>Queueing\<close>

definition enqueue_command :: "gotime \<Rightarrow> go_context \<Rightarrow> lane \<Rightarrow> string \<Rightarrow> metadata \<Rightarrow> router \<Rightarrow>
    go_error + (queued_command \<times> router)" where
  "enqueue_command now ctx l payload md r =
     (if rt_closed r then Inl (case rt_close_err r of Some e \<Rightarrow> e | None \<Rightarrow> Err_closed)
      else if rt_maximum r \<le> length (rt_queues r l) then Inl (Err_queue_full l)
      else let fast_path = (rt_in_flight r = [] \<and> rt_queues r Lane_command = [] \<and> rt_queues r Lane_attack_launch = []
                 \<and> \<not> now < rt_next_allowed r l);
               c = \<lparr>qc_id = Suc (rt_next_id r), qc_lane = l, qc_metadata = md, qc_payload = payload,
                    qc_ctx = with_metadata ctx md, qc_enqueued_at = now, qc_dispatched_at = time_zero,
                    qc_fast_path = fast_path\<rparr>
           in Inr (c, r\<lparr>rt_next_id := Suc (rt_next_id r), rt_queues := (rt_queues r)(l := rt_queues r l @ [c])\<rparr>))"

definition remove_queued :: "nat \<Rightarrow> lane \<Rightarrow> router \<Rightarrow> bool \<times> router" where
  "remove_queued i l r =
     (if list_ex (\<lambda>c. qc_id c = i) (rt_queues r l)
      then (True, cancel_command i (r\<lparr>rt_queues := (rt_queues r)(l := remove_first (\<lambda>c. qc_id c = i) (rt_queues r l)),
                    rt_withdrawn := insert i (rt_withdrawn r)\<rparr>))
      else (False, r))"

section \<open>Selecting the next command\<close>

definition queued_command_before_at :: "gotime \<Rightarrow> queued_command \<Rightarrow> queued_command \<Rightarrow> bool" where
  "queued_command_before_at now l r \<longleftrightarrow>
     (let lp = aged_priority (md_priority (qc_metadata l)) (qc_enqueued_at l) now;
          rp = aged_priority (md_priority (qc_metadata r)) (qc_enqueued_at r) now
      in if lp \<noteq> rp then rp < lp
         else deadline_before (md_deadline (qc_metadata l)) (md_deadline (qc_metadata r)) (qc_id l < qc_id r))"

definition command_deadline :: "queued_command \<Rightarrow> gotime" where
  "command_deadline c = md_deadline (qc_metadata c)"

definition command_expired :: "gotime \<Rightarrow> (nat \<Rightarrow> go_error option) \<Rightarrow> router \<Rightarrow> queued_command \<Rightarrow> bool" where
  "command_expired now ctx_err r c \<longleftrightarrow>
     command_ctx_err ctx_err r c \<noteq> None \<or>
     (\<not> time_is_zero (command_deadline c) \<and> \<not> now < command_deadline c)"

text \<open>The inner loop over the live commands of a lane: the command selected so far with its lane
  and index, and the instant to wake up at (zero while there is none).\<close>

fun scan_lane :: "gotime \<Rightarrow> lane \<Rightarrow> gotime \<Rightarrow> nat \<Rightarrow> queued_command list \<Rightarrow>
    (lane \<times> nat \<times> queued_command) option \<times> gotime \<Rightarrow> (lane \<times> nat \<times> queued_command) option \<times> gotime" where
  "scan_lane now l allowed_at i [] acc = acc"
| "scan_lane now l allowed_at i (c # cs) (sel, wake_at) =
     scan_lane now l allowed_at (Suc i) cs
       (if now < allowed_at then
          (let candidate = (if \<not> time_is_zero (command_deadline c) \<and> command_deadline c < allowed_at
                            then command_deadline c else allowed_at)
           in (sel, if time_is_zero wake_at \<or> candidate < wake_at then candidate else wake_at))
        else ((case sel of None \<Rightarrow> Some (l, i, c)
               | Some (_, _, s) \<Rightarrow> if queued_command_before_at now c s then Some (l, i, c) else sel), wake_at))"

definition complete_expired :: "(nat \<Rightarrow> go_error option) \<Rightarrow> router \<Rightarrow> queued_command list \<Rightarrow> router \<Rightarrow> router" where
  "complete_expired ctx_err r0 expired r =
     fold (\<lambda>c r. cancel_command (qc_id c) (complete_command (qc_id c)
       (Some (case command_ctx_err ctx_err r0 c of Some e \<Rightarrow> e | None \<Rightarrow> Ctx_deadline_exceeded)) r)) expired r"

text \<open>
  One pass of the loop of \<open>next\<close>, with the completion of the expired commands: the selected
  command if any, whether anything is queued, and the instant to wake up at.
\<close>

definition next_pass :: "gotime \<Rightarrow> (nat \<Rightarrow> go_error option) \<Rightarrow> router \<Rightarrow>
    queued_command option \<times> bool \<times> gotime \<times> router" where
  "next_pass now ctx_err r =
     (let dead = command_expired now ctx_err r;
          live = (\<lambda>l. filter (\<lambda>c. \<not> dead c) (rt_queues r l));
          expired = filter dead (rt_queues r Lane_command) @ filter dead (rt_queues r Lane_attack_launch);
          r1 = r\<lparr>rt_queues := live\<rparr>;
          (selected, wake_at) =
            scan_lane now Lane_attack_launch (rt_next_allowed r Lane_attack_launch) 0 (live Lane_attack_launch)
              (scan_lane now Lane_command (rt_next_allowed r Lane_command) 0 (live Lane_command) (None, time_zero));
          r2 = (case selected of None \<Rightarrow> r1
                | Some (l, i, c) \<Rightarrow> r1\<lparr>rt_queues := (rt_queues r1)(l := remove_at i (rt_queues r1 l)),
                                     rt_in_flight := rt_in_flight r1 @ [c]\<rparr>)
      in (map_option (\<lambda>(_, _, c). c) selected, live Lane_command \<noteq> [] \<or> live Lane_attack_launch \<noteq> [], wake_at,
          complete_expired ctx_err r expired r2))"

section \<open>Dispatching\<close>

text \<open>
  The checks of \<open>dispatch\<close>: \<open>Inl\<close> an error, or the command stamped with the instant at
  which the transport is called. \<open>ready\<close>, \<open>gate\<close> and the transport may be unset.
\<close>

definition dispatch_check :: "gotime \<Rightarrow> (nat \<Rightarrow> go_error option) \<Rightarrow> (metadata \<Rightarrow> go_error option) option \<Rightarrow>
    bool option \<Rightarrow> bool \<Rightarrow> router \<Rightarrow> queued_command \<Rightarrow> go_error + queued_command" where
  "dispatch_check now ctx_err gate ready has_send r c =
     (case command_ctx_err ctx_err r c of Some e \<Rightarrow> Inl e | None \<Rightarrow>
      if \<not> time_is_zero (command_deadline c) \<and> \<not> now < command_deadline c then Inl Ctx_deadline_exceeded
      else case (case gate of None \<Rightarrow> None | Some g \<Rightarrow> g (qc_metadata c)) of Some e \<Rightarrow> Inl e | None \<Rightarrow>
      if ready = Some False then Inl Err_not_ready
      else case validate_final_dispatch now (qc_ctx c) of Some e \<Rightarrow> Inl (Other_error e) | None \<Rightarrow>
      if \<not> has_send then Inl Err_closed
      else Inr (c\<lparr>qc_dispatched_at := now\<rparr>))"

text \<open>\<open>delay\<close> is the answer of the lane's delay function, 0 when it is unset.\<close>

definition record_dispatch :: "gotime \<Rightarrow> duration \<Rightarrow> queued_command \<Rightarrow> router \<Rightarrow> router" where
  "record_dispatch now delay c r =
     (let delay = (if delay < 0 then 0 else delay);
          dispatched_at = (if time_is_zero (qc_dispatched_at c) then now else qc_dispatched_at c)
      in if qc_id c \<in> qc_id ` set (rt_in_flight r)
         then r\<lparr>rt_next_allowed := (rt_next_allowed r)(qc_lane c := dispatched_at + delay)\<rparr> else r)"

definition claim_first_successful_intent_command :: "string \<Rightarrow> router \<Rightarrow> bool \<times> router" where
  "claim_first_successful_intent_command operation_id r =
     (let operation_id = trim_space operation_id in
      if operation_id = [] then (True, r)
      else if operation_id \<in> rt_measured_operations r then (False, r)
      else let r = (if maximum_measured_operations \<le> length (rt_measured_order r)
                    then r\<lparr>rt_measured_operations := rt_measured_operations r - {hd (rt_measured_order r)},
                           rt_measured_order := tl (rt_measured_order r)\<rparr>
                    else r)
           in (True, r\<lparr>rt_measured_operations := insert operation_id (rt_measured_operations r),
                       rt_measured_order := rt_measured_order r @ [operation_id]\<rparr>))"

definition record_latency :: "gotime \<Rightarrow> queued_command \<Rightarrow> router \<Rightarrow> router" where
  "record_latency completed_at c r =
     (if time_is_zero (qc_dispatched_at c) then r
      else let submitted_at = md_submitted_at (qc_metadata c);
               sample = \<lparr>ls_observed_at = completed_at, ls_intent_origin = False, ls_fast_path = qc_fast_path c,
                 ls_intent_to_dispatch = 0,
                 ls_queue = non_negative_duration (time_sub (qc_dispatched_at c) (qc_enqueued_at c)),
                 ls_transport = non_negative_duration (time_sub completed_at (qc_dispatched_at c)),
                 ls_intent_to_transport = 0\<rparr>;
               (origin, r) = (if \<not> time_is_zero submitted_at \<and> \<not> qc_dispatched_at c < submitted_at
                    then claim_first_successful_intent_command (md_operation_id (qc_metadata c)) r else (False, r));
               sample = (if origin then sample\<lparr>ls_intent_origin := True,
                    ls_intent_to_dispatch := non_negative_duration (time_sub (qc_dispatched_at c) submitted_at),
                    ls_intent_to_transport := non_negative_duration (time_sub completed_at submitted_at)\<rparr> else sample)
           in r\<lparr>rt_latency := record_sample sample (rt_latency r)\<rparr>)"

definition finish_command :: "queued_command \<Rightarrow> go_error option \<Rightarrow> router \<Rightarrow> router" where
  "finish_command c err r =
     cancel_command (qc_id c) (complete_command (qc_id c) err
       (r\<lparr>rt_in_flight := filter (\<lambda>d. qc_id d \<noteq> qc_id c) (rt_in_flight r)\<rparr>))"

section \<open>Reset and close\<close>

definition take_all :: "router \<Rightarrow> queued_command list \<times> router" where
  "take_all r =
     (rt_queues r Lane_command @ rt_queues r Lane_attack_launch @ rt_in_flight r,
      r\<lparr>rt_queues := (\<lambda>_. []), rt_in_flight := []\<rparr>)"

definition abandon_commands :: "go_error \<Rightarrow> queued_command list \<Rightarrow> router \<Rightarrow> router" where
  "abandon_commands err cs r =
     fold (\<lambda>c r. complete_command (qc_id c)
         (if \<not> time_is_zero (qc_dispatched_at c) then mark_indeterminate (Some err) else Some err)
         (cancel_command (qc_id c) r)) cs r"

definition reset_router :: "router \<Rightarrow> router" where
  "reset_router r =
     (let (commands, r) = take_all r
      in abandon_commands Err_reset commands (r\<lparr>rt_next_allowed := (\<lambda>_. time_zero)\<rparr>))"

definition close_with_error :: "go_error option \<Rightarrow> router \<Rightarrow> router" where
  "close_with_error err r =
     (let err = (case err of None \<Rightarrow> Err_closed | Some e \<Rightarrow> e) in
      if rt_closed r then r
      else let (commands, r) = take_all (r\<lparr>rt_closed := True, rt_close_err := Some err\<rparr>)
           in abandon_commands err commands r)"

definition closed_error :: "router \<Rightarrow> go_error" where
  "closed_error r = (case rt_close_err r of Some e \<Rightarrow> e | None \<Rightarrow> Err_closed)"

section \<open>The goroutine\<close>

text \<open>
  \<open>run\<close> in three steps: take a command, check it, and handle the transport's answer. A
  command and its entry in the map of commands in flight are one object in the code, so the
  stamp \<open>dispatchedAt\<close> is written to both.
\<close>

definition run_next :: "gotime \<Rightarrow> (nat \<Rightarrow> go_error option) \<Rightarrow> router \<Rightarrow> router" where
  "run_next now ctx_err r =
     (if rt_run r \<noteq> Run_idle \<or> rt_closed r then r
      else let (selected, _, _, r) = next_pass now ctx_err r
           in case selected of None \<Rightarrow> r | Some c \<Rightarrow> r\<lparr>rt_run := Run_dispatching c\<rparr>)"

definition run_dispatch :: "gotime \<Rightarrow> (nat \<Rightarrow> go_error option) \<Rightarrow> (metadata \<Rightarrow> go_error option) option \<Rightarrow>
    bool option \<Rightarrow> bool \<Rightarrow> router \<Rightarrow> router" where
  "run_dispatch now ctx_err gate ready has_send r =
     (case rt_run r of
        Run_dispatching c \<Rightarrow>
          (case dispatch_check now ctx_err gate ready has_send r c of
             Inl e \<Rightarrow> (finish_command c (Some e) r)\<lparr>rt_run := Run_idle\<rparr>
           | Inr c' \<Rightarrow> r\<lparr>rt_run := Run_sending c',
               rt_in_flight := map (\<lambda>d. if qc_id d = qc_id c then c' else d) (rt_in_flight r)\<rparr>)
      | _ \<Rightarrow> r)"

definition run_sent :: "gotime \<Rightarrow> duration \<Rightarrow> go_error option \<Rightarrow> router \<Rightarrow> router" where
  "run_sent now delay err r =
     (case rt_run r of
        Run_sending c \<Rightarrow>
          (finish_command c err (if err = None then record_latency now c (record_dispatch now delay c r) else r))
            \<lparr>rt_run := Run_idle\<rparr>
      | _ \<Rightarrow> r)"

inductive router_step :: "router \<Rightarrow> router \<Rightarrow> bool" where
  enqueue: "enqueue_command now ctx l payload md r = Inr (c, r') \<Longrightarrow> router_step r r'"
| withdraw: "remove_queued i l r = (b, r') \<Longrightarrow> router_step r r'"
| run_next: "0 < now \<Longrightarrow> router_step r (run_next now ctx_err r)"
| run_dispatch: "0 < now \<Longrightarrow> router_step r (run_dispatch now ctx_err gate ready has_send r)"
| run_sent: "router_step r (run_sent now delay err r)"
| reset: "router_step r (reset_router r)"
| close: "router_step r (close_with_error err r)"

inductive router_reachable :: "router \<Rightarrow> bool" where
  start: "router_reachable (new_router maximum)"
| step: "router_reachable r \<Longrightarrow> router_step r r' \<Longrightarrow> router_reachable r'"

section \<open>The order of dispatch is a waiter order\<close>

interpretation queue_order: waiter_order "queued_command_before_at now" qc_id for now
  unfolding queued_command_before_at_def Let_def
  by (intro waiter_order_desc waiter_order_deadline waiter_order_ident)

section \<open>Accounting for commands\<close>

text \<open>Every number given out is that of a command that is here, answered or withdrawn, and only
  one of them.\<close>

definition accounting :: "nat list \<Rightarrow> nat \<Rightarrow> nat set \<Rightarrow> nat set \<Rightarrow> bool" where
  "accounting ids n answered withdrawn \<longleftrightarrow>
     distinct ids \<and> set ids \<union> answered \<union> withdrawn = {1..n} \<and>
     set ids \<inter> answered = {} \<and> set ids \<inter> withdrawn = {} \<and> answered \<inter> withdrawn = {}"

lemma accounting_move:
  assumes a: "accounting ids n A W" and m: "mset ids = mset ids' + mset xs + mset ys"
  shows "accounting ids' n (A \<union> set xs) (W \<union> set ys)"
proof -
  have eq: "mset ids = mset (ids' @ xs @ ys)" using m by simp
  have "distinct (ids' @ xs @ ys)" using a eq by (metis accounting_def mset_eq_imp_distinct_iff)
  moreover have "set ids = set (ids' @ xs @ ys)" using eq by (rule mset_eq_setD)
  ultimately show ?thesis using a unfolding accounting_def by auto
qed

lemma accounting_new:
  "accounting ids n A W \<Longrightarrow> mset ids' = add_mset (Suc n) (mset ids) \<Longrightarrow> accounting ids' (Suc n) A W"
proof -
  assume a: "accounting ids n A W" and m: "mset ids' = add_mset (Suc n) (mset ids)"
  from m have eq: "mset ids' = mset (Suc n # ids)" by simp
  have fresh: "Suc n \<notin> set ids \<union> A \<union> W" using a by (simp add: accounting_def)
  have "distinct ids'" using a fresh eq by (metis UnI1 accounting_def distinct.simps(2) mset_eq_imp_distinct_iff)
  moreover have "set ids' = insert (Suc n) (set ids)" using mset_eq_setD [OF eq] by simp
  moreover have "{1..Suc n} = insert (Suc n) {1..n}" by auto
  ultimately show ?thesis using a fresh unfolding accounting_def by auto
qed

definition router_ids :: "router \<Rightarrow> nat list" where
  "router_ids r = map qc_id (rt_queues r Lane_command @ rt_queues r Lane_attack_launch @ rt_in_flight r)"

fun run_ok :: "run_state \<Rightarrow> queued_command list \<Rightarrow> nat set \<Rightarrow> bool" where
  "run_ok Run_idle fl answered \<longleftrightarrow> fl = []"
| "run_ok (Run_dispatching c) fl answered \<longleftrightarrow> fl = [c] \<and> qc_dispatched_at c = 0 \<or> fl = [] \<and> qc_id c \<in> answered"
| "run_ok (Run_sending c) fl answered \<longleftrightarrow> qc_dispatched_at c \<noteq> 0 \<and> (fl = [c] \<or> fl = [] \<and> qc_id c \<in> answered)"

definition router_inv :: "router \<Rightarrow> bool" where
  "router_inv r \<longleftrightarrow>
     accounting (router_ids r) (rt_next_id r) (dom (rt_results r)) (rt_withdrawn r) \<and>
     (\<forall>l. length (rt_queues r l) \<le> rt_maximum r \<and> (\<forall>c \<in> set (rt_queues r l). qc_lane c = l \<and> qc_dispatched_at c = 0)) \<and>
     run_ok (rt_run r) (rt_in_flight r) (dom (rt_results r)) \<and>
     (rt_closed r \<longrightarrow> router_ids r = [])"

lemma router_invI:
  assumes "accounting (router_ids r) (rt_next_id r) (dom (rt_results r)) (rt_withdrawn r)"
    "\<And>l. length (rt_queues r l) \<le> rt_maximum r"
    "\<And>l c. c \<in> set (rt_queues r l) \<Longrightarrow> qc_lane c = l \<and> qc_dispatched_at c = 0"
    "run_ok (rt_run r) (rt_in_flight r) (dom (rt_results r))"
    "rt_closed r \<Longrightarrow> router_ids r = []"
  shows "router_inv r"
  using assms unfolding router_inv_def by blast

lemma router_invD:
  assumes "router_inv r"
  shows "accounting (router_ids r) (rt_next_id r) (dom (rt_results r)) (rt_withdrawn r)"
    "length (rt_queues r l) \<le> rt_maximum r"
    "c \<in> set (rt_queues r l) \<Longrightarrow> qc_lane c = l" "c \<in> set (rt_queues r l) \<Longrightarrow> qc_dispatched_at c = 0"
    "run_ok (rt_run r) (rt_in_flight r) (dom (rt_results r))"
    "rt_closed r \<Longrightarrow> router_ids r = []"
  using assms unfolding router_inv_def by blast+

lemma run_ok_mono: "run_ok st fl A \<Longrightarrow> A \<subseteq> B \<Longrightarrow> run_ok st fl B"
  by (cases st) auto

lemma run_ok_empty: "run_ok st fl A \<Longrightarrow> qc_id ` set fl \<subseteq> B \<Longrightarrow> A \<subseteq> B \<Longrightarrow> run_ok st [] B"
  by (cases st) auto

section \<open>What the auxiliary operations touch\<close>

lemma dom_complete [simp]: "dom (rt_results (complete_command i e r)) = insert i (dom (rt_results r))"
  by (auto simp: complete_command_def split: option.splits)

lemma complete_keeps [simp]:
  "rt_queues (complete_command i e r) = rt_queues r" "rt_in_flight (complete_command i e r) = rt_in_flight r"
  "rt_next_id (complete_command i e r) = rt_next_id r" "rt_withdrawn (complete_command i e r) = rt_withdrawn r"
  "rt_maximum (complete_command i e r) = rt_maximum r" "rt_run (complete_command i e r) = rt_run r"
  "rt_closed (complete_command i e r) = rt_closed r" "rt_next_allowed (complete_command i e r) = rt_next_allowed r"
  by (simp_all add: complete_command_def split: option.splits)

lemma cancel_keeps [simp]:
  "rt_queues (cancel_command i r) = rt_queues r" "rt_in_flight (cancel_command i r) = rt_in_flight r"
  "rt_next_id (cancel_command i r) = rt_next_id r" "rt_withdrawn (cancel_command i r) = rt_withdrawn r"
  "rt_maximum (cancel_command i r) = rt_maximum r" "rt_run (cancel_command i r) = rt_run r"
  "rt_closed (cancel_command i r) = rt_closed r" "rt_next_allowed (cancel_command i r) = rt_next_allowed r"
  "rt_results (cancel_command i r) = rt_results r"
  by (simp_all add: cancel_command_def)

lemma complete_expired_keeps [simp]:
  "rt_queues (complete_expired env r0 cs r) = rt_queues r" "rt_in_flight (complete_expired env r0 cs r) = rt_in_flight r"
  "rt_next_id (complete_expired env r0 cs r) = rt_next_id r" "rt_withdrawn (complete_expired env r0 cs r) = rt_withdrawn r"
  "rt_maximum (complete_expired env r0 cs r) = rt_maximum r" "rt_run (complete_expired env r0 cs r) = rt_run r"
  "rt_closed (complete_expired env r0 cs r) = rt_closed r" "rt_next_allowed (complete_expired env r0 cs r) = rt_next_allowed r"
  "dom (rt_results (complete_expired env r0 cs r)) = dom (rt_results r) \<union> qc_id ` set cs"
  unfolding complete_expired_def by (induction cs arbitrary: r) auto

lemma abandon_keeps [simp]:
  "rt_queues (abandon_commands e cs r) = rt_queues r" "rt_in_flight (abandon_commands e cs r) = rt_in_flight r"
  "rt_next_id (abandon_commands e cs r) = rt_next_id r" "rt_withdrawn (abandon_commands e cs r) = rt_withdrawn r"
  "rt_maximum (abandon_commands e cs r) = rt_maximum r" "rt_run (abandon_commands e cs r) = rt_run r"
  "rt_closed (abandon_commands e cs r) = rt_closed r" "rt_next_allowed (abandon_commands e cs r) = rt_next_allowed r"
  "dom (rt_results (abandon_commands e cs r)) = dom (rt_results r) \<union> qc_id ` set cs"
  unfolding abandon_commands_def by (induction cs arbitrary: r) auto

lemma record_keeps [simp]:
  "rt_queues (record_latency t c r) = rt_queues r" "rt_in_flight (record_latency t c r) = rt_in_flight r"
  "rt_next_id (record_latency t c r) = rt_next_id r" "rt_withdrawn (record_latency t c r) = rt_withdrawn r"
  "rt_maximum (record_latency t c r) = rt_maximum r" "rt_results (record_latency t c r) = rt_results r"
  "rt_closed (record_latency t c r) = rt_closed r" "rt_next_allowed (record_latency t c r) = rt_next_allowed r"
  "rt_run (record_latency t c r) = rt_run r"
  "rt_queues (record_dispatch t d c r) = rt_queues r" "rt_in_flight (record_dispatch t d c r) = rt_in_flight r"
  "rt_next_id (record_dispatch t d c r) = rt_next_id r" "rt_withdrawn (record_dispatch t d c r) = rt_withdrawn r"
  "rt_maximum (record_dispatch t d c r) = rt_maximum r" "rt_results (record_dispatch t d c r) = rt_results r"
  "rt_closed (record_dispatch t d c r) = rt_closed r" "rt_run (record_dispatch t d c r) = rt_run r"
  by (simp_all add: record_latency_def record_dispatch_def claim_first_successful_intent_command_def Let_def
      split: prod.splits if_splits)

end
