(* ===== verification/RouterProofs.thy ===== *)
theory RouterProofs
  imports Router
begin

text \<open>
  Proofs about the outbound router: what its selection loop finds, that every step preserves the
  invariant \<open>router_inv\<close>, and the properties of its reachable states.
\<close>

section \<open>What the selection loop finds\<close>

lemma scan_lane_blocked:
  "now < allowed \<Longrightarrow> fst (scan_lane now l allowed i cs acc) = fst acc"
  by (induction now l allowed i cs acc rule: scan_lane.induct) (auto simp: Let_def)

lemma scan_lane_open_wake:
  "\<not> now < allowed \<Longrightarrow> snd (scan_lane now l allowed i cs acc) = snd acc"
  by (induction now l allowed i cs acc rule: scan_lane.induct) auto

lemma scan_lane_open:
  assumes "\<not> now < allowed" "distinct (map qc_id cs)"
    and "\<And>m j s. fst acc = Some (m, j, s) \<Longrightarrow> qc_id s \<notin> qc_id ` set cs"
  shows "(fst (scan_lane now l allowed i cs acc) = None \<longleftrightarrow> fst acc = None \<and> cs = []) \<and>
    (\<forall>m j c. fst (scan_lane now l allowed i cs acc) = Some (m, j, c) \<longrightarrow>
       (fst acc = Some (m, j, c) \<or> m = l \<and> i \<le> j \<and> j < i + length cs \<and> cs ! (j - i) = c) \<and>
       (\<forall>v \<in> set cs. v = c \<or> queued_command_before_at now c v) \<and>
       (\<forall>n k s. fst acc = Some (n, k, s) \<longrightarrow> s = c \<or> queued_command_before_at now c s))"
  using assms
proof (induction cs arbitrary: i acc)
  case (Cons a cs)
  obtain sel w where acc: "acc = (sel, w)" by (cases acc)
  define sel' where "sel' = (case sel of None \<Rightarrow> Some (l, i, a)
    | Some (_, _, s) \<Rightarrow> if queued_command_before_at now a s then Some (l, i, a) else sel)"
  have step: "scan_lane now l allowed i (a # cs) acc = scan_lane now l allowed (Suc i) cs (sel', w)"
    using Cons.prems(1) by (simp add: acc sel'_def)
  have ns: "sel' \<noteq> None" by (auto simp: sel'_def split: option.splits)
  have "qc_id s \<notin> qc_id ` set cs" if "fst (sel', w) = Some (m, j, s)" for m j s
    using that Cons.prems(2,3) by (auto simp: sel'_def acc split: option.splits if_splits)
  note IH = Cons.IH [where i = "Suc i" and acc = "(sel', w)", OF Cons.prems(1) _ this]
  have sel: "(s = a \<or> queued_command_before_at now s a) \<and> (sel = Some t \<longrightarrow> snd (snd t) = s \<or> queued_command_before_at now s (snd (snd t)))"
    and src: "sel = Some (m, j, s) \<or> (m, j, s) = (l, i, a)"
    if "sel' = Some (m, j, s)" for m j s t
  proof -
    have tot: "queued_command_before_at now a x \<or> queued_command_before_at now x a" if "sel = Some (m, j, x)" for m j x
      using queue_order.before_total [of a x now] Cons.prems(3) [of m j x] that by (auto simp: acc image_iff)
    show "(s = a \<or> queued_command_before_at now s a) \<and> (sel = Some t \<longrightarrow> snd (snd t) = s \<or> queued_command_before_at now s (snd (snd t)))"
      using that tot by (cases t) (auto simp: sel'_def split: option.splits if_splits)
    show "sel = Some (m, j, s) \<or> (m, j, s) = (l, i, a)"
      using that by (auto simp: sel'_def split: option.splits if_splits)
  qed
  show ?case
  proof (intro conjI allI impI)
    show "(fst (scan_lane now l allowed i (a # cs) acc) = None) = (fst acc = None \<and> a # cs = [])"
      using IH Cons.prems(2) ns by (simp add: step)
    fix m j c assume r: "fst (scan_lane now l allowed i (a # cs) acc) = Some (m, j, c)"
    with IH Cons.prems(2)
    have h: "sel' = Some (m, j, c) \<or> m = l \<and> Suc i \<le> j \<and> j < Suc i + length cs \<and> cs ! (j - Suc i) = c"
      and least: "\<forall>v \<in> set cs. v = c \<or> queued_command_before_at now c v"
      and leastsel: "\<forall>n k s. sel' = Some (n, k, s) \<longrightarrow> s = c \<or> queued_command_before_at now c s"
      by (auto simp: step)
    from ns obtain n k s where s: "sel' = Some (n, k, s)" by auto
    have below: "s = x \<or> queued_command_before_at now s x \<Longrightarrow> x = c \<or> queued_command_before_at now c x" for x
      using leastsel s queue_order.before_trans by blast
    show "fst acc = Some (m, j, c) \<or> m = l \<and> i \<le> j \<and> j < i + length (a # cs) \<and> (a # cs) ! (j - i) = c"
      using h src [of m j c] by (auto simp: acc nth_Cons' Suc_le_eq)
    show "\<forall>v \<in> set (a # cs). v = c \<or> queued_command_before_at now c v"
      using least below [of a] sel [OF s] by auto
    show "s' = c \<or> queued_command_before_at now c s'" if "fst acc = Some (n', k', s')" for n' k' s'
      using below [of s'] sel [OF s, of "(n', k', s')"] that by (auto simp: acc)
  qed
qed simp

text \<open>The wake-up instant: later than now, not after the lane opens and not after a deadline.\<close>

lemma scan_lane_wake:
  assumes "now < allowed" "0 < now" "\<forall>c \<in> set cs. command_deadline c = 0 \<or> now < command_deadline c"
    and "snd acc = 0 \<or> now < snd acc"
  shows "let w = snd (scan_lane now l allowed i cs acc) in
    (w = 0 \<longleftrightarrow> snd acc = 0 \<and> cs = []) \<and> (w = 0 \<or> now < w) \<and> (snd acc \<noteq> 0 \<longrightarrow> w \<le> snd acc) \<and>
    (\<forall>c \<in> set cs. w \<le> allowed \<and> (command_deadline c \<noteq> 0 \<longrightarrow> w \<le> command_deadline c))"
  using assms
proof (induction cs arbitrary: i acc)
  case (Cons c cs)
  obtain sel w where acc: "acc = (sel, w)" by (cases acc)
  define cand where "cand = (if command_deadline c \<noteq> 0 \<and> command_deadline c < allowed then command_deadline c else allowed)"
  define w' where "w' = (if w = 0 \<or> cand < w then cand else w)"
  have cand: "now < cand" "cand \<le> allowed" "command_deadline c \<noteq> 0 \<Longrightarrow> cand \<le> command_deadline c"
    using Cons.prems(1,3) by (auto simp: cand_def)
  have w': "now < w'" "w' \<noteq> 0" "w' \<le> cand" "w \<noteq> 0 \<Longrightarrow> w' \<le> w"
    using Cons.prems(2,4) cand(1) by (auto simp: w'_def acc)
  have step: "scan_lane now l allowed i (c # cs) acc = scan_lane now l allowed (Suc i) cs (sel, w')"
    using Cons.prems(1) by (simp add: acc cand_def w'_def time_is_zero_def Let_def)
  have "let v = snd (scan_lane now l allowed (Suc i) cs (sel, w')) in
    (v = 0 \<longleftrightarrow> w' = 0 \<and> cs = []) \<and> (v = 0 \<or> now < v) \<and> (w' \<noteq> 0 \<longrightarrow> v \<le> w') \<and>
    (\<forall>c \<in> set cs. v \<le> allowed \<and> (command_deadline c \<noteq> 0 \<longrightarrow> v \<le> command_deadline c))"
    using Cons.IH [where i = "Suc i" and acc = "(sel, w')"] Cons.prems(1-3) w'(1) by simp
  with w' cand show ?case unfolding step by (auto simp: acc Let_def)
qed auto

section \<open>One pass of the loop\<close>

definition scan_lanes :: "gotime \<Rightarrow> (lane \<Rightarrow> gotime) \<Rightarrow> (lane \<Rightarrow> queued_command list) \<Rightarrow>
    (lane \<times> nat \<times> queued_command) option \<times> gotime" where
  "scan_lanes now allowed live =
     scan_lane now Lane_attack_launch (allowed Lane_attack_launch) 0 (live Lane_attack_launch)
       (scan_lane now Lane_command (allowed Lane_command) 0 (live Lane_command) (None, time_zero))"

lemma lane_cases: "P Lane_command \<Longrightarrow> P Lane_attack_launch \<Longrightarrow> P l"
  by (cases l) simp_all

lemma scan_lanes_selects:
  assumes ids: "distinct (map qc_id (live Lane_command @ live Lane_attack_launch))"
  shows "fst (scan_lanes now allowed live) = None \<Longrightarrow> now < allowed l \<or> live l = []"
    and "fst (scan_lanes now allowed live) = Some (m, j, c) \<Longrightarrow>
      \<not> now < allowed m \<and> j < length (live m) \<and> live m ! j = c \<and>
      (\<forall>l. \<not> now < allowed l \<longrightarrow> (\<forall>v \<in> set (live l). v = c \<or> queued_command_before_at now c v))"
proof -
  let ?C = "live Lane_command" and ?A = "live Lane_attack_launch"
  let ?one = "scan_lane now Lane_command (allowed Lane_command) 0 ?C (None, time_zero)"
  have one: "if now < allowed Lane_command then fst ?one = None else
      (fst ?one = None \<longleftrightarrow> ?C = []) \<and> (\<forall>m j c. fst ?one = Some (m, j, c) \<longrightarrow>
        m = Lane_command \<and> j < length ?C \<and> ?C ! j = c \<and> (\<forall>v \<in> set ?C. v = c \<or> queued_command_before_at now c v))"
    using scan_lane_blocked [of now "allowed Lane_command" Lane_command 0 ?C "(None, time_zero)"]
      scan_lane_open [of now "allowed Lane_command" ?C "(None, time_zero)" Lane_command 0] ids by simp
  have fresh: "qc_id s \<notin> qc_id ` set ?A" if "fst ?one = Some (m, j, s)" for m j s
  proof -
    have "s \<in> set ?C" using one that nth_mem by (fastforce split: if_splits)
    with ids show ?thesis by auto
  qed
  have two: "if now < allowed Lane_attack_launch then fst (scan_lanes now allowed live) = fst ?one else
      (fst (scan_lanes now allowed live) = None \<longleftrightarrow> fst ?one = None \<and> ?A = []) \<and>
      (\<forall>m j c. fst (scan_lanes now allowed live) = Some (m, j, c) \<longrightarrow>
        (fst ?one = Some (m, j, c) \<or> m = Lane_attack_launch \<and> j < length ?A \<and> ?A ! j = c) \<and>
        (\<forall>v \<in> set ?A. v = c \<or> queued_command_before_at now c v) \<and>
        (\<forall>n k s. fst ?one = Some (n, k, s) \<longrightarrow> s = c \<or> queued_command_before_at now c s))"
    unfolding scan_lanes_def
    using scan_lane_blocked [of now "allowed Lane_attack_launch" Lane_attack_launch 0 ?A ?one]
      scan_lane_open [of now "allowed Lane_attack_launch" ?A ?one Lane_attack_launch 0, OF _ _ fresh] ids by simp
  show "now < allowed l \<or> live l = []" if "fst (scan_lanes now allowed live) = None"
    by (rule lane_cases [of "\<lambda>l. now < allowed l \<or> live l = []"]) (use one two that in \<open>auto split: if_splits\<close>)
  assume sel: "fst (scan_lanes now allowed live) = Some (m, j, c)"
  have src: "\<not> now < allowed m \<and> j < length (live m) \<and> live m ! j = c"
    using sel one two by (auto split: if_splits)
  have leastA: "\<not> now < allowed Lane_attack_launch \<longrightarrow> (\<forall>v \<in> set ?A. v = c \<or> queued_command_before_at now c v)"
    using sel two by auto
  have leastC: "\<not> now < allowed Lane_command \<longrightarrow> (\<forall>v \<in> set ?C. v = c \<or> queued_command_before_at now c v)"
  proof (intro impI ballI)
    fix v assume o: "\<not> now < allowed Lane_command" and v: "v \<in> set ?C"
    with one obtain n k s where s: "fst ?one = Some (n, k, s)" by (cases "fst ?one") auto
    with one o v have sv: "v = s \<or> queued_command_before_at now s v" by auto
    have "s = c \<or> queued_command_before_at now c s" using two sel s by (auto split: if_splits)
    with sv show "v = c \<or> queued_command_before_at now c v" using queue_order.before_trans by blast
  qed
  show "\<not> now < allowed m \<and> j < length (live m) \<and> live m ! j = c \<and>
      (\<forall>l. \<not> now < allowed l \<longrightarrow> (\<forall>v \<in> set (live l). v = c \<or> queued_command_before_at now c v))"
    using src leastA leastC lane_cases [of "\<lambda>l. \<not> now < allowed l \<longrightarrow> (\<forall>v \<in> set (live l). v = c \<or> queued_command_before_at now c v)"]
    by blast
qed

definition live_commands :: "gotime \<Rightarrow> (nat \<Rightarrow> go_error option) \<Rightarrow> router \<Rightarrow> lane \<Rightarrow> queued_command list" where
  "live_commands now env r l = filter (\<lambda>c. \<not> command_expired now env r c) (rt_queues r l)"

definition expired_commands :: "gotime \<Rightarrow> (nat \<Rightarrow> go_error option) \<Rightarrow> router \<Rightarrow> queued_command list" where
  "expired_commands now env r =
     filter (command_expired now env r) (rt_queues r Lane_command) @
     filter (command_expired now env r) (rt_queues r Lane_attack_launch)"

lemma next_pass_cases:
  assumes "next_pass now env r = (picked, queued, wake, r')"
  obtains (idle) "picked = None" "fst (scan_lanes now (rt_next_allowed r) (live_commands now env r)) = None"
      "r' = complete_expired env r (expired_commands now env r) (r\<lparr>rt_queues := live_commands now env r\<rparr>)"
      "wake = snd (scan_lanes now (rt_next_allowed r) (live_commands now env r))"
      "queued \<longleftrightarrow> live_commands now env r Lane_command \<noteq> [] \<or> live_commands now env r Lane_attack_launch \<noteq> []"
  | (picked) l i c where "picked = Some c" "fst (scan_lanes now (rt_next_allowed r) (live_commands now env r)) = Some (l, i, c)"
      "r' = complete_expired env r (expired_commands now env r)
         (r\<lparr>rt_queues := (live_commands now env r)(l := remove_at i (live_commands now env r l)),
            rt_in_flight := rt_in_flight r @ [c]\<rparr>)"
  using assms unfolding next_pass_def Let_def live_commands_def [symmetric] expired_commands_def [symmetric]
    scan_lanes_def [symmetric] live_commands_def [abs_def, symmetric]
  by (cases "fst (scan_lanes now (rt_next_allowed r) (live_commands now env r))")
    (auto simp: case_prod_beta split: prod.splits option.splits)

section \<open>Every step preserves the invariant\<close>

lemma mset_map_remove_first:
  "\<exists>c \<in> set xs. f c = i \<Longrightarrow> mset (map f xs) = add_mset i (mset (map f (remove_first (\<lambda>c. f c = i) xs)))"
  by (induction xs) auto

lemma length_remove_first: "length (remove_first p xs) \<le> length xs"
  by (induction xs) auto

lemma router_inv_new: "router_inv (new_router maximum)"
  by (simp add: router_inv_def new_router_def router_ids_def accounting_def)

lemma live_subset: "set (live_commands now env r l) \<subseteq> set (rt_queues r l)" "length (live_commands now env r l) \<le> length (rt_queues r l)"
  by (auto simp: live_commands_def)

lemma mset_live_expired:
  "mset (rt_queues r Lane_command) + mset (rt_queues r Lane_attack_launch) =
     mset (live_commands now env r Lane_command) + mset (live_commands now env r Lane_attack_launch) +
     mset (expired_commands now env r)"
proof -
  have part: "mset (rt_queues r l) = mset (live_commands now env r l) + mset (filter (command_expired now env r) (rt_queues r l))" for l
    unfolding live_commands_def mset_filter
    using multiset_partition [of "mset (rt_queues r l)" "command_expired now env r"] by (simp add: add.commute)
  show ?thesis
    unfolding part [of Lane_command] part [of Lane_attack_launch] expired_commands_def mset_append
    by (simp only: add.assoc add.left_commute)
qed

lemma live_ids:
  assumes "router_inv r"
  shows "distinct (map qc_id (live_commands now env r Lane_command @ live_commands now env r Lane_attack_launch))"
  using router_invD(1) [OF assms] unfolding accounting_def router_ids_def live_commands_def
  by (auto simp: distinct_map_filter)

lemma mset_remove_at: "i < length xs \<Longrightarrow> mset xs = add_mset (xs ! i) (mset (remove_at i xs))"
  by (erule split_at) (metis mset.simps(2) mset_append union_mset_add_mset_right)

lemma router_inv_next_pass:
  assumes inv: "router_inv r" and idle: "rt_run r = Run_idle" and p: "next_pass now env r = (picked, q, w, r')"
  shows "picked = None \<Longrightarrow> router_inv r'"
    and "picked = Some c \<Longrightarrow> router_inv (r'\<lparr>rt_run := Run_dispatching c\<rparr>)"
proof -
  note D = router_invD [OF inv]
  let ?live = "live_commands now env r" and ?dead = "expired_commands now env r"
  have fl: "rt_in_flight r = []" using D(5) idle by simp
  have ids: "mset (router_ids r) = mset (map qc_id (?live Lane_command @ ?live Lane_attack_launch)) + mset (map qc_id ?dead)"
    unfolding router_ids_def fl using arg_cong [OF mset_live_expired, of "image_mset qc_id" r now env] by simp
  have qs: "c \<in> set (?live l) \<Longrightarrow> qc_lane c = l \<and> qc_dispatched_at c = 0" "length (?live l) \<le> rt_maximum r" for c l
    using live_subset [of now env r l] D(2) [of l] D(3,4) by (auto intro: le_trans)
  show "router_inv r'" if "picked = None"
    using p
  proof (cases rule: next_pass_cases)
    case idle
    have "accounting (map qc_id (?live Lane_command @ ?live Lane_attack_launch)) (rt_next_id r)
        (dom (rt_results r) \<union> set (map qc_id ?dead)) (rt_withdrawn r \<union> set [])"
      by (rule accounting_move [OF D(1)]) (simp add: ids)
    moreover have "rt_closed r \<Longrightarrow> router_ids r' = []"
      using D(6) idle fl by (auto simp: router_ids_def live_commands_def)
    ultimately show ?thesis
      using qs \<open>rt_run r = Run_idle\<close> fl by (intro router_invI) (simp_all add: idle router_ids_def)
  qed (use that in simp)
  show "router_inv (r'\<lparr>rt_run := Run_dispatching c\<rparr>)" if "picked = Some c"
    using p
  proof (cases rule: next_pass_cases)
    case (picked l i d)
    with that have [simp]: "d = c" by simp
    from scan_lanes_selects(2) [OF live_ids [OF inv] picked(2)]
    have i: "i < length (?live l)" "?live l ! i = c" by simp_all
    have c: "qc_dispatched_at c = 0" using qs(1) [of c l] i nth_mem by metis
    let ?live' = "?live(l := remove_at i (?live l))"
    have "mset (map qc_id (?live Lane_command @ ?live Lane_attack_launch)) =
        mset (map qc_id (?live' Lane_command @ ?live' Lane_attack_launch @ [c]))"
      using mset_remove_at [OF i(1)] i(2) by (cases l) simp_all
    then have "accounting (map qc_id (?live' Lane_command @ ?live' Lane_attack_launch @ [c])) (rt_next_id r)
        (dom (rt_results r) \<union> set (map qc_id ?dead)) (rt_withdrawn r \<union> set [])"
      by (intro accounting_move [OF D(1)]) (simp add: ids)
    moreover have "length (remove_at i (?live l)) \<le> rt_maximum r"
      using qs(2) [of l] i by (auto simp: remove_at_def)
    moreover have "v \<in> set (remove_at i (?live l)) \<Longrightarrow> qc_lane v = l \<and> qc_dispatched_at v = 0" for v
      using qs(1) [of v l] set_remove_at_subset [of i "?live l"] by blast
    moreover have "\<not> rt_closed r" using D(6) i by (auto simp: router_ids_def live_commands_def split: lane.splits) (metis (full_types) filter.simps(1) lane.exhaust less_nat_zero_code list.size(3))
    ultimately show ?thesis
      using qs fl c by (intro router_invI) (auto simp: picked router_ids_def split: if_splits)
  qed (use that in simp)
qed

lemma router_inv_run_next: "router_inv r \<Longrightarrow> router_inv (run_next now env r)"
  using router_inv_next_pass [of r now env]
  by (auto simp: run_next_def split: prod.splits option.splits)

lemma router_inv_finish:
  assumes inv: "router_inv r" and "rt_run r = Run_dispatching c \<or> rt_run r = Run_sending c"
  shows "router_inv ((finish_command c err r)\<lparr>rt_run := Run_idle\<rparr>)"
proof -
  note D = router_invD [OF inv]
  have fl: "rt_in_flight r = [c] \<or> rt_in_flight r = [] \<and> qc_id c \<in> dom (rt_results r)"
    using D(5) assms(2) by auto
  define xs where "xs = map qc_id (rt_in_flight r)"
  have "accounting (map qc_id (rt_queues r Lane_command @ rt_queues r Lane_attack_launch)) (rt_next_id r)
      (dom (rt_results r) \<union> set xs) (rt_withdrawn r \<union> set [])"
    by (rule accounting_move [OF D(1)]) (simp add: router_ids_def xs_def)
  moreover have "dom (rt_results r) \<union> set xs = insert (qc_id c) (dom (rt_results r))"
    using fl by (auto simp: xs_def)
  ultimately show ?thesis
    using D fl by (intro router_invI) (auto simp: finish_command_def router_ids_def)
qed

lemma router_inv_run_dispatch:
  assumes inv: "router_inv r" and now: "0 < now"
  shows "router_inv (run_dispatch now env gate ready has_send r)"
proof (cases "rt_run r")
  case (Run_dispatching c)
  note D = router_invD [OF inv]
  show ?thesis
  proof (cases "dispatch_check now env gate ready has_send r c")
    case (Inl e)
    with inv Run_dispatching show ?thesis by (simp add: run_dispatch_def router_inv_finish)
  next
    case (Inr d)
    have d: "d = c\<lparr>qc_dispatched_at := now\<rparr>"
      using Inr by (auto simp: dispatch_check_def split: option.splits if_splits)
    have "map qc_id (map (\<lambda>e. if qc_id e = qc_id c then d else e) xs) = map qc_id xs" for xs
      by (auto simp: d)
    with D Inr Run_dispatching now show ?thesis
      by (intro router_invI) (auto simp: run_dispatch_def router_ids_def d simp del: map_map)
  qed
qed (use inv in \<open>simp_all add: run_dispatch_def\<close>)

lemma router_inv_run_sent: "router_inv r \<Longrightarrow> router_inv (run_sent now delay err r)"
proof (cases "rt_run r")
  case (Run_sending c)
  assume inv: "router_inv r"
  let ?r = "if err = None then record_latency now c (record_dispatch now delay c r) else r"
  have "router_inv ?r" using inv by (simp add: router_inv_def router_ids_def)
  moreover have "rt_run ?r = Run_sending c" using Run_sending by simp
  ultimately show ?thesis using Run_sending by (simp add: run_sent_def router_inv_finish)
qed (simp_all add: run_sent_def)

lemma router_inv_enqueue:
  assumes inv: "router_inv r" and e: "enqueue_command now ctx l payload md r = Inr (c, r')"
  shows "router_inv r'"
proof -
  note D = router_invD [OF inv]
  from e have c: "qc_id c = Suc (rt_next_id r)" "qc_lane c = l" "qc_dispatched_at c = 0"
    and r': "r' = r\<lparr>rt_next_id := Suc (rt_next_id r), rt_queues := (rt_queues r)(l := rt_queues r l @ [c])\<rparr>"
    and room: "length (rt_queues r l) < rt_maximum r" "\<not> rt_closed r"
    by (auto simp: enqueue_command_def Let_def split: if_splits)
  have "accounting (router_ids r') (Suc (rt_next_id r)) (dom (rt_results r)) (rt_withdrawn r)"
    by (rule accounting_new [OF D(1)]) (cases l; simp add: router_ids_def r' c)
  then show ?thesis
    using D(2-5) room c by (intro router_invI) (auto simp: r' Suc_le_eq split: if_splits)
qed

lemma router_inv_withdraw:
  assumes inv: "router_inv r" and e: "remove_queued i l r = (b, r')"
  shows "router_inv r'"
proof (cases "list_ex (\<lambda>c. qc_id c = i) (rt_queues r l)")
  case True
  note D = router_invD [OF inv]
  let ?q = "remove_first (\<lambda>c. qc_id c = i) (rt_queues r l)"
  have r': "r' = cancel_command i (r\<lparr>rt_queues := (rt_queues r)(l := ?q), rt_withdrawn := insert i (rt_withdrawn r)\<rparr>)"
    using e True by (simp add: remove_queued_def)
  have "mset (map qc_id (rt_queues r l)) = add_mset i (mset (map qc_id ?q))"
    using True by (intro mset_map_remove_first) (simp add: list_ex_iff)
  then have "mset (router_ids r) = mset (router_ids r') + mset [] + mset [i]"
    by (cases l) (simp_all add: router_ids_def r')
  then have "accounting (router_ids r') (rt_next_id r) (dom (rt_results r) \<union> set []) (rt_withdrawn r \<union> set [i])"
    by (rule accounting_move [OF D(1)])
  then have acc: "accounting (router_ids r') (rt_next_id r') (dom (rt_results r')) (rt_withdrawn r')"
    by (simp add: r')
  have len: "length (rt_queues r' m) \<le> rt_maximum r'" for m
    using D(2) [of m] length_remove_first [of "\<lambda>c. qc_id c = i" "rt_queues r l"] by (auto simp: r')
  have sub: "set (rt_queues r' m) \<subseteq> set (rt_queues r m)" for m
    using set_remove_first_subset [of "\<lambda>c. qc_id c = i" "rt_queues r l"] by (simp add: r')
  have open_router: "\<not> rt_closed r'" using D(6) True by (cases l) (auto simp: router_ids_def r')
  have "run_ok (rt_run r') (rt_in_flight r') (dom (rt_results r'))" using D(5) by (simp add: r')
  with acc len open_router show ?thesis
    using sub D(3,4) by (intro router_invI) blast+
qed (use e inv in \<open>simp add: remove_queued_def\<close>)

lemma router_inv_take:
  assumes inv: "router_inv r" and q: "rt_queues r0 = (\<lambda>_. [])" "rt_in_flight r0 = []"
    and same: "rt_next_id r0 = rt_next_id r" "rt_results r0 = rt_results r" "rt_withdrawn r0 = rt_withdrawn r"
      "rt_maximum r0 = rt_maximum r" "rt_run r0 = rt_run r"
  shows "router_inv (abandon_commands err (rt_queues r Lane_command @ rt_queues r Lane_attack_launch @ rt_in_flight r) r0)"
    (is "router_inv (abandon_commands err ?cs r0)")
proof (rule router_invI)
  note D = router_invD [OF inv]
  have "accounting [] (rt_next_id r) (dom (rt_results r) \<union> set (router_ids r)) (rt_withdrawn r \<union> set [])"
    by (rule accounting_move [OF D(1)]) simp
  moreover have "set (router_ids r) = qc_id ` set ?cs" by (simp only: router_ids_def set_map)
  moreover have "router_ids (abandon_commands err ?cs r0) = []" by (simp add: router_ids_def q)
  ultimately show "accounting (router_ids (abandon_commands err ?cs r0)) (rt_next_id (abandon_commands err ?cs r0))
      (dom (rt_results (abandon_commands err ?cs r0))) (rt_withdrawn (abandon_commands err ?cs r0))"
    by (simp only: abandon_keeps same set_simps(1) Un_empty_right)
  have "run_ok (rt_run r) [] (dom (rt_results r) \<union> qc_id ` set ?cs)"
    by (rule run_ok_empty [OF D(5)]) auto
  then show "run_ok (rt_run (abandon_commands err ?cs r0)) (rt_in_flight (abandon_commands err ?cs r0))
      (dom (rt_results (abandon_commands err ?cs r0)))"
    by (simp only: abandon_keeps same q)
qed (simp_all add: q router_ids_def)

lemma router_inv_reset: "router_inv r \<Longrightarrow> router_inv (reset_router r)"
  unfolding reset_router_def take_all_def Let_def prod.case by (rule router_inv_take) simp_all

lemma router_inv_close: "router_inv r \<Longrightarrow> router_inv (close_with_error err r)"
  using router_inv_take [of r "r\<lparr>rt_closed := True, rt_close_err := Some (case err of None \<Rightarrow> Err_closed | Some e \<Rightarrow> e),
      rt_queues := \<lambda>_. [], rt_in_flight := []\<rparr>" "case err of None \<Rightarrow> Err_closed | Some e \<Rightarrow> e"]
  unfolding close_with_error_def take_all_def Let_def by simp

lemma router_step_inv: "router_step r r' \<Longrightarrow> router_inv r \<Longrightarrow> router_inv r'"
proof (induction rule: router_step.induct)
  case (withdraw i l r b r')
  then show ?case by (blast intro: router_inv_withdraw)
qed (auto intro: router_inv_enqueue router_inv_run_next router_inv_run_dispatch router_inv_run_sent
    router_inv_reset router_inv_close)

lemma router_reachable_inv: "router_reachable r \<Longrightarrow> router_inv r"
  by (induction rule: router_reachable.induct) (auto intro: router_inv_new router_step_inv)

section \<open>Properties\<close>

text \<open>C24. No command is lost and none is answered twice over: in every reachable state each number
  given out belongs to a command that is queued, in flight, answered or withdrawn by its caller,
  and to exactly one of these; no lane exceeds its bound and at most one command is in flight.\<close>

theorem router_accounts_for_every_command:
  assumes "router_reachable r" "1 \<le> i" "i \<le> rt_next_id r"
  shows "(i \<in> set (router_ids r) \<or> rt_results r i \<noteq> None \<or> i \<in> rt_withdrawn r) \<and>
    \<not> (i \<in> set (router_ids r) \<and> rt_results r i \<noteq> None) \<and> \<not> (i \<in> set (router_ids r) \<and> i \<in> rt_withdrawn r) \<and>
    \<not> (rt_results r i \<noteq> None \<and> i \<in> rt_withdrawn r) \<and> distinct (router_ids r) \<and>
    length (rt_queues r l) \<le> rt_maximum r \<and> length (rt_in_flight r) \<le> 1"
proof -
  note D = router_invD [OF router_reachable_inv [OF assms(1)]]
  have acc: "distinct (router_ids r)" "set (router_ids r) \<union> dom (rt_results r) \<union> rt_withdrawn r = {1..rt_next_id r}"
    "set (router_ids r) \<inter> dom (rt_results r) = {}" "set (router_ids r) \<inter> rt_withdrawn r = {}"
    "dom (rt_results r) \<inter> rt_withdrawn r = {}"
    using D(1) by (simp_all add: accounting_def)
  have "length (rt_in_flight r) \<le> 1" using D(5) by (cases "rt_run r") auto
  moreover have "i \<in> set (router_ids r) \<union> dom (rt_results r) \<union> rt_withdrawn r" using acc(2) assms(2,3) by simp
  ultimately show ?thesis using acc D(2) [of l] by blast
qed

text \<open>C26. The selection is right: the command taken for dispatch was queued, is not expired, its
  lane's pause is over, and it precedes every command still queued in a lane whose pause is over;
  it leaves its queue and is in flight.\<close>

theorem next_pass_selects_first:
  assumes "router_reachable r" "rt_run r = Run_idle" "next_pass now env r = (Some c, q, w, r')"
  shows "c \<in> set (rt_queues r (qc_lane c)) \<and> \<not> command_expired now env r c \<and> rt_next_allowed r (qc_lane c) \<le> now \<and>
    rt_in_flight r' = [c] \<and> c \<notin> set (rt_queues r' (qc_lane c)) \<and>
    (\<forall>l. \<forall>v \<in> set (rt_queues r' l). rt_next_allowed r l \<le> now \<longrightarrow> queued_command_before_at now c v)"
  using assms(3)
proof (cases rule: next_pass_cases)
  case (picked l i d)
  let ?live = "live_commands now env r"
  have inv: "router_inv r" by (rule router_reachable_inv [OF assms(1)])
  note D = router_invD [OF inv]
  have [simp]: "d = c" using picked(1) by simp
  from scan_lanes_selects(2) [OF live_ids [OF inv] picked(2)]
  have sel: "\<not> now < rt_next_allowed r l" "i < length (?live l)" "?live l ! i = c"
    and least: "\<And>m v. rt_next_allowed r m \<le> now \<Longrightarrow> v \<in> set (?live m) \<Longrightarrow> v = c \<or> queued_command_before_at now c v"
    by (auto simp: not_less)
  have c: "c \<in> set (?live l)" using sel by auto
  then have lane: "qc_lane c = l" "c \<in> set (rt_queues r l)" "\<not> command_expired now env r c"
    using D(3) live_subset(1) by (auto simp: live_commands_def)
  have q: "rt_queues r' = ?live(l := remove_at i (?live l))" "rt_in_flight r' = [c]"
    using picked D(5) assms(2) by simp_all
  have ids: "distinct (map qc_id (?live l))" using live_ids [OF inv, of now env] by (cases l) auto
  have other: "v \<noteq> c" if "v \<in> set (rt_queues r' m)" for v m
  proof (cases "m = l")
    case True
    then show ?thesis using that q(1) remove_at_not_in [OF ids sel(2), of v] sel(3) by auto
  next
    case False
    then have "v \<in> set (rt_queues r m)" using that q(1) by (simp add: live_commands_def)
    with False lane(1) D(3) show ?thesis by blast
  qed
  have "v \<in> set (rt_queues r' m) \<Longrightarrow> v \<in> set (?live m)" for v m
    using q(1) set_remove_at_subset [of i "?live l"] by (auto split: if_splits)
  then have "\<forall>m. \<forall>v \<in> set (rt_queues r' m). rt_next_allowed r m \<le> now \<longrightarrow> queued_command_before_at now c v"
    using least other by blast
  with lane sel(1) q(2) other show ?thesis by (auto simp: not_less)
qed simp

text \<open>The loop waits exactly as long as it should: with commands queued and none to dispatch,
  every lane with commands is pausing, and the goroutine sleeps until an instant after now that is
  neither after the end of such a pause nor after a queued command's deadline.\<close>

theorem next_pass_waits:
  assumes "router_reachable r" "0 < now" "next_pass now env r = (None, True, w, r')"
  shows "now < w \<and> (\<forall>l. \<forall>c \<in> set (rt_queues r' l). now < rt_next_allowed r l \<and> w \<le> rt_next_allowed r l \<and>
    (command_deadline c \<noteq> 0 \<longrightarrow> w \<le> command_deadline c))"
  using assms(3)
proof (cases rule: next_pass_cases)
  case idle
  let ?live = "live_commands now env r" and ?na = "rt_next_allowed r"
  have inv: "router_inv r" by (rule router_reachable_inv [OF assms(1)])
  have q: "rt_queues r' = ?live" using idle by simp
  have dl: "\<forall>c \<in> set (?live l). command_deadline c = 0 \<or> now < command_deadline c" for l
    by (auto simp: live_commands_def command_expired_def time_is_zero_def)
  have blocked: "now < ?na l \<or> ?live l = []" for l
    using scan_lanes_selects(1) [OF live_ids [OF inv] idle(2)] by simp
  let ?one = "scan_lane now Lane_command (?na Lane_command) 0 (?live Lane_command) (None, time_zero)"
  have one: "(snd ?one = 0 \<longleftrightarrow> ?live Lane_command = []) \<and> (snd ?one = 0 \<or> now < snd ?one) \<and>
    (\<forall>c \<in> set (?live Lane_command). snd ?one \<le> ?na Lane_command \<and> (command_deadline c \<noteq> 0 \<longrightarrow> snd ?one \<le> command_deadline c))"
    using scan_lane_wake [of now "?na Lane_command" "?live Lane_command" "(None, time_zero)" Lane_command 0] assms(2) dl
      blocked [of Lane_command] by (cases "?live Lane_command = []") (auto simp: Let_def)
  have two: "(w = 0 \<longleftrightarrow> snd ?one = 0 \<and> ?live Lane_attack_launch = []) \<and> (w = 0 \<or> now < w) \<and> (snd ?one \<noteq> 0 \<longrightarrow> w \<le> snd ?one) \<and>
    (\<forall>c \<in> set (?live Lane_attack_launch). w \<le> ?na Lane_attack_launch \<and> (command_deadline c \<noteq> 0 \<longrightarrow> w \<le> command_deadline c))"
    using scan_lane_wake [of now "?na Lane_attack_launch" "?live Lane_attack_launch" ?one Lane_attack_launch 0] assms(2) dl one
      blocked [of Lane_attack_launch] idle(4) by (cases "?live Lane_attack_launch = []") (auto simp: Let_def scan_lanes_def)
  have "w \<noteq> 0" using one two idle(5) by auto
  with two have "now < w" by simp
  moreover have "now < ?na l \<and> w \<le> ?na l \<and> (command_deadline c \<noteq> 0 \<longrightarrow> w \<le> command_deadline c)"
    if "c \<in> set (?live l)" for l c
    using that blocked [of l] one two by (cases l) (force, force)
  ultimately show ?thesis by (simp add: q)
qed simp

text \<open>The effect of the transport's answer: the goroutine is idle again; the lane pauses for
  the (non-negative) delay after the dispatch if the send succeeded and no reset intervened, and
  is left alone otherwise; the caller gets the transport's answer unless a reset or close has
  already answered it.\<close>

theorem run_sent_effect:
  assumes "router_reachable r" "rt_run r = Run_sending c" "r' = run_sent now delay err r"
  shows "rt_run r' = Run_idle \<and> rt_in_flight r' = [] \<and>
    rt_next_allowed r' = (if err = None \<and> c \<in> set (rt_in_flight r)
      then (rt_next_allowed r)(qc_lane c := qc_dispatched_at c + max 0 delay) else rt_next_allowed r) \<and>
    rt_results r' (qc_id c) = (if c \<in> set (rt_in_flight r) then Some err else rt_results r (qc_id c)) \<and>
    rt_results r' (qc_id c) \<noteq> None"
proof -
  have inv: "router_inv r" by (rule router_reachable_inv [OF assms(1)])
  note D = router_invD [OF inv]
  have run: "qc_dispatched_at c \<noteq> 0" "rt_in_flight r = [c] \<or> rt_in_flight r = [] \<and> qc_id c \<in> dom (rt_results r)"
    using D(5) assms(2) by auto
  have fresh: "rt_in_flight r = [c] \<Longrightarrow> rt_results r (qc_id c) = None"
    using D(1) by (auto simp: accounting_def router_ids_def)
  have na: "rt_next_allowed (record_dispatch now delay c r) = (if c \<in> set (rt_in_flight r)
      then (rt_next_allowed r)(qc_lane c := qc_dispatched_at c + max 0 delay) else rt_next_allowed r)"
    using run by (auto simp: record_dispatch_def time_is_zero_def max_def)
  define r1 where "r1 = (if err = None then record_latency now c (record_dispatch now delay c r) else r)"
  have r1: "rt_in_flight r1 = rt_in_flight r" "rt_results r1 = rt_results r"
    "rt_next_allowed r1 = (if err = None \<and> c \<in> set (rt_in_flight r)
      then (rt_next_allowed r)(qc_lane c := qc_dispatched_at c + max 0 delay) else rt_next_allowed r)"
    by (auto simp: r1_def na)
  have r': "r' = (finish_command c err r1)\<lparr>rt_run := Run_idle\<rparr>"
    using assms(2,3) by (simp add: run_sent_def r1_def)
  show ?thesis
    using run fresh r1 unfolding r'
    by (auto simp: finish_command_def complete_command_def split: option.splits)
qed

lemma complete_results: "rt_results (complete_command i e r) j = (if i = j \<and> rt_results r j = None then Some e else rt_results r j)"
  by (auto simp: complete_command_def split: option.splits)

lemma fold_complete_results:
  assumes "\<And>c r. rt_results (f c r) = rt_results (complete_command (qc_id c) (g c) r)"
  shows "rt_results (fold f cs r) j = (case rt_results r j of Some a \<Rightarrow> Some a
     | None \<Rightarrow> map_option g (List.find (\<lambda>c. qc_id c = j) cs))"
  using assms by (induction cs arbitrary: r) (auto simp: complete_results split: option.splits)

lemma complete_expired_results:
  "rt_results r j = Some a \<Longrightarrow> rt_results (complete_expired env r0 cs r) j = Some a"
  unfolding complete_expired_def by (induction cs arbitrary: r) (simp_all add: complete_results)

lemma abandon_results:
  "rt_results (abandon_commands err cs r) j = (case rt_results r j of Some a \<Rightarrow> Some a
     | None \<Rightarrow> map_option (\<lambda>c. if qc_dispatched_at c \<noteq> 0 then mark_indeterminate (Some err) else Some err)
         (List.find (\<lambda>c. qc_id c = j) cs))"
  unfolding abandon_commands_def
  by (subst fold_complete_results [where g = "\<lambda>c. if qc_dispatched_at c \<noteq> 0 then mark_indeterminate (Some err) else Some err"])
    (simp_all add: fun_eq_iff complete_results time_is_zero_def)

lemma find_distinct: "distinct (map f xs) \<Longrightarrow> x \<in> set xs \<Longrightarrow> List.find (\<lambda>y. f y = f x) xs = Some x"
  by (induction xs) (auto simp: image_iff)

text \<open>A reset answers everything: each queued command fails with \<open>ErrReset\<close>, the command in
  flight with an indeterminate \<open>ErrReset\<close> once the transport has been called for it; nothing stays
  queued or in flight and no lane pauses.\<close>

theorem reset_answers_all:
  assumes "router_reachable r" "c \<in> set (rt_queues r l) \<or> c \<in> set (rt_in_flight r)"
  shows "rt_results (reset_router r) (qc_id c) = Some (Some (if rt_run r = Run_sending c \<and> c \<in> set (rt_in_flight r)
      then Indeterminate_error Err_reset else Err_reset)) \<and>
    router_ids (reset_router r) = [] \<and> rt_next_allowed (reset_router r) = (\<lambda>_. 0)"
proof -
  note D = router_invD [OF router_reachable_inv [OF assms(1)]]
  let ?cs = "rt_queues r Lane_command @ rt_queues r Lane_attack_launch @ rt_in_flight r"
  have c: "c \<in> set ?cs" using assms(2) by (cases l) auto
  have "distinct (map qc_id ?cs)" "qc_id c \<notin> dom (rt_results r)"
    using D(1) c unfolding accounting_def router_ids_def by auto
  with c have res: "rt_results (reset_router r) (qc_id c) =
      Some (if qc_dispatched_at c \<noteq> 0 then mark_indeterminate (Some Err_reset) else Some Err_reset)"
    using find_distinct [of qc_id ?cs c]
    by (auto simp: reset_router_def take_all_def abandon_results split: option.splits)
  have "qc_dispatched_at c \<noteq> 0 \<longleftrightarrow> rt_run r = Run_sending c \<and> c \<in> set (rt_in_flight r)"
  proof (cases "c \<in> set (rt_in_flight r)")
    case True
    then show ?thesis using D(5) by (cases "rt_run r") auto
  next
    case False
    then show ?thesis using assms(2) D(4) by auto
  qed
  with res show ?thesis
    by (simp add: mark_indeterminate_def is_indeterminate_def reset_router_def take_all_def router_ids_def)
qed

text \<open>C30. Answers are final: no step changes the answer of a command that has one.\<close>

theorem router_answers_are_final:
  assumes "router_step r r'" "rt_results r i = Some a"
  shows "rt_results r' i = Some a"
  using assms
proof (induction rule: router_step.induct)
  case (enqueue now ctx l payload md r c r')
  then show ?case by (auto simp: enqueue_command_def Let_def split: if_splits)
next
  case (withdraw j l r b r')
  then show ?case by (auto simp: remove_queued_def split: if_splits)
next
  case (run_next now r env)
  obtain p q w r1 where np: "next_pass now env r = (p, q, w, r1)" by (cases "next_pass now env r")
  have "rt_results r1 i = Some a"
    using np by (cases rule: next_pass_cases) (use run_next in \<open>simp_all add: complete_expired_results\<close>)
  then show ?case using run_next np by (auto simp: run_next_def split: option.splits)
next
  case (run_dispatch now r env gate ready has_send)
  then show ?case
    by (auto simp: run_dispatch_def finish_command_def complete_results split: run_state.splits sum.splits)
next
  case (run_sent r now delay err)
  then show ?case
    by (auto simp: run_sent_def finish_command_def complete_results split: run_state.splits)
next
  case (reset r)
  then show ?case by (simp add: reset_router_def take_all_def abandon_results)
next
  case (close r err)
  then show ?case by (simp add: close_with_error_def take_all_def Let_def abandon_results)
qed

end
