(* ===== verification/RouterRun.thy ===== *)
theory RouterRun
  imports RouterProofs
begin

text \<open>A concrete run of the router, at which the properties of \<^verbatim>\<open>RouterProofs\<close> are applied: two
  commands are queued; the first is taken, sent and answered; the second waits for the pause.\<close>

definition demo_metadata :: metadata where
  "demo_metadata = zero_metadata\<lparr>md_priority := 50\<rparr>"

definition demo_context :: go_context where
  "demo_context = \<lparr>ctx_deadline = None, ctx_metadata = None\<rparr>"

definition demo_command :: "nat \<Rightarrow> gotime \<Rightarrow> bool \<Rightarrow> queued_command" where
  "demo_command i at fast = \<lparr>qc_id = i, qc_lane = Lane_command, qc_metadata = demo_metadata, qc_payload = ''p'',
     qc_ctx = with_metadata demo_context demo_metadata, qc_enqueued_at = at, qc_dispatched_at = 0, qc_fast_path = fast\<rparr>"

abbreviation (input) demo_first_command :: queued_command where "demo_first_command \<equiv> demo_command 1 5 True"
abbreviation (input) demo_second_command :: queued_command where "demo_second_command \<equiv> demo_command 2 6 False"

abbreviation (input) demo_no_error :: "nat \<Rightarrow> go_error option" where "demo_no_error \<equiv> \<lambda>_. None"

definition demo_one :: router where
  "demo_one = (new_router 8)\<lparr>rt_next_id := 1, rt_queues := (\<lambda>_. [])(Lane_command := [demo_first_command])\<rparr>"

definition demo_two :: router where
  "demo_two = (new_router 8)\<lparr>rt_next_id := 2,
     rt_queues := (\<lambda>_. [])(Lane_command := [demo_first_command, demo_second_command])\<rparr>"

definition demo_taken :: router where
  "demo_taken = demo_two\<lparr>rt_queues := (\<lambda>_. [])(Lane_command := [demo_second_command]),
     rt_in_flight := [demo_first_command]\<rparr>"

definition demo_sending :: router where
  "demo_sending = demo_taken\<lparr>rt_run := Run_sending (demo_first_command\<lparr>qc_dispatched_at := 8\<rparr>),
     rt_in_flight := [demo_first_command\<lparr>qc_dispatched_at := 8\<rparr>]\<rparr>"

definition demo_sent :: router where
  "demo_sent = run_sent 9 25 None demo_sending"

lemma demo_command_simps [simp]:
  "qc_id (demo_command i at fast) = i" "qc_lane (demo_command i at fast) = Lane_command"
  "command_deadline (demo_command i at fast) = 0" "qc_dispatched_at (demo_command i at fast) = 0"
  "command_deadline (demo_command i at fast\<lparr>qc_dispatched_at := t\<rparr>) = 0"
  by (simp_all add: demo_command_def command_deadline_def demo_metadata_def zero_metadata_def)

lemma demo_expired [simp]: "rt_cancelled r = {} \<Longrightarrow> \<not> command_expired now demo_no_error r (demo_command i at fast)"
  by (simp add: command_expired_def command_ctx_err_def time_is_zero_def)

lemma demo_before: "queued_command_before_at 7 demo_first_command demo_second_command"
  "\<not> queued_command_before_at 7 demo_second_command demo_first_command"
  by (simp_all add: queued_command_before_at_def demo_command_def demo_metadata_def aged_priority_def
      deadline_before_def time_is_zero_def go_quot_def time_sub_def max_duration_def min_duration_def zero_metadata_def)

lemma demo_one_reachable: "router_reachable demo_one"
proof -
  have "enqueue_command 5 demo_context Lane_command ''p'' demo_metadata (new_router 8) = Inr (demo_first_command, demo_one)"
    by (simp add: enqueue_command_def Let_def new_router_def demo_one_def demo_command_def)
  then show ?thesis by (blast intro: router_reachable.intros router_step.enqueue)
qed

lemma demo_two_reachable: "router_reachable demo_two"
proof -
  have "enqueue_command 6 demo_context Lane_command ''p'' demo_metadata demo_one = Inr (demo_second_command, demo_two)"
    by (simp add: enqueue_command_def Let_def new_router_def demo_one_def demo_two_def demo_command_def numeral_2_eq_2)
  then show ?thesis using demo_one_reachable by (blast intro: router_reachable.intros router_step.enqueue)
qed

lemma demo_two_fields [simp]:
  "rt_queues demo_two = (\<lambda>_. [])(Lane_command := [demo_first_command, demo_second_command])"
  "rt_cancelled demo_two = {}" "rt_next_allowed demo_two = (\<lambda>_. 0)" "rt_in_flight demo_two = []" "rt_run demo_two = Run_idle"
  "rt_next_id demo_two = 2" "rt_closed demo_two = False" "rt_maximum demo_two = 8"
  by (simp_all add: demo_two_def new_router_def)

lemma demo_next_pass: "next_pass 7 demo_no_error demo_two = (Some demo_first_command, True, 0, demo_taken)"
proof -
  have "(\<lambda>l. filter (\<lambda>c. \<not> command_expired 7 demo_no_error demo_two c) (rt_queues demo_two l)) = rt_queues demo_two"
    by (auto simp: fun_eq_iff)
  then show ?thesis
    using demo_before by (simp add: next_pass_def complete_expired_def remove_at_def demo_taken_def)
qed

lemma demo_sending_reachable: "router_reachable demo_sending"
proof -
  have "router_reachable (run_next 7 demo_no_error demo_two)"
    using demo_two_reachable by (rule router_reachable.step) (simp add: router_step.run_next)
  then have "router_reachable (demo_taken\<lparr>rt_run := Run_dispatching demo_first_command\<rparr>)"
    by (simp add: run_next_def demo_next_pass)
  then have "router_reachable (run_dispatch 8 demo_no_error None None True (demo_taken\<lparr>rt_run := Run_dispatching demo_first_command\<rparr>))"
    by (rule router_reachable.step) (simp add: router_step.run_dispatch)
  moreover have "validate_final_dispatch 8 (qc_ctx demo_first_command) = None"
    by (simp add: validate_final_dispatch_def metadata_from_context_def demo_command_def with_metadata_def
        demo_context_def normalize_metadata_def demo_metadata_def zero_metadata_def)
  ultimately show ?thesis
    by (simp add: run_dispatch_def dispatch_check_def command_ctx_err_def demo_taken_def time_is_zero_def demo_sending_def)
qed

lemma demo_sent_reachable: "router_reachable demo_sent"
  unfolding demo_sent_def using demo_sending_reachable router_step.run_sent by (rule router_reachable.step)

theorem router_accounts_for_every_command_witness:
  "length (rt_queues demo_two Lane_command) \<le> rt_maximum demo_two \<and> 1 \<in> set (router_ids demo_two)"
  using router_accounts_for_every_command [OF demo_two_reachable, of 1 Lane_command] by (simp add: router_ids_def)

theorem next_pass_selects_first_witness:
  "rt_in_flight demo_taken = [demo_first_command] \<and> queued_command_before_at 7 demo_first_command demo_second_command"
  using next_pass_selects_first [OF demo_two_reachable _ demo_next_pass] by (simp add: demo_taken_def)

theorem run_sent_effect_witness:
  "rt_run demo_sent = Run_idle \<and> rt_in_flight demo_sent = [] \<and> rt_next_allowed demo_sent Lane_command = 33 \<and>
    rt_results demo_sent 1 = Some None"
  using run_sent_effect [OF demo_sending_reachable _ demo_sent_def]
  by (simp add: demo_sending_def demo_taken_def)

lemma demo_sent_fields [simp]:
  "rt_queues demo_sent = (\<lambda>_. [])(Lane_command := [demo_second_command])"
  "rt_next_allowed demo_sent = (\<lambda>_. 0)(Lane_command := 33)" "rt_cancelled demo_sent = {1}"
  by (simp_all add: demo_sent_def run_sent_def finish_command_def cancel_command_def demo_sending_def demo_taken_def
      record_dispatch_def record_latency_def time_is_zero_def complete_command_def demo_command_def demo_metadata_def
      zero_metadata_def demo_two_def new_router_def Let_def)

lemma demo_wait: "\<exists>r'. next_pass 10 demo_no_error demo_sent = (None, True, 33, r') \<and>
    rt_queues r' = (\<lambda>_. [])(Lane_command := [demo_second_command])"
proof -
  have live: "\<not> command_expired 10 demo_no_error demo_sent demo_second_command"
    by (simp add: command_expired_def command_ctx_err_def time_is_zero_def)
  then have "(\<lambda>l. filter (\<lambda>c. \<not> command_expired 10 demo_no_error demo_sent c) (rt_queues demo_sent l)) = rt_queues demo_sent"
    by (auto simp: fun_eq_iff)
  with live show ?thesis by (simp add: next_pass_def complete_expired_def time_is_zero_def Let_def)
qed

theorem next_pass_waits_witness: "(10::gotime) < 33 \<and> (10::gotime) < rt_next_allowed demo_sent Lane_command"
proof -
  obtain r' where "next_pass 10 demo_no_error demo_sent = (None, True, 33, r')"
    "rt_queues r' = (\<lambda>_. [])(Lane_command := [demo_second_command])"
    using demo_wait by blast
  with next_pass_waits [OF demo_sent_reachable _ this(1)] show ?thesis by simp
qed

theorem reset_answers_all_witness:
  "rt_results (reset_router demo_sending) 1 = Some (Some (Indeterminate_error Err_reset)) \<and>
    router_ids (reset_router demo_sending) = []"
  using reset_answers_all [OF demo_sending_reachable, of "demo_first_command\<lparr>qc_dispatched_at := 8\<rparr>"]
  by (simp add: demo_sending_def)

theorem router_answers_are_final_witness: "rt_results (reset_router demo_sent) 1 = Some None"
proof (rule router_answers_are_final [OF router_step.reset])
  show "rt_results demo_sent 1 = Some None"
    by (simp add: demo_sent_def run_sent_def finish_command_def complete_command_def demo_sending_def demo_taken_def
        demo_two_def new_router_def)
qed

end
