(* ===== verification/LaneSafety.thy ===== *)
theory LaneSafety
  imports Decimal
begin

text \<open>
  The safety lock of automation lanes (\<^verbatim>\<open>Server/State/AutomationSafety.go\<close>,
  \<^verbatim>\<open>Server/Intent/LaneSafety.go\<close>). A rejection by the game that is not on a whitelist
  closes the automation lane it came from for 30 minutes; only a later manual review clears it.

  The functions below are the critical sections under \<open>laneSafety.mu\<close>. What they read of the
  environment are arguments: the clock (one reading per call of \<open>time.Now\<close>), whether the state
  store accepts the mutation (\<open>apply_err\<close>), whether persisting succeeds, the catalogue of
  response codes (\<open>meaning_of\<close>) and the context text of a ruby rejection. The localisation
  descriptors, translated copies of the detail and error texts, are left out, and so are the
  fields of an automation that no function here reads or writes.
\<close>

section \<open>Texts of times\<close>

text \<open>\<open>t.UTC().Format(time.RFC3339)\<close>; the civil date of a day counted from 1 January of year 1.\<close>

definition civil_date :: "nat \<Rightarrow> nat \<times> nat \<times> nat" where
  "civil_date days =
     (let z = days + 306;
          era = z div 146097;
          doe = z mod 146097;
          yoe = (doe - doe div 1460 + doe div 36524 - doe div 146096) div 365;
          doy = doe - (365 * yoe + yoe div 4 - yoe div 100);
          mp = (5 * doy + 2) div 153;
          d = doy - (153 * mp + 2) div 5 + 1;
          m = (if mp < 10 then mp + 3 else mp - 9);
          y = yoe + era * 400 + (if m \<le> 2 then 1 else 0)
      in (y, m, d))"

definition pad_left :: "nat \<Rightarrow> string \<Rightarrow> string" where
  "pad_left n s = replicate (n - length s) (CHR ''0'') @ s"

definition format_rfc3339 :: "gotime \<Rightarrow> string" where
  "format_rfc3339 t =
     (let secs = nat (t div second);
          (y, m, d) = civil_date (secs div 86400);
          r = secs mod 86400
      in pad_left 4 (show_nat y) @ ''-'' @ pad_left 2 (show_nat m) @ ''-'' @ pad_left 2 (show_nat d) @ ''T''
         @ pad_left 2 (show_nat (r div 3600)) @ '':'' @ pad_left 2 (show_nat (r mod 3600 div 60)) @ '':''
         @ pad_left 2 (show_nat (r mod 60)) @ ''Z'')"

section \<open>The lock\<close>

abbreviation (input) automation_safety_lock_duration :: duration where
  "automation_safety_lock_duration \<equiv> 30 * minute"

definition automation_rejection_whitelisted :: "string \<Rightarrow> int \<Rightarrow> bool" where
  "automation_rejection_whitelisted opcode code =
     (let o' = norm_str opcode
      in if o' = ''adi'' then code = 95
         else if o' = ''ere'' \<or> o' = ''eqe'' then code = 227
         else if o' = ''bup'' then code = 87
         else if o' = ''ahr'' then code = 273
         else False)"

record safety_lock =
  sl_meaning :: string
  sl_meaning_source :: string
  sl_context :: string
  sl_lane :: string
  sl_opcode :: string
  sl_code :: int
  sl_operation_id :: string
  sl_intent :: string
  sl_observed_at :: gotime
  sl_reason :: string
  sl_until :: gotime
  sl_cleared_at :: gotime
  sl_review :: string
  sl_reviewed_by :: string

definition no_lock :: safety_lock where
  "no_lock = \<lparr>sl_meaning = [], sl_meaning_source = [], sl_context = [], sl_lane = [], sl_opcode = [], sl_code = 0,
     sl_operation_id = [], sl_intent = [], sl_observed_at = time_zero, sl_reason = [], sl_until = time_zero,
     sl_cleared_at = time_zero, sl_review = [], sl_reviewed_by = []\<rparr>"

definition lock_expires_at :: "safety_lock \<Rightarrow> gotime" where
  "lock_expires_at l =
     (if \<not> time_is_zero (sl_observed_at l) then sl_observed_at l + automation_safety_lock_duration else sl_until l)"

definition lock_active :: "gotime \<Rightarrow> safety_lock \<Rightarrow> bool" where
  "lock_active now l =
     (let until = lock_expires_at l
      in sl_operation_id l \<noteq> [] \<and> time_is_zero (sl_cleared_at l) \<and>
         \<not> automation_rejection_whitelisted (sl_opcode l) (sl_code l) \<and> (time_is_zero until \<or> now < until))"

definition trim_right_dots :: "string \<Rightarrow> string" where
  "trim_right_dots s = rev (dropWhile (\<lambda>c. c = CHR ''.'') (rev s))"

definition to_upper_char :: "char \<Rightarrow> char" where
  "to_upper_char c = (let n = (of_char c :: nat) in if 97 \<le> n \<and> n \<le> 122 then char_of (n - 32) else c)"

definition lock_detail :: "safety_lock \<Rightarrow> string" where
  "lock_detail l =
     (let detail = ''Safety lock after '' @ map to_upper_char (sl_opcode l) @ '' '' @ show_int (sl_code l);
          detail = (if sl_context l \<noteq> [] then detail @ '': '' @ sl_context l
                    else if sl_meaning l \<noteq> [] then detail @ '': '' @ sl_meaning l
                    else detail);
          detail = trim_right_dots detail @ ''.'';
          until = lock_expires_at l
      in if \<not> time_is_zero until then detail @ '' Paused until '' @ format_rfc3339 until @ ''.''
         else detail @ '' Review this rejection before explicitly clearing the lane lock.'')"

section \<open>Automations and requests\<close>

record automation_state =
  au_safety_lock :: safety_lock
  au_id :: string
  au_enabled :: bool
  au_status :: string
  au_detail :: string
  au_next_check_at :: "gotime option"
  au_last_run_at :: "gotime option"
  au_last_operation_id :: string
  au_last_error :: string
  au_updated_at :: gotime

definition zero_automation :: automation_state where
  "zero_automation = \<lparr>au_safety_lock = no_lock, au_id = [], au_enabled = False, au_status = [], au_detail = [],
     au_next_check_at = None, au_last_run_at = None, au_last_operation_id = [], au_last_error = [],
     au_updated_at = time_zero\<rparr>"

type_synonym automations = "string \<Rightarrow> automation_state option"

record intent_request =
  rq_id :: string
  rq_name :: string
  rq_actor :: string
  rq_automation_lane :: string

record response_error =
  re_opcode :: string
  re_code :: int
  re_source :: string
  re_message :: string

definition meaning_unknown :: string where "meaning_unknown = ''undocumented''"
definition meaning_official :: string where "meaning_official = ''official game text''"

text \<open>The error of a step as \<open>guardRejection\<close> takes it apart: already a lane lock, an
  unsuccessful response, or anything else.\<close>

datatype step_error = Lane_locked safety_lock "step_error option" | Response_error response_error
  | Joined_error response_error string | Other_step_error string

definition request_lane :: "intent_request \<Rightarrow> string" where
  "request_lane r = (if has_prefix (trim_space (rq_actor r)) ''automation:'' then trim_space (rq_automation_lane r) else [])"

definition automation_lane_lock :: "automations \<Rightarrow> string \<Rightarrow> safety_lock" where
  "automation_lane_lock autos lane =
     (if lane = [] then no_lock else case autos lane of None \<Rightarrow> no_lock | Some a \<Rightarrow> au_safety_lock a)"

definition check_lane_safety :: "gotime \<Rightarrow> automations \<Rightarrow> intent_request \<Rightarrow> step_error option" where
  "check_lane_safety now autos r =
     (if has_prefix (trim_space (rq_actor r)) ''automation:'' \<and> request_lane r = []
      then Some (Other_step_error ''automation request requires an explicit originating lane'')
      else let lock = automation_lane_lock autos (request_lane r)
           in if lock_active now lock then Some (Lane_locked lock None) else None)"

section \<open>Writing, setting and clearing a lock\<close>

text \<open>The mutation of \<open>writeLaneLock\<close>; the store may refuse it, and persisting it may fail.\<close>

definition locked_automation :: "gotime \<Rightarrow> safety_lock \<Rightarrow> automation_state \<Rightarrow> automation_state" where
  "locked_automation now lock current =
     (let current = current\<lparr>au_id := sl_lane lock, au_safety_lock := lock, au_updated_at := now\<rparr>
      in if lock_active now lock then
           current\<lparr>au_status := ''gated'', au_detail := lock_detail lock, au_last_error := lock_detail lock,
             au_last_operation_id := sl_operation_id lock, au_next_check_at := None\<rparr>
         else current\<lparr>au_status := ''waiting'', au_detail := ''Safety lock reviewed and cleared'', au_last_error := []\<rparr>)"

definition write_lane_lock :: "gotime \<Rightarrow> string option \<Rightarrow> string option \<Rightarrow> safety_lock \<Rightarrow> automations \<Rightarrow>
    string option \<times> automations" where
  "write_lane_lock now apply_err persist_err lock autos =
     (case apply_err of Some e \<Rightarrow> (Some e, autos)
      | None \<Rightarrow>
          let current = (case autos (sl_lane lock) of None \<Rightarrow> zero_automation | Some a \<Rightarrow> a)
          in (persist_err, autos(sl_lane lock \<mapsto> locked_automation now lock current)))"

definition rejection_lock :: "gotime \<Rightarrow> string \<Rightarrow> string \<Rightarrow> intent_request \<Rightarrow> response_error \<Rightarrow> safety_lock" where
  "rejection_lock now context lane r e =
     (let lock = no_lock\<lparr>sl_lane := lane, sl_opcode := norm_str (re_opcode e), sl_code := re_code e,
            sl_operation_id := rq_id r, sl_intent := rq_name r, sl_observed_at := now,
            sl_reason := ''unclassified_rejection''\<rparr>;
          lock = (if re_source e \<noteq> meaning_unknown
                  then lock\<lparr>sl_meaning := re_message e, sl_meaning_source := re_source e\<rparr> else lock);
          lock = lock\<lparr>sl_context := context\<rparr>;
          lock = lock\<lparr>sl_until := sl_observed_at lock + automation_safety_lock_duration\<rparr>
      in if sl_opcode lock = ''msd'' then lock\<lparr>sl_reason := ''msd_rejection''\<rparr>
         else if sl_opcode lock = ''cra'' \<and> sl_code lock = 256 then lock\<lparr>sl_reason := ''hazardous_rejection''\<rparr>
         else lock)"

text \<open>\<open>now\<close>, \<open>observed\<close> and \<open>stored\<close> are the three successive readings of the clock.\<close>

definition guard_rejection :: "gotime \<Rightarrow> gotime \<Rightarrow> gotime \<Rightarrow> string \<Rightarrow> string option \<Rightarrow> string option \<Rightarrow>
    intent_request \<Rightarrow> step_error \<Rightarrow> automations \<Rightarrow> step_error \<times> automations" where
  "guard_rejection now observed stored context apply_err persist_err r err autos =
     (let lane = request_lane r in
      case err of
        Response_error e \<Rightarrow>
          (if lane = [] \<or> re_code e = 0 \<or> automation_rejection_whitelisted (re_opcode e) (re_code e) then (err, autos)
           else if lock_active now (automation_lane_lock autos lane)
             then (Lane_locked (automation_lane_lock autos lane) None, autos)
           else let lock = rejection_lock observed context lane r e
                in case write_lane_lock stored apply_err persist_err lock autos of
                     (Some save_err, autos') \<Rightarrow> (Lane_locked lock (Some (Joined_error e save_err)), autos')
                   | (None, autos') \<Rightarrow> (Lane_locked lock (Some err), autos'))
      | _ \<Rightarrow> (err, autos))"

text \<open>A failed write is followed by an attempt to write the original lock back; its own outcome
  (\<open>apply_err'\<close>, \<open>persist_err'\<close>) is ignored.\<close>

definition clear_automation_lane_lock :: "gotime \<Rightarrow> gotime \<Rightarrow> gotime \<Rightarrow> string option \<Rightarrow> string option \<Rightarrow>
    gotime \<Rightarrow> string option \<Rightarrow> string option \<Rightarrow> string \<Rightarrow> string \<Rightarrow> string \<Rightarrow> string \<Rightarrow> automations \<Rightarrow>
    string option \<times> automations" where
  "clear_automation_lane_lock now cleared_at stored apply_err persist_err stored' apply_err' persist_err'
       lane operation_id review actor autos =
     (if has_prefix (norm_str actor) ''automation:'' \<or> trim_space review = [] \<or> 1000 < length review
      then (Some ''a manual safety review of at most 1000 characters is required'', autos)
      else let lock = automation_lane_lock autos (trim_space lane)
           in if sl_operation_id lock = [] \<or> sl_operation_id lock \<noteq> trim_space operation_id \<or> \<not> time_is_zero (sl_cleared_at lock)
              then (Some ''the safety incident changed; refresh before reviewing it'', autos)
              else if lock_active now lock
              then (Some ''the mandatory 30-minute lane cooldown must expire before this lock can be cleared'', autos)
              else let cleared = lock\<lparr>sl_cleared_at := cleared_at, sl_review := trim_space review, sl_reviewed_by := actor\<rparr>
                   in case write_lane_lock stored apply_err persist_err cleared autos of
                        (None, autos') \<Rightarrow> (None, autos')
                      | (Some e, autos') \<Rightarrow> (Some e, snd (write_lane_lock stored' apply_err' persist_err' lock autos')))"

section \<open>The refresh at start-up\<close>

definition refresh_lock :: "gotime \<Rightarrow> (string \<Rightarrow> int \<Rightarrow> string \<times> string) \<Rightarrow> safety_lock \<Rightarrow> safety_lock" where
  "refresh_lock now meaning_of lock =
     (let lock = (if time_is_zero (sl_observed_at lock) then
                    (if \<not> time_is_zero (sl_until lock)
                     then lock\<lparr>sl_observed_at := sl_until lock - automation_safety_lock_duration\<rparr>
                     else lock\<lparr>sl_observed_at := now\<rparr>)
                  else lock);
          (source, message) = meaning_of (sl_opcode lock) (sl_code lock);
          lock = (if source \<noteq> meaning_unknown \<and> (sl_meaning lock = [] \<or> source = meaning_official)
                  then lock\<lparr>sl_meaning := message, sl_meaning_source := source\<rparr> else lock);
          lock = lock\<lparr>sl_until := lock_expires_at lock\<rparr>
      in if automation_rejection_whitelisted (sl_opcode lock) (sl_code lock)
         then lock\<lparr>sl_cleared_at := now, sl_reviewed_by := ''policy:whitelist'',
                   sl_review := ''Automatically exempted by the exact opcode/code whitelist.''\<rparr>
         else if \<not> now < sl_until lock
         then lock\<lparr>sl_cleared_at := sl_until lock, sl_reviewed_by := ''policy:expiry'',
                   sl_review := ''Original rejection is at least 30 minutes old.''\<rparr>
         else lock)"

definition refresh_automation :: "gotime \<Rightarrow> (string \<Rightarrow> int \<Rightarrow> string \<times> string) \<Rightarrow> automation_state \<Rightarrow> automation_state" where
  "refresh_automation now meaning_of current =
     (if sl_operation_id (au_safety_lock current) = [] \<or> \<not> time_is_zero (sl_cleared_at (au_safety_lock current))
      then current
      else let lock = refresh_lock now meaning_of (au_safety_lock current);
               next = current\<lparr>au_safety_lock := lock\<rparr>;
               next = (if lock_active now lock then
                         next\<lparr>au_status := ''gated'', au_detail := lock_detail lock, au_last_error := lock_detail lock,
                              au_next_check_at := Some (sl_until lock)\<rparr>
                       else if au_status current = ''gated'' \<and> has_prefix (au_detail current) ''Safety lock after '' then
                         next\<lparr>au_status := ''waiting'', au_last_error := [], au_next_check_at := None,
                              au_detail := ''Safety lock released by policy; waiting for normal prerequisites''\<rparr>
                       else next)
           in if next \<noteq> current then next\<lparr>au_updated_at := now\<rparr> else current)"

text \<open>\<open>lanes\<close> lists the keys of the map; without a change there is nothing to persist.\<close>

definition refresh_automation_lane_locks :: "gotime \<Rightarrow> (string \<Rightarrow> int \<Rightarrow> string \<times> string) \<Rightarrow> string option \<Rightarrow> string option \<Rightarrow>
    string list \<Rightarrow> automations \<Rightarrow> string option \<times> automations" where
  "refresh_automation_lane_locks now meaning_of apply_err persist_err lanes autos =
     (case apply_err of Some e \<Rightarrow> (Some e, autos)
      | None \<Rightarrow>
          let autos' = (\<lambda>lane. map_option (refresh_automation now meaning_of) (autos lane))
          in (if list_ex (\<lambda>lane. autos' lane \<noteq> autos lane) lanes then persist_err else None, autos'))"

section \<open>Lemmas\<close>

lemma whitelisted_norm [simp]:
  "automation_rejection_whitelisted (norm_str opc) code = automation_rejection_whitelisted opc code"
  by (simp add: automation_rejection_whitelisted_def)

lemma rejection_lock_simps [simp]:
  "sl_lane (rejection_lock now ctx lane r e) = lane" "sl_operation_id (rejection_lock now ctx lane r e) = rq_id r"
  "sl_opcode (rejection_lock now ctx lane r e) = norm_str (re_opcode e)" "sl_code (rejection_lock now ctx lane r e) = re_code e"
  "sl_cleared_at (rejection_lock now ctx lane r e) = 0" "sl_observed_at (rejection_lock now ctx lane r e) = now"
  by (simp_all add: rejection_lock_def no_lock_def Let_def)

lemma locked_automation_lock [simp]: "au_safety_lock (locked_automation now lock a) = lock"
  by (simp add: locked_automation_def Let_def)

lemma lane_lock_write:
  "lane \<noteq> [] \<Longrightarrow> automation_lane_lock (snd (write_lane_lock now None pe lock autos)) lane =
     (if lane = sl_lane lock then lock else automation_lane_lock autos lane)"
  by (simp add: write_lane_lock_def automation_lane_lock_def Let_def)

section \<open>Properties\<close>

text \<open>C32. A rejection closes its lane for exactly 30 minutes: after the guard has handled a
  rejection that is not whitelisted, every request of that lane is refused until 30 minutes after
  the observation and no longer, whether or not persisting the lock succeeded, and no other lane
  is affected.\<close>

theorem rejection_locks_lane:
  assumes "guard_rejection now observed stored ctx None persist_err r (Response_error e) autos = (err', autos')"
    and "request_lane r \<noteq> []" "rq_id r \<noteq> []" "re_code e \<noteq> 0" "0 < observed"
    and "\<not> automation_rejection_whitelisted (re_opcode e) (re_code e)"
    and "\<not> lock_active now (automation_lane_lock autos (request_lane r))"
    and "request_lane r' = request_lane r"
  shows "(check_lane_safety t autos' r' \<noteq> None \<longleftrightarrow> t < observed + 30 * minute) \<and>
    (lane \<noteq> request_lane r \<longrightarrow> autos' lane = autos lane) \<and> (\<exists>lock cause. err' = Lane_locked lock cause)"
proof -
  let ?lock = "rejection_lock observed ctx (request_lane r) r e"
  have autos': "autos' = snd (write_lane_lock stored None persist_err ?lock autos)"
    and err': "\<exists>lock cause. err' = Lane_locked lock cause"
    using assms by (auto simp: guard_rejection_def Let_def split: prod.splits option.splits)
  have "automation_lane_lock autos' (request_lane r') = ?lock"
    using lane_lock_write [OF assms(2)] assms(8) by (simp add: autos')
  moreover have "lock_active t ?lock \<longleftrightarrow> t < observed + 30 * minute"
    using assms(3,5,6) by (simp add: lock_active_def lock_expires_at_def time_is_zero_def Let_def)
  ultimately have "check_lane_safety t autos' r' \<noteq> None \<longleftrightarrow> t < observed + 30 * minute"
    using assms(2,8) by (simp add: check_lane_safety_def Let_def)
  then show ?thesis using err' by (simp add: autos' write_lane_lock_def Let_def)
qed

text \<open>Clearing needs an expired, identified incident: a successful clear happens only for the
  incident named by the caller, after its lock has run out, with a review and not by an automation;
  it records the review and touches no other lane.\<close>

theorem clear_needs_expired_incident:
  assumes "clear_automation_lane_lock now cleared_at stored apply_err persist_err stored' apply_err' persist_err'
      lane operation_id review actor autos = (None, autos')"
  shows "let lock = automation_lane_lock autos (trim_space lane) in
    \<not> lock_active now lock \<and> sl_operation_id lock = trim_space operation_id \<and> sl_operation_id lock \<noteq> [] \<and>
    sl_cleared_at lock = 0 \<and> \<not> has_prefix (norm_str actor) ''automation:'' \<and> trim_space review \<noteq> [] \<and> length review \<le> 1000 \<and>
    autos' = autos(sl_lane lock \<mapsto> locked_automation stored
      (lock\<lparr>sl_cleared_at := cleared_at, sl_review := trim_space review, sl_reviewed_by := actor\<rparr>)
      (case autos (sl_lane lock) of None \<Rightarrow> zero_automation | Some a \<Rightarrow> a))"
  using assms unfolding clear_automation_lane_lock_def Let_def
  by (auto simp: write_lane_lock_def time_is_zero_def Let_def not_less split: if_splits option.splits prod.splits)

text \<open>A clear that fails to persist is announced as done: the lock is put back uncleared, but
  the lane's detail then reads \<open>reviewed and cleared\<close>.\<close>

theorem failed_clear_reads_cleared:
  assumes "clear_automation_lane_lock now cleared_at stored None (Some e) stored' None persist_err'
      lane operation_id review actor autos = (Some e, autos')"
    and "autos (trim_space lane) = Some a" "trim_space lane \<noteq> []" "sl_lane (au_safety_lock a) = trim_space lane"
    and "e \<noteq> ''a manual safety review of at most 1000 characters is required''"
    and "e \<noteq> ''the safety incident changed; refresh before reviewing it''"
    and "e \<noteq> ''the mandatory 30-minute lane cooldown must expire before this lock can be cleared''"
    and "now \<le> stored'"
  shows "\<exists>a'. autos' (trim_space lane) = Some a' \<and> sl_cleared_at (au_safety_lock a') = 0 \<and>
    au_status a' = ''waiting'' \<and> au_detail a' = ''Safety lock reviewed and cleared''"
proof -
  let ?lock = "au_safety_lock a"
  have lock: "automation_lane_lock autos (trim_space lane) = ?lock" using assms(2,3) by (simp add: automation_lane_lock_def)
  have late: "\<not> lock_active now ?lock \<Longrightarrow> \<not> lock_active stored' ?lock"
    using assms(8) by (auto simp: lock_active_def Let_def)
  have open_lock: "sl_cleared_at ?lock = 0" "\<not> lock_active now ?lock"
    and autos': "autos' = autos(sl_lane ?lock \<mapsto> locked_automation stored' ?lock (locked_automation stored
       (?lock\<lparr>sl_cleared_at := cleared_at, sl_review := trim_space review, sl_reviewed_by := actor\<rparr>) a))"
    using assms(1,2,4-7) unfolding clear_automation_lane_lock_def Let_def lock
    by (auto simp: write_lane_lock_def time_is_zero_def Let_def split: if_splits)
  show ?thesis
    using open_lock late assms(4) by (simp add: autos' locked_automation_def Let_def)
qed

text \<open>The refresh at start-up never moves a timer: from then on an open lock is active until
  the end it had before, at most 30 minutes from now if it had none, and never if its rejection is
  whitelisted.\<close>

theorem refresh_keeps_timer:
  assumes "sl_operation_id lock \<noteq> []" "sl_cleared_at lock = 0" "0 < now" "now \<le> t"
    and "0 < sl_observed_at lock \<or> sl_observed_at lock = 0 \<and> (sl_until lock = 0 \<or> 30 * minute < sl_until lock)"
  shows "lock_active t (refresh_lock now meaning_of lock) \<longleftrightarrow>
    \<not> automation_rejection_whitelisted (sl_opcode lock) (sl_code lock) \<and>
    t < (if sl_observed_at lock = 0 \<and> sl_until lock = 0 then now + 30 * minute else lock_expires_at lock)"
proof -
  obtain source message where m: "meaning_of (sl_opcode lock) (sl_code lock) = (source, message)" by fastforce
  define observed where "observed = (if sl_observed_at lock \<noteq> 0 then sl_observed_at lock
    else if sl_until lock \<noteq> 0 then sl_until lock - 30 * minute else now)"
  have obs: "0 < observed" using assms(3,5) by (auto simp: observed_def)
  have ends: "observed + 30 * minute = (if sl_observed_at lock = 0 \<and> sl_until lock = 0 then now + 30 * minute else lock_expires_at lock)"
    by (simp add: observed_def lock_expires_at_def time_is_zero_def)
  define r where "r = refresh_lock now meaning_of lock"
  have r: "sl_operation_id r = sl_operation_id lock" "sl_opcode r = sl_opcode lock" "sl_code r = sl_code lock"
    "sl_observed_at r = observed"
    by (auto simp: r_def refresh_lock_def observed_def m time_is_zero_def Let_def)
  have c: "sl_cleared_at r = (if automation_rejection_whitelisted (sl_opcode lock) (sl_code lock) then now
      else if observed + 30 * minute \<le> now then observed + 30 * minute else 0)"
    using assms(2,3,5) by (auto simp: r_def refresh_lock_def observed_def m time_is_zero_def lock_expires_at_def Let_def)
  have "lock_active t r \<longleftrightarrow> \<not> automation_rejection_whitelisted (sl_opcode lock) (sl_code lock) \<and> t < observed + 30 * minute"
    unfolding lock_active_def Let_def lock_expires_at_def r c
    using obs assms(1,3,4) by (auto simp: time_is_zero_def)
  then show ?thesis by (simp only: r_def ends)
qed

section \<open>A concrete incident\<close>

definition demo_lane_request :: intent_request where
  "demo_lane_request = \<lparr>rq_id = ''op1'', rq_name = ''unit.train'', rq_actor = ''automation:autorecruit'',
     rq_automation_lane = ''recruit''\<rparr>"

definition demo_rejection :: response_error where
  "demo_rejection = \<lparr>re_opcode = ''bup'', re_code = 55, re_source = ''undocumented'', re_message = []\<rparr>"

definition demo_incident :: safety_lock where
  "demo_incident = rejection_lock 5 [] ''recruit'' demo_lane_request demo_rejection"

lemma demo_lane: "request_lane demo_lane_request = ''recruit''" by code_simp
lemma demo_trims: "trim_space ''recruit'' = ''recruit''" "trim_space ''op1'' = ''op1''" "trim_space ''ok'' = ''ok''"
  "has_prefix (norm_str ''user'') ''automation:'' = False" by code_simp+
lemma demo_not_whitelisted: "\<not> automation_rejection_whitelisted ''bup'' 55" by code_simp

lemma demo_incident_simps:
  "sl_operation_id demo_incident = ''op1''" "sl_cleared_at demo_incident = 0" "sl_lane demo_incident = ''recruit''"
  by (simp_all add: demo_incident_def demo_lane_request_def)

lemma demo_incident_active: "lock_active t demo_incident \<longleftrightarrow> t < 5 + 30 * minute"
  using demo_not_whitelisted
  by (simp add: demo_incident_def lock_active_def lock_expires_at_def time_is_zero_def demo_rejection_def
      demo_lane_request_def Let_def)

definition demo_automation :: automation_state where
  "demo_automation = locked_automation 5 demo_incident zero_automation"

theorem rejection_locks_lane_witness:
  "check_lane_safety 7 (snd (guard_rejection 5 5 5 [] None None demo_lane_request (Response_error demo_rejection) (\<lambda>_. None)))
     demo_lane_request \<noteq> None"
proof -
  obtain err' autos' where g: "guard_rejection 5 5 5 [] None None demo_lane_request (Response_error demo_rejection) (\<lambda>_. None)
      = (err', autos')" by fastforce
  have "check_lane_safety 7 autos' demo_lane_request \<noteq> None \<longleftrightarrow> 7 < 5 + 30 * minute"
    using rejection_locks_lane [OF g, of demo_lane_request] demo_not_whitelisted
    by (simp add: demo_lane demo_rejection_def automation_lane_lock_def lock_active_def no_lock_def)
      (simp add: demo_lane_request_def)
  then show ?thesis by (simp add: g)
qed

theorem clear_needs_expired_incident_witness: "\<not> lock_active (40 * minute) demo_incident \<and> sl_cleared_at demo_incident = 0"
proof -
  obtain autos' where c: "clear_automation_lane_lock (40 * minute) (40 * minute) (40 * minute) None None 0 None None
      ''recruit'' ''op1'' ''ok'' ''user'' [''recruit'' \<mapsto> demo_automation] = (None, autos')"
    by (simp add: clear_automation_lane_lock_def Let_def automation_lane_lock_def demo_trims demo_automation_def
        demo_incident_simps demo_incident_active time_is_zero_def write_lane_lock_def)
  from clear_needs_expired_incident [OF c] show ?thesis
    by (simp add: Let_def demo_trims automation_lane_lock_def demo_automation_def)
qed

theorem failed_clear_reads_cleared_witness:
  "\<exists>a'. snd (clear_automation_lane_lock (40 * minute) (40 * minute) (40 * minute) None (Some ''disk full'')
      (41 * minute) None None ''recruit'' ''op1'' ''ok'' ''user'' [''recruit'' \<mapsto> demo_automation]) ''recruit'' = Some a' \<and>
    sl_cleared_at (au_safety_lock a') = 0 \<and> au_detail a' = ''Safety lock reviewed and cleared''"
proof -
  let ?c = "clear_automation_lane_lock (40 * minute) (40 * minute) (40 * minute) None (Some ''disk full'')
      (41 * minute) None None ''recruit'' ''op1'' ''ok'' ''user'' [''recruit'' \<mapsto> demo_automation]"
  have "fst ?c = Some ''disk full''"
    by (simp add: clear_automation_lane_lock_def Let_def automation_lane_lock_def demo_trims demo_automation_def
        demo_incident_simps demo_incident_active time_is_zero_def write_lane_lock_def)
  then have c: "?c = (Some ''disk full'', snd ?c)" by (metis prod.collapse)
  have "\<exists>a'. snd ?c (trim_space ''recruit'') = Some a' \<and> sl_cleared_at (au_safety_lock a') = 0 \<and>
      au_status a' = ''waiting'' \<and> au_detail a' = ''Safety lock reviewed and cleared''"
    by (rule failed_clear_reads_cleared [OF c, of demo_automation])
      (simp_all add: demo_trims demo_automation_def demo_incident_simps)
  then show ?thesis unfolding demo_trims by blast
qed

theorem refresh_keeps_timer_witness:
  "lock_active 9 (refresh_lock 7 (\<lambda>_ _. (''undocumented'', [])) demo_incident) \<longleftrightarrow>
    \<not> automation_rejection_whitelisted (sl_opcode demo_incident) (sl_code demo_incident) \<and>
    9 < (if sl_observed_at demo_incident = 0 \<and> sl_until demo_incident = 0 then 7 + 30 * minute else lock_expires_at demo_incident)"
  by (rule refresh_keeps_timer) (simp_all add: demo_incident_simps, simp add: demo_incident_def)

end
