(* ===== verification/OperationStore.thy ===== *)
theory OperationStore
  imports LaneSafety WaitOrder
begin

text \<open>
  The durable journal of operations (\<^verbatim>\<open>Server/Intent/OperationStore.go\<close>, the receipts of
  \<^verbatim>\<open>Server/Intent/Types.go\<close>): one SQLite table, written by \<open>Reserve\<close>, \<open>Save\<close>,
  \<open>Recover\<close> and the pruning at start-up, read by \<open>Get\<close>, \<open>Recent\<close> and \<open>Page\<close>.

  The table is the list of its rows in the order of their row ids; each SQL statement is the list
  function it denotes, and a failing statement rolls its transaction back. New rows get the
  largest row id plus one, as SQLite documents. Text columns compare byte by byte, so the order of
  \<open>updated_at\<close> is the order of the formatted texts. Where rows compare equal SQLite may
  return them in any order; the model keeps the order of row ids.

  A receipt keeps the fields these functions use; \<open>rc_body\<close> stands for the others (plan steps,
  exchanges, evidence, presentation), which they carry along. Encoding to JSON and back loses
  exactly \<open>RawError\<close>. The wording of an error for users is the argument \<open>humanize\<close>.
\<close>

section \<open>Receipts\<close>

datatype effect = Effect_read | Effect_write | Effect_launch | Effect_external

datatype status = Status_planning | Status_planned | Status_queued | Status_running | Status_paused | Status_succeeded
  | Status_cancelled | Status_failed | Status_partially_succeeded | Status_indeterminate | Status_reconciling

datatype effect_phase = Phase_none | Phase_accepted | Phase_planned | Phase_dispatching | Phase_sent
  | Phase_awaiting_response | Phase_observed | Phase_reconciliation_required | Phase_completed

record 'b receipt =
  rc_id :: string
  rc_intent :: string
  rc_actor :: string
  rc_status :: status
  rc_phase :: effect_phase
  rc_plan_effect :: "effect option"
  rc_error :: string
  rc_raw_error :: string
  rc_submitted_at :: gotime
  rc_completed_at :: "gotime option"
  rc_body :: 'b

definition receipt_terminal :: "'b receipt \<Rightarrow> bool" where
  "receipt_terminal r \<longleftrightarrow> rc_completed_at r \<noteq> None"

definition diagnostic_error :: "'b receipt \<Rightarrow> string" where
  "diagnostic_error r = (if rc_raw_error r \<noteq> [] then rc_raw_error r else rc_error r)"

text \<open>Encoding a receipt and decoding it again.\<close>

definition receipt_json_roundtrip :: "'b receipt \<Rightarrow> 'b receipt" where
  "receipt_json_roundtrip r = r\<lparr>rc_raw_error := []\<rparr>"

definition with_failure :: "(string \<Rightarrow> string) \<Rightarrow> string \<Rightarrow> 'b receipt \<Rightarrow> 'b receipt" where
  "with_failure humanize err r = r\<lparr>rc_raw_error := err, rc_error := humanize err\<rparr>"

text \<open>The states a crash can interrupt.\<close>

definition status_recoverable :: "status \<Rightarrow> bool" where
  "status_recoverable s \<longleftrightarrow> s \<in> {Status_planning, Status_queued, Status_running, Status_paused, Status_reconciling}"

section \<open>The table\<close>

text \<open>\<open>Format(time.RFC3339Nano)\<close>: the fraction of the second without trailing zeros.\<close>

definition format_rfc3339_nano :: "gotime \<Rightarrow> string" where
  "format_rfc3339_nano t =
     (let digits = pad_left 9 (show_nat (nat (t mod second)));
          fraction = rev (dropWhile (\<lambda>c. c = CHR ''0'') (rev digits));
          whole = format_rfc3339 t
      in if fraction = [] then whole else butlast whole @ ''.'' @ fraction @ ''Z'')"

record 'b operation_row =
  ro_rowid :: nat
  ro_operation_id :: string
  ro_request_hash :: string
  ro_receipt :: "'b receipt"
  ro_status :: status
  ro_phase :: effect_phase
  ro_submitted_at :: string
  ro_updated_at :: string

type_synonym 'b operation_table = "'b operation_row list"

record 'b stored_operation =
  so_receipt :: "'b receipt"
  so_request_hash :: string

datatype store_error = Store_failed string | Idempotency_conflict string | Unknown_operation_cursor
  | Not_reserved string | Id_and_hash_required

abbreviation (input) operation_history_limit :: nat where "operation_history_limit \<equiv> 10000"

definition decode_stored :: "'b operation_row \<Rightarrow> 'b stored_operation" where
  "decode_stored ro = \<lparr>so_receipt = ro_receipt ro, so_request_hash = ro_request_hash ro\<rparr>"

definition find_operation :: "string \<Rightarrow> 'b operation_table \<Rightarrow> 'b operation_row option" where
  "find_operation i tbl = List.find (\<lambda>ro. ro_operation_id ro = i) tbl"

text \<open>\<open>ORDER BY updated_at DESC\<close>.\<close>

definition by_updated_desc :: "'b operation_table \<Rightarrow> 'b operation_table" where
  "by_updated_desc tbl = stable_sort (\<lambda>a b. ro_updated_at b < ro_updated_at a) tbl"

section \<open>Operations\<close>

text \<open>The \<open>DELETE\<close> at start-up: of the terminal rows only the first
  \<open>operation_history_limit\<close> in this order stay.\<close>

definition prune_terminal_history :: "'b operation_table \<Rightarrow> 'b operation_table" where
  "prune_terminal_history tbl =
     (let doomed = drop operation_history_limit (by_updated_desc (filter (\<lambda>ro. \<not> status_recoverable (ro_status ro)) tbl))
      in filter (\<lambda>ro. ro_operation_id ro \<notin> ro_operation_id ` set doomed) tbl)"

definition next_rowid :: "'b operation_table \<Rightarrow> nat" where
  "next_rowid tbl = (if tbl = [] then 1 else Suc (ro_rowid (last tbl)))"

definition reserve_operation :: "gotime \<Rightarrow> string option \<Rightarrow> string \<Rightarrow> 'b receipt \<Rightarrow> 'b operation_table \<Rightarrow>
    store_error + ('b receipt \<times> bool \<times> 'b operation_table)" where
  "reserve_operation now db_err request_hash receipt tbl =
     (let request_hash = trim_space request_hash in
      if request_hash = [] \<or> trim_space (rc_id receipt) = [] then Inl Id_and_hash_required
      else case db_err of Some e \<Rightarrow> Inl (Store_failed e) | None \<Rightarrow>
        case find_operation (rc_id receipt) tbl of
          None \<Rightarrow> Inr (receipt, True, tbl @ [\<lparr>ro_rowid = next_rowid tbl, ro_operation_id = rc_id receipt,
            ro_request_hash = request_hash, ro_receipt = receipt_json_roundtrip receipt, ro_status = rc_status receipt,
            ro_phase = rc_phase receipt, ro_submitted_at = format_rfc3339_nano (rc_submitted_at receipt),
            ro_updated_at = format_rfc3339_nano now\<rparr>])
        | Some existing \<Rightarrow>
            if ro_request_hash existing \<noteq> request_hash then Inl (Idempotency_conflict (rc_id receipt))
            else Inr (ro_receipt existing, False, tbl))"

text \<open>The \<open>UPDATE\<close> shared by \<open>Save\<close> and \<open>Recover\<close>.\<close>

definition update_row :: "gotime \<Rightarrow> 'b receipt \<Rightarrow> 'b operation_row \<Rightarrow> 'b operation_row" where
  "update_row now receipt ro =
     (if ro_operation_id ro = rc_id receipt
      then ro\<lparr>ro_receipt := receipt_json_roundtrip receipt, ro_status := rc_status receipt, ro_phase := rc_phase receipt,
             ro_updated_at := format_rfc3339_nano now\<rparr>
      else ro)"

definition save_operation :: "gotime \<Rightarrow> string option \<Rightarrow> 'b receipt \<Rightarrow> 'b operation_table \<Rightarrow>
    store_error + 'b operation_table" where
  "save_operation now db_err receipt tbl =
     (case db_err of Some e \<Rightarrow> Inl (Store_failed e)
      | None \<Rightarrow> if length (filter (\<lambda>ro. ro_operation_id ro = rc_id receipt) tbl) \<noteq> 1 then Inl (Not_reserved (rc_id receipt))
                else Inr (map (update_row now receipt) tbl))"

definition get_operation :: "string \<Rightarrow> 'b operation_table \<Rightarrow> 'b stored_operation option" where
  "get_operation i tbl = map_option decode_stored (find_operation (trim_space i) tbl)"

definition recent_operations :: "int \<Rightarrow> 'b operation_table \<Rightarrow> 'b stored_operation list" where
  "recent_operations limit tbl =
     (let limit = (if limit \<le> 0 \<or> int operation_history_limit < limit then operation_history_limit else nat limit)
      in map decode_stored (take limit (by_updated_desc tbl)))"

definition page_operations :: "string \<Rightarrow> int \<Rightarrow> 'b operation_table \<Rightarrow> store_error + 'b stored_operation list" where
  "page_operations before_id limit tbl =
     (let limit = nat (min (max limit 1) (int operation_history_limit)) in
      if before_id = [] then Inr (map decode_stored (take limit (rev tbl)))
      else case find_operation before_id tbl of
             None \<Rightarrow> Inl Unknown_operation_cursor
           | Some cursor \<Rightarrow> Inr (map decode_stored (take limit (rev (filter (\<lambda>ro. ro_rowid ro < ro_rowid cursor) tbl)))))"

text \<open>What \<open>Recover\<close> makes of an interrupted receipt.\<close>

definition recover_receipt :: "gotime \<Rightarrow> (string \<Rightarrow> string) \<Rightarrow> 'b receipt \<Rightarrow> 'b receipt" where
  "recover_receipt now humanize r =
     (let possibly_dispatched = (rc_phase r \<in> {Phase_dispatching, Phase_sent, Phase_awaiting_response} \<or>
            rc_status r \<in> {Status_running, Status_paused, Status_reconciling});
          mutating = (rc_plan_effect r = None \<or> rc_plan_effect r \<noteq> Some Effect_read);
          r = (if possibly_dispatched \<and> mutating
               then with_failure humanize ''application restarted after this operation may have dispatched an effect; automatic replay is prohibited''
                      (r\<lparr>rc_status := Status_indeterminate, rc_phase := Phase_reconciliation_required\<rparr>)
               else with_failure humanize ''application restarted before this operation completed''
                      (r\<lparr>rc_status := Status_failed, rc_phase := Phase_completed\<rparr>))
      in r\<lparr>rc_completed_at := Some now\<rparr>)"

definition recover_operations :: "gotime \<Rightarrow> string option \<Rightarrow> (string \<Rightarrow> string) \<Rightarrow> 'b operation_table \<Rightarrow>
    store_error + ('b stored_operation list \<times> 'b operation_table)" where
  "recover_operations now db_err humanize tbl =
     (case db_err of Some e \<Rightarrow> Inl (Store_failed e)
      | None \<Rightarrow>
          let operations = map decode_stored (filter (\<lambda>ro. status_recoverable (ro_status ro)) tbl);
              recovered = map (\<lambda>so. so\<lparr>so_receipt := recover_receipt now humanize (so_receipt so)\<rparr>) operations
          in Inr (recovered, fold (\<lambda>so t. map (update_row now (so_receipt so)) t) recovered tbl))"

section \<open>Well-formed tables\<close>

definition row_ok :: "'b operation_row \<Rightarrow> bool" where
  "row_ok ro \<longleftrightarrow> rc_id (ro_receipt ro) = ro_operation_id ro \<and> rc_status (ro_receipt ro) = ro_status ro \<and>
     rc_phase (ro_receipt ro) = ro_phase ro \<and> rc_raw_error (ro_receipt ro) = [] \<and> ro_operation_id ro \<noteq> []"

definition table_ok :: "'b operation_table \<Rightarrow> bool" where
  "table_ok tbl \<longleftrightarrow> distinct (map ro_operation_id tbl) \<and> sorted_wrt (<) (map ro_rowid tbl) \<and> (\<forall>ro \<in> set tbl. row_ok ro)"

lemma table_okD:
  assumes "table_ok tbl"
  shows "distinct (map ro_operation_id tbl)" "sorted_wrt (<) (map ro_rowid tbl)" "ro \<in> set tbl \<Longrightarrow> row_ok ro"
  using assms by (simp_all add: table_ok_def)

lemma table_ok_filter: "table_ok tbl \<Longrightarrow> table_ok (filter P tbl)"
  by (auto simp: table_ok_def distinct_map_filter sorted_wrt_map sorted_wrt_filter)

lemma update_row_keys [simp]: "ro_operation_id (update_row now r ro) = ro_operation_id ro" "ro_rowid (update_row now r ro) = ro_rowid ro"
  "ro_request_hash (update_row now r ro) = ro_request_hash ro"
  by (simp_all add: update_row_def)

lemma update_row_ok: "row_ok ro \<Longrightarrow> row_ok (update_row now r ro)"
  by (auto simp: row_ok_def update_row_def receipt_json_roundtrip_def)

lemma table_ok_map:
  assumes "table_ok tbl" "\<And>ro. ro_operation_id (f ro) = ro_operation_id ro" "\<And>ro. ro_rowid (f ro) = ro_rowid ro"
    and "\<And>ro. row_ok ro \<Longrightarrow> row_ok (f ro)"
  shows "table_ok (map f tbl)"
  using assms by (simp add: table_ok_def comp_def)

lemma find_operation_Some:
  "find_operation i tbl = Some ro \<Longrightarrow> ro \<in> set tbl \<and> ro_operation_id ro = i"
  unfolding find_operation_def by (auto simp: find_Some_iff)

lemma find_operation_None: "find_operation i tbl = None \<longleftrightarrow> i \<notin> ro_operation_id ` set tbl"
  unfolding find_operation_def by (auto simp: find_None_iff)

lemma find_operation_mem: "distinct (map ro_operation_id tbl) \<Longrightarrow> ro \<in> set tbl \<Longrightarrow> find_operation (ro_operation_id ro) tbl = Some ro"
  unfolding find_operation_def by (induction tbl) (auto simp: image_iff)

lemma find_operation_append:
  "find_operation i (tbl @ [ro]) = (case find_operation i tbl of Some x \<Rightarrow> Some x | None \<Rightarrow> if ro_operation_id ro = i then Some ro else None)"
  unfolding find_operation_def by (induction tbl) auto

lemma table_ok_reserve:
  assumes "table_ok tbl" "reserve_operation now err h r tbl = Inr (r', b, tbl')"
  shows "table_ok tbl'"
proof (cases b)
  case True
  with assms(2) obtain h' where none: "find_operation (rc_id r) tbl = None" and trim: "trim_space (rc_id r) \<noteq> []"
    and tbl': "tbl' = tbl @ [\<lparr>ro_rowid = next_rowid tbl, ro_operation_id = rc_id r, ro_request_hash = h',
      ro_receipt = receipt_json_roundtrip r, ro_status = rc_status r, ro_phase = rc_phase r,
      ro_submitted_at = format_rfc3339_nano (rc_submitted_at r), ro_updated_at = format_rfc3339_nano now\<rparr>]"
    by (auto simp: reserve_operation_def Let_def split: if_splits option.splits)
  have "\<forall>ro \<in> set tbl. ro_rowid ro < next_rowid tbl"
  proof (cases tbl rule: rev_cases)
    case (snoc ys y)
    then have "\<forall>ro \<in> set ys. ro_rowid ro < ro_rowid y"
      using table_okD(2) [OF assms(1)] by (auto simp: sorted_wrt_append)
    with snoc show ?thesis by (auto simp: next_rowid_def less_SucI)
  qed simp
  moreover have "rc_id r \<noteq> []" using trim by auto
  ultimately show ?thesis
    using assms(1) none unfolding tbl' find_operation_None by (auto simp: table_ok_def sorted_wrt_append row_ok_def receipt_json_roundtrip_def)
next
  case False
  with assms show ?thesis by (auto simp: reserve_operation_def Let_def split: if_splits option.splits)
qed

lemma table_ok_save: "table_ok tbl \<Longrightarrow> save_operation now err r tbl = Inr tbl' \<Longrightarrow> table_ok tbl'"
  by (auto simp: save_operation_def intro!: table_ok_map update_row_ok split: option.splits if_splits)

lemma table_ok_prune: "table_ok tbl \<Longrightarrow> table_ok (prune_terminal_history tbl)"
  by (simp add: prune_terminal_history_def table_ok_filter Let_def)

section \<open>Recovery row by row\<close>

definition recovered_row :: "gotime \<Rightarrow> (string \<Rightarrow> string) \<Rightarrow> 'b operation_row \<Rightarrow> 'b operation_row" where
  "recovered_row now humanize ro =
     (if status_recoverable (ro_status ro) then update_row now (recover_receipt now humanize (ro_receipt ro)) ro else ro)"

lemma recover_receipt_id [simp]: "rc_id (recover_receipt now humanize r) = rc_id r"
  by (simp add: recover_receipt_def with_failure_def Let_def)

lemma recovered_row_id [simp]: "ro_operation_id (recovered_row now humanize ro) = ro_operation_id ro"
  by (simp add: recovered_row_def)

lemma fold_map_rows: "fold (\<lambda>x t. map (f x) t) xs tbl = map (\<lambda>ro. fold f xs ro) tbl"
  by (induction xs arbitrary: tbl) (simp_all add: comp_def)

lemma fold_update_none:
  "\<forall>so \<in> set xs. rc_id (so_receipt so) \<noteq> ro_operation_id ro \<Longrightarrow>
    fold (\<lambda>so. update_row now (so_receipt so)) xs ro = ro"
  by (induction xs arbitrary: ro) (auto simp: update_row_def)

lemma fold_update_one:
  assumes "distinct (map (\<lambda>so. rc_id (so_receipt so)) xs)" "so \<in> set xs" "rc_id (so_receipt so) = ro_operation_id ro"
  shows "fold (\<lambda>so. update_row now (so_receipt so)) xs ro = update_row now (so_receipt so) ro"
  using assms
proof (induction xs arbitrary: ro)
  case (Cons x xs)
  show ?case
  proof (cases "x = so")
    case True
    have "\<forall>s \<in> set xs. rc_id (so_receipt s) \<noteq> ro_operation_id (update_row now (so_receipt so) ro)"
      using Cons.prems True by (auto simp: image_iff)
    then show ?thesis using True by (simp add: fold_update_none)
  next
    case False
    with Cons.prems have "so \<in> set xs" "rc_id (so_receipt x) \<noteq> ro_operation_id ro" by (auto simp: image_iff)
    with Cons show ?thesis by (simp add: update_row_def [of _ "so_receipt x"])
  qed
qed simp

lemma recover_operations_rows:
  assumes ok: "table_ok tbl"
  shows "recover_operations now None humanize tbl =
    Inr (map (\<lambda>ro. \<lparr>so_receipt = recover_receipt now humanize (ro_receipt ro), so_request_hash = ro_request_hash ro\<rparr>)
           (filter (\<lambda>ro. status_recoverable (ro_status ro)) tbl),
         map (recovered_row now humanize) tbl)"
proof -
  let ?rows = "filter (\<lambda>ro. status_recoverable (ro_status ro)) tbl"
  let ?rec = "\<lambda>ro. \<lparr>so_receipt = recover_receipt now humanize (ro_receipt ro), so_request_hash = ro_request_hash ro\<rparr>"
  have ids: "map (\<lambda>so. rc_id (so_receipt so)) (map ?rec ?rows) = map ro_operation_id ?rows"
    using table_okD(3) [OF ok] by (auto simp: row_ok_def)
  have d: "distinct (map (\<lambda>so. rc_id (so_receipt so)) (map ?rec ?rows))"
    unfolding ids using table_okD(1) [OF ok] by (rule distinct_map_filter)
  have "fold (\<lambda>so. update_row now (so_receipt so)) (map ?rec ?rows) ro = recovered_row now humanize ro" if ro: "ro \<in> set tbl" for ro
  proof (cases "status_recoverable (ro_status ro)")
    case True
    then have "?rec ro \<in> set (map ?rec ?rows)" "rc_id (so_receipt (?rec ro)) = ro_operation_id ro"
      using ro table_okD(3) [OF ok ro] by (auto simp: row_ok_def)
    from fold_update_one [OF d this] True show ?thesis by (simp add: recovered_row_def)
  next
    case False
    have "rc_id (so_receipt (?rec x)) \<noteq> ro_operation_id ro" if "x \<in> set ?rows" for x
      using that False ro table_okD(1) [OF ok] table_okD(3) [OF ok, of x] by (auto simp: row_ok_def distinct_map inj_on_def)
    then have "fold (\<lambda>so. update_row now (so_receipt so)) (map ?rec ?rows) ro = ro"
      by (intro fold_update_none) auto
    with False show ?thesis by (simp add: recovered_row_def)
  qed
  then show ?thesis
    by (simp add: recover_operations_def fold_map_rows decode_stored_def comp_def Let_def)
qed

lemma table_ok_recover: "table_ok tbl \<Longrightarrow> recover_operations now err humanize tbl = Inr (ops, tbl') \<Longrightarrow> table_ok tbl'"
  by (cases err)
    (auto simp: recover_operations_rows recover_operations_def [of _ "Some _"] recovered_row_def intro!: table_ok_map update_row_ok)

text \<open>The tables the program can reach: any of its operations, at any time.\<close>

inductive table_reachable :: "'b operation_table \<Rightarrow> bool" where
  empty: "table_reachable []"
| reserve: "table_reachable tbl \<Longrightarrow> reserve_operation now err h r tbl = Inr (r', b, tbl') \<Longrightarrow> table_reachable tbl'"
| save: "table_reachable tbl \<Longrightarrow> save_operation now err r tbl = Inr tbl' \<Longrightarrow> table_reachable tbl'"
| recover: "table_reachable tbl \<Longrightarrow> recover_operations now err humanize tbl = Inr (ops, tbl') \<Longrightarrow> table_reachable tbl'"
| prune: "table_reachable tbl \<Longrightarrow> table_reachable (prune_terminal_history tbl)"

lemma table_reachable_ok: "table_reachable tbl \<Longrightarrow> table_ok tbl"
proof (induction rule: table_reachable.induct)
  case empty
  then show ?case by (simp add: table_ok_def)
qed (blast intro: table_ok_reserve table_ok_save table_ok_recover table_ok_prune)+

section \<open>Properties\<close>


text \<open>Recovery settles everything and replays nothing: afterwards no operation is in progress;
  one that may have been dispatched and may have changed something is indeterminate, any other
  interrupted one has failed; finished operations are untouched, and recovering again finds nothing.\<close>

theorem recover_settles:
  assumes "table_reachable tbl" "recover_operations now None humanize tbl = Inr (ops, tbl')"
  shows "(\<forall>ro \<in> set tbl'. \<not> status_recoverable (ro_status ro)) \<and>
    (\<forall>ro \<in> set tbl. find_operation (ro_operation_id ro) tbl' = Some (if status_recoverable (ro_status ro)
       then update_row now (recover_receipt now humanize (ro_receipt ro)) ro else ro)) \<and>
    (\<forall>ro \<in> set tbl. status_recoverable (ro_status ro) \<longrightarrow>
       rc_status (recover_receipt now humanize (ro_receipt ro)) =
         (if (ro_phase ro \<in> {Phase_dispatching, Phase_sent, Phase_awaiting_response} \<or>
              ro_status ro \<in> {Status_running, Status_paused, Status_reconciling}) \<and> rc_plan_effect (ro_receipt ro) \<noteq> Some Effect_read
          then Status_indeterminate else Status_failed) \<and>
       receipt_terminal (recover_receipt now humanize (ro_receipt ro))) \<and>
    recover_operations now' None humanize tbl' = Inr ([], tbl')"
proof -
  have ok: "table_ok tbl" by (rule table_reachable_ok [OF assms(1)])
  have tbl': "tbl' = map (recovered_row now humanize) tbl" using assms(2) by (simp add: recover_operations_rows [OF ok])
  have ok': "table_ok tbl'" using table_ok_recover [OF ok assms(2)] .
  have settled: "\<not> status_recoverable (ro_status (recovered_row now humanize ro))" if "ro \<in> set tbl" for ro
    using table_okD(3) [OF ok that]
    by (auto simp: recovered_row_def update_row_def row_ok_def recover_receipt_def with_failure_def status_recoverable_def Let_def)
  then have none: "filter (\<lambda>ro. status_recoverable (ro_status ro)) tbl' = []" by (auto simp: tbl' filter_empty_conv)
  have idem: "map (recovered_row now' humanize) tbl' = tbl'"
    using settled by (auto simp: tbl' recovered_row_def [of now'] intro!: map_idI)
  have find: "find_operation (ro_operation_id ro) tbl' = Some (recovered_row now humanize ro)" if "ro \<in> set tbl" for ro
    using find_operation_mem [OF table_okD(1) [OF ok'], of "recovered_row now humanize ro"] that
    by (simp add: tbl')
  have receipts: "rc_status (recover_receipt now humanize (ro_receipt ro)) =
         (if (ro_phase ro \<in> {Phase_dispatching, Phase_sent, Phase_awaiting_response} \<or>
              ro_status ro \<in> {Status_running, Status_paused, Status_reconciling}) \<and> rc_plan_effect (ro_receipt ro) \<noteq> Some Effect_read
          then Status_indeterminate else Status_failed) \<and>
       receipt_terminal (recover_receipt now humanize (ro_receipt ro))" if "ro \<in> set tbl" for ro
    using table_okD(3) [OF ok that]
    by (auto simp: row_ok_def recover_receipt_def with_failure_def receipt_terminal_def Let_def)
  have "\<forall>ro \<in> set tbl'. \<not> status_recoverable (ro_status ro)" using settled by (auto simp: tbl')
  moreover have "recover_operations now' None humanize tbl' = Inr ([], tbl')"
    unfolding recover_operations_rows [OF ok'] none idem by simp
  ultimately show ?thesis using find receipts unfolding recovered_row_def by blast
qed

text \<open>Walking the pages: each next cursor is the last operation of the page before.\<close>

fun walk_pages :: "nat \<Rightarrow> string \<Rightarrow> int \<Rightarrow> 'b operation_table \<Rightarrow> 'b stored_operation list" where
  "walk_pages 0 before limit tbl = []"
| "walk_pages (Suc k) before limit tbl =
     (case page_operations before limit tbl of
        Inl _ \<Rightarrow> []
      | Inr ops \<Rightarrow> if ops = [] then [] else ops @ walk_pages k (rc_id (so_receipt (last ops))) limit tbl)"

lemma page_cursor:
  assumes ok: "table_ok tbl" and tbl: "tbl = a @ ro # b"
  shows "page_operations (ro_operation_id ro) limit tbl =
    Inr (map decode_stored (take (nat (min (max limit 1) 10000)) (rev a)))"
proof -
  have ro: "ro \<in> set tbl" "ro_operation_id ro \<noteq> []"
    using table_okD(3) [OF ok, of ro] tbl by (auto simp: row_ok_def)
  have "filter (\<lambda>x. ro_rowid x < ro_rowid ro) a = a" "filter (\<lambda>x. ro_rowid x < ro_rowid ro) (ro # b) = []"
    using table_okD(2) [OF ok] by (auto simp: tbl sorted_wrt_append filter_id_conv filter_empty_conv)
  then have "filter (\<lambda>x. ro_rowid x < ro_rowid ro) tbl = a" by (simp add: tbl)
  with find_operation_mem [OF table_okD(1) [OF ok] ro(1)] ro(2) show ?thesis
    by (simp add: page_operations_def Let_def)
qed

lemma walk_from_page:
  assumes ok: "table_ok tbl" and tbl: "tbl = a @ b" and len: "length a \<le> k"
    and page: "page_operations before limit tbl = Inr (map decode_stored (take (nat (min (max limit 1) 10000)) (rev a)))"
  shows "walk_pages (Suc k) before limit tbl = map decode_stored (rev a)"
  using tbl len page
proof (induction k arbitrary: a b before)
  case 0
  then show ?case by simp
next
  case (Suc k)
  let ?n = "nat (min (max limit 1) 10000)"
  show ?case
  proof (cases "a = []")
    case False
    have n: "0 < ?n" by simp
    then have ne: "take ?n (rev a) \<noteq> []" using False by simp
    define ro rest where "ro = last (take ?n (rev a))" and "rest = drop ?n (rev a)"
    have "rev a = butlast (take ?n (rev a)) @ ro # rest"
      using ne by (metis append_take_drop_id append.assoc append_Cons append_Nil append_butlast_last_id ro_def rest_def)
    then have a: "a = rev rest @ ro # rev (butlast (take ?n (rev a)))"
      by (metis append.assoc append_Cons append_Nil rev.simps(2) rev_append rev_rev_ident)
    then have split: "tbl = rev rest @ ro # (rev (butlast (take ?n (rev a))) @ b)"
      using Suc.prems(1) by (metis append.assoc append_Cons)
    have len: "length (rev rest) \<le> k" using Suc.prems(2) n False by (simp add: rest_def)
    have id: "rc_id (so_receipt (last (map decode_stored (take ?n (rev a))))) = ro_operation_id ro"
      using ne table_okD(3) [OF ok, of ro] split by (simp add: last_map decode_stored_def row_ok_def ro_def)
    have "walk_pages (Suc k) (ro_operation_id ro) limit tbl = map decode_stored (rev (rev rest))"
      by (rule Suc.IH [OF split len page_cursor [OF ok split]])
    then have "walk_pages (Suc (Suc k)) before limit tbl = map decode_stored (take ?n (rev a)) @ map decode_stored rest"
      using Suc.prems(3) ne id by simp
    then show ?thesis by (simp only: rest_def map_append [symmetric] append_take_drop_id)
  qed (use Suc.prems in simp)
qed

text \<open>C34. Paging is complete: from the start, following the cursor, the pages list every stored
  operation exactly once, the latest reservation first, whatever the page size.\<close>

theorem pages_visit_everything:
  assumes "table_reachable tbl" "length tbl \<le> k"
  shows "walk_pages (Suc k) [] limit tbl = map decode_stored (rev tbl) \<and> distinct (map ro_operation_id tbl)"
proof
  have ok: "table_ok tbl" by (rule table_reachable_ok [OF assms(1)])
  show "distinct (map ro_operation_id tbl)" using ok by (rule table_okD)
  show "walk_pages (Suc k) [] limit tbl = map decode_stored (rev tbl)"
    by (rule walk_from_page [OF ok append_Nil2 [symmetric] assms(2)]) (simp add: page_operations_def Let_def)
qed

lemma insert_stable_desc:
  "sorted_wrt (\<lambda>a b. f b \<le> f a) ys \<Longrightarrow> sorted_wrt (\<lambda>a b. f b \<le> f a) (insert_stable (\<lambda>a b. f b < f a) x ys)"
  for f :: "'a \<Rightarrow> 'k :: linorder"
proof (induction ys)
  case (Cons y ys)
  have s: "set (insert_stable (\<lambda>a b. f b < f a) x ys) = insert x (set ys)"
    by (metis mset_insert_stable set_mset_add_mset_insert set_mset_mset)
  from Cons show ?case by (auto simp: s not_less intro: order_trans less_imp_le)
qed simp

lemma by_updated_desc_sorted: "sorted_wrt (\<lambda>a b. ro_updated_at b \<le> ro_updated_at a) (by_updated_desc tbl)"
  unfolding by_updated_desc_def stable_sort_def by (induction tbl) (auto intro: insert_stable_desc)

text \<open>Pruning is safe and bounds the history: no operation in progress is deleted, at most
  10,000 finished ones stay, and none that stays has an earlier \<open>updated_at\<close> text than one that
  goes.\<close>

theorem prune_keeps_unfinished:
  assumes "table_reachable tbl" "tbl' = prune_terminal_history tbl"
  shows "filter (\<lambda>ro. status_recoverable (ro_status ro)) tbl' = filter (\<lambda>ro. status_recoverable (ro_status ro)) tbl \<and>
    length (filter (\<lambda>ro. \<not> status_recoverable (ro_status ro)) tbl') \<le> 10000 \<and>
    (\<forall>gone \<in> set tbl - set tbl'. \<forall>kept \<in> set tbl'. \<not> status_recoverable (ro_status kept) \<longrightarrow>
       ro_updated_at gone \<le> ro_updated_at kept)"
proof -
  have ok: "table_ok tbl" by (rule table_reachable_ok [OF assms(1)])
  let ?T = "filter (\<lambda>ro. \<not> status_recoverable (ro_status ro)) tbl"
  let ?S = "by_updated_desc ?T"
  let ?gone = "drop 10000 ?S"
  let ?P = "\<lambda>ro. ro_operation_id ro \<notin> ro_operation_id ` set ?gone"
  have tbl': "tbl' = filter ?P tbl" using assms(2) by (simp add: prune_terminal_history_def Let_def)
  have setS: "set ?S = set ?T" by (simp add: by_updated_desc_def)
  have inj: "ro = ro'" if "ro \<in> set tbl" "ro' \<in> set tbl" "ro_operation_id ro = ro_operation_id ro'" for ro ro'
    using that table_okD(1) [OF ok] by (auto simp: distinct_map inj_on_def)
  have goneT: "set ?gone \<subseteq> set ?T" using setS set_drop_subset [of 10000 ?S] by blast
  have P: "?P ro \<longleftrightarrow> ro \<notin> set ?gone" if "ro \<in> set tbl" for ro using that goneT inj by force
  have one: "filter (\<lambda>ro. status_recoverable (ro_status ro)) tbl' = filter (\<lambda>ro. status_recoverable (ro_status ro)) tbl"
    unfolding tbl' filter_filter using P goneT by (intro filter_cong) auto
  have dS: "distinct (map ro_operation_id ?S)"
    using table_okD(1) [OF ok] by (simp add: by_updated_desc_def distinct_map_filter)
  have "distinct (map ro_operation_id (take 10000 ?S) @ map ro_operation_id ?gone)"
    using dS by (simp only: append_take_drop_id map_append [symmetric])
  then have "filter ?P (take 10000 ?S) = take 10000 ?S" "filter ?P ?gone = []"
    by (auto simp: filter_id_conv filter_empty_conv)
  then have "filter ?P ?S = take 10000 ?S"
    using filter_append [of ?P "take 10000 ?S" ?gone] by simp
  then have "length (filter ?P ?T) \<le> 10000"
    using mset_filter [of ?P ?S] mset_filter [of ?P ?T] by (metis by_updated_desc_def length_take min.cobounded2 mset_stable_sort size_mset)
  moreover have "filter (\<lambda>ro. \<not> status_recoverable (ro_status ro)) tbl' = filter ?P ?T"
    unfolding tbl' filter_filter by (intro filter_cong) auto
  moreover have "ro_updated_at gone \<le> ro_updated_at kept"
    if "gone \<in> set tbl - set tbl'" "kept \<in> set tbl'" "\<not> status_recoverable (ro_status kept)" for gone kept
  proof -
    have g: "gone \<in> set ?gone" using that(1) P by (auto simp: tbl')
    have "kept \<in> set ?T" "kept \<notin> set ?gone" using that(2,3) P by (auto simp: tbl')
    then have "kept \<in> set (take 10000 ?S)" using setS by (metis append_take_drop_id Un_iff set_append)
    moreover have "sorted_wrt (\<lambda>a b. ro_updated_at b \<le> ro_updated_at a) (take 10000 ?S @ ?gone)"
      using by_updated_desc_sorted [of ?T] by simp
    ultimately show ?thesis using g by (auto simp: sorted_wrt_append simp del: append_take_drop_id)
  qed
  ultimately show ?thesis using one by simp
qed

section \<open>The order of the texts of times\<close>

lemma append_less_append: "xs @ ys < xs @ zs \<longleftrightarrow> ys < zs" for xs ys zs :: string
  by (induction xs) simp_all

lemma format_rfc3339_last: "format_rfc3339 t = butlast (format_rfc3339 t) @ ''Z''"
proof -
  have "\<exists>p. format_rfc3339 t = p @ ''Z''"
    unfolding format_rfc3339_def Let_def case_prod_beta append_assoc [symmetric] by (rule exI, rule refl)
  then show ?thesis by auto
qed

lemma format_same_second: "t mod second = 0 \<Longrightarrow> 0 \<le> d \<Longrightarrow> d < second \<Longrightarrow> format_rfc3339 (t + d) = format_rfc3339 t"
proof -
  assume a: "t mod second = 0" "0 \<le> d" "d < second"
  then obtain q where "t = second * q" by (metis mod_0_imp_dvd dvdE)
  with a have "(t + d) div second = t div second" by simp
  then show ?thesis by (simp add: format_rfc3339_def)
qed

lemma fraction_nonempty:
  assumes "0 < n"
  shows "rev (dropWhile (\<lambda>c. c = CHR ''0'') (rev (pad_left 9 (show_nat n)))) \<noteq> []"
proof
  assume "rev (dropWhile (\<lambda>c. c = CHR ''0'') (rev (pad_left 9 (show_nat n)))) = []"
  then have "\<forall>c \<in> set (show_nat n). c = CHR ''0''"
    by (auto simp: pad_left_def dropWhile_eq_Nil_conv)
  moreover have "hd (show_nat n) \<in> set (show_nat n)" by simp
  ultimately show False using show_nat_hd [OF assms] by blast
qed

lemma nano_text_later_is_smaller:
  assumes "t mod second = 0" "0 < d" "d < second"
  shows "format_rfc3339_nano (t + d) < format_rfc3339_nano t"
proof -
  have z: "format_rfc3339_nano t = butlast (format_rfc3339 t) @ ''Z''"
    using assms(1) format_rfc3339_last [of t]
    by (simp add: format_rfc3339_nano_def Let_def pad_left_def show_nat_0)
  have "(t + d) mod second = d"
    using assms by (metis add_0 mod_add_left_eq mod_pos_pos_trivial order_less_imp_le)
  then have "format_rfc3339_nano (t + d) = butlast (format_rfc3339 (t + d)) @ ''.'' @
      rev (dropWhile (\<lambda>c. c = CHR ''0'') (rev (pad_left 9 (show_nat (nat d))))) @ ''Z''"
    using fraction_nonempty [of "nat d"] assms(2) unfolding format_rfc3339_nano_def Let_def by auto
  with z show ?thesis
    using format_same_second [of t d] assms by (simp add: append_less_append less_char_def)
qed

text \<open>Recency is misjudged within a second: of two operations reserved in one second, the first
  at its very beginning, the later one has the smaller text, so the most recent operation is said
  to be the earlier one.\<close>

theorem recent_misorders_within_second:
  assumes "t mod second = 0" "0 < d" "d < second"
    and "reserve_operation t None h1 older [] = Inr (r1, True, tbl)"
    and "reserve_operation (t + d) None h2 newer tbl = Inr (r2, True, tbl')"
  shows "map so_receipt (recent_operations 1 tbl') = [receipt_json_roundtrip older]"
proof -
  let ?row = "\<lambda>i h r now. \<lparr>ro_rowid = i, ro_operation_id = rc_id r, ro_request_hash = h,
      ro_receipt = receipt_json_roundtrip r, ro_status = rc_status r, ro_phase = rc_phase r,
      ro_submitted_at = format_rfc3339_nano (rc_submitted_at r), ro_updated_at = format_rfc3339_nano now\<rparr>"
  have tbl: "tbl = [?row 1 (trim_space h1) older t]"
    using assms(4) by (auto simp: reserve_operation_def next_rowid_def Let_def split: if_splits option.splits)
  have tbl': "tbl' = [?row 1 (trim_space h1) older t, ?row 2 (trim_space h2) newer (t + d)]"
    using assms(5) by (auto simp: reserve_operation_def next_rowid_def tbl Let_def split: if_splits option.splits)
  have "\<not> format_rfc3339_nano t < format_rfc3339_nano (t + d)"
    using nano_text_later_is_smaller [OF assms(1-3)] by simp
  then show ?thesis
    by (simp add: recent_operations_def tbl' by_updated_desc_def stable_sort_def decode_stored_def)
qed

section \<open>A concrete journal\<close>

definition demo_receipt :: "string \<Rightarrow> status \<Rightarrow> effect_phase \<Rightarrow> unit receipt" where
  "demo_receipt i st ph = \<lparr>rc_id = i, rc_intent = ''unit.train'', rc_actor = ''user'', rc_status = st, rc_phase = ph,
     rc_plan_effect = None, rc_error = [], rc_raw_error = [], rc_submitted_at = 0, rc_completed_at = None, rc_body = ()\<rparr>"

definition demo_row :: "nat \<Rightarrow> string \<Rightarrow> status \<Rightarrow> effect_phase \<Rightarrow> gotime \<Rightarrow> unit operation_row" where
  "demo_row n i st ph now = \<lparr>ro_rowid = n, ro_operation_id = i, ro_request_hash = ''h'', ro_receipt = demo_receipt i st ph,
     ro_status = st, ro_phase = ph, ro_submitted_at = format_rfc3339_nano 0, ro_updated_at = format_rfc3339_nano now\<rparr>"

lemma demo_trim_ids: "trim_space ''h'' = ''h''" "trim_space ''a'' = ''a''" "trim_space ''b'' = ''b''" "trim_space ''g'' = ''g''"
  by code_simp+

lemma demo_reserve:
  assumes "i = ''a'' \<or> i = ''b''" "find_operation i tbl = None"
  shows "reserve_operation now None ''h'' (demo_receipt i st ph) tbl =
    Inr (demo_receipt i st ph, True, tbl @ [demo_row (next_rowid tbl) i st ph now])"
proof -
  have "rc_id (demo_receipt i st ph) = i" by (simp add: demo_receipt_def)
  with assms show ?thesis
    by (auto simp: reserve_operation_def Let_def demo_trim_ids demo_row_def)
      (simp_all add: receipt_json_roundtrip_def demo_receipt_def)
qed

definition demo_table :: "unit operation_table" where
  "demo_table = [demo_row 1 ''a'' Status_running Phase_sent 0, demo_row 2 ''b'' Status_failed Phase_completed second]"

lemma demo_table_reachable: "table_reachable demo_table"
proof -
  let ?one = "[demo_row 1 ''a'' Status_running Phase_sent 0]"
  have "reserve_operation 0 None ''h'' (demo_receipt ''a'' Status_running Phase_sent) [] =
      Inr (demo_receipt ''a'' Status_running Phase_sent, True, ?one)"
    using demo_reserve [of "''a''" "[]" 0] by (simp add: next_rowid_def find_operation_def)
  then have one: "table_reachable ?one" by (rule table_reachable.reserve [OF table_reachable.empty])
  have "reserve_operation second None ''h'' (demo_receipt ''b'' Status_failed Phase_completed) ?one =
      Inr (demo_receipt ''b'' Status_failed Phase_completed, True, demo_table)"
    using demo_reserve [of "''b''" ?one second]
    by (simp add: next_rowid_def find_operation_def demo_table_def) (simp add: demo_row_def)
  then show ?thesis by (rule table_reachable.reserve [OF one])
qed


theorem recover_settles_witness:
  "recover_operations 5 None (\<lambda>e. e) (map (recovered_row 3 (\<lambda>e. e)) demo_table) =
     Inr ([], map (recovered_row 3 (\<lambda>e. e)) demo_table)"
  using recover_settles [OF demo_table_reachable, of 3 "\<lambda>e. e" _ "map (recovered_row 3 (\<lambda>e. e)) demo_table" 5]
    recover_operations_rows [OF table_reachable_ok [OF demo_table_reachable], of 3 "\<lambda>e. e"] by simp

theorem pages_visit_everything_witness:
  "walk_pages 3 [] 1 demo_table = map decode_stored (rev demo_table) \<and> distinct (map ro_operation_id demo_table)"
  using pages_visit_everything [OF demo_table_reachable, of 2 1] by (simp add: demo_table_def numeral_3_eq_3 numeral_2_eq_2)

theorem prune_keeps_unfinished_witness:
  "filter (\<lambda>ro. status_recoverable (ro_status ro)) (prune_terminal_history demo_table) =
     filter (\<lambda>ro. status_recoverable (ro_status ro)) demo_table"
  using prune_keeps_unfinished [OF demo_table_reachable refl] by blast

theorem recent_misorders_within_second_witness:
  "map so_receipt (recent_operations 1 [demo_row 1 ''a'' Status_running Phase_sent 0, demo_row 2 ''b'' Status_running Phase_sent 250]) =
     [receipt_json_roundtrip (demo_receipt ''a'' Status_running Phase_sent)]"
proof -
  let ?one = "[demo_row 1 ''a'' Status_running Phase_sent 0]"
  have 1: "reserve_operation 0 None ''h'' (demo_receipt ''a'' Status_running Phase_sent) [] =
      Inr (demo_receipt ''a'' Status_running Phase_sent, True, ?one)"
    using demo_reserve [of "''a''" "[]" 0] by (simp add: next_rowid_def find_operation_def)
  have 2: "reserve_operation (0 + 250) None ''h'' (demo_receipt ''b'' Status_running Phase_sent) ?one =
      Inr (demo_receipt ''b'' Status_running Phase_sent, True, ?one @ [demo_row 2 ''b'' Status_running Phase_sent 250])"
    using demo_reserve [of "''b''" ?one 250]
    by (simp add: next_rowid_def find_operation_def) (simp add: demo_row_def)
  from recent_misorders_within_second [OF _ _ _ 1 2] show ?thesis by simp
qed

end
