(* ===== verification/Layout.thy ===== *)
theory Layout
  imports Decimal "HOL-Library.AList"
begin

text \<open>
  The plan of a castle's buildings: \<^verbatim>\<open>src/Server/Buildings/Layout.go\<close>,
  \<^verbatim>\<open>Buildings/GroundCoverage.go\<close> and the catalogue lookup of
  \<^verbatim>\<open>GameData/BuildingCatalog.go\<close>.

  Coordinates are integers. A Go map is an association list read by \<open>map_of\<close>; where the
  code sorts the keys the model does, and the set of cells of a map is the list of its keys. The
  catalogue is the map from definition ids to footprints, \<open>None\<close> when it is \<open>nil\<close>. The
  records keep the fields these functions read. The texts of issues are kept as the code formats them.
\<close>

section \<open>Data\<close>

record bounds =
  bo_min_x :: int
  bo_min_y :: int
  bo_max_x :: int
  bo_max_y :: int

record placement =
  pl_grid_x :: int
  pl_grid_y :: int
  pl_rotation :: int
  pl_width :: int
  pl_height :: int

record layout_issue =
  li_code :: string
  li_message :: string
  li_severity :: string
  li_building_ids :: "int list"

record layout_analysis =
  la_valid :: bool
  la_bounds :: "bounds option"
  la_ground_cells :: nat
  la_occupied_cells :: nat
  la_free_cells :: nat
  la_placed_objects :: nat
  la_stored_objects :: nat
  la_fixed_objects :: nat
  la_issues :: "layout_issue list"

type_synonym grid_point = "int \<times> int"

record layout_grid =
  lg_ground :: "grid_point list"
  lg_occupied :: "(grid_point \<times> int) list"
  lg_bounds :: "bounds option"
  lg_issues :: "layout_issue list"
  lg_placed :: nat
  lg_stored :: nat

record building =
  bl_instance_id :: int
  bl_definition_id :: int
  bl_grid_x :: int
  bl_grid_y :: int
  bl_rotation :: int
  bl_placed :: bool

record building_definition =
  bd_width :: int
  bd_height :: int

type_synonym buildings = "(int \<times> building) list"
type_synonym catalog = "(int \<Rightarrow> building_definition option) option"

record castle_layout =
  cl_ground :: buildings
  cl_objects :: buildings
  cl_fixed :: buildings
  cl_observed_at :: gotime

record castle =
  ca_focused :: bool
  ca_layout :: castle_layout

definition definition_view :: "catalog \<Rightarrow> int \<Rightarrow> building_definition option" where
  "definition_view cat i = (case cat of None \<Rightarrow> None | Some by_id \<Rightarrow> by_id i)"

section \<open>Footprints\<close>

definition rotated_dimensions :: "int \<Rightarrow> int \<Rightarrow> int \<Rightarrow> int \<times> int" where
  "rotated_dimensions width height rotation = (if rotation mod 2 \<noteq> 0 then (height, width) else (width, height))"

definition footprint_cells :: "placement \<Rightarrow> grid_point list" where
  "footprint_cells p =
     (if pl_width p \<le> 0 \<or> pl_height p \<le> 0 then []
      else concat (map (\<lambda>y. map (\<lambda>x. (x, y)) [pl_grid_x p .. pl_grid_x p + pl_width p - 1])
             [pl_grid_y p .. pl_grid_y p + pl_height p - 1]))"

definition candidate_rotations :: "building_definition \<Rightarrow> int list" where
  "candidate_rotations d = (if bd_width d \<noteq> bd_height d then [0, 1] else [0])"

definition extend_bounds :: "bounds option \<Rightarrow> grid_point \<Rightarrow> bounds" where
  "extend_bounds b point =
     (case b of
        None \<Rightarrow> \<lparr>bo_min_x = fst point, bo_min_y = snd point, bo_max_x = fst point + 1, bo_max_y = snd point + 1\<rparr>
      | Some b \<Rightarrow>
          let b = (if fst point < bo_min_x b then b\<lparr>bo_min_x := fst point\<rparr> else b);
              b = (if snd point < bo_min_y b then b\<lparr>bo_min_y := snd point\<rparr> else b);
              b = (if bo_max_x b \<le> fst point then b\<lparr>bo_max_x := fst point + 1\<rparr> else b)
          in if bo_max_y b \<le> snd point then b\<lparr>bo_max_y := snd point + 1\<rparr> else b)"

definition sorted_building_ids :: "buildings \<Rightarrow> int list" where
  "sorted_building_ids bs = sort (remdups (map fst bs))"

definition at_position :: "building \<Rightarrow> int \<Rightarrow> int \<Rightarrow> placement" where
  "at_position b width height = \<lparr>pl_grid_x = bl_grid_x b, pl_grid_y = bl_grid_y b, pl_rotation = 0, pl_width = width, pl_height = height\<rparr>"

text \<open>The usable official definition of a building, and the cells the building stands on.\<close>

definition usable_definition :: "catalog \<Rightarrow> building \<Rightarrow> building_definition option" where
  "usable_definition cat b =
     (case definition_view cat (bl_definition_id b) of
        None \<Rightarrow> None
      | Some d \<Rightarrow> if bd_width d \<le> 0 \<or> bd_height d \<le> 0 then None else Some d)"

definition building_cells :: "building \<Rightarrow> building_definition \<Rightarrow> grid_point list" where
  "building_cells b d =
     (let (width, height) = rotated_dimensions (bd_width d) (bd_height d) (bl_rotation b)
      in footprint_cells (at_position b width height))"

section \<open>The grid of a castle\<close>

text \<open>One iteration of the loop over the ground, and of the loop over the objects. The key of a
  collision is the pair of ids as text; \<open>collisions\<close> maps it to the pair.\<close>

definition add_ground_cell :: "layout_grid \<Rightarrow> grid_point \<Rightarrow> layout_grid" where
  "add_ground_cell g cell = g\<lparr>lg_ground := List.insert cell (lg_ground g), lg_bounds := Some (extend_bounds (lg_bounds g) cell)\<rparr>"

definition add_ground :: "catalog \<Rightarrow> buildings \<Rightarrow> layout_grid \<Rightarrow> int \<Rightarrow> layout_grid" where
  "add_ground cat bs g i =
     (case map_of bs i of None \<Rightarrow> g
      | Some b \<Rightarrow>
          case usable_definition cat b of
            None \<Rightarrow> g\<lparr>lg_issues := lg_issues g @ [\<lparr>li_code = ''unknown_ground'',
              li_message = ''Ground object '' @ show_int i @ '' has no usable official definition'',
              li_severity = ''error'', li_building_ids = [i]\<rparr>]\<rparr>
          | Some d \<Rightarrow> if \<not> bl_placed b then g else fold (\<lambda>cell g. add_ground_cell g cell) (building_cells b d) g)"

type_synonym collision_pairs = "(string \<times> int list) list"

definition occupy_cell :: "int \<Rightarrow> grid_point \<Rightarrow> layout_grid \<times> collision_pairs \<times> bool \<Rightarrow> layout_grid \<times> collision_pairs \<times> bool" where
  "occupy_cell i cell s =
     (case s of (g, pairs, outside) \<Rightarrow>
       let outside = (outside \<or> cell \<notin> set (lg_ground g));
           pairs = (case map_of (lg_occupied g) cell of
               None \<Rightarrow> pairs
             | Some occupant \<Rightarrow>
                 if occupant = i then pairs
                 else let (left, right) = (if i < occupant then (i, occupant) else (occupant, i))
                      in AList.update (show_int left @ '':'' @ show_int right) [left, right] pairs)
       in (g\<lparr>lg_occupied := AList.update cell i (lg_occupied g)\<rparr>, pairs, outside))"

definition add_object :: "catalog \<Rightarrow> buildings \<Rightarrow> int \<Rightarrow> int \<Rightarrow> layout_grid \<times> collision_pairs \<Rightarrow> layout_grid \<times> collision_pairs" where
  "add_object cat bs ignore i s =
     (case s of (g, pairs) \<Rightarrow>
        if i = ignore then (g, pairs)
        else case map_of bs i of None \<Rightarrow> (g, pairs)
        | Some b \<Rightarrow>
            if \<not> bl_placed b then (g\<lparr>lg_stored := lg_stored g + 1\<rparr>, pairs)
            else case usable_definition cat b of
              None \<Rightarrow> (g\<lparr>lg_issues := lg_issues g @ [\<lparr>li_code = ''unknown_object'',
                 li_message = ''Object '' @ show_int i @ '' has no usable official definition'',
                 li_severity = ''warning'', li_building_ids = [i]\<rparr>]\<rparr>, pairs)
            | Some d \<Rightarrow>
                let (g, pairs, outside) = fold (occupy_cell i) (building_cells b d) (g\<lparr>lg_placed := lg_placed g + 1\<rparr>, pairs, False)
                in ((if outside then g\<lparr>lg_issues := lg_issues g @ [\<lparr>li_code = ''object_outside_ground'',
                       li_message = ''Object '' @ show_int i @ '' extends outside unlocked ground'',
                       li_severity = ''error'', li_building_ids = [i]\<rparr>]\<rparr> else g), pairs))"

definition empty_grid :: layout_grid where
  "empty_grid = \<lparr>lg_ground = [], lg_occupied = [], lg_bounds = None, lg_issues = [], lg_placed = 0, lg_stored = 0\<rparr>"

definition collision_issue :: "int list \<Rightarrow> layout_issue" where
  "collision_issue ids = \<lparr>li_code = ''object_collision'',
     li_message = ''Objects '' @ show_int (ids ! 0) @ '' and '' @ show_int (ids ! 1) @ '' overlap'',
     li_severity = ''error'', li_building_ids = ids\<rparr>"

definition ground_grid :: "castle \<Rightarrow> catalog \<Rightarrow> layout_grid" where
  "ground_grid c cat =
     (let ground = cl_ground (ca_layout c);
          g = fold (\<lambda>i g. add_ground cat ground g i) (sorted_building_ids ground) empty_grid
      in if lg_ground g = [] then g\<lparr>lg_issues := lg_issues g @ [\<lparr>li_code = ''ground_unavailable'',
             li_message = ''No normalized unlocked ground has been observed for this castle'', li_severity = ''error'',
             li_building_ids = []\<rparr>]\<rparr> else g)"

definition build_layout_grid :: "castle \<Rightarrow> catalog \<Rightarrow> int \<Rightarrow> layout_grid" where
  "build_layout_grid c cat ignore =
     (if cat = None then empty_grid\<lparr>lg_issues := [\<lparr>li_code = ''catalog_unavailable'',
          li_message = ''The official building catalog is unavailable'', li_severity = ''error'', li_building_ids = []\<rparr>]\<rparr>
      else let objects = cl_objects (ca_layout c);
               (g, pairs) = fold (add_object cat objects ignore) (sorted_building_ids objects) (ground_grid c cat, [])
           in g\<lparr>lg_issues := lg_issues g @ map (\<lambda>key. collision_issue (the (map_of pairs key))) (sort (map fst pairs))\<rparr>)"

section \<open>Operations\<close>

definition analyze_layout :: "castle \<Rightarrow> catalog \<Rightarrow> layout_analysis" where
  "analyze_layout c cat =
     (let g = build_layout_grid c cat 0;
          occupied_ground = length (filter (\<lambda>cell. cell \<in> set (lg_ground g)) (map fst (lg_occupied g)))
      in \<lparr>la_valid = \<not> list_ex (\<lambda>issue. li_severity issue = ''error'') (lg_issues g), la_bounds = lg_bounds g,
          la_ground_cells = length (lg_ground g), la_occupied_cells = length (lg_occupied g),
          la_free_cells = length (lg_ground g) - occupied_ground, la_placed_objects = lg_placed g,
          la_stored_objects = lg_stored g, la_fixed_objects = length (remdups (map fst (cl_fixed (ca_layout c)))),
          la_issues = lg_issues g\<rparr>)"

definition placement_fits :: "layout_grid \<Rightarrow> placement \<Rightarrow> bool" where
  "placement_fits g p =
     list_all (\<lambda>cell. cell \<in> set (lg_ground g) \<and> map_of (lg_occupied g) cell = None) (footprint_cells p)"

text \<open>The three nested loops of \<open>FindPlacement\<close> as the list of placements they try.\<close>

definition candidate_placements :: "bounds \<Rightarrow> building_definition \<Rightarrow> placement list" where
  "candidate_placements b d =
     concat (map (\<lambda>y. concat (map (\<lambda>x. map (\<lambda>rotation.
         let (width, height) = rotated_dimensions (bd_width d) (bd_height d) rotation
         in \<lparr>pl_grid_x = x, pl_grid_y = y, pl_rotation = rotation, pl_width = width, pl_height = height\<rparr>)
       (candidate_rotations d)) [bo_min_x b .. bo_max_x b - 1])) [bo_min_y b .. bo_max_y b - 1])"

definition find_placement :: "castle \<Rightarrow> building_definition \<Rightarrow> catalog \<Rightarrow> int \<Rightarrow> placement option" where
  "find_placement c d cat ignore =
     (let g = build_layout_grid c cat ignore in
      case lg_bounds g of None \<Rightarrow> None
      | Some b \<Rightarrow> if bd_width d \<le> 0 \<or> bd_height d \<le> 0 then None else List.find (placement_fits g) (candidate_placements b d))"

definition validate_placement :: "castle \<Rightarrow> building_definition \<Rightarrow> placement \<Rightarrow> catalog \<Rightarrow> int \<Rightarrow> layout_issue list" where
  "validate_placement c d p cat ignore =
     (let g = build_layout_grid c cat ignore in
      if bd_width d \<le> 0 \<or> bd_height d \<le> 0 then
        [\<lparr>li_code = ''invalid_dimensions'', li_message = ''The official definition has no usable footprint'',
          li_severity = ''error'', li_building_ids = []\<rparr>]
      else
        let (width, height) = rotated_dimensions (bd_width d) (bd_height d) (pl_rotation p);
            cells = footprint_cells (p\<lparr>pl_width := width, pl_height := height\<rparr>);
            outside = list_ex (\<lambda>cell. cell \<notin> set (lg_ground g)) cells;
            collisions = remdups (List.map_filter (\<lambda>cell. map_of (lg_occupied g) cell) cells)
        in (if outside then [\<lparr>li_code = ''outside_ground'', li_message = ''The footprint extends outside unlocked ground'',
              li_severity = ''error'', li_building_ids = []\<rparr>] else []) @
           (if collisions \<noteq> [] then [\<lparr>li_code = ''collision'', li_message = ''The footprint overlaps an existing object'',
              li_severity = ''error'', li_building_ids = sort collisions\<rparr>] else []))"

section \<open>What the grid stands for\<close>

definition stands_on :: "catalog \<Rightarrow> buildings \<Rightarrow> int \<Rightarrow> grid_point set" where
  "stands_on cat bs i =
     (case map_of bs i of None \<Rightarrow> {}
      | Some b \<Rightarrow> if \<not> bl_placed b then {} else case usable_definition cat b of None \<Rightarrow> {} | Some d \<Rightarrow> set (building_cells b d))"

definition unlocked_ground :: "castle \<Rightarrow> catalog \<Rightarrow> grid_point set" where
  "unlocked_ground c cat = (\<Union>i \<in> fst ` set (cl_ground (ca_layout c)). stands_on cat (cl_ground (ca_layout c)) i)"

definition object_ids :: "castle \<Rightarrow> int \<Rightarrow> int set" where
  "object_ids c ignore = fst ` set (cl_objects (ca_layout c)) - {ignore}"

definition built_over :: "castle \<Rightarrow> catalog \<Rightarrow> int \<Rightarrow> grid_point set" where
  "built_over c cat ignore = (\<Union>i \<in> object_ids c ignore. stands_on cat (cl_objects (ca_layout c)) i)"

definition in_bounds :: "bounds \<Rightarrow> grid_point \<Rightarrow> bool" where
  "in_bounds b cell \<longleftrightarrow> bo_min_x b \<le> fst cell \<and> fst cell < bo_max_x b \<and> bo_min_y b \<le> snd cell \<and> snd cell < bo_max_y b"

lemma set_footprint_cells [simp]:
  "set (footprint_cells p) = {(x, y). pl_grid_x p \<le> x \<and> x < pl_grid_x p + pl_width p \<and> pl_grid_y p \<le> y \<and> y < pl_grid_y p + pl_height p}"
  by (auto simp: footprint_cells_def)

lemma in_bounds_extend: "in_bounds b cell \<Longrightarrow> in_bounds (extend_bounds (Some b) p) cell"
  "in_bounds (extend_bounds ob p) p"
  by (auto simp: in_bounds_def extend_bounds_def Let_def split: option.splits)

lemma usable_definitionD: "usable_definition cat b = Some d \<Longrightarrow> 0 < bd_width d \<and> 0 < bd_height d"
  by (auto simp: usable_definition_def split: option.splits if_splits)

lemma rotated_pos: "rotated_dimensions w h r = (w', h') \<Longrightarrow> 0 < w \<Longrightarrow> 0 < h \<Longrightarrow> 0 < w' \<and> 0 < h'"
  by (auto simp: rotated_dimensions_def split: if_splits)

section \<open>The loop over the ground\<close>

definition bounds_cover :: "layout_grid \<Rightarrow> bool" where
  "bounds_cover g \<longleftrightarrow> (case lg_bounds g of None \<Rightarrow> lg_ground g = [] | Some b \<Rightarrow> lg_ground g \<noteq> [] \<and> (\<forall>cell \<in> set (lg_ground g). in_bounds b cell))"

definition no_error :: "layout_issue list \<Rightarrow> bool" where
  "no_error issues \<longleftrightarrow> \<not> list_ex (\<lambda>issue. li_severity issue = ''error'') issues"

lemma no_error_simps [simp]:
  "no_error []" "no_error (xs @ ys) \<longleftrightarrow> no_error xs \<and> no_error ys"
  "no_error (issue # ys) \<longleftrightarrow> li_severity issue \<noteq> ''error'' \<and> no_error ys"
  by (auto simp: no_error_def)

lemma bounds_cover_update [simp]:
  "bounds_cover (g\<lparr>lg_issues := issues\<rparr>) = bounds_cover g" "bounds_cover (g\<lparr>lg_occupied := occ\<rparr>) = bounds_cover g"
  "bounds_cover (g\<lparr>lg_placed := n\<rparr>) = bounds_cover g" "bounds_cover (g\<lparr>lg_stored := n\<rparr>) = bounds_cover g"
  by (simp_all add: bounds_cover_def split: option.split)

lemma add_ground_cells:
  "set (lg_ground (fold (\<lambda>cell g. add_ground_cell g cell) cells g)) = set (lg_ground g) \<union> set cells"
  "distinct (lg_ground g) \<Longrightarrow> distinct (lg_ground (fold (\<lambda>cell g. add_ground_cell g cell) cells g))"
  "bounds_cover g \<Longrightarrow> bounds_cover (fold (\<lambda>cell g. add_ground_cell g cell) cells g)"
  "lg_occupied (fold (\<lambda>cell g. add_ground_cell g cell) cells g) = lg_occupied g"
  "lg_issues (fold (\<lambda>cell g. add_ground_cell g cell) cells g) = lg_issues g"
proof (induction cells arbitrary: g)
  case (Cons cell cells)
  {
    case 1 show ?case using Cons.IH(1) by (auto simp: add_ground_cell_def)
  next
    case 2 then show ?case using Cons.IH(2) by (auto simp: add_ground_cell_def)
  next
    case 3
    then have "bounds_cover (add_ground_cell g cell)"
      by (auto simp: bounds_cover_def add_ground_cell_def in_bounds_extend List.insert_def intro: in_bounds_extend split: option.splits)
    then show ?case using Cons.IH(3) by simp
  next
    case 4 show ?case using Cons.IH(4) by (simp add: add_ground_cell_def)
  next
    case 5 show ?case using Cons.IH(5) by (simp add: add_ground_cell_def)
  }
qed simp_all

definition usable_at :: "catalog \<Rightarrow> buildings \<Rightarrow> int \<Rightarrow> bool" where
  "usable_at cat bs i \<longleftrightarrow> (case map_of bs i of None \<Rightarrow> True | Some b \<Rightarrow> usable_definition cat b \<noteq> None)"

lemma add_ground_facts:
  "set (lg_ground (add_ground cat bs g i)) = set (lg_ground g) \<union> stands_on cat bs i"
  "distinct (lg_ground g) \<Longrightarrow> distinct (lg_ground (add_ground cat bs g i))"
  "bounds_cover g \<Longrightarrow> bounds_cover (add_ground cat bs g i)"
  "lg_occupied (add_ground cat bs g i) = lg_occupied g"
  "no_error (lg_issues (add_ground cat bs g i)) \<longleftrightarrow> no_error (lg_issues g) \<and> usable_at cat bs i"
  by (auto simp: add_ground_def stands_on_def usable_at_def add_ground_cells split: option.splits)

lemma fold_add_ground:
  "set (lg_ground (fold (\<lambda>i g. add_ground cat bs g i) ids g)) = set (lg_ground g) \<union> (\<Union>i \<in> set ids. stands_on cat bs i)"
  "distinct (lg_ground g) \<Longrightarrow> distinct (lg_ground (fold (\<lambda>i g. add_ground cat bs g i) ids g))"
  "bounds_cover g \<Longrightarrow> bounds_cover (fold (\<lambda>i g. add_ground cat bs g i) ids g)"
  "lg_occupied (fold (\<lambda>i g. add_ground cat bs g i) ids g) = lg_occupied g"
  "no_error (lg_issues (fold (\<lambda>i g. add_ground cat bs g i) ids g)) \<longleftrightarrow> no_error (lg_issues g) \<and> (\<forall>i \<in> set ids. usable_at cat bs i)"
  by (induction ids arbitrary: g) (auto simp: add_ground_facts)

lemma ground_grid_facts:
  "set (lg_ground (ground_grid c cat)) = unlocked_ground c cat"
  "distinct (lg_ground (ground_grid c cat))" "bounds_cover (ground_grid c cat)" "lg_occupied (ground_grid c cat) = []"
  "no_error (lg_issues (ground_grid c cat)) \<longleftrightarrow>
     unlocked_ground c cat \<noteq> {} \<and> (\<forall>i \<in> fst ` set (cl_ground (ca_layout c)). usable_at cat (cl_ground (ca_layout c)) i)"
proof -
  let ?bs = "cl_ground (ca_layout c)"
  let ?g = "fold (\<lambda>i g. add_ground cat ?bs g i) (sorted_building_ids ?bs) empty_grid"
  have ids: "set (sorted_building_ids ?bs) = fst ` set ?bs" by (simp add: sorted_building_ids_def)
  have s: "set (lg_ground ?g) = unlocked_ground c cat"
    by (simp add: fold_add_ground ids unlocked_ground_def empty_grid_def)
  then have e: "lg_ground ?g = [] \<longleftrightarrow> unlocked_ground c cat = {}" by (metis set_empty)
  note facts = fold_add_ground [where g = empty_grid and cat = cat and bs = ?bs and ids = "sorted_building_ids ?bs"]
  show "set (lg_ground (ground_grid c cat)) = unlocked_ground c cat"
    using s e by (simp add: ground_grid_def Let_def)
  show "distinct (lg_ground (ground_grid c cat))"
    using facts(2) by (simp add: ground_grid_def Let_def empty_grid_def)
  show "bounds_cover (ground_grid c cat)"
    using facts(3) by (simp add: ground_grid_def Let_def) (simp add: empty_grid_def bounds_cover_def)
  show "lg_occupied (ground_grid c cat) = []"
    using facts(4) by (simp add: ground_grid_def Let_def empty_grid_def)
  show "no_error (lg_issues (ground_grid c cat)) \<longleftrightarrow>
      unlocked_ground c cat \<noteq> {} \<and> (\<forall>i \<in> fst ` set ?bs. usable_at cat ?bs i)"
    using facts(5) e by (auto simp: ground_grid_def Let_def ids empty_grid_def)
qed

section \<open>The loop over the objects\<close>

lemma fold_occupy:
  assumes "fold (occupy_cell i) cells (g, pairs, outside) = (g', pairs', outside')"
  shows "lg_ground g' = lg_ground g" "lg_bounds g' = lg_bounds g" "lg_issues g' = lg_issues g"
    "map_of (lg_occupied g') = (\<lambda>cell. if cell \<in> set cells then Some i else map_of (lg_occupied g) cell)"
    "distinct (map fst (lg_occupied g)) \<Longrightarrow> distinct (map fst (lg_occupied g'))"
    "outside' \<longleftrightarrow> outside \<or> \<not> set cells \<subseteq> set (lg_ground g)"
    "pairs' = [] \<longleftrightarrow> pairs = [] \<and> (\<forall>cell \<in> set cells. \<forall>j. map_of (lg_occupied g) cell = Some j \<longrightarrow> j = i)"
  using assms
proof (atomize (full), induction cells arbitrary: g pairs outside)
  case (Cons cell cells)
  obtain g1 pairs1 outside1 where one: "occupy_cell i cell (g, pairs, outside) = (g1, pairs1, outside1)"
    by (cases "occupy_cell i cell (g, pairs, outside)")
  have g1: "g1 = g\<lparr>lg_occupied := AList.update cell i (lg_occupied g)\<rparr>" "outside1 \<longleftrightarrow> outside \<or> cell \<notin> set (lg_ground g)"
    "pairs1 = [] \<longleftrightarrow> pairs = [] \<and> (\<forall>j. map_of (lg_occupied g) cell = Some j \<longrightarrow> j = i)"
    using one by (auto simp: occupy_cell_def Let_def split: option.splits if_splits)
  from Cons.IH [of g1 pairs1 outside1] Cons.prems one show ?case
    by (auto simp: g1 update_conv' distinct_update split: if_splits)
qed auto

definition objects_inv :: "castle \<Rightarrow> catalog \<Rightarrow> int \<Rightarrow> int list \<Rightarrow> layout_grid \<Rightarrow> layout_grid \<times> collision_pairs \<Rightarrow> bool" where
  "objects_inv c cat ignore ids g0 s =
     (case s of (g, pairs) \<Rightarrow>
        let cells = stands_on cat (cl_objects (ca_layout c)) in
        lg_ground g = lg_ground g0 \<and> lg_bounds g = lg_bounds g0 \<and> distinct (map fst (lg_occupied g)) \<and>
        (\<forall>cell i. map_of (lg_occupied g) cell = Some i \<longrightarrow> i \<in> set ids - {ignore} \<and> cell \<in> cells i) \<and>
        dom (map_of (lg_occupied g)) = (\<Union>i \<in> set ids - {ignore}. cells i) \<and>
        (no_error (lg_issues g) \<longleftrightarrow> no_error (lg_issues g0) \<and> (\<forall>i \<in> set ids - {ignore}. cells i \<subseteq> set (lg_ground g0))) \<and>
        (pairs = [] \<longleftrightarrow> pairwise (\<lambda>i j. disjnt (cells i) (cells j)) (set ids - {ignore})))"

lemma objects_inv_skip:
  "objects_inv c cat ignore ids g0 (g, pairs) \<Longrightarrow> i = ignore \<or> stands_on cat (cl_objects (ca_layout c)) i = {} \<Longrightarrow>
    lg_ground g' = lg_ground g \<Longrightarrow> lg_bounds g' = lg_bounds g \<Longrightarrow> lg_occupied g' = lg_occupied g \<Longrightarrow>
    no_error (lg_issues g') = no_error (lg_issues g) \<Longrightarrow> objects_inv c cat ignore (ids @ [i]) g0 (g', pairs)"
  by (cases "i = ignore") (auto simp: objects_inv_def Let_def insert_Diff_if pairwise_insert disjnt_def)

lemma objects_inv_add:
  assumes inv: "objects_inv c cat ignore ids g0 s" and new: "i \<notin> set ids"
  shows "objects_inv c cat ignore (ids @ [i]) g0 (add_object cat (cl_objects (ca_layout c)) ignore i s)"
proof -
  let ?bs = "cl_objects (ca_layout c)"
  obtain g pairs where s: "s = (g, pairs)" by (cases s)
  show ?thesis
  proof (cases "i \<noteq> ignore \<and> stands_on cat ?bs i \<noteq> {}")
    case False
    have "fold (occupy_cell i) [] x = x" for x by simp
    with False inv show ?thesis
      by (auto simp: s add_object_def stands_on_def split: option.splits prod.splits if_splits
          intro!: objects_inv_skip [OF inv [unfolded s]])
  next
    case True
    then obtain b d where b: "map_of ?bs i = Some b" "bl_placed b" "usable_definition cat b = Some d"
      and cells: "stands_on cat ?bs i = set (building_cells b d)"
      by (auto simp: stands_on_def split: option.splits if_splits)
    obtain g' pairs' outside where f: "fold (occupy_cell i) (building_cells b d)
        (g\<lparr>lg_placed := lg_placed g + 1\<rparr>, pairs, False) = (g', pairs', outside)"
      by (cases "fold (occupy_cell i) (building_cells b d) (g\<lparr>lg_placed := lg_placed g + 1\<rparr>, pairs, False)")
    note f' = fold_occupy [OF f, simplified]
    note inv' = inv [unfolded s objects_inv_def Let_def prod.case]
    have inv': "lg_ground g = lg_ground g0" "lg_bounds g = lg_bounds g0" "distinct (map fst (lg_occupied g))"
      "\<And>cell j. map_of (lg_occupied g) cell = Some j \<Longrightarrow> j \<in> set ids - {ignore} \<and> cell \<in> stands_on cat ?bs j"
      "dom (map_of (lg_occupied g)) = (\<Union>j \<in> set ids - {ignore}. stands_on cat ?bs j)"
      "no_error (lg_issues g) \<longleftrightarrow> no_error (lg_issues g0) \<and> (\<forall>j \<in> set ids - {ignore}. stands_on cat ?bs j \<subseteq> set (lg_ground g0))"
      "pairs = [] \<longleftrightarrow> pairwise (\<lambda>i j. disjnt (stands_on cat ?bs i) (stands_on cat ?bs j)) (set ids - {ignore})"
      using inv unfolding s objects_inv_def Let_def prod.case by blast+
    have occ: "(\<forall>cell \<in> set (building_cells b d). \<forall>j. map_of (lg_occupied g) cell = Some j \<longrightarrow> j = i) \<longleftrightarrow>
        (\<forall>j \<in> set ids - {ignore}. disjnt (stands_on cat ?bs i) (stands_on cat ?bs j))" (is "?free \<longleftrightarrow> ?apart")
    proof
      assume free: ?free
      show ?apart
      proof (intro ballI, unfold disjnt_iff, intro allI notI)
        fix j cell assume j: "j \<in> set ids - {ignore}" and cell: "cell \<in> stands_on cat ?bs i \<and> cell \<in> stands_on cat ?bs j"
        then have "cell \<in> dom (map_of (lg_occupied g))" using inv'(5) by auto
        then obtain k where k: "map_of (lg_occupied g) cell = Some k" by auto
        then have "k \<in> set ids" using inv'(4) by auto
        moreover have "k = i" using free k cell cells by auto
        ultimately show False using new by simp
      qed
    next
      assume ?apart then show ?free using inv'(4) cells by (fastforce simp: disjnt_iff)
    qed
    let ?g = "if outside then g'\<lparr>lg_issues := lg_issues g' @ [\<lparr>li_code = ''object_outside_ground'',
        li_message = ''Object '' @ show_int i @ '' extends outside unlocked ground'', li_severity = ''error'', li_building_ids = [i]\<rparr>]\<rparr> else g'"
    have "add_object cat ?bs ignore i s = (?g, pairs')"
      using True b f by (simp add: s add_object_def)
    moreover have "lg_ground ?g = lg_ground g0" "lg_bounds ?g = lg_bounds g0" "lg_occupied ?g = lg_occupied g'"
      "no_error (lg_issues ?g) \<longleftrightarrow> no_error (lg_issues g) \<and> stands_on cat ?bs i \<subseteq> set (lg_ground g0)"
      using f' inv'(1,2) cells by auto
    moreover have "map_of (lg_occupied g') cell = Some j \<Longrightarrow> j \<in> set (ids @ [i]) - {ignore} \<and> cell \<in> stands_on cat ?bs j" for cell j
      using f'(4) inv'(4) True cells by (auto split: if_splits)
    moreover have "dom (map_of (lg_occupied g')) = (\<Union>j \<in> set (ids @ [i]) - {ignore}. stands_on cat ?bs j)"
      using f'(4) inv'(5) True cells by (auto simp: dom_def split: if_splits)
    moreover have "pairs' = [] \<longleftrightarrow> pairwise (\<lambda>i j. disjnt (stands_on cat ?bs i) (stands_on cat ?bs j)) (set (ids @ [i]) - {ignore})"
      using f'(7) inv'(7) occ True new by (auto simp: insert_Diff_if pairwise_insert disjnt_sym)
    ultimately show ?thesis
      using f'(5) inv'(3,6) True by (auto simp: objects_inv_def Let_def insert_Diff_if)
  qed
qed

lemma fold_add_object:
  "distinct (ids @ ids') \<Longrightarrow> objects_inv c cat ignore ids g0 s \<Longrightarrow>
    objects_inv c cat ignore (ids @ ids') g0 (fold (add_object cat (cl_objects (ca_layout c)) ignore) ids' s)"
proof (induction ids' arbitrary: ids s)
  case (Cons i ids')
  then show ?case using objects_inv_add [of c cat ignore ids g0 s i] Cons.IH [of "ids @ [i]"] by simp
qed simp

section \<open>The finished grid\<close>

lemma no_catalog: "unlocked_ground c None = {}" "built_over c None ignore = {}" "stands_on None bs i = {}"
  by (auto simp: unlocked_ground_def built_over_def stands_on_def usable_definition_def definition_view_def split: option.splits)

lemma no_error_collisions: "no_error (map (\<lambda>k. collision_issue (f k)) ks) \<longleftrightarrow> ks = []"
  by (cases ks) (simp_all add: collision_issue_def)

definition grid_faithful :: "castle \<Rightarrow> catalog \<Rightarrow> int \<Rightarrow> layout_grid \<Rightarrow> bool" where
  "grid_faithful c cat ignore g \<longleftrightarrow>
     set (lg_ground g) = unlocked_ground c cat \<and> distinct (lg_ground g) \<and> bounds_cover g \<and>
     dom (map_of (lg_occupied g)) = built_over c cat ignore \<and> distinct (map fst (lg_occupied g)) \<and>
     (no_error (lg_issues g) \<longleftrightarrow> unlocked_ground c cat \<noteq> {} \<and>
        (\<forall>i \<in> fst ` set (cl_ground (ca_layout c)). usable_at cat (cl_ground (ca_layout c)) i) \<and>
        (\<forall>i \<in> object_ids c ignore. stands_on cat (cl_objects (ca_layout c)) i \<subseteq> unlocked_ground c cat) \<and>
        pairwise (\<lambda>i j. disjnt (stands_on cat (cl_objects (ca_layout c)) i) (stands_on cat (cl_objects (ca_layout c)) j))
          (object_ids c ignore))"

lemma build_layout_grid_faithful: "grid_faithful c cat ignore (build_layout_grid c cat ignore)"
proof (cases "cat = None")
  case True
  then show ?thesis by (simp add: grid_faithful_def build_layout_grid_def empty_grid_def no_catalog bounds_cover_def)
next
  case False
  let ?objects = "cl_objects (ca_layout c)" and ?base = "ground_grid c cat" and ?g = "build_layout_grid c cat ignore"
  obtain g1 pairs where f: "fold (add_object cat ?objects ignore) (sorted_building_ids ?objects) (?base, []) = (g1, pairs)"
    by (cases "fold (add_object cat ?objects ignore) (sorted_building_ids ?objects) (?base, [])")
  have "objects_inv c cat ignore [] ?base (?base, [])"
    using ground_grid_facts(4) [of c cat] by (simp add: objects_inv_def)
  moreover have ids: "set (sorted_building_ids ?objects) - {ignore} = object_ids c ignore" "distinct (sorted_building_ids ?objects)"
    by (simp_all add: sorted_building_ids_def object_ids_def)
  ultimately have "objects_inv c cat ignore (sorted_building_ids ?objects) ?base (g1, pairs)"
    using fold_add_object [of "[]" "sorted_building_ids ?objects" c cat ignore ?base "(?base, [])"] f by simp
  note inv = this [unfolded objects_inv_def Let_def prod.case ids, folded built_over_def]
  have g: "?g = g1\<lparr>lg_issues := lg_issues g1 @ map (\<lambda>key. collision_issue (the (map_of pairs key))) (sort (map fst pairs))\<rparr>"
    using False f by (auto simp: build_layout_grid_def)
  have "bounds_cover g1"
    using ground_grid_facts(3) [of c cat] inv [THEN conjunct1] inv [THEN conjunct2, THEN conjunct1] by (simp add: bounds_cover_def split: option.splits)
  then have cover: "bounds_cover ?g" by (simp add: g)
  have "sort (map fst pairs) = [] \<longleftrightarrow> pairs = []" by (metis length_0_conv length_map length_sort)
  then have "no_error (lg_issues ?g) \<longleftrightarrow> no_error (lg_issues g1) \<and> pairs = []"
    by (simp add: g no_error_collisions)
  moreover have "lg_ground ?g = lg_ground g1" "lg_occupied ?g = lg_occupied g1" by (simp_all add: g)
  ultimately show ?thesis
    using inv cover ground_grid_facts(1,2,5) [of c cat] unfolding grid_faithful_def by metis
qed

lemma layout_grid_facts:
  fixes c cat ignore
  defines "g \<equiv> build_layout_grid c cat ignore"
  shows "set (lg_ground g) = unlocked_ground c cat" "distinct (lg_ground g)" "bounds_cover g"
    "dom (map_of (lg_occupied g)) = built_over c cat ignore" "distinct (map fst (lg_occupied g))"
  using build_layout_grid_faithful [of c cat ignore] by (simp_all add: g_def grid_faithful_def)

lemma placement_fits_iff:
  "placement_fits (build_layout_grid c cat ignore) p \<longleftrightarrow>
     set (footprint_cells p) \<subseteq> unlocked_ground c cat - built_over c cat ignore"
  unfolding placement_fits_def list_all_iff layout_grid_facts(1) layout_grid_facts(4) [symmetric]
  by (auto simp: domIff simp del: set_footprint_cells)

section \<open>Properties\<close>


definition footprint_at :: "building_definition \<Rightarrow> int \<Rightarrow> int \<Rightarrow> int \<Rightarrow> grid_point set" where
  "footprint_at d x y rotation =
     (let (width, height) = rotated_dimensions (bd_width d) (bd_height d) rotation
      in {x ..< x + width} \<times> {y ..< y + height})"

lemma sorted_wrt_concat_map:
  assumes "sorted_wrt R xs" "\<And>x. x \<in> set xs \<Longrightarrow> sorted_wrt S (f x)"
    and "\<And>x y a b. R x y \<Longrightarrow> a \<in> set (f x) \<Longrightarrow> b \<in> set (f y) \<Longrightarrow> S a b"
  shows "sorted_wrt S (concat (map f xs))"
  using assms by (induction xs) (auto simp: sorted_wrt_append)

lemma candidate_placements_order:
  "sorted_wrt (\<lambda>p q. pl_grid_y p < pl_grid_y q \<or> pl_grid_y p = pl_grid_y q \<and> pl_grid_x p \<le> pl_grid_x q) (candidate_placements b d)"
  unfolding candidate_placements_def
proof (rule sorted_wrt_concat_map [where R = "(<)"], simp, goal_cases)
  case (1 y)
  show ?case
    by (rule sorted_wrt_concat_map [where R = "(<)"])
      (auto simp: candidate_rotations_def split: prod.splits)
qed (auto split: prod.splits)

lemma candidate_placements_iff:
  "p \<in> set (candidate_placements b d) \<longleftrightarrow>
     in_bounds b (pl_grid_x p, pl_grid_y p) \<and> pl_rotation p \<in> set (candidate_rotations d) \<and>
     rotated_dimensions (bd_width d) (bd_height d) (pl_rotation p) = (pl_width p, pl_height p)" (is "_ \<longleftrightarrow> ?ok")
proof
  show "p \<in> set (candidate_placements b d) \<Longrightarrow> ?ok"
    by (auto simp: candidate_placements_def in_bounds_def split: prod.splits)
next
  let ?at = "\<lambda>y x rotation. let (width, height) = rotated_dimensions (bd_width d) (bd_height d) rotation
      in \<lparr>pl_grid_x = x, pl_grid_y = y, pl_rotation = rotation, pl_width = width, pl_height = height\<rparr>"
  assume ok: ?ok
  then have "p = ?at (pl_grid_y p) (pl_grid_x p) (pl_rotation p)" by simp
  with ok have "p \<in> ?at (pl_grid_y p) (pl_grid_x p) ` set (candidate_rotations d)" by blast
  moreover from ok have "pl_grid_x p \<in> {bo_min_x b .. bo_max_x b - 1}" "pl_grid_y p \<in> {bo_min_y b .. bo_max_y b - 1}"
    by (auto simp: in_bounds_def)
  ultimately show "p \<in> set (candidate_placements b d)"
    by (simp add: candidate_placements_def del: atLeastAtMost_iff)
      (rule bexI [of _ "pl_grid_y p"], rule bexI [of _ "pl_grid_x p"], assumption+)
qed

lemma footprint_at_placed:
  "rotated_dimensions (bd_width d) (bd_height d) (pl_rotation p) = (pl_width p, pl_height p) \<Longrightarrow>
    footprint_at d (pl_grid_x p) (pl_grid_y p) (pl_rotation p) = set (footprint_cells p)"
  by (auto simp: footprint_at_def)

lemma footprint_at_rotation:
  "footprint_at d x y (if bd_width d \<noteq> bd_height d then rotation mod 2 else 0) = footprint_at d x y rotation"
  by (simp add: footprint_at_def rotated_dimensions_def)

lemma rotation_candidate: "(if bd_width d \<noteq> bd_height d then rotation mod 2 else 0) \<in> set (candidate_rotations d)"
  by (auto simp: candidate_rotations_def)

text \<open>Every free footprint, in any rotation, is among the candidates.\<close>

lemma free_footprint_candidate:
  assumes d: "0 < bd_width d" "0 < bd_height d"
    and free: "footprint_at d x y rotation \<subseteq> unlocked_ground c cat - built_over c cat ignore"
  obtains b p where "lg_bounds (build_layout_grid c cat ignore) = Some b" "p \<in> set (candidate_placements b d)"
    "placement_fits (build_layout_grid c cat ignore) p" "pl_grid_x p = x" "pl_grid_y p = y"
proof -
  let ?g = "build_layout_grid c cat ignore" and ?r = "if bd_width d \<noteq> bd_height d then rotation mod 2 else 0"
  obtain w h where wh: "rotated_dimensions (bd_width d) (bd_height d) ?r = (w, h)"
    by (cases "rotated_dimensions (bd_width d) (bd_height d) ?r")
  have "0 < w \<and> 0 < h" using rotated_pos [OF wh] d by blast
  then have "(x, y) \<in> footprint_at d x y ?r" by (simp add: footprint_at_def wh)
  then have xy: "(x, y) \<in> set (lg_ground ?g)"
    using free layout_grid_facts(1) [of c cat ignore] unfolding footprint_at_rotation by blast
  with layout_grid_facts(3) [of c cat ignore] obtain b where b: "lg_bounds ?g = Some b" "in_bounds b (x, y)"
    by (auto simp: bounds_cover_def split: option.splits)
  let ?p = "\<lparr>pl_grid_x = x, pl_grid_y = y, pl_rotation = ?r, pl_width = w, pl_height = h\<rparr>"
  have "?p \<in> set (candidate_placements b d)"
    using b(2) wh rotation_candidate [of d rotation] by (simp add: candidate_placements_iff)
  moreover have "placement_fits ?g ?p"
    using free footprint_at_placed [of d ?p] wh footprint_at_rotation [of d x y rotation]
    by (simp add: placement_fits_iff del: set_footprint_cells)
  ultimately show ?thesis using that [OF b(1), of ?p] by simp
qed

lemma find_first:
  "sorted_wrt R xs \<Longrightarrow> List.find P xs = Some x \<Longrightarrow> q \<in> set xs \<Longrightarrow> P q \<Longrightarrow> q = x \<or> R x q"
  by (induction xs) (auto split: if_splits)

lemma validate_placement_Nil:
  "validate_placement c d p cat ignore = [] \<longleftrightarrow> 0 < bd_width d \<and> 0 < bd_height d \<and>
     footprint_at d (pl_grid_x p) (pl_grid_y p) (pl_rotation p) \<subseteq> unlocked_ground c cat - built_over c cat ignore"
proof (cases "bd_width d \<le> 0 \<or> bd_height d \<le> 0")
  case True
  then show ?thesis by (auto simp: validate_placement_def)
next
  case False
  let ?g = "build_layout_grid c cat ignore"
  obtain w h where wh: "rotated_dimensions (bd_width d) (bd_height d) (pl_rotation p) = (w, h)"
    by (cases "rotated_dimensions (bd_width d) (bd_height d) (pl_rotation p)")
  let ?p = "p\<lparr>pl_width := w, pl_height := h\<rparr>"
  have none: "List.map_filter f cells = [] \<longleftrightarrow> (\<forall>cell \<in> set cells. f cell = None)" for f :: "grid_point \<Rightarrow> int option" and cells
    by (induction cells) (auto simp: map_filter_simps split: option.splits)
  have "validate_placement c d p cat ignore = [] \<longleftrightarrow> placement_fits ?g ?p"
    using False wh unfolding validate_placement_def Let_def
    by (auto simp: placement_fits_def list_ex_iff list_all_iff none simp del: set_footprint_cells split: if_splits)
  then show ?thesis
    using False footprint_at_placed [of d ?p] wh by (simp add: placement_fits_iff del: set_footprint_cells)
qed

text \<open>The search for a site is complete and finds the first one: it fails only when the footprint
  fits nowhere in any rotation, and otherwise returns a site that the validation accepts and that is
  first by row, then by column, among all sites where the footprint fits.\<close>

theorem find_placement_complete:
  assumes "0 < bd_width d" "0 < bd_height d"
  shows "(find_placement c d cat ignore = None \<longleftrightarrow>
      (\<forall>x y rotation. \<not> footprint_at d x y rotation \<subseteq> unlocked_ground c cat - built_over c cat ignore)) \<and>
    (\<forall>p. find_placement c d cat ignore = Some p \<longrightarrow>
      validate_placement c d p cat ignore = [] \<and>
      footprint_at d (pl_grid_x p) (pl_grid_y p) (pl_rotation p) \<subseteq> unlocked_ground c cat - built_over c cat ignore \<and>
      (\<forall>x y rotation. footprint_at d x y rotation \<subseteq> unlocked_ground c cat - built_over c cat ignore \<longrightarrow>
         pl_grid_y p < y \<or> pl_grid_y p = y \<and> pl_grid_x p \<le> x))"
proof -
  let ?g = "build_layout_grid c cat ignore" and ?free = "unlocked_ground c cat - built_over c cat ignore"
  have find: "find_placement c d cat ignore =
      (case lg_bounds ?g of None \<Rightarrow> None | Some b \<Rightarrow> List.find (placement_fits ?g) (candidate_placements b d))"
    using assms by (simp add: find_placement_def Let_def split: option.split)
  have fits: "placement_fits ?g p \<longleftrightarrow> footprint_at d (pl_grid_x p) (pl_grid_y p) (pl_rotation p) \<subseteq> ?free"
    if "p \<in> set (candidate_placements b d)" for p b
    using that footprint_at_placed [of d p] by (simp add: candidate_placements_iff placement_fits_iff del: set_footprint_cells)
  have "\<exists>x y rotation. footprint_at d x y rotation \<subseteq> ?free" if p: "find_placement c d cat ignore = Some p" for p
    using p fits unfolding find by (fastforce simp: find_Some_iff dest: nth_mem split: option.splits)
  moreover have "find_placement c d cat ignore \<noteq> None" if site: "footprint_at d x y rotation \<subseteq> ?free" for x y rotation
  proof -
    obtain b q where "lg_bounds ?g = Some b" "q \<in> set (candidate_placements b d)" "placement_fits ?g q"
      using free_footprint_candidate [OF assms site] by metis
    then show ?thesis unfolding find by (auto simp: find_None_iff)
  qed
  moreover have "validate_placement c d p cat ignore = [] \<and>
      footprint_at d (pl_grid_x p) (pl_grid_y p) (pl_rotation p) \<subseteq> ?free \<and>
      (\<forall>x y rotation. footprint_at d x y rotation \<subseteq> ?free \<longrightarrow> pl_grid_y p < y \<or> pl_grid_y p = y \<and> pl_grid_x p \<le> x)"
    if p: "find_placement c d cat ignore = Some p" for p
  proof -
    obtain b where b: "lg_bounds ?g = Some b" and f: "List.find (placement_fits ?g) (candidate_placements b d) = Some p"
      using p unfolding find by (auto split: option.splits)
    then have mem: "p \<in> set (candidate_placements b d)" "placement_fits ?g p" by (auto simp: find_Some_iff)
    have "pl_grid_y p < y \<or> pl_grid_y p = y \<and> pl_grid_x p \<le> x" if site: "footprint_at d x y rotation \<subseteq> ?free" for x y rotation
    proof -
      obtain q where q: "q \<in> set (candidate_placements b d)" "placement_fits ?g q" "pl_grid_x q = x" "pl_grid_y q = y"
        using free_footprint_candidate [OF assms site] b by (metis option.inject)
      from find_first [OF candidate_placements_order f q(1,2)] q(3,4) show ?thesis by auto
    qed
    with mem fits [OF mem(1)] assms show ?thesis by (simp add: validate_placement_Nil)
  qed
  ultimately show ?thesis by (metis option.exhaust)
qed

section \<open>Expanding the ground\<close>

record target_ground =
  tg_definition_id :: int
  tg_grid_x :: int
  tg_grid_y :: int
  tg_direction :: int

definition target_building :: "target_ground \<Rightarrow> building" where
  "target_building t = \<lparr>bl_instance_id = 0, bl_definition_id = tg_definition_id t, bl_grid_x = tg_grid_x t,
     bl_grid_y = tg_grid_y t, bl_rotation = tg_direction t, bl_placed = True\<rparr>"

text \<open>The values of a map; Go visits them in an unspecified order, here that of the keys.\<close>

definition building_values :: "buildings \<Rightarrow> building list" where
  "building_values bs = map (\<lambda>i. the (map_of bs i)) (sorted_building_ids bs)"

fun expansion_conflict :: "catalog \<Rightarrow> grid_point list \<Rightarrow> building list \<Rightarrow> string option" where
  "expansion_conflict cat cells [] = None"
| "expansion_conflict cat cells (b # bs) =
     (if \<not> bl_placed b then expansion_conflict cat cells bs
      else case usable_definition cat b of
        None \<Rightarrow> Some (''official geometry for placed building '' @ show_int (bl_definition_id b) @ '' is unavailable'')
      | Some d \<Rightarrow>
          if bl_rotation b < 0 \<or> 3 < bl_rotation b
          then Some (''official geometry for placed building '' @ show_int (bl_definition_id b) @ '' is unavailable'')
          else if list_ex (\<lambda>cell. cell \<in> set cells) (building_cells b d)
          then Some (''expansion footprint overlaps placed ground or building '' @ show_int (bl_instance_id b))
          else expansion_conflict cat cells bs)"

definition validate_expansion_footprint :: "castle \<Rightarrow> target_ground \<Rightarrow> catalog \<Rightarrow> string option" where
  "validate_expansion_footprint c t cat =
     (if cat = None \<or> \<not> ca_focused c \<or> time_is_zero (cl_observed_at (ca_layout c))
      then Some ''focused expansion layout or official geometry is unavailable''
      else if tg_direction t < 0 \<or> 3 < tg_direction t then Some (''invalid expansion rotation '' @ show_int (tg_direction t))
      else case usable_definition cat (target_building t) of
        None \<Rightarrow> Some (''official expansion geometry '' @ show_int (tg_definition_id t) @ '' is unavailable'')
      | Some d \<Rightarrow> expansion_conflict cat (building_cells (target_building t) d)
          (building_values (cl_ground (ca_layout c)) @ building_values (cl_objects (ca_layout c))))"

fun covered_ground :: "catalog \<Rightarrow> building list \<Rightarrow> grid_point list option" where
  "covered_ground cat [] = Some []"
| "covered_ground cat (b # bs) =
     (if \<not> bl_placed b then covered_ground cat bs
      else case usable_definition cat b of None \<Rightarrow> None
      | Some d \<Rightarrow> map_option (\<lambda>cells. building_cells b d @ cells) (covered_ground cat bs))"

definition missing_ground_coverage :: "castle \<Rightarrow> target_ground list \<Rightarrow> catalog \<Rightarrow> target_ground list" where
  "missing_ground_coverage c target cat =
     (if cat = None then target
      else case covered_ground cat (building_values (cl_ground (ca_layout c))) of
        None \<Rightarrow> target
      | Some ground \<Rightarrow> filter (\<lambda>t. case usable_definition cat (target_building t) of None \<Rightarrow> True
            | Some d \<Rightarrow> list_ex (\<lambda>cell. cell \<notin> set ground) (building_cells (target_building t) d)) target)"

definition add_target_ground :: "int \<Rightarrow> target_ground \<Rightarrow> castle \<Rightarrow> castle" where
  "add_target_ground i t c = c\<lparr>ca_layout := (ca_layout c)\<lparr>cl_ground := (i, target_building t) # cl_ground (ca_layout c)\<rparr>\<rparr>"

definition target_cells :: "catalog \<Rightarrow> target_ground \<Rightarrow> grid_point set" where
  "target_cells cat t = stands_on cat [(0, target_building t)] 0"

lemma target_cells_usable:
  "usable_definition cat (target_building t) = Some d \<Longrightarrow> target_cells cat t = set (building_cells (target_building t) d)"
  by (simp add: target_cells_def stands_on_def target_building_def)

lemma stands_on_building:
  "i \<in> fst ` set bs \<Longrightarrow> \<exists>b \<in> set (building_values bs). map_of bs i = Some b"
  by (force simp: building_values_def sorted_building_ids_def weak_map_of_SomeI image_iff)

lemma expansion_conflict_None:
  assumes "expansion_conflict cat cells bs = None" "b \<in> set bs" "bl_placed b"
  obtains d where "usable_definition cat b = Some d" "set cells \<inter> set (building_cells b d) = {}"
  using assms by (induction bs) (auto simp: list_ex_iff split: if_splits option.splits)

definition standing_cells :: "catalog \<Rightarrow> building \<Rightarrow> grid_point set" where
  "standing_cells cat b = stands_on cat [(0, b)] 0"

lemma standing_cells_simps:
  "\<not> bl_placed b \<Longrightarrow> standing_cells cat b = {}"
  "bl_placed b \<Longrightarrow> usable_definition cat b = Some d \<Longrightarrow> standing_cells cat b = set (building_cells b d)"
  "stands_on cat bs i = (case map_of bs i of None \<Rightarrow> {} | Some b \<Rightarrow> standing_cells cat b)"
  by (simp_all add: standing_cells_def stands_on_def split: option.split)

lemma covered_ground_None:
  "covered_ground cat bs = None \<longleftrightarrow> (\<exists>b \<in> set bs. bl_placed b \<and> usable_definition cat b = None)"
  by (induction bs) (auto split: option.splits)

lemma covered_ground_Some:
  "covered_ground cat bs = Some cells \<Longrightarrow> set cells = (\<Union>b \<in> set bs. standing_cells cat b)"
proof (induction bs arbitrary: cells)
  case (Cons b bs)
  then show ?case
    by (cases "bl_placed b") (auto simp: standing_cells_simps(1,2) split: option.splits simp del: not_None_eq)
qed simp

lemma set_building_values: "set (building_values bs) = (\<lambda>i. the (map_of bs i)) ` dom (map_of bs)"
  by (simp add: building_values_def sorted_building_ids_def dom_map_of_conv_image_fst)

lemma building_values_map: "b \<in> set (building_values bs) \<longleftrightarrow> (\<exists>i. map_of bs i = Some b)"
  unfolding set_building_values by force

lemma standing_values: "(\<Union>b \<in> set (building_values bs). standing_cells cat b) = (\<Union>i \<in> fst ` set bs. stands_on cat bs i)"
  unfolding set_building_values dom_map_of_conv_image_fst [symmetric] by (force simp: standing_cells_simps(3))

lemma disjoint_parts: "A \<inter> S = {} \<Longrightarrow> S = U \<union> V \<Longrightarrow> B \<subseteq> V \<Longrightarrow> A \<inter> U = {} \<and> A \<inter> B = {}"
  by blast

lemma expansion_accepted:
  assumes "validate_expansion_footprint c t cat = None"
  obtains d where "usable_definition cat (target_building t) = Some d" "cat \<noteq> None"
    "target_cells cat t \<inter> unlocked_ground c cat = {}" "target_cells cat t \<inter> built_over c cat ignore = {}"
    "covered_ground cat (building_values (cl_ground (ca_layout c))) \<noteq> None"
proof -
  let ?ground = "building_values (cl_ground (ca_layout c))" and ?objects = "building_values (cl_objects (ca_layout c))"
  obtain d where d: "usable_definition cat (target_building t) = Some d" "cat \<noteq> None"
    and free: "expansion_conflict cat (building_cells (target_building t) d) (?ground @ ?objects) = None"
    using assms by (auto simp: validate_expansion_footprint_def split: if_splits option.splits)
  have apart: "usable_definition cat b \<noteq> None \<and> target_cells cat t \<inter> standing_cells cat b = {}"
    if "b \<in> set (?ground @ ?objects)" "bl_placed b" for b
    by (rule expansion_conflict_None [OF free that]) (simp add: target_cells_usable [OF d(1)] standing_cells_simps(2) [OF that(2)])
  have "target_cells cat t \<inter> standing_cells cat b = {}" if "b \<in> set (?ground @ ?objects)" for b
    using apart [OF that] standing_cells_simps(1) [of b cat] by (cases "bl_placed b") simp_all
  then have none: "target_cells cat t \<inter> (\<Union>b \<in> set (?ground @ ?objects). standing_cells cat b) = {}"
    unfolding Int_UN_distrib by blast
  have all: "(\<Union>b \<in> set (?ground @ ?objects). standing_cells cat b) =
      unlocked_ground c cat \<union> (\<Union>i \<in> fst ` set (cl_objects (ca_layout c)). stands_on cat (cl_objects (ca_layout c)) i)"
    unfolding set_append UN_Un standing_values unlocked_ground_def by (rule refl)
  have "built_over c cat ignore \<subseteq> (\<Union>i \<in> fst ` set (cl_objects (ca_layout c)). stands_on cat (cl_objects (ca_layout c)) i)"
    unfolding built_over_def object_ids_def by (rule UN_mono) simp_all
  from disjoint_parts [OF none all this]
  have new: "target_cells cat t \<inter> unlocked_ground c cat = {}" "target_cells cat t \<inter> built_over c cat ignore = {}"
    by simp_all
  have "covered_ground cat ?ground \<noteq> None" using apart by (auto simp: covered_ground_None)
  then show ?thesis by (rule that [OF d new])
qed

lemma unlocked_ground_add:
  assumes "i \<notin> fst ` set (cl_ground (ca_layout c))"
  shows "unlocked_ground (add_target_ground i t c) cat = unlocked_ground c cat \<union> target_cells cat t"
proof -
  let ?bs = "cl_ground (ca_layout c)"
  have "stands_on cat ((i, target_building t) # ?bs) j = (if j = i then target_cells cat t else stands_on cat ?bs j)" for j
    by (simp add: stands_on_def target_cells_def)
  with assms show ?thesis by (auto simp: unlocked_ground_def add_target_ground_def split: if_splits)
qed

lemma unlocked_ground_covered:
  "covered_ground cat (building_values (cl_ground (ca_layout c))) = Some cells \<Longrightarrow> set cells = unlocked_ground c cat"
  using covered_ground_Some [of cat "building_values (cl_ground (ca_layout c))" cells]
  unfolding unlocked_ground_def standing_values .

lemma card_building_cells:
  "usable_definition cat b = Some d \<Longrightarrow> int (card (set (building_cells b d))) = bd_width d * bd_height d"
proof (drule usable_definitionD)
  assume d: "0 < bd_width d \<and> 0 < bd_height d"
  have "set (footprint_cells p) = {pl_grid_x p ..< pl_grid_x p + pl_width p} \<times> {pl_grid_y p ..< pl_grid_y p + pl_height p}" for p
    by auto
  then show ?thesis
    using d by (simp add: building_cells_def rotated_dimensions_def at_position_def card_cartesian_product mult.commute del: set_footprint_cells)
qed

text \<open>An accepted expansion is new ground: its cells are neither unlocked nor built on, unlocking it
  adds exactly its area, and afterwards the coverage check no longer reports it as missing.\<close>

theorem accepted_expansion_extends:
  assumes "validate_expansion_footprint c t cat = None" "i \<notin> fst ` set (cl_ground (ca_layout c))"
    and "definition_view cat (tg_definition_id t) = Some d"
  shows "target_cells cat t \<inter> (unlocked_ground c cat \<union> built_over c cat ignore) = {} \<and>
    unlocked_ground (add_target_ground i t c) cat = unlocked_ground c cat \<union> target_cells cat t \<and>
    int (card (unlocked_ground (add_target_ground i t c) cat)) =
      int (card (unlocked_ground c cat)) + bd_width d * bd_height d \<and>
    missing_ground_coverage (add_target_ground i t c) [t] cat = []"
proof -
  let ?c = "add_target_ground i t c"
  obtain d' where u: "usable_definition cat (target_building t) = Some d'" "cat \<noteq> None"
    and new: "target_cells cat t \<inter> unlocked_ground c cat = {}" "target_cells cat t \<inter> built_over c cat ignore = {}"
    and known: "covered_ground cat (building_values (cl_ground (ca_layout c))) \<noteq> None"
    by (rule expansion_accepted [OF assms(1)])
  have d: "d' = d" using u(1) assms(3) by (auto simp: usable_definition_def target_building_def split: if_splits)
  have grown: "unlocked_ground ?c cat = unlocked_ground c cat \<union> target_cells cat t" by (rule unlocked_ground_add [OF assms(2)])
  have fin: "finite (unlocked_ground c cat)" "finite (target_cells cat t)"
    using layout_grid_facts(1) [of c cat 0] target_cells_usable [OF u(1)] by (metis List.finite_set)+
  have "int (card (target_cells cat t)) = bd_width d * bd_height d"
    using card_building_cells [OF u(1)] target_cells_usable [OF u(1)] d by simp
  with fin new(1) have card: "int (card (unlocked_ground ?c cat)) = int (card (unlocked_ground c cat)) + bd_width d * bd_height d"
    by (simp add: grown card_Un_disjoint Int_commute)
  have "covered_ground cat (building_values (cl_ground (ca_layout ?c))) \<noteq> None"
    using known u(1) assms(2) by (auto simp: covered_ground_None building_values_map add_target_ground_def split: if_splits)
  then obtain cells where cells: "covered_ground cat (building_values (cl_ground (ca_layout ?c))) = Some cells" by blast
  have "set (building_cells (target_building t) d) \<subseteq> set cells"
    using unlocked_ground_covered [OF cells] grown target_cells_usable [OF u(1)] d by blast
  then have "missing_ground_coverage ?c [t] cat = []"
    using cells u d by (auto simp: missing_ground_coverage_def list_ex_iff)
  with new grown card show ?thesis by blast
qed

section \<open>A concrete castle\<close>

definition demo_catalog :: catalog where
  "demo_catalog = Some (\<lambda>i. if i = 1 then Some \<lparr>bd_width = 3, bd_height = 3\<rparr>
     else if i = 2 then Some \<lparr>bd_width = 2, bd_height = 1\<rparr> else None)"

definition demo_building :: "int \<Rightarrow> int \<Rightarrow> int \<Rightarrow> int \<Rightarrow> building" where
  "demo_building i definition_id x y = \<lparr>bl_instance_id = i, bl_definition_id = definition_id, bl_grid_x = x, bl_grid_y = y,
     bl_rotation = 0, bl_placed = True\<rparr>"

definition demo_castle :: castle where
  "demo_castle = \<lparr>ca_focused = True, ca_layout = \<lparr>cl_ground = [(10, demo_building 10 1 0 0)],
     cl_objects = [(20, demo_building 20 2 0 0), (21, demo_building 21 2 0 1)], cl_fixed = [], cl_observed_at = 1\<rparr>\<rparr>"

lemmas layout_eval = sorted_building_ids_def usable_definition_def definition_view_def demo_catalog_def demo_building_def
  building_cells_def rotated_dimensions_def at_position_def footprint_cells_def upto.simps

lemma demo_ground_grid: "ground_grid demo_castle demo_catalog =
   \<lparr>lg_ground = [(2, 2), (1, 2), (0, 2), (2, 1), (1, 1), (0, 1), (2, 0), (1, 0), (0, 0)], lg_occupied = [],
    lg_bounds = Some \<lparr>bo_min_x = 0, bo_min_y = 0, bo_max_x = 3, bo_max_y = 3\<rparr>, lg_issues = [], lg_placed = 0, lg_stored = 0\<rparr>"
  by (simp add: ground_grid_def demo_castle_def add_ground_def layout_eval)
    (simp add: add_ground_cell_def empty_grid_def extend_bounds_def)

lemma demo_layout_grid: "build_layout_grid demo_castle demo_catalog 0 =
   (ground_grid demo_castle demo_catalog)\<lparr>lg_occupied := [((0, 0), 20), ((1, 0), 20), ((0, 1), 21), ((1, 1), 21)], lg_placed := 2\<rparr>"
  by (simp add: build_layout_grid_def demo_ground_grid)
    (simp add: demo_castle_def add_object_def occupy_cell_def layout_eval)


theorem find_placement_complete_witness:
  "find_placement demo_castle \<lparr>bd_width = 1, bd_height = 3\<rparr> demo_catalog 0 =
     Some \<lparr>pl_grid_x = 2, pl_grid_y = 0, pl_rotation = 0, pl_width = 1, pl_height = 3\<rparr> \<and>
   validate_placement demo_castle \<lparr>bd_width = 1, bd_height = 3\<rparr>
     \<lparr>pl_grid_x = 2, pl_grid_y = 0, pl_rotation = 0, pl_width = 1, pl_height = 3\<rparr> demo_catalog 0 = []"
proof -
  have "find_placement demo_castle \<lparr>bd_width = 1, bd_height = 3\<rparr> demo_catalog 0 =
      Some \<lparr>pl_grid_x = 2, pl_grid_y = 0, pl_rotation = 0, pl_width = 1, pl_height = 3\<rparr>"
    by (simp add: find_placement_def demo_layout_grid demo_ground_grid candidate_placements_def candidate_rotations_def
        placement_fits_def rotated_dimensions_def footprint_cells_def upto.simps Let_def)
  with find_placement_complete [of "\<lparr>bd_width = 1, bd_height = 3\<rparr>" demo_castle demo_catalog 0] show ?thesis by simp
qed

theorem accepted_expansion_extends_witness:
  "missing_ground_coverage (add_target_ground 11 \<lparr>tg_definition_id = 1, tg_grid_x = 3, tg_grid_y = 0, tg_direction = 0\<rparr> demo_castle)
     [\<lparr>tg_definition_id = 1, tg_grid_x = 3, tg_grid_y = 0, tg_direction = 0\<rparr>] demo_catalog = []"
proof -
  let ?t = "\<lparr>tg_definition_id = 1, tg_grid_x = 3, tg_grid_y = 0, tg_direction = 0\<rparr>"
  have "validate_expansion_footprint demo_castle ?t demo_catalog = None"
    by (simp add: validate_expansion_footprint_def target_building_def demo_castle_def building_values_def time_is_zero_def layout_eval)
  moreover have "11 \<notin> fst ` set (cl_ground (ca_layout demo_castle))" by (simp add: demo_castle_def)
  moreover have "definition_view demo_catalog (tg_definition_id ?t) = Some \<lparr>bd_width = 3, bd_height = 3\<rparr>"
    by (simp add: definition_view_def demo_catalog_def)
  ultimately show ?thesis using accepted_expansion_extends by blast
qed

end
