(* ===== verification/TargetRejections.thy ===== *)
theory TargetRejections
  imports WaitOrder LaneSafety
begin

text \<open>
  Deferral of attack targets the game has refused:
  \<^verbatim>\<open>src/Server/State/AttackTargetRejections.go\<close>. The registry is the list
  \<open>AttackAnalytics.RejectedTargets\<close> of the game state; \<open>nil\<close> and the empty list are one.
\<close>

section \<open>Records\<close>

abbreviation (input) attack_target_rejection_base :: duration where "attack_target_rejection_base \<equiv> hour"
abbreviation (input) attack_target_rejection_cap :: duration where "attack_target_rejection_cap \<equiv> 24 * hour"
abbreviation (input) attack_target_rejection_personal_base :: duration where "attack_target_rejection_personal_base \<equiv> 6 * hour"
abbreviation (input) attack_target_rejection_personal_cap :: duration where "attack_target_rejection_personal_cap \<equiv> 120 * hour"
abbreviation (input) attack_target_rejection_limit :: nat where "attack_target_rejection_limit \<equiv> 256"

record rejection =
  rj_kingdom_id :: int
  rj_target_type_id :: int
  rj_x :: int
  rj_y :: int
  rj_opcode :: string
  rj_code :: int
  rj_operation_id :: string
  rj_observed_at :: gotime
  rj_until :: gotime
  rj_count :: nat
  rj_personal :: bool

definition rejection_key :: "rejection \<Rightarrow> string" where
  "rejection_key r = show_int (rj_kingdom_id r) @ '':'' @ show_int (rj_target_type_id r) @ '':'' @ show_int (rj_x r) @ '':'' @ show_int (rj_y r)"

definition rejection_detail :: "rejection \<Rightarrow> string" where
  "rejection_detail r = ''Deferred: target '' @ show_int (rj_x r) @ '':'' @ show_int (rj_y r) @ '' rejected by '' @
     map to_upper_char (rj_opcode r) @ '' '' @ show_int (rj_code r) @ '' until '' @ format_rfc3339 (rj_until r)"

definition retained_until :: "rejection \<Rightarrow> gotime" where
  "retained_until r = rj_until r + (if rj_personal r then attack_target_rejection_personal_cap else attack_target_rejection_cap)"

definition rejection_matches :: "rejection \<Rightarrow> int \<Rightarrow> int \<Rightarrow> int \<Rightarrow> int \<Rightarrow> bool" where
  "rejection_matches r kingdom type_id x y \<longleftrightarrow>
     rj_kingdom_id r = kingdom \<and> rj_x r = x \<and> rj_y r = y \<and>
     (type_id \<le> 0 \<or> rj_target_type_id r \<le> 0 \<or> rj_target_type_id r = type_id)"

section \<open>Operations\<close>

definition attack_target_rejected_at :: "rejection list \<Rightarrow> int \<Rightarrow> int \<Rightarrow> int \<Rightarrow> int \<Rightarrow> gotime \<Rightarrow> rejection option" where
  "attack_target_rejected_at rs kingdom type_id x y now =
     List.find (\<lambda>r. rejection_matches r kingdom type_id x y \<and> now < rj_until r) rs"

text \<open>The loop over the registry: \<open>Inl\<close> is the early return for an operation recorded before,
  \<open>Inr\<close> the rejection and the list built so far.\<close>

fun merge_rejections :: "gotime \<Rightarrow> rejection \<Rightarrow> rejection list \<Rightarrow> rejection list \<Rightarrow> rejection + rejection \<times> rejection list" where
  "merge_rejections now r [] acc = Inr (r, acc)"
| "merge_rejections now r (e # es) acc =
     (if rejection_matches e (rj_kingdom_id r) (rj_target_type_id r) (rj_x r) (rj_y r) then
        (if rj_operation_id r \<noteq> [] \<and> rj_operation_id e = rj_operation_id r then Inl e
         else if \<not> now < retained_until e then merge_rejections now r es acc
         else merge_rejections now
                (r\<lparr>rj_count := rj_count e + 1, rj_personal := (rj_personal r \<or> rj_personal e),
                   rj_target_type_id := (if rj_target_type_id r \<le> 0 then rj_target_type_id e else rj_target_type_id r)\<rparr>) es acc)
      else merge_rejections now r es (if now < retained_until e then acc @ [e] else acc))"

text \<open>\<open>for step := 1; step < count && deferral < maximum; step++ { deferral *= 2 }\<close>; the first
  argument is the number of iterations the count still allows.\<close>

fun double_deferral :: "nat \<Rightarrow> duration \<Rightarrow> duration \<Rightarrow> duration" where
  "double_deferral 0 maximum deferral = deferral"
| "double_deferral (Suc n) maximum deferral =
     (if deferral < maximum then double_deferral n maximum (2 * deferral) else deferral)"

definition rejection_deferral :: "rejection \<Rightarrow> duration" where
  "rejection_deferral r =
     (let (base, maximum) = (if rj_personal r then (attack_target_rejection_personal_base, attack_target_rejection_personal_cap)
                             else (attack_target_rejection_base, attack_target_rejection_cap))
      in min (double_deferral (rj_count r - 1) maximum base) maximum)"

definition bound_registry :: "rejection list \<Rightarrow> rejection list" where
  "bound_registry rs =
     (if attack_target_rejection_limit < length rs
      then let sorted = stable_sort (\<lambda>a b. rj_observed_at a < rj_observed_at b) rs
           in drop (length sorted - attack_target_rejection_limit) sorted
      else rs)"

definition record_rejection :: "rejection \<Rightarrow> rejection list \<Rightarrow> (rejection option \<times> bool) \<times> rejection list" where
  "record_rejection r rs =
     (if time_is_zero (rj_observed_at r) \<or> rj_x r < 0 \<or> rj_y r < 0 then ((None, False), rs)
      else case merge_rejections (rj_observed_at r) (r\<lparr>rj_opcode := norm_str (rj_opcode r), rj_count := 1\<rparr>) rs [] of
        Inl existing \<Rightarrow> ((Some existing, False), rs)
      | Inr (r, next) \<Rightarrow>
          let r = r\<lparr>rj_until := rj_observed_at r + rejection_deferral r\<rparr>
          in ((Some r, True), bound_registry (next @ [r])))"

definition clear_rejection :: "int \<Rightarrow> int \<Rightarrow> int \<Rightarrow> int \<Rightarrow> rejection list \<Rightarrow> bool \<times> rejection list" where
  "clear_rejection kingdom type_id x y rs =
     (let next = filter (\<lambda>e. \<not> rejection_matches e kingdom type_id x y) rs
      in if length next = length rs then (False, rs) else (True, next))"

section \<open>The deferral\<close>

lemma double_deferral_closed:
  "0 < deferral \<Longrightarrow> min (double_deferral n maximum deferral) maximum = min (deferral * 2 ^ n) maximum"
proof (induction n arbitrary: deferral)
  case (Suc n)
  have "(1 :: int) \<le> 2 ^ Suc n" by (rule one_le_power) simp
  then have "deferral \<le> deferral * 2 ^ Suc n"
    using Suc.prems by (simp add: mult_le_cancel_left1 del: power_Suc)
  show ?case
  proof (cases "deferral < maximum")
    case True
    then show ?thesis using Suc.IH [of "2 * deferral"] Suc.prems by (simp add: mult.assoc mult.left_commute)
  next
    case False
    then show ?thesis using \<open>deferral \<le> deferral * 2 ^ Suc n\<close> by (simp add: min_absorb2 del: power_Suc)
  qed
qed simp

lemma rejection_deferral_closed:
  "rejection_deferral r = (if rj_personal r then min (6 * hour * 2 ^ (rj_count r - 1)) (120 * hour)
     else min (hour * 2 ^ (rj_count r - 1)) (24 * hour))"
  by (simp add: rejection_deferral_def double_deferral_closed)

lemma rejection_deferral_bounds: "hour \<le> rejection_deferral r" "rejection_deferral r \<le> 120 * hour"
proof -
  have "(1 :: int) \<le> 2 ^ (rj_count r - 1)" by (rule one_le_power) simp
  then have "(1 :: int) \<le> 6 * 2 ^ (rj_count r - 1)" by linarith
  then show "hour \<le> rejection_deferral r" by (simp add: rejection_deferral_closed)
  show "rejection_deferral r \<le> 120 * hour" by (simp add: rejection_deferral_closed min_le_iff_disj)
qed

section \<open>Merging\<close>

definition same_target :: "rejection \<Rightarrow> rejection \<Rightarrow> bool" where
  "same_target a b \<longleftrightarrow> rejection_matches a (rj_kingdom_id b) (rj_target_type_id b) (rj_x b) (rj_y b)"

lemma same_target_sym: "same_target a b \<longleftrightarrow> same_target b a"
  by (auto simp: same_target_def rejection_matches_def)

text \<open>What the merge makes of a rejection: the target, the type adopted, count and kind.\<close>

lemma merge_rejections_place:
  "merge_rejections now r es acc = Inr (r', next) \<Longrightarrow>
    rj_kingdom_id r' = rj_kingdom_id r \<and> rj_x r' = rj_x r \<and> rj_y r' = rj_y r \<and> rj_operation_id r' = rj_operation_id r \<and>
    rj_observed_at r' = rj_observed_at r \<and> (0 < rj_target_type_id r \<longrightarrow> rj_target_type_id r' = rj_target_type_id r)"
  by (induction now r es acc rule: merge_rejections.induct) (auto split: if_splits)

lemma merge_rejections_count: "merge_rejections now r es acc = Inr (r', next) \<Longrightarrow> 0 < rj_count r \<Longrightarrow> 0 < rj_count r'"
  by (induction now r es acc rule: merge_rejections.induct) (auto split: if_splits)

lemma merge_rejections_subset:
  "merge_rejections now r es acc = Inr (r', next) \<Longrightarrow> set next \<subseteq> set acc \<union> {e \<in> set es. now < retained_until e}"
  by (induction now r es acc rule: merge_rejections.induct) (auto split: if_splits)

lemma merge_rejections_wrt:
  "merge_rejections now r es acc = Inr (r', next) \<Longrightarrow> sorted_wrt P (acc @ es) \<Longrightarrow> sorted_wrt P next"
  by (induction now r es acc rule: merge_rejections.induct)
    (auto simp: sorted_wrt_append split: if_splits)

text \<open>If the records are of different targets, none of those kept is of the rejection's target.\<close>

lemma merge_rejections_apart:
  assumes "merge_rejections now r es acc = Inr (r', next)"
    and "sorted_wrt (\<lambda>a b. \<not> same_target a b) es" "\<forall>a \<in> set acc. \<not> same_target a r"
    and "\<forall>a \<in> set acc. \<forall>e \<in> set es. \<not> same_target a e"
  shows "\<forall>a \<in> set next. \<not> same_target a r'"
  using assms
proof (induction now r es acc rule: merge_rejections.induct)
  case (2 now r e es acc)
  show ?case
  proof (cases "same_target e r")
    case False
    with 2 show ?thesis by (auto simp: same_target_def split: if_splits)
  next
    case True
    let ?r = "r\<lparr>rj_count := rj_count e + 1, rj_personal := (rj_personal r \<or> rj_personal e),
        rj_target_type_id := (if rj_target_type_id r \<le> 0 then rj_target_type_id e else rj_target_type_id r)\<rparr>"
    have "\<forall>a \<in> set acc. \<not> same_target a ?r"
      using 2(6,7) True by (auto simp: same_target_def rejection_matches_def)
    with 2 True show ?thesis by (auto simp: same_target_def split: if_splits)
  qed
qed simp

section \<open>The registry\<close>

lemma same_target_refl [simp]: "same_target a a"
  by (simp add: same_target_def rejection_matches_def)

lemma targets_apart_iff:
  "sorted_wrt (\<lambda>a b. \<not> same_target a b) rs \<longleftrightarrow> distinct rs \<and> pairwise (\<lambda>a b. \<not> same_target a b) (set rs)"
proof (induction rs)
  case (Cons r rs)
  have "(\<forall>e \<in> set rs. \<not> same_target r e) \<Longrightarrow> r \<notin> set rs" by auto
  with Cons show ?case by (auto simp: pairwise_insert same_target_sym)
qed simp

definition registry_ok :: "rejection list \<Rightarrow> bool" where
  "registry_ok rs \<longleftrightarrow> sorted_wrt (\<lambda>a b. \<not> same_target a b) rs \<and> length rs \<le> attack_target_rejection_limit \<and>
     (\<forall>e \<in> set rs. 0 < rj_count e \<and> rj_until e = rj_observed_at e + rejection_deferral e)"

inductive registry_reachable :: "rejection list \<Rightarrow> bool" where
  empty: "registry_reachable []"
| rejected: "registry_reachable rs \<Longrightarrow> record_rejection r rs = (res, rs') \<Longrightarrow> registry_reachable rs'"
| cleared: "registry_reachable rs \<Longrightarrow> clear_rejection kingdom type_id x y rs = (res', rs') \<Longrightarrow> registry_reachable rs'"

lemma bound_registry_facts:
  "set (bound_registry rs) \<subseteq> set rs" "length (bound_registry rs) \<le> 256" "distinct rs \<Longrightarrow> distinct (bound_registry rs)"
proof -
  let ?sorted = "stable_sort (\<lambda>a b. rj_observed_at a < rj_observed_at b) rs"
  have sub: "set (drop n ?sorted) \<subseteq> set rs" for n using set_drop_subset [of n ?sorted] by simp
  have "distinct ?sorted" if "distinct rs"
    using that by (simp add: distinct_map_stable_sort [where f = id, simplified])
  then have "distinct (drop n ?sorted)" if "distinct rs" for n using that by (simp add: distinct_drop)
  with sub show "set (bound_registry rs) \<subseteq> set rs" "distinct rs \<Longrightarrow> distinct (bound_registry rs)"
    by (simp_all add: bound_registry_def Let_def)
  show "length (bound_registry rs) \<le> 256" by (simp add: bound_registry_def Let_def)
qed

lemma rejection_until_simps [simp]:
  "rejection_deferral (r\<lparr>rj_until := t\<rparr>) = rejection_deferral r" "same_target (r\<lparr>rj_until := t\<rparr>) b = same_target r b"
  "same_target b (r\<lparr>rj_until := t\<rparr>) = same_target b r"
  by (simp_all add: rejection_deferral_def same_target_def rejection_matches_def)

lemma registry_ok_record:
  assumes "registry_ok rs" "record_rejection r rs = (res, rs')"
  shows "registry_ok rs'"
proof (cases "rs' = rs")
  case False
  then obtain r1 kept where m: "merge_rejections (rj_observed_at r) (r\<lparr>rj_opcode := norm_str (rj_opcode r), rj_count := 1\<rparr>) rs [] = Inr (r1, kept)"
    and rs': "rs' = bound_registry (kept @ [r1\<lparr>rj_until := rj_observed_at r1 + rejection_deferral r1\<rparr>])"
    using assms(2) by (auto simp: record_rejection_def Let_def split: if_splits sum.splits)
  let ?r = "r1\<lparr>rj_until := rj_observed_at r1 + rejection_deferral r1\<rparr>"
  have "sorted_wrt (\<lambda>a b. \<not> same_target a b) kept" "\<forall>a \<in> set kept. \<not> same_target a r1" "set kept \<subseteq> set rs" "0 < rj_count r1"
    using merge_rejections_wrt [OF m] merge_rejections_apart [OF m] merge_rejections_subset [OF m] merge_rejections_count [OF m] assms(1)
    by (auto simp: registry_ok_def)
  then have "sorted_wrt (\<lambda>a b. \<not> same_target a b) (kept @ [?r])"
    "\<forall>e \<in> set (kept @ [?r]). 0 < rj_count e \<and> rj_until e = rj_observed_at e + rejection_deferral e"
    using assms(1) by (auto simp: sorted_wrt_append registry_ok_def)
  moreover note bound_registry_facts [of "kept @ [?r]"]
  ultimately have "distinct rs'" "pairwise (\<lambda>a b. \<not> same_target a b) (set rs')" "length rs' \<le> 256"
      "\<forall>e \<in> set rs'. 0 < rj_count e \<and> rj_until e = rj_observed_at e + rejection_deferral e"
    unfolding rs' targets_apart_iff by (blast intro: pairwise_subset)+
  then show ?thesis unfolding registry_ok_def targets_apart_iff by blast
qed (use assms in simp)

lemma registry_ok_clear: "registry_ok rs \<Longrightarrow> clear_rejection kingdom type_id x y rs = (res, rs') \<Longrightarrow> registry_ok rs'"
  by (auto simp: registry_ok_def clear_rejection_def Let_def sorted_wrt_filter intro: le_trans [OF length_filter_le] split: if_splits)

lemma registry_reachable_ok: "registry_reachable rs \<Longrightarrow> registry_ok rs"
proof (induction rule: registry_reachable.induct)
  case empty show ?case by (simp add: registry_ok_def)
qed (blast intro: registry_ok_record registry_ok_clear)+

section \<open>Properties\<close>


text \<open>The newest record of a full registry is not the one that is dropped.\<close>

lemma stable_sort_last: "\<forall>x \<in> set xs. \<not> lt r x \<Longrightarrow> \<exists>ys. stable_sort lt (xs @ [r]) = ys @ [r]"
proof (induction xs)
  case (Cons x xs)
  then obtain ys where "stable_sort lt (xs @ [r]) = ys @ [r]" by auto
  moreover have "\<exists>zs. insert_stable lt x (ys @ [r]) = zs @ [r]" if "\<not> lt r x" for ys
    using that by (induction ys) auto
  ultimately show ?case using Cons.prems by (simp add: stable_sort_def)
qed (simp add: stable_sort_def)

lemma bound_registry_keeps:
  assumes "\<forall>e \<in> set rs. rj_observed_at e \<le> rj_observed_at r"
  shows "r \<in> set (bound_registry (rs @ [r]))"
proof -
  let ?lt = "\<lambda>a b. rj_observed_at a < rj_observed_at b"
  have "\<forall>e \<in> set rs. \<not> ?lt r e" using assms by (simp add: not_less)
  from stable_sort_last [where lt = ?lt, OF this] obtain ys where "stable_sort ?lt (rs @ [r]) = ys @ [r]" by blast
  then show ?thesis by (simp add: bound_registry_def)
qed

lemma merge_rejections_known:
  assumes "sorted_wrt (\<lambda>a b. \<not> same_target a b) es" "k \<in> set es" "same_target k r" "0 < rj_target_type_id k" "0 < rj_target_type_id r"
    and "rj_operation_id r \<noteq> []" "rj_operation_id k = rj_operation_id r"
  shows "merge_rejections now r es acc = Inl k"
  using assms(1,2)
proof (induction es arbitrary: acc)
  case (Cons e es)
  have apart: "\<not> same_target e r" if "e \<noteq> k"
  proof
    assume "same_target e r"
    then have "same_target e k" using assms(3-5) by (auto simp: same_target_def rejection_matches_def)
    with that Cons.prems show False by (auto simp: same_target_sym)
  qed
  show ?case
  proof (cases "e = k")
    case True
    then show ?thesis using assms by (simp add: same_target_def)
  next
    case False
    then show ?thesis using Cons apart by (auto simp: same_target_def)
  qed
qed simp

text \<open>A recorded rejection defers its target: if it is not older than the other records, the target
  is refused exactly until the deferral ends, and reporting the same operation again changes nothing.\<close>

theorem rejection_defers_target:
  assumes "registry_reachable rs" "record_rejection r rs = ((Some r', True), rs')" "0 < rj_target_type_id r"
    and "\<forall>e \<in> set rs. rj_observed_at e \<le> rj_observed_at r"
  shows "(attack_target_rejected_at rs' (rj_kingdom_id r) (rj_target_type_id r) (rj_x r) (rj_y r) now \<noteq> None \<longleftrightarrow> now < rj_until r') \<and>
    hour \<le> rj_until r' - rj_observed_at r \<and> rj_until r' - rj_observed_at r \<le> 120 * hour \<and>
    (rj_operation_id r \<noteq> [] \<longrightarrow> record_rejection r rs' = ((Some r', False), rs'))"
proof -
  let ?r = "r\<lparr>rj_opcode := norm_str (rj_opcode r), rj_count := 1\<rparr>"
  obtain r1 kept where ok: "\<not> (time_is_zero (rj_observed_at r) \<or> rj_x r < 0 \<or> rj_y r < 0)"
    and m: "merge_rejections (rj_observed_at r) ?r rs [] = Inr (r1, kept)"
    and r': "r' = r1\<lparr>rj_until := rj_observed_at r1 + rejection_deferral r1\<rparr>" and rs': "rs' = bound_registry (kept @ [r'])"
    using assms(2) by (auto simp: record_rejection_def Let_def split: if_splits sum.splits)
  have place: "rj_kingdom_id r' = rj_kingdom_id r" "rj_x r' = rj_x r" "rj_y r' = rj_y r" "rj_operation_id r' = rj_operation_id r"
      "rj_target_type_id r' = rj_target_type_id r" "rj_observed_at r' = rj_observed_at r"
    using merge_rejections_place [OF m] assms(3) by (simp_all add: r')
  have "registry_reachable rs'" by (rule registry_reachable.rejected [OF assms(1,2)])
  then have wf: "sorted_wrt (\<lambda>a b. \<not> same_target a b) rs'" using registry_reachable_ok by (simp add: registry_ok_def)
  have "set kept \<subseteq> set rs" using merge_rejections_subset [OF m] by auto
  then have mem: "r' \<in> set rs'"
    unfolding rs' using assms(4) place(6) by (intro bound_registry_keeps) auto
  have same: "same_target e r' \<longleftrightarrow> rejection_matches e (rj_kingdom_id r) (rj_target_type_id r) (rj_x r) (rj_y r)" for e
    by (simp add: same_target_def place)
  have only: "e = r'" if "e \<in> set rs'" "same_target e r'" for e
    using wf that mem by (auto simp: targets_apart_iff pairwise_def)
  have "attack_target_rejected_at rs' (rj_kingdom_id r) (rj_target_type_id r) (rj_x r) (rj_y r) now \<noteq> None \<longleftrightarrow> now < rj_until r'"
    using mem only same_target_refl [of r'] unfolding attack_target_rejected_at_def same [symmetric]
    unfolding find_None_iff by blast
  moreover have "record_rejection r rs' = ((Some r', False), rs')" if "rj_operation_id r \<noteq> []"
    using merge_rejections_known [OF wf mem, of ?r "rj_observed_at r" "[]"] that place assms(3) ok
    by (simp add: record_rejection_def same_target_def rejection_matches_def)
  moreover have "rj_until r' - rj_observed_at r = rejection_deferral r1"
    using place(6) by (simp add: r')
  ultimately show ?thesis using rejection_deferral_bounds [of r1] by metis
qed

section \<open>A concrete registry\<close>

definition demo_rejected :: "int \<Rightarrow> string \<Rightarrow> gotime \<Rightarrow> rejection" where
  "demo_rejected type_id operation_id at = \<lparr>rj_kingdom_id = 2, rj_target_type_id = type_id, rj_x = 7, rj_y = 9, rj_opcode = ''cra'',
     rj_code = 95, rj_operation_id = operation_id, rj_observed_at = at, rj_until = 0, rj_count = 0, rj_personal = False\<rparr>"

lemma demo_first_rejection:
  "record_rejection (demo_rejected 11 ''op'' second) [] =
     ((Some ((demo_rejected 11 ''op'' second)\<lparr>rj_count := 1, rj_until := second + hour\<rparr>), True),
      [(demo_rejected 11 ''op'' second)\<lparr>rj_count := 1, rj_until := second + hour\<rparr>])"
  by (simp add: record_rejection_def demo_rejected_def time_is_zero_def rejection_deferral_def bound_registry_def Let_def)
    code_simp

lemma demo_registry_reachable: "registry_reachable [(demo_rejected 11 ''op'' second)\<lparr>rj_count := 1, rj_until := second + hour\<rparr>]"
  using registry_reachable.rejected [OF registry_reachable.empty demo_first_rejection] .


theorem rejection_defers_target_witness:
  "attack_target_rejected_at [(demo_rejected 11 ''op'' second)\<lparr>rj_count := 1, rj_until := second + hour\<rparr>] 2 11 7 9 (second + minute) \<noteq> None \<and>
   attack_target_rejected_at [(demo_rejected 11 ''op'' second)\<lparr>rj_count := 1, rj_until := second + hour\<rparr>] 2 11 7 9 (second + hour) = None"
  using rejection_defers_target [OF registry_reachable.empty demo_first_rejection, of "second + minute"]
    rejection_defers_target [OF registry_reachable.empty demo_first_rejection, of "second + hour"]
  by (simp add: demo_rejected_def)

end
