(* ===== verification/Scheduler.thy ===== *)
theory Scheduler
  imports LegacyClaims OperationStore "HOL-Library.AList"
begin

text \<open>
  The scheduler of operations: \<^verbatim>\<open>src/Server/Scheduling/Scheduler.go\<close>.

  The state is the part of the game state the scheduler uses (the scheduled operations and the
  bound account), its own map of running executions, the goroutines of \<open>execute\<close>, and the control
  state of \<open>Run\<close>: waiting, or somewhere in the loop of \<open>dispatchDue\<close>. Every critical section (one
  call of \<open>ApplyComponents\<close>, one section under the mutex) is one function; the step relation
  interleaves them in any order. Of the events of the state store only the number of relevant
  ones not yet received is kept. The store may refuse a mutation (\<open>apply_err\<close>). The SHA-256 digest
  and \<open>json.Valid\<close> are arguments.
\<close>

section \<open>Data\<close>

datatype schedule_status = Sched_scheduled | Sched_running | Sched_cancelled | Sched_succeeded | Sched_reconciliation | Sched_failed

record scheduled_operation =
  sd_id :: string
  sd_version :: nat
  sd_intent :: string
  sd_actor :: string
  sd_arguments :: string
  sd_execute_at :: gotime
  sd_world_id :: string
  sd_player_id :: int
  sd_created_at :: gotime
  sd_updated_at :: gotime
  sd_status :: schedule_status
  sd_last_operation_id :: string
  sd_last_error :: string

record schedule_request =
  sq_id :: string
  sq_intent :: string
  sq_actor :: string
  sq_arguments :: string
  sq_execute_at :: gotime

record running_execution =
  re_version :: nat
  re_operation_id :: string

text \<open>Where the goroutine of \<open>Run\<close> is. \<open>Scanning now account ops next\<close>: in the loop over the
  snapshot, with \<open>nextDue\<close> so far; \<open>Claiming\<close>: the execution of an operation has been entered into
  the map, its claim not yet written.\<close>

datatype dispatch_phase = Waiting
  | Scanning gotime account_view "scheduled_operation list" gotime
  | Claiming gotime account_view scheduled_operation string "scheduled_operation list" gotime

record sched_state =
  sc_scheduled :: "(string \<times> scheduled_operation) list"
  sc_account :: account_view
  sc_running :: "(string \<times> running_execution) list"
  sc_executing :: "(scheduled_operation \<times> bool) list"
  sc_cancelled :: "(string \<times> nat \<times> string) list"
  sc_submitted :: "(string \<times> nat \<times> string) list"
  sc_events :: nat
  sc_timer :: gotime
  sc_phase :: dispatch_phase
  sc_started :: bool

definition new_scheduler :: "account_view \<Rightarrow> sched_state" where
  "new_scheduler a = \<lparr>sc_scheduled = [], sc_account = a, sc_running = [], sc_executing = [], sc_cancelled = [], sc_submitted = [],
     sc_events = 0, sc_timer = time_zero, sc_phase = Waiting, sc_started = False\<rparr>"

definition schedule_live :: "scheduled_operation \<Rightarrow> bool" where
  "schedule_live current \<longleftrightarrow> sd_status current = Sched_scheduled \<or> sd_status current = Sched_running"

definition equal_fold :: "string \<Rightarrow> string \<Rightarrow> bool" where
  "equal_fold a b \<longleftrightarrow> to_lower a = to_lower b"

section \<open>Scheduling and cancelling\<close>

definition check_request :: "(string \<Rightarrow> bool) \<Rightarrow> schedule_request \<Rightarrow> string + schedule_request" where
  "check_request json_valid request =
     (let request = request\<lparr>sq_id := trim_space (sq_id request), sq_intent := trim_space (sq_intent request)\<rparr>
      in if sq_id request = [] \<or> sq_intent request = [] \<or> time_is_zero (sq_execute_at request)
         then Inl ''scheduled operation id, intent, and executeAt are required''
         else let request = request\<lparr>sq_actor := ''scheduler:'' @ sq_intent request,
                    sq_arguments := (if sq_arguments request = [] then ''{}'' else sq_arguments request)\<rparr>
              in if \<not> json_valid (sq_arguments request) then Inl ''scheduled operation arguments are not valid JSON''
                 else Inr request)"

text \<open>The mutation of \<open>Schedule\<close>: the operation to store, \<open>None\<close> when nothing changes.\<close>

definition schedule_change :: "gotime \<Rightarrow> account_view \<Rightarrow> schedule_request \<Rightarrow> scheduled_operation option \<Rightarrow> scheduled_operation option" where
  "schedule_change now account request current =
     (let (world_id, player_id) = bound_account account in
      if (case current of None \<Rightarrow> False | Some c \<Rightarrow>
            schedule_live c \<and> sd_intent c = sq_intent request \<and> sd_execute_at c = sq_execute_at request \<and>
            sd_arguments c = sq_arguments request \<and> equal_fold (trim_space (sd_world_id c)) world_id \<and> sd_player_id c = player_id)
      then None
      else Some \<lparr>sd_id = sq_id request, sd_version = (case current of None \<Rightarrow> 1 | Some c \<Rightarrow> sd_version c + 1),
        sd_intent = sq_intent request, sd_actor = sq_actor request, sd_arguments = sq_arguments request,
        sd_execute_at = sq_execute_at request, sd_world_id = world_id, sd_player_id = player_id,
        sd_created_at = (case current of None \<Rightarrow> now | Some c \<Rightarrow> if time_is_zero (sd_created_at c) then now else sd_created_at c),
        sd_updated_at = now, sd_status = Sched_scheduled, sd_last_operation_id = [], sd_last_error = []\<rparr>)"

text \<open>\<open>Schedule\<close> up to the end of its mutation; the second component is the execution it goes on to
  cancel.\<close>

definition schedule_operation :: "(string \<Rightarrow> bool) \<Rightarrow> gotime \<Rightarrow> string option \<Rightarrow> schedule_request \<Rightarrow> sched_state \<Rightarrow>
    string option \<times> (string \<times> nat) option \<times> sched_state" where
  "schedule_operation json_valid now apply_err request s =
     (case check_request json_valid request of Inl e \<Rightarrow> (Some e, None, s)
      | Inr request \<Rightarrow>
          case apply_err of Some e \<Rightarrow> (Some e, None, s)
          | None \<Rightarrow>
              let current = map_of (sc_scheduled s) (sq_id request) in
              case schedule_change now (sc_account s) request current of None \<Rightarrow> (None, None, s)
              | Some op \<Rightarrow> (None, map_option (\<lambda>c. (sq_id request, sd_version c)) current,
                  s\<lparr>sc_scheduled := AList.update (sq_id request) op (sc_scheduled s), sc_events := Suc (sc_events s)\<rparr>))"

definition cancel_scheduled :: "gotime \<Rightarrow> string option \<Rightarrow> string \<Rightarrow> sched_state \<Rightarrow> string option \<times> (string \<times> nat) option \<times> sched_state" where
  "cancel_scheduled now apply_err i s =
     (let i = trim_space i in
      if i = [] then (Some ''scheduled operation id is required'', None, s)
      else case apply_err of Some e \<Rightarrow> (Some e, None, s)
      | None \<Rightarrow>
          case map_of (sc_scheduled s) i of None \<Rightarrow> (None, None, s)
          | Some c \<Rightarrow>
              if \<not> schedule_live c then (None, None, s)
              else (None, Some (i, sd_version c),
                s\<lparr>sc_scheduled := AList.update i (c\<lparr>sd_status := Sched_cancelled, sd_last_error := [], sd_updated_at := now\<rparr>) (sc_scheduled s),
                  sc_events := Suc (sc_events s)\<rparr>))"

definition cancel_running :: "string \<Rightarrow> nat \<Rightarrow> sched_state \<Rightarrow> sched_state" where
  "cancel_running i version s =
     (case map_of (sc_running s) i of None \<Rightarrow> s
      | Some running \<Rightarrow> if re_version running \<noteq> version then s
          else s\<lparr>sc_cancelled := sc_cancelled s @ [(i, version, re_operation_id running)]\<rparr>)"

definition clear_running :: "string \<Rightarrow> nat \<Rightarrow> sched_state \<Rightarrow> sched_state" where
  "clear_running i version s =
     (case map_of (sc_running s) i of None \<Rightarrow> s
      | Some running \<Rightarrow> if re_version running = version then s\<lparr>sc_running := AList.delete i (sc_running s)\<rparr> else s)"

section \<open>Dispatching\<close>

definition scheduled_operation_matches_account :: "account_view \<Rightarrow> scheduled_operation \<Rightarrow> bool" where
  "scheduled_operation_matches_account account op =
     (let (world_id, player_id) = bound_account account;
          operation_world_id = trim_space (sd_world_id op)
      in if 0 < sd_player_id op \<and> sd_player_id op \<noteq> player_id then False
         else operation_world_id = [] \<or> equal_fold operation_world_id world_id)"

definition scheduled_intent_operation_id :: "(string \<Rightarrow> string) \<Rightarrow> account_view \<Rightarrow> scheduled_operation \<Rightarrow> string" where
  "scheduled_intent_operation_id digest account op =
     (if sd_last_operation_id op \<noteq> [] then sd_last_operation_id op
      else let world_id = norm_str (sd_world_id op);
               world_id = (if world_id = [] then norm_str (fst (bound_account account)) else world_id);
               player_id = (if sd_player_id op = 0 then snd (bound_account account) else sd_player_id op);
               scope = world_id @ [CHR 0x00] @ show_int player_id @ [CHR 0x00] @ sd_id op
           in ''schedule:'' @ digest scope @ '':v'' @ show_nat (sd_version op))"

text \<open>\<open>dispatchDue\<close> up to the beginning of its loop: the snapshot in the order of the ids.\<close>

definition begin_scan :: "gotime \<Rightarrow> sched_state \<Rightarrow> sched_state" where
  "begin_scan now s =
     s\<lparr>sc_phase := Scanning now (sc_account s)
         (map (\<lambda>i. the (map_of (sc_scheduled s) i)) (sort (remdups (map fst (sc_scheduled s))))) time_zero\<rparr>"

text \<open>What makes \<open>Run\<close> dispatch: its start, a relevant event, the timer.\<close>

definition run_start :: "gotime \<Rightarrow> sched_state \<Rightarrow> sched_state" where
  "run_start now s = (if sc_started s then s else begin_scan now (s\<lparr>sc_started := True\<rparr>))"

definition receive_event :: "gotime \<Rightarrow> sched_state \<Rightarrow> sched_state" where
  "receive_event now s =
     (if sc_started s \<and> sc_phase s = Waiting \<and> 0 < sc_events s then begin_scan now (s\<lparr>sc_events := sc_events s - 1\<rparr>) else s)"

definition timer_fires :: "gotime \<Rightarrow> sched_state \<Rightarrow> sched_state" where
  "timer_fires now s =
     (if sc_started s \<and> sc_phase s = Waiting \<and> \<not> time_is_zero (sc_timer s) \<and> sc_timer s \<le> now
      then begin_scan now (s\<lparr>sc_timer := time_zero\<rparr>) else s)"

text \<open>One iteration of the loop up to the claim; at the end of the list, \<open>scheduleNext\<close>.\<close>

definition scan_next :: "(string \<Rightarrow> string) \<Rightarrow> sched_state \<Rightarrow> sched_state" where
  "scan_next digest s =
     (case sc_phase s of
        Scanning now account [] next \<Rightarrow> s\<lparr>sc_phase := Waiting, sc_timer := next\<rparr>
      | Scanning now account (op # ops) next \<Rightarrow>
          (if \<not> schedule_live op \<or> \<not> scheduled_operation_matches_account account op then s\<lparr>sc_phase := Scanning now account ops next\<rparr>
           else if now < sd_execute_at op
           then s\<lparr>sc_phase := Scanning now account ops (if time_is_zero next \<or> sd_execute_at op < next then sd_execute_at op else next)\<rparr>
           else let operation_id = scheduled_intent_operation_id digest account op in
             if map_of (sc_running s) (sd_id op) \<noteq> None then s\<lparr>sc_phase := Scanning now account ops next\<rparr>
             else s\<lparr>sc_running := AList.update (sd_id op) \<lparr>re_version = sd_version op, re_operation_id = operation_id\<rparr> (sc_running s),
                    sc_phase := Claiming now account op operation_id ops next\<rparr>)
      | _ \<Rightarrow> s)"

definition claim_mutation :: "gotime \<Rightarrow> gotime \<Rightarrow> account_view \<Rightarrow> string \<Rightarrow> scheduled_operation \<Rightarrow> scheduled_operation option \<Rightarrow>
    scheduled_operation option" where
  "claim_mutation now clock account operation_id op current =
     (case current of None \<Rightarrow> None
      | Some c \<Rightarrow>
          if sd_version c \<noteq> sd_version op \<or> \<not> schedule_live c \<or> now < sd_execute_at c \<or> \<not> scheduled_operation_matches_account account c
          then None
          else Some (c\<lparr>sd_world_id := (if sd_world_id c = [] then fst (bound_account account) else sd_world_id c),
                       sd_player_id := (if sd_player_id c = 0 then snd (bound_account account) else sd_player_id c),
                       sd_last_operation_id := (if sd_last_operation_id c \<noteq> [] then sd_last_operation_id c else operation_id),
                       sd_status := Sched_running, sd_last_error := [], sd_updated_at := clock\<rparr>))"

text \<open>The claim and what follows it: the goroutine of \<open>execute\<close> starts and submits the intent, or the
  entry is cleared.\<close>

definition claim_attempt :: "gotime \<Rightarrow> gotime \<Rightarrow> string option \<Rightarrow> string \<Rightarrow> scheduled_operation \<Rightarrow> sched_state \<Rightarrow> scheduled_operation option" where
  "claim_attempt now clock apply_err operation_id op s =
     (if apply_err \<noteq> None then None
      else claim_mutation now clock (sc_account s) operation_id op (map_of (sc_scheduled s) (sd_id op)))"

definition claim_next :: "gotime \<Rightarrow> string option \<Rightarrow> sched_state \<Rightarrow> sched_state" where
  "claim_next clock apply_err s =
     (case sc_phase s of
        Claiming now account op operation_id ops next \<Rightarrow>
          (case claim_attempt now clock apply_err operation_id op s of
             None \<Rightarrow> clear_running (sd_id op) (sd_version op) (s\<lparr>sc_phase := Scanning now account ops next\<rparr>)
           | Some c \<Rightarrow>
               let s = s\<lparr>sc_phase := Scanning now account ops next, sc_scheduled := AList.update (sd_id op) c (sc_scheduled s), sc_events := Suc (sc_events s)\<rparr>;
                   s = (case map_of (sc_running s) (sd_id op) of None \<Rightarrow> s
                        | Some running \<Rightarrow> if re_version running = sd_version op
                            then s\<lparr>sc_running := AList.update (sd_id op) (running\<lparr>re_operation_id := sd_last_operation_id c\<rparr>) (sc_running s)\<rparr>
                            else s)
               in s\<lparr>sc_executing := sc_executing s @ [(c, False)],
                    sc_submitted := sc_submitted s @ [(sd_id c, sd_version c, sd_last_operation_id c)]\<rparr>)
      | _ \<Rightarrow> s)"

section \<open>Executing\<close>

fun status_text :: "status \<Rightarrow> string" where
  "status_text Status_planning = ''planning''"
| "status_text Status_planned = ''planned''"
| "status_text Status_queued = ''queued''"
| "status_text Status_running = ''running''"
| "status_text Status_paused = ''paused''"
| "status_text Status_succeeded = ''succeeded''"
| "status_text Status_cancelled = ''cancelled''"
| "status_text Status_failed = ''failed''"
| "status_text Status_partially_succeeded = ''partially_succeeded''"
| "status_text Status_indeterminate = ''indeterminate''"
| "status_text Status_reconciling = ''reconciling''"

text \<open>The \<open>switch\<close> on the receipt's status, for the status and for the error recorded.\<close>

fun settled_status :: "status \<Rightarrow> schedule_status" where
  "settled_status Status_succeeded = Sched_succeeded"
| "settled_status Status_cancelled = Sched_cancelled"
| "settled_status Status_partially_succeeded = Sched_reconciliation"
| "settled_status Status_indeterminate = Sched_reconciliation"
| "settled_status Status_reconciling = Sched_reconciliation"
| "settled_status _ = Sched_failed"

definition settled_error :: "unit receipt \<Rightarrow> string" where
  "settled_error receipt =
     (if settled_status (rc_status receipt) = Sched_succeeded then []
      else if settled_status (rc_status receipt) = Sched_failed \<and> rc_error receipt = []
      then ''intent completed with status '' @ status_text (rc_status receipt)
      else rc_error receipt)"

definition execution_result :: "gotime \<Rightarrow> unit receipt \<Rightarrow> scheduled_operation \<Rightarrow> scheduled_operation \<Rightarrow> scheduled_operation option" where
  "execution_result clock receipt op current =
     (if sd_version current \<noteq> sd_version op \<or> sd_last_operation_id current \<noteq> sd_last_operation_id op then None
      else Some (current\<lparr>sd_last_operation_id := (if rc_id receipt \<noteq> [] then rc_id receipt else sd_last_operation_id current),
             sd_status := settled_status (rc_status receipt), sd_last_error := settled_error receipt, sd_updated_at := clock\<rparr>))"

text \<open>The mutation after \<open>Submit\<close> of the \<open>k\<close>-th goroutine, and its deferred \<open>clearRunning\<close>.\<close>

definition finish_execution :: "gotime \<Rightarrow> string option \<Rightarrow> unit receipt \<Rightarrow> nat \<Rightarrow> sched_state \<Rightarrow> sched_state" where
  "finish_execution clock apply_err receipt k s =
     (if \<not> k < length (sc_executing s) \<or> snd (sc_executing s ! k) then s
      else let op = fst (sc_executing s ! k);
               s = s\<lparr>sc_executing := (sc_executing s)[k := (op, True)]\<rparr>
           in case (if apply_err = None then map_of (sc_scheduled s) (sd_id op) else None) of None \<Rightarrow> s
              | Some current \<Rightarrow>
                  case execution_result clock receipt op current of None \<Rightarrow> s
                  | Some c \<Rightarrow> s\<lparr>sc_scheduled := AList.update (sd_id op) c (sc_scheduled s), sc_events := Suc (sc_events s)\<rparr>)"

definition end_execution :: "nat \<Rightarrow> sched_state \<Rightarrow> sched_state" where
  "end_execution k s =
     (if \<not> k < length (sc_executing s) \<or> \<not> snd (sc_executing s ! k) then s
      else let op = fst (sc_executing s ! k)
           in clear_running (sd_id op) (sd_version op) (s\<lparr>sc_executing := remove_at k (sc_executing s)\<rparr>))"

text \<open>The account changes (an event of one of the domains \<open>account\<close>, \<open>player\<close>, \<open>session\<close>).\<close>

definition change_account :: "account_view \<Rightarrow> sched_state \<Rightarrow> sched_state" where
  "change_account a s = s\<lparr>sc_account := a, sc_events := Suc (sc_events s)\<rparr>"

section \<open>Steps and reachable states\<close>

inductive sched_step :: "(string \<Rightarrow> bool) \<Rightarrow> (string \<Rightarrow> string) \<Rightarrow> sched_state \<Rightarrow> sched_state \<Rightarrow> bool" for json_valid digest where
  schedule: "schedule_operation json_valid now apply_err request s = (err, c, s') \<Longrightarrow> sched_step json_valid digest s s'"
| cancel: "cancel_scheduled now apply_err i s = (err, c, s') \<Longrightarrow> sched_step json_valid digest s s'"
| cancel_run: "sched_step json_valid digest s (cancel_running i version s)"
| start: "sched_step json_valid digest s (run_start now s)"
| event: "sched_step json_valid digest s (receive_event now s)"
| timer: "sched_step json_valid digest s (timer_fires now s)"
| scan: "sched_step json_valid digest s (scan_next digest s)"
| claim: "sched_step json_valid digest s (claim_next clock apply_err s)"
| finish: "sched_step json_valid digest s (finish_execution clock apply_err receipt k s)"
| ended: "sched_step json_valid digest s (end_execution k s)"
| account: "sched_step json_valid digest s (change_account a s)"

inductive sched_reachable :: "(string \<Rightarrow> bool) \<Rightarrow> (string \<Rightarrow> string) \<Rightarrow> sched_state \<Rightarrow> bool" for json_valid digest where
  init: "sched_reachable json_valid digest (new_scheduler a)"
| step: "sched_reachable json_valid digest s \<Longrightarrow> sched_step json_valid digest s s' \<Longrightarrow> sched_reachable json_valid digest s'"

definition executing_ids :: "sched_state \<Rightarrow> string list" where
  "executing_ids s = map (\<lambda>e. sd_id (fst e)) (sc_executing s)"

definition claiming_id :: "sched_state \<Rightarrow> string option" where
  "claiming_id s = (case sc_phase s of Claiming now account op operation_id ops next \<Rightarrow> Some (sd_id op) | _ \<Rightarrow> None)"

definition store_ok :: "sched_state \<Rightarrow> bool" where
  "store_ok s \<longleftrightarrow> (\<forall>i c. map_of (sc_scheduled s) i = Some c \<longrightarrow> sd_id c = i)"

definition running_ok :: "sched_state \<Rightarrow> bool" where
  "running_ok s \<longleftrightarrow> distinct (executing_ids s) \<and> (\<not> sc_started s \<longrightarrow> sc_phase s = Waiting) \<and>
     (\<forall>e \<in> fst ` set (sc_executing s). \<exists>r. map_of (sc_running s) (sd_id e) = Some r \<and> re_version r = sd_version e) \<and>
     (\<forall>i. map_of (sc_running s) i \<noteq> None \<longrightarrow> i \<in> set (executing_ids s) \<or> claiming_id s = Some i) \<and>
     (case sc_phase s of Claiming now account op operation_id ops next \<Rightarrow> sd_id op \<notin> set (executing_ids s) \<and> operation_id \<noteq> [] \<and>
        (\<exists>r. map_of (sc_running s) (sd_id op) = Some r \<and> re_version r = sd_version op) | _ \<Rightarrow> True)"

definition submitted_ok :: "sched_state \<Rightarrow> bool" where
  "submitted_ok s \<longleftrightarrow>
     (\<forall>(i, v, oid) \<in> set (sc_submitted s). oid \<noteq> [] \<and>
        (\<exists>c. map_of (sc_scheduled s) i = Some c \<and> v \<le> sd_version c \<and> (v = sd_version c \<and> schedule_live c \<longrightarrow> sd_last_operation_id c = oid))) \<and>
     (\<forall>(i, v, oid) \<in> set (sc_submitted s). \<forall>(i', v', oid') \<in> set (sc_submitted s). i = i' \<and> v = v' \<longrightarrow> oid = oid')"

lemma map_of_update [simp]: "map_of (AList.update i x m) j = (if j = i then Some x else map_of m j)"
  by (simp add: update_conv')

lemma map_of_delete [simp]: "map_of (AList.delete i m) j = (if j = i then None else map_of m j)"
  by (simp add: delete_conv')

section \<open>The operations keep the invariants\<close>

lemma schedule_changeD:
  "schedule_change now account request current = Some op \<Longrightarrow> sd_id op = sq_id request \<and> sd_version op = (case current of None \<Rightarrow> 1 | Some c \<Rightarrow> sd_version c + 1)"
  by (auto simp: schedule_change_def Let_def split: prod.splits if_splits option.splits)

lemma claim_mutation_facts:
  assumes "claim_mutation now clock account operation_id op (Some c) = Some c'"
  shows "schedule_live c" "sd_version c = sd_version op" "sd_execute_at c \<le> now" "scheduled_operation_matches_account account c"
    "sd_id c' = sd_id c" "sd_version c' = sd_version op" "sd_status c' = Sched_running"
    "sd_last_operation_id c' = (if sd_last_operation_id c = [] then operation_id else sd_last_operation_id c)"
  using assms unfolding claim_mutation_def by (auto split: if_splits)

lemma claim_mutation_None [simp]: "claim_mutation now clock account operation_id op None = None"
  by (simp add: claim_mutation_def)

lemma claim_mutationD:
  "claim_mutation now clock account operation_id op current = Some c' \<Longrightarrow> \<exists>c. current = Some c \<and> schedule_live c \<and> sd_version c = sd_version op \<and>
     sd_execute_at c \<le> now \<and> scheduled_operation_matches_account account c \<and>
     sd_id c' = sd_id c \<and> sd_version c' = sd_version op \<and> sd_status c' = Sched_running \<and>
     sd_last_operation_id c' = (if sd_last_operation_id c = [] then operation_id else sd_last_operation_id c)"
proof (cases current)
  case (Some c)
  moreover assume "claim_mutation now clock account operation_id op current = Some c'"
  ultimately show ?thesis using claim_mutation_facts [of now clock account operation_id op c c'] by metis
qed simp

lemma execution_resultD:
  "execution_result clock receipt op c = Some c' \<Longrightarrow> sd_id c' = sd_id c \<and> sd_version c' = sd_version c \<and> \<not> schedule_live c' \<and> sd_version c = sd_version op"
proof -
  have "settled_status t \<noteq> Sched_scheduled \<and> settled_status t \<noteq> Sched_running" for t by (cases t) simp_all
  then show "execution_result clock receipt op c = Some c' \<Longrightarrow> sd_id c' = sd_id c \<and> sd_version c' = sd_version c \<and> \<not> schedule_live c' \<and> sd_version c = sd_version op"
    by (auto simp: execution_result_def schedule_live_def split: if_split_asm)
qed

lemma operation_id_nonempty: "scheduled_intent_operation_id digest account op \<noteq> []"
  by (simp add: scheduled_intent_operation_id_def Let_def)

lemma store_ok_step: "sched_step json_valid digest s s' \<Longrightarrow> store_ok s \<Longrightarrow> store_ok s'"
proof (induction rule: sched_step.induct)
  case (schedule now apply_err request s err c s')
  then show ?case
    by (auto simp: store_ok_def schedule_operation_def Let_def split: sum.splits option.splits if_splits dest!: schedule_changeD)
next
  case (cancel now apply_err i s err c s')
  then show ?case by (auto simp: store_ok_def cancel_scheduled_def Let_def split: option.splits if_splits)
next
  case (claim s clock apply_err)
  then show ?case
    by (auto simp: store_ok_def claim_next_def claim_attempt_def clear_running_def Let_def split: dispatch_phase.splits option.splits if_splits dest!: claim_mutationD)
next
  case (finish s clock apply_err receipt k)
  then show ?case
    by (auto simp: store_ok_def finish_execution_def Let_def split: option.splits if_splits dest!: execution_resultD)
qed (auto simp: store_ok_def cancel_running_def run_start_def begin_scan_def receive_event_def timer_fires_def scan_next_def
    end_execution_def clear_running_def change_account_def Let_def split: option.splits dispatch_phase.splits list.splits)

lemma running_ok_cong:
  "sc_running s' = sc_running s \<Longrightarrow> map fst (sc_executing s') = map fst (sc_executing s) \<Longrightarrow> sc_phase s' = sc_phase s \<Longrightarrow>
    sc_started s' = sc_started s \<Longrightarrow> running_ok s' = running_ok s"
proof -
  assume same: "sc_running s' = sc_running s" "map fst (sc_executing s') = map fst (sc_executing s)" "sc_phase s' = sc_phase s"
    "sc_started s' = sc_started s"
  have "map (\<lambda>e. sd_id (fst e)) xs = map sd_id (map fst xs)" for xs :: "(scheduled_operation \<times> bool) list" by simp
  then have ids: "executing_ids s' = executing_ids s" using same(2) unfolding executing_ids_def by metis
  have img: "fst ` set (sc_executing s') = fst ` set (sc_executing s)" using same(2) by (metis list.set_map)
  show ?thesis by (simp only: running_ok_def claiming_id_def same ids img)
qed

lemma running_ok_entry: "running_ok s \<Longrightarrow> map_of (sc_running s) i = Some r \<Longrightarrow> i \<in> set (executing_ids s) \<or> claiming_id s = Some i"
  by (simp add: running_ok_def)

lemma running_ok_begin_scan:
  assumes "running_ok s" "sc_phase s = Waiting" "sc_running s' = sc_running s" "sc_executing s' = sc_executing s" "sc_started s'"
  shows "running_ok (begin_scan now s')"
  using assms by (simp add: running_ok_def executing_ids_def claiming_id_def begin_scan_def)

lemma running_ok_scan: "running_ok s \<Longrightarrow> running_ok (scan_next digest s)"
proof (cases "sc_phase s")
  case (Scanning now account ops nxt)
  assume ok: "running_ok s"
  show ?thesis
  proof (cases ops)
    case Nil
    with ok Scanning show ?thesis by (simp add: running_ok_def executing_ids_def claiming_id_def scan_next_def)
  next
    case (Cons op ops')
    have "sd_id op \<notin> set (executing_ids s)" if "map_of (sc_running s) (sd_id op) = None"
      using ok that by (force simp: running_ok_def executing_ids_def)
    with ok Scanning Cons operation_id_nonempty [of digest account op] show ?thesis
      by (auto simp: running_ok_def executing_ids_def claiming_id_def scan_next_def Let_def)
  qed
qed (simp_all add: scan_next_def)

lemma running_ok_claim:
  assumes ok: "running_ok s" and store: "store_ok s"
  shows "running_ok (claim_next clock apply_err s)"
proof (cases "sc_phase s")
  case (Claiming now account op operation_id ops nxt)
  with ok obtain r where r: "map_of (sc_running s) (sd_id op) = Some r" "re_version r = sd_version op"
    and new: "sd_id op \<notin> set (executing_ids s)" by (auto simp: running_ok_def)
  show ?thesis
  proof (cases "claim_attempt now clock apply_err operation_id op s")
    case None
    then have "claim_next clock apply_err s = s\<lparr>sc_phase := Scanning now account ops nxt, sc_running := AList.delete (sd_id op) (sc_running s)\<rparr>"
      using r Claiming by (simp add: claim_next_def clear_running_def)
    with ok Claiming r new show ?thesis
      by (auto simp: running_ok_def executing_ids_def claiming_id_def image_iff)
  next
    case (Some c)
    then have "sd_id c = sd_id op \<and> sd_version c = sd_version op"
      using store by (auto simp: store_ok_def claim_attempt_def dest!: claim_mutationD split: if_splits)
    moreover have "sc_executing (claim_next clock apply_err s) = sc_executing s @ [(c, False)]"
        "sc_running (claim_next clock apply_err s) = AList.update (sd_id op) (r\<lparr>re_operation_id := sd_last_operation_id c\<rparr>) (sc_running s)"
        "sc_phase (claim_next clock apply_err s) = Scanning now account ops nxt" "sc_started (claim_next clock apply_err s) = sc_started s"
      using r Claiming Some by (simp_all add: claim_next_def Let_def)
    ultimately show ?thesis
      using ok Claiming r new by (auto simp: running_ok_def executing_ids_def claiming_id_def image_iff)
  qed
qed (simp_all add: claim_next_def ok)

lemma running_ok_end:
  assumes ok: "running_ok s"
  shows "running_ok (end_execution k s)"
proof (cases "k < length (sc_executing s) \<and> snd (sc_executing s ! k)")
  case False
  with ok show ?thesis by (auto simp: end_execution_def)
next
  case True
  let ?op = "fst (sc_executing s ! k)"
  have mem: "sc_executing s ! k \<in> set (sc_executing s)" using True by simp
  then obtain r where r: "map_of (sc_running s) (sd_id ?op) = Some r" "re_version r = sd_version ?op"
    using ok by (force simp: running_ok_def)
  have rest: "set (remove_at k (sc_executing s)) = {e \<in> set (sc_executing s). sd_id (fst e) \<noteq> sd_id ?op}"
    using ok True set_remove_at_iff [of "\<lambda>e. sd_id (fst e)" "sc_executing s" k] by (simp add: running_ok_def executing_ids_def)
  let ?s = "s\<lparr>sc_executing := remove_at k (sc_executing s), sc_running := AList.delete (sd_id ?op) (sc_running s)\<rparr>"
  have ids: "set (executing_ids ?s) = set (executing_ids s) - {sd_id ?op}" by (auto simp: executing_ids_def rest)
  have op: "sd_id ?op \<in> set (executing_ids s)" using mem by (auto simp: executing_ids_def)
  have "running_ok ?s"
    unfolding running_ok_def
  proof (intro conjI ballI allI impI)
    show "distinct (executing_ids ?s)"
      using ok True distinct_map_remove_at [of "\<lambda>e. sd_id (fst e)" "sc_executing s" k] by (simp add: running_ok_def executing_ids_def)
    show "\<not> sc_started ?s \<Longrightarrow> sc_phase ?s = Waiting" using ok by (simp add: running_ok_def)
    fix e assume "e \<in> fst ` set (sc_executing ?s)"
    then have "e \<in> fst ` set (sc_executing s)" "sd_id e \<noteq> sd_id ?op" by (auto simp: rest)
    with ok show "\<exists>r. map_of (sc_running ?s) (sd_id e) = Some r \<and> re_version r = sd_version e" by (auto simp: running_ok_def)
  next
    fix i assume "map_of (sc_running ?s) i \<noteq> None"
    then obtain r' where "map_of (sc_running s) i = Some r'" "i \<noteq> sd_id ?op" by (auto split: if_splits)
    moreover have "claiming_id ?s = claiming_id s" by (simp add: claiming_id_def)
    ultimately show "i \<in> set (executing_ids ?s) \<or> claiming_id ?s = Some i"
      using running_ok_entry [OF ok] by (auto simp: ids)
  next
    show "case sc_phase ?s of Claiming now account op operation_id ops nxt \<Rightarrow> sd_id op \<notin> set (executing_ids ?s) \<and> operation_id \<noteq> [] \<and>
        (\<exists>r. map_of (sc_running ?s) (sd_id op) = Some r \<and> re_version r = sd_version op) | _ \<Rightarrow> True"
      using ok op unfolding ids by (cases "sc_phase s") (auto simp: running_ok_def)
  qed
  moreover have "end_execution k s = ?s" using True r by (simp add: end_execution_def clear_running_def Let_def)
  ultimately show ?thesis by simp
qed

lemma running_ok_step: "sched_step json_valid digest s s' \<Longrightarrow> running_ok s \<Longrightarrow> store_ok s \<Longrightarrow> running_ok s'"
proof (induction rule: sched_step.induct)
  case (schedule now apply_err request s err c s')
  then have "sc_running s' = sc_running s" "sc_executing s' = sc_executing s" "sc_phase s' = sc_phase s" "sc_started s' = sc_started s"
    by (auto simp: schedule_operation_def Let_def split: sum.splits option.splits)
  with schedule running_ok_cong [of s' s] show ?case by simp
next
  case (cancel now apply_err i s err c s')
  then have "sc_running s' = sc_running s" "sc_executing s' = sc_executing s" "sc_phase s' = sc_phase s" "sc_started s' = sc_started s"
    by (auto simp: cancel_scheduled_def Let_def split: option.splits if_splits)
  with cancel running_ok_cong [of s' s] show ?case by simp
next
  case (cancel_run s i version)
  have "sc_running (cancel_running i version s) = sc_running s" "sc_executing (cancel_running i version s) = sc_executing s"
      "sc_phase (cancel_running i version s) = sc_phase s" "sc_started (cancel_running i version s) = sc_started s"
    by (auto simp: cancel_running_def split: option.split)
  with cancel_run running_ok_cong [of "cancel_running i version s" s] show ?case by simp
next
  case (start s now)
  then show ?case by (auto simp: run_start_def running_ok_def [of s] intro!: running_ok_begin_scan [of s])
next
  case (event s now)
  then show ?case by (auto simp: receive_event_def intro!: running_ok_begin_scan [of s])
next
  case (timer s now)
  then show ?case by (auto simp: timer_fires_def intro!: running_ok_begin_scan [of s])
next
  case (finish s clock apply_err receipt k)
  have "map fst ((sc_executing s)[k := (fst (sc_executing s ! k), True)]) = map fst (sc_executing s)"
    by (simp add: map_update) (metis list_update_beyond list_update_id map_update not_le)
  then have "sc_running (finish_execution clock apply_err receipt k s) = sc_running s"
      "map fst (sc_executing (finish_execution clock apply_err receipt k s)) = map fst (sc_executing s)"
      "sc_phase (finish_execution clock apply_err receipt k s) = sc_phase s"
      "sc_started (finish_execution clock apply_err receipt k s) = sc_started s"
    by (auto simp: finish_execution_def Let_def split: option.split)
  with finish running_ok_cong show ?case by blast
next
  case (account s a)
  with running_ok_cong [of "change_account a s" s] show ?case by (simp add: change_account_def)
qed (simp_all add: running_ok_scan running_ok_claim running_ok_end)

text \<open>Updating an operation keeps the log consistent if versions do not decrease and a live
  operation keeps its operation id within a version.\<close>

lemma submittedD:
  assumes "submitted_ok s" "(i, v, oid) \<in> set (sc_submitted s)"
  obtains c where "oid \<noteq> []" "map_of (sc_scheduled s) i = Some c" "v \<le> sd_version c"
    "v = sd_version c \<Longrightarrow> schedule_live c \<Longrightarrow> sd_last_operation_id c = oid"
  using assms unfolding submitted_ok_def by fast

lemma submitted_unique:
  "submitted_ok s \<Longrightarrow> (i, v, oid) \<in> set (sc_submitted s) \<Longrightarrow> (i, v, oid') \<in> set (sc_submitted s) \<Longrightarrow> oid = oid'"
  unfolding submitted_ok_def by fast

lemma submitted_ok_update:
  assumes ok: "submitted_ok s" and s': "sc_scheduled s' = AList.update i c' (sc_scheduled s)" "sc_submitted s' = sc_submitted s"
    and step: "\<And>c. map_of (sc_scheduled s) i = Some c \<Longrightarrow> sd_version c \<le> sd_version c' \<and>
      (sd_version c = sd_version c' \<and> schedule_live c' \<longrightarrow> schedule_live c \<and> (sd_last_operation_id c \<noteq> [] \<longrightarrow> sd_last_operation_id c' = sd_last_operation_id c))"
  shows "submitted_ok s'"
proof -
  have "\<exists>c. map_of (sc_scheduled s') j = Some c \<and> v \<le> sd_version c \<and> (v = sd_version c \<and> schedule_live c \<longrightarrow> sd_last_operation_id c = oid)"
    if "(j, v, oid) \<in> set (sc_submitted s)" for j v oid
  proof (rule submittedD [OF ok that])
    fix c assume c: "oid \<noteq> []" "map_of (sc_scheduled s) j = Some c" "v \<le> sd_version c"
      "v = sd_version c \<Longrightarrow> schedule_live c \<Longrightarrow> sd_last_operation_id c = oid"
    then show ?thesis
    proof (cases "j = i")
      case True
      with step [of c] c show ?thesis by (auto simp: s'(1))
    qed (auto simp: s'(1))
  qed
  with ok show ?thesis unfolding submitted_ok_def s'(2) by fast
qed

lemma submitted_ok_same:
  "submitted_ok s \<Longrightarrow> sc_scheduled s' = sc_scheduled s \<Longrightarrow> sc_submitted s' = sc_submitted s \<Longrightarrow> submitted_ok s'"
  by (simp add: submitted_ok_def)

lemma submitted_ok_append:
  assumes ok: "submitted_ok s" and s': "sc_scheduled s' = sc_scheduled s" "sc_submitted s' = sc_submitted s @ [(i, v, oid)]"
    and new: "oid \<noteq> []" "map_of (sc_scheduled s) i = Some c" "v \<le> sd_version c" "v = sd_version c \<Longrightarrow> schedule_live c \<Longrightarrow> sd_last_operation_id c = oid"
    and old: "\<And>oid'. (i, v, oid') \<in> set (sc_submitted s) \<Longrightarrow> oid' = oid"
  shows "submitted_ok s'"
proof -
  have "oid' \<noteq> [] \<and> (\<exists>c. map_of (sc_scheduled s') j = Some c \<and> w \<le> sd_version c \<and>
      (w = sd_version c \<and> schedule_live c \<longrightarrow> sd_last_operation_id c = oid'))"
    if "(j, w, oid') \<in> set (sc_submitted s')" for j w oid'
    using that new submittedD [OF ok, of j w oid'] by (auto simp: s')
  moreover have "oid1 = oid2" if "(j, w, oid1) \<in> set (sc_submitted s')" "(j, w, oid2) \<in> set (sc_submitted s')" for j w oid1 oid2
    using that old submitted_unique [OF ok] by (auto simp: s')
  ultimately show ?thesis unfolding submitted_ok_def by fast
qed

lemma submitted_ok_claim:
  assumes ok: "submitted_ok s" and store: "store_ok s" and running: "running_ok s"
  shows "submitted_ok (claim_next clock apply_err s)"
proof (cases "sc_phase s")
  case (Claiming now account op operation_id ops nxt)
  with running have oid: "operation_id \<noteq> []" by (simp add: running_ok_def)
  let ?s = "claim_next clock apply_err s"
  show ?thesis
  proof (cases "claim_attempt now clock apply_err operation_id op s")
    case None
    with ok Claiming show ?thesis
      by (intro submitted_ok_same [OF ok]) (simp_all add: claim_next_def clear_running_def split: option.split)
  next
    case (Some c')
    then obtain c where c: "map_of (sc_scheduled s) (sd_id op) = Some c" "schedule_live c" "sd_version c = sd_version op"
      and c': "sd_id c' = sd_id c" "sd_version c' = sd_version op" "sd_status c' = Sched_running"
        "sd_last_operation_id c' = (if sd_last_operation_id c = [] then operation_id else sd_last_operation_id c)"
      by (auto simp: claim_attempt_def dest!: claim_mutationD split: if_splits)
    let ?mid = "s\<lparr>sc_scheduled := AList.update (sd_id op) c' (sc_scheduled s)\<rparr>"
    have mid: "submitted_ok ?mid"
      by (rule submitted_ok_update [OF ok]) (use c c' in auto)
    have id: "sd_id c' = sd_id op" using c(1) c'(1) store by (auto simp: store_ok_def)
    have live: "schedule_live c'" using c'(3) by (simp add: schedule_live_def)
    have last: "sd_last_operation_id c' \<noteq> []" using c'(4) oid by simp
    have old: "oid' = sd_last_operation_id c'" if "(sd_id c', sd_version c', oid') \<in> set (sc_submitted ?mid)" for oid'
      using submittedD [OF mid that] id live by auto
    have "sc_scheduled ?s = sc_scheduled ?mid"
        "sc_submitted ?s = sc_submitted ?mid @ [(sd_id c', sd_version c', sd_last_operation_id c')]"
      using Claiming Some by (simp_all add: claim_next_def Let_def split: option.split)
    then show ?thesis by (rule submitted_ok_append [OF mid]) (use old last id live in auto)
  qed
qed (simp_all add: claim_next_def ok)

lemma scan_keeps: "sc_scheduled (scan_next digest s) = sc_scheduled s" "sc_submitted (scan_next digest s) = sc_submitted s"
  by (simp_all add: scan_next_def Let_def split: dispatch_phase.split list.split)

lemma submitted_ok_step:
  "sched_step json_valid digest s s' \<Longrightarrow> submitted_ok s \<Longrightarrow> store_ok s \<Longrightarrow> running_ok s \<Longrightarrow> submitted_ok s'"
proof (induction rule: sched_step.induct)
  case (schedule now apply_err request s err c s')
  show ?case
  proof (cases "s' = s")
    case False
    with schedule obtain r op where "schedule_change now (sc_account s) r (map_of (sc_scheduled s) (sq_id r)) = Some op"
      and s': "s' = s\<lparr>sc_scheduled := AList.update (sq_id r) op (sc_scheduled s), sc_events := Suc (sc_events s)\<rparr>"
      by (auto simp: schedule_operation_def Let_def split: sum.splits option.splits)
    then show ?thesis
      using schedule.prems(1) by (auto simp: s' dest!: schedule_changeD intro!: submitted_ok_update [of s _ "sq_id r" op])
  qed (use schedule in simp)
next
  case (cancel now apply_err i s err c s')
  show ?case
  proof (cases "s' = s")
    case False
    with cancel obtain j d where d: "map_of (sc_scheduled s) j = Some d" and s': "s' = s\<lparr>sc_scheduled := AList.update j
        (d\<lparr>sd_status := Sched_cancelled, sd_last_error := [], sd_updated_at := now\<rparr>) (sc_scheduled s), sc_events := Suc (sc_events s)\<rparr>"
      by (auto simp: cancel_scheduled_def Let_def split: option.splits if_splits)
    show ?thesis by (rule submitted_ok_update [OF cancel.prems(1), where i = j]) (auto simp: s' d schedule_live_def)
  qed (use cancel in simp)
next
  case (finish s clock apply_err receipt k)
  show ?case
  proof (cases "sc_scheduled (finish_execution clock apply_err receipt k s) = sc_scheduled s")
    case True
    moreover have "sc_submitted (finish_execution clock apply_err receipt k s) = sc_submitted s"
      by (simp add: finish_execution_def Let_def split: option.split)
    ultimately show ?thesis using finish submitted_ok_same by blast
  next
    case False
    let ?op = "fst (sc_executing s ! k)"
    from False obtain c c' where c: "map_of (sc_scheduled s) (sd_id ?op) = Some c" "execution_result clock receipt ?op c = Some c'"
      and s': "sc_scheduled (finish_execution clock apply_err receipt k s) = AList.update (sd_id ?op) c' (sc_scheduled s)"
        "sc_submitted (finish_execution clock apply_err receipt k s) = sc_submitted s"
      by (auto simp: finish_execution_def Let_def split: option.splits if_splits)
    show ?thesis
      by (rule submitted_ok_update [OF finish.prems(1) s']) (use c execution_resultD [OF c(2)] in auto)
  qed
next
  case (claim s clock apply_err)
  then show ?case by (simp add: submitted_ok_claim)
next
  case (scan s)
  then show ?case using submitted_ok_same scan_keeps by blast
qed (erule submitted_ok_same; simp add: cancel_running_def run_start_def begin_scan_def receive_event_def timer_fires_def
    end_execution_def clear_running_def change_account_def Let_def split: option.split)+

lemma sched_reachable_inv: "sched_reachable json_valid digest s \<Longrightarrow> store_ok s \<and> running_ok s \<and> submitted_ok s"
proof (induction rule: sched_reachable.induct)
  case (init a)
  show ?case
    by (simp add: new_scheduler_def store_ok_def running_ok_def submitted_ok_def executing_ids_def claiming_id_def)
next
  case (step s s')
  then show ?case using store_ok_step running_ok_step submitted_ok_step by blast
qed

section \<open>Properties\<close>

text \<open>C35. A scheduled operation is executed by at most one goroutine at a time, and the map of running
  executions is exact: each goroutine has its entry with its version, and every other entry belongs
  to the operation the dispatcher is just claiming.\<close>

theorem scheduler_single_execution:
  assumes "sched_reachable json_valid digest s"
  shows "distinct (map (\<lambda>e. sd_id (fst e)) (sc_executing s)) \<and>
    (\<forall>(op, over) \<in> set (sc_executing s). map_option re_version (map_of (sc_running s) (sd_id op)) = Some (sd_version op)) \<and>
    (\<forall>i. map_of (sc_running s) i \<noteq> None \<longrightarrow> (\<exists>(op, over) \<in> set (sc_executing s). sd_id op = i) \<or> claiming_id s = Some i)"
proof -
  have ok: "running_ok s" using sched_reachable_inv [OF assms] by simp
  then have "distinct (map (\<lambda>e. sd_id (fst e)) (sc_executing s))"
    "\<forall>(op, over) \<in> set (sc_executing s). map_option re_version (map_of (sc_running s) (sd_id op)) = Some (sd_version op)"
    by (fastforce simp: running_ok_def executing_ids_def)+
  moreover have "(\<exists>(op, over) \<in> set (sc_executing s). sd_id op = i) \<or> claiming_id s = Some i" if "map_of (sc_running s) i \<noteq> None" for i
    using running_ok_entry [OF ok] that by (fastforce simp: executing_ids_def)
  ultimately show ?thesis by blast
qed

text \<open>Every execution of one version of a scheduled operation is submitted under the same operation
  id, which is not empty; the journal of the intent engine therefore carries it out at most once,
  also when the dispatcher claims it again after a restart or a failed write.\<close>

theorem scheduler_one_operation_per_version:
  assumes "sched_reachable json_valid digest s" "(i, v, oid) \<in> set (sc_submitted s)" "(i, v, oid') \<in> set (sc_submitted s)"
  shows "oid = oid' \<and> oid \<noteq> [] \<and> (\<exists>c. map_of (sc_scheduled s) i = Some c \<and> v \<le> sd_version c)"
  using sched_reachable_inv [OF assms(1)] submitted_unique [of s i v oid oid'] submittedD [of s i v oid] assms(2,3) by metis

section \<open>The loop of dispatchDue\<close>

definition dispatcher_step :: "(string \<Rightarrow> string) \<Rightarrow> gotime \<Rightarrow> string option \<Rightarrow> sched_state \<Rightarrow> sched_state" where
  "dispatcher_step digest clock apply_err s =
     (case sc_phase s of Claiming now account op operation_id ops next \<Rightarrow> claim_next clock apply_err s | _ \<Rightarrow> scan_next digest s)"

fun scan_measure :: "dispatch_phase \<Rightarrow> nat" where
  "scan_measure Waiting = 0"
| "scan_measure (Scanning now account ops next) = 2 * length ops + 1"
| "scan_measure (Claiming now account op operation_id ops next) = 2 * length ops + 2"

text \<open>The loop without interruption, with the number of steps as fuel.\<close>

fun dispatch_run :: "(string \<Rightarrow> string) \<Rightarrow> gotime \<Rightarrow> nat \<Rightarrow> sched_state \<Rightarrow> sched_state" where
  "dispatch_run digest clock 0 s = s"
| "dispatch_run digest clock (Suc n) s =
     (if sc_phase s = Waiting then s else dispatch_run digest clock n (dispatcher_step digest clock None s))"

lemma dispatcher_step_decreases:
  "sc_phase s \<noteq> Waiting \<Longrightarrow> scan_measure (sc_phase (dispatcher_step digest clock apply_err s)) < scan_measure (sc_phase s)"
  by (cases "sc_phase s")
    (auto simp: dispatcher_step_def scan_next_def claim_next_def clear_running_def Let_def split: list.split option.split)

lemma other_steps_keep_phase:
  "sched_step json_valid digest s s' \<Longrightarrow> sc_phase s \<noteq> Waiting \<Longrightarrow> sched_reachable json_valid digest s \<Longrightarrow>
    sc_phase s' = sc_phase s \<or> (\<exists>clock apply_err. s' = dispatcher_step digest clock apply_err s)"
proof (induction rule: sched_step.induct)
  case (schedule now apply_err request s err c s')
  then show ?case by (auto simp: schedule_operation_def Let_def split: sum.splits option.splits)
next
  case (cancel now apply_err i s err c s')
  then show ?case by (auto simp: cancel_scheduled_def Let_def split: option.splits if_splits)
next
  case (start s now)
  then have "sc_started s" using sched_reachable_inv [of json_valid digest s] by (auto simp: running_ok_def)
  then show ?case by (simp add: run_start_def)
next
  case (scan s)
  then show ?case by (cases "sc_phase s") (auto simp: dispatcher_step_def scan_next_def)
next
  case (claim s clock apply_err)
  then show ?case by (cases "sc_phase s") (auto simp: dispatcher_step_def claim_next_def)
qed (simp_all add: cancel_running_def receive_event_def timer_fires_def finish_execution_def end_execution_def clear_running_def
    change_account_def Let_def split: option.split)


definition dispatchable :: "account_view \<Rightarrow> scheduled_operation \<Rightarrow> bool" where
  "dispatchable account op \<longleftrightarrow> schedule_live op \<and> scheduled_operation_matches_account account op"

text \<open>What a scan of the operations \<open>ops\<close> achieves from state \<open>s\<close>, with \<open>nxt\<close> as \<open>nextDue\<close>.\<close>

definition scan_complete :: "gotime \<Rightarrow> account_view \<Rightarrow> scheduled_operation list \<Rightarrow> gotime \<Rightarrow> sched_state \<Rightarrow> sched_state \<Rightarrow> bool" where
  "scan_complete now account ops nxt s f \<longleftrightarrow>
     sc_phase f = Waiting \<and> set (executing_ids s) \<subseteq> set (executing_ids f) \<and>
     (\<forall>op \<in> set ops. dispatchable account op \<and> sd_execute_at op \<le> now \<and> map_of (sc_running s) (sd_id op) = None \<longrightarrow>
        sd_id op \<in> set (executing_ids f)) \<and>
     (sc_timer f = nxt \<or> (\<exists>op \<in> set ops. dispatchable account op \<and> now < sd_execute_at op \<and> sc_timer f = sd_execute_at op)) \<and>
     (nxt \<noteq> 0 \<longrightarrow> sc_timer f \<noteq> 0 \<and> sc_timer f \<le> nxt) \<and>
     (\<forall>op \<in> set ops. dispatchable account op \<and> now < sd_execute_at op \<longrightarrow> sc_timer f \<noteq> 0 \<and> sc_timer f \<le> sd_execute_at op)"

lemma scan_completeD:
  assumes "scan_complete now account ops nxt s f"
  shows "sc_phase f = Waiting"
    "\<And>op. op \<in> set ops \<Longrightarrow> dispatchable account op \<Longrightarrow> sd_execute_at op \<le> now \<Longrightarrow> map_of (sc_running s) (sd_id op) = None \<Longrightarrow>
       sd_id op \<in> set (executing_ids f)"
    "\<And>op. op \<in> set ops \<Longrightarrow> dispatchable account op \<Longrightarrow> now < sd_execute_at op \<Longrightarrow> sc_timer f \<noteq> 0 \<and> sc_timer f \<le> sd_execute_at op"
    "sc_timer f = nxt \<or> (\<exists>op \<in> set ops. dispatchable account op \<and> now < sd_execute_at op \<and> sc_timer f = sd_execute_at op)"
  using assms unfolding scan_complete_def by simp_all

lemma scan_claimed:
  assumes "sc_phase s = Scanning now account (op # ops) nxt" "dispatchable account op" "sd_execute_at op \<le> now"
    and "map_of (sc_running s) (sd_id op) = None" "map_of (sc_scheduled s) (sd_id op) = Some op" "sc_account s = account"
  obtains s1 s2 c where "s1 = dispatcher_step digest clock None s" "sc_phase s1 \<noteq> Waiting" "s2 = dispatcher_step digest clock None s1"
    "sc_phase s2 = Scanning now account ops nxt" "sc_account s2 = account" "executing_ids s2 = executing_ids s @ [sd_id op]"
    "sc_scheduled s2 = AList.update (sd_id op) c (sc_scheduled s)"
    "\<And>i. i \<noteq> sd_id op \<Longrightarrow> map_of (sc_running s2) i = map_of (sc_running s) i"
proof -
  let ?oid = "scheduled_intent_operation_id digest account op"
  let ?s1 = "s\<lparr>sc_running := AList.update (sd_id op) \<lparr>re_version = sd_version op, re_operation_id = ?oid\<rparr> (sc_running s),
      sc_phase := Claiming now account op ?oid ops nxt\<rparr>"
  have s1: "dispatcher_step digest clock None s = ?s1"
    using assms by (simp add: dispatcher_step_def scan_next_def dispatchable_def Let_def)
  obtain c where c: "claim_mutation now clock account ?oid op (Some op) = Some c"
    using assms(2,3) by (simp add: claim_mutation_def dispatchable_def)
  note c' = claim_mutation_facts [OF c]
  have "sc_phase (dispatcher_step digest clock None ?s1) = Scanning now account ops nxt \<and> sc_account (dispatcher_step digest clock None ?s1) = account \<and>
      executing_ids (dispatcher_step digest clock None ?s1) = executing_ids s @ [sd_id op] \<and>
      sc_scheduled (dispatcher_step digest clock None ?s1) = AList.update (sd_id op) c (sc_scheduled s) \<and>
      (\<forall>i. i \<noteq> sd_id op \<longrightarrow> map_of (sc_running (dispatcher_step digest clock None ?s1)) i = map_of (sc_running s) i)"
    using assms(5,6) c c' by (simp add: dispatcher_step_def claim_next_def claim_attempt_def executing_ids_def Let_def)
  then show ?thesis using that [of ?s1] s1 by simp
qed

lemma scan_complete_skip:
  assumes "scan_complete now account ops nxt' s' f" "executing_ids s' = executing_ids s" "sc_running s' = sc_running s"
    and "\<not> dispatchable account op \<and> nxt' = nxt \<or>
      map_of (sc_running s) (sd_id op) \<noteq> None \<and> sd_execute_at op \<le> now \<and> nxt' = nxt \<or>
      dispatchable account op \<and> now < sd_execute_at op \<and> 0 \<le> now \<and> nxt' = (if time_is_zero nxt \<or> sd_execute_at op < nxt then sd_execute_at op else nxt)"
  shows "scan_complete now account (op # ops) nxt s f"
  using assms by (auto simp: scan_complete_def time_is_zero_def split: if_splits)

lemma dispatch_run_complete:
  assumes "sc_phase s = Scanning now account ops nxt" "sc_account s = account" "0 \<le> now" "2 * length ops + 1 \<le> n"
    and "distinct (map sd_id ops)" "\<forall>op \<in> set ops. map_of (sc_scheduled s) (sd_id op) = Some op"
  shows "scan_complete now account ops nxt s (dispatch_run digest clock n s)"
  using assms
proof (induction ops arbitrary: s nxt n)
  case Nil
  then obtain m where "n = Suc m" by (cases n) auto
  with Nil show ?case
    by (cases m) (auto simp: scan_complete_def dispatcher_step_def scan_next_def executing_ids_def)
next
  case (Cons op ops)
  then obtain m where n: "n = Suc (Suc m)" "2 * length ops + 1 \<le> m"
    by (metis One_nat_def Suc_le_D Suc_le_mono add_Suc_right length_Cons mult_2 plus_1_eq_Suc add.commute add_Suc)
  let ?s = "dispatcher_step digest clock None s"
  have run: "dispatch_run digest clock n s = dispatch_run digest clock (Suc m) ?s" using Cons.prems(1) n by simp
  show ?case
  proof (cases "dispatchable account op \<and> sd_execute_at op \<le> now \<and> map_of (sc_running s) (sd_id op) = None")
    case False
    let ?nxt = "if dispatchable account op \<and> now < sd_execute_at op \<and> (time_is_zero nxt \<or> sd_execute_at op < nxt) then sd_execute_at op else nxt"
    have "?s = s\<lparr>sc_phase := Scanning now account ops ?nxt\<rparr>"
      using Cons.prems(1) False by (auto simp: dispatcher_step_def scan_next_def dispatchable_def Let_def)
    then have "scan_complete now account ops ?nxt ?s (dispatch_run digest clock (Suc m) ?s)"
      using Cons.prems n by (intro Cons.IH) auto
    then show ?thesis
      unfolding run by (rule scan_complete_skip) (use \<open>?s = _\<close> False Cons.prems(3) in \<open>auto simp: executing_ids_def\<close>)
  next
    case True
    then obtain s2 c where s2: "sc_phase ?s \<noteq> Waiting" "s2 = dispatcher_step digest clock None ?s"
        "sc_phase s2 = Scanning now account ops nxt" "sc_account s2 = account" "executing_ids s2 = executing_ids s @ [sd_id op]"
        "sc_scheduled s2 = AList.update (sd_id op) c (sc_scheduled s)"
        "\<And>i. i \<noteq> sd_id op \<Longrightarrow> map_of (sc_running s2) i = map_of (sc_running s) i"
      using scan_claimed [OF Cons.prems(1), of digest clock] Cons.prems(2,6) by (metis list.set_intros(1))
    have "scan_complete now account ops nxt s2 (dispatch_run digest clock m s2)"
      using Cons.prems s2 n by (intro Cons.IH) (auto simp: image_iff)
    moreover have "dispatch_run digest clock n s = dispatch_run digest clock m s2" using run s2(1,2) by simp
    moreover have "map_of (sc_running s2) (sd_id op') = map_of (sc_running s) (sd_id op')" if "op' \<in> set ops" for op'
      using that s2(7) [of "sd_id op'"] Cons.prems(5) by (auto simp: image_iff)
    ultimately show ?thesis using True s2(5) by (auto simp: scan_complete_def)
  qed
qed

text \<open>One uninterrupted dispatch misses nothing: every operation of the account that is due and not
  running is executing afterwards, and the timer is set to the earliest instant at which another
  one becomes due, or to none if there is none.\<close>

theorem dispatch_due_complete:
  assumes "sched_reachable json_valid digest s" "sc_phase s = Waiting" "0 \<le> now"
    and "f = dispatch_run digest clock (2 * length (sc_scheduled s) + 1) (begin_scan now s)"
  shows "sc_phase f = Waiting \<and>
    (\<forall>i op. map_of (sc_scheduled s) i = Some op \<and> dispatchable (sc_account s) op \<longrightarrow>
       (sd_execute_at op \<le> now \<and> map_of (sc_running s) i = None \<longrightarrow> i \<in> set (executing_ids f)) \<and>
       (now < sd_execute_at op \<longrightarrow> sc_timer f \<noteq> 0 \<and> sc_timer f \<le> sd_execute_at op)) \<and>
    (sc_timer f \<noteq> 0 \<longrightarrow> (\<exists>i op. map_of (sc_scheduled s) i = Some op \<and> dispatchable (sc_account s) op \<and> now < sd_execute_at op \<and>
       sc_timer f = sd_execute_at op))"
proof -
  let ?ids = "sort (remdups (map fst (sc_scheduled s)))"
  let ?ops = "map (\<lambda>i. the (map_of (sc_scheduled s) i)) ?ids"
  have store: "store_ok s" using sched_reachable_inv [OF assms(1)] by simp
  have in_dom: "i \<in> set ?ids \<longleftrightarrow> map_of (sc_scheduled s) i \<noteq> None" for i by (simp add: map_of_eq_None_iff)
  then have id: "sd_id (the (map_of (sc_scheduled s) i)) = i" if "i \<in> set ?ids" for i
    using that store by (auto simp: store_ok_def)
  have ops: "op \<in> set ?ops \<longleftrightarrow> map_of (sc_scheduled s) (sd_id op) = Some op" for op
  proof
    assume "op \<in> set ?ops"
    then obtain i where i: "i \<in> set ?ids" "op = the (map_of (sc_scheduled s) i)" unfolding set_map by blast
    from i(1) have "map_of (sc_scheduled s) i \<noteq> None" unfolding in_dom .
    with i id [OF i(1)] show "map_of (sc_scheduled s) (sd_id op) = Some op" by auto
  next
    assume op: "map_of (sc_scheduled s) (sd_id op) = Some op"
    then have "sd_id op \<in> set ?ids" unfolding in_dom by simp
    moreover have "op = the (map_of (sc_scheduled s) (sd_id op))" using op by simp
    ultimately show "op \<in> set ?ops" unfolding set_map by (rule rev_image_eqI)
  qed
  have "map sd_id ?ops = ?ids" unfolding map_map by (rule map_idI) (simp only: o_def id)
  then have "distinct (map sd_id ?ops)" by simp
  moreover have "2 * length ?ops + 1 \<le> 2 * length (sc_scheduled s) + 1"
    using length_remdups_leq [of "map fst (sc_scheduled s)"] by simp
  ultimately have "scan_complete now (sc_account s) ?ops 0 (begin_scan now s) f"
    unfolding assms(4) using assms(3) ops by (intro dispatch_run_complete) (simp_all add: begin_scan_def)
  note complete = scan_completeD [OF this]
  have running: "sc_running (begin_scan now s) = sc_running s" by (simp add: begin_scan_def)
  have at: "op \<in> set ?ops \<and> sd_id op = i" if "map_of (sc_scheduled s) i = Some op" for i op
    using store that ops [of op] by (simp add: store_ok_def)
  show ?thesis
  proof (intro conjI allI impI)
    fix i op assume op: "map_of (sc_scheduled s) i = Some op \<and> dispatchable (sc_account s) op"
    with at have mem: "op \<in> set ?ops" "sd_id op = i" by blast+
    show "i \<in> set (executing_ids f)" if "sd_execute_at op \<le> now \<and> map_of (sc_running s) i = None"
      using complete(2) [OF mem(1)] op that mem(2) running by simp
    show "sc_timer f \<noteq> 0" "sc_timer f \<le> sd_execute_at op" if "now < sd_execute_at op"
      using complete(3) [OF mem(1)] op that by simp_all
  next
    assume "sc_timer f \<noteq> 0"
    with complete(4) obtain op where "op \<in> set ?ops" "dispatchable (sc_account s) op" "now < sd_execute_at op" "sc_timer f = sd_execute_at op" by blast
    with ops show "\<exists>i op. map_of (sc_scheduled s) i = Some op \<and> dispatchable (sc_account s) op \<and> now < sd_execute_at op \<and> sc_timer f = sd_execute_at op"
      by blast
  qed (rule complete(1))
qed

text \<open>An operation rescheduled while its previous version runs can be forgotten: if the dispatcher has
  already handled the event of the rescheduling (it skips an operation that is still running), the
  end of the old execution neither causes an event nor sets the timer, so the new version stays
  scheduled and due with nothing running and nothing to wake the dispatcher.\<close>

theorem rescheduled_while_running_is_lost:
  assumes "sched_reachable json_valid digest s" "sc_phase s = Waiting" "sc_events s = 0" "sc_timer s = 0"
    and "k < length (sc_executing s)" "sc_executing s ! k = (op, False)"
    and "map_of (sc_scheduled s) (sd_id op) = Some c" "sd_version c \<noteq> sd_version op" "schedule_live c"
    and "s' = end_execution k (finish_execution clock None receipt k s)"
  shows "map_of (sc_scheduled s') (sd_id op) = Some c \<and> map_of (sc_running s') (sd_id op) = None \<and>
    receive_event now s' = s' \<and> timer_fires now s' = s' \<and> scan_next digest s' = s'"
proof -
  have "running_ok s" using sched_reachable_inv [OF assms(1)] by simp
  moreover have "(op, False) \<in> set (sc_executing s)" using assms(5,6) by (metis nth_mem)
  ultimately obtain r where r: "map_of (sc_running s) (sd_id op) = Some r" "re_version r = sd_version op"
    by (force simp: running_ok_def)
  have "finish_execution clock None receipt k s = s\<lparr>sc_executing := (sc_executing s)[k := (op, True)]\<rparr>"
    using assms(5-8) by (simp add: finish_execution_def execution_result_def Let_def)
  then have "s' = s\<lparr>sc_executing := remove_at k ((sc_executing s)[k := (op, True)]), sc_running := AList.delete (sd_id op) (sc_running s)\<rparr>"
    using assms(5,10) r by (simp add: end_execution_def clear_running_def Let_def)
  then show ?thesis
    using assms(2-4,7) by (simp add: receive_event_def timer_fires_def scan_next_def time_is_zero_def)
qed

section \<open>A concrete run\<close>

text \<open>An operation is scheduled, dispatched, and rescheduled with other arguments while it runs.\<close>

definition demo_account :: account_view where
  "demo_account = \<lparr>av_world_id = ''w'', av_server_url = [], av_account_player = 7, av_player = 7, av_castle_kingdom = Map.empty\<rparr>"

definition demo_request :: "string \<Rightarrow> schedule_request" where
  "demo_request arguments = \<lparr>sq_id = ''a'', sq_intent = ''i'', sq_actor = [], sq_arguments = arguments, sq_execute_at = 1\<rparr>"

definition demo_scheduled :: "nat \<Rightarrow> string \<Rightarrow> schedule_status \<Rightarrow> string \<Rightarrow> scheduled_operation" where
  "demo_scheduled v arguments st oid = \<lparr>sd_id = ''a'', sd_version = v, sd_intent = ''i'', sd_actor = ''scheduler:i'', sd_arguments = arguments,
     sd_execute_at = 1, sd_world_id = ''w'', sd_player_id = 7, sd_created_at = 1, sd_updated_at = 1, sd_status = st,
     sd_last_operation_id = oid, sd_last_error = []\<rparr>"

definition demo_sched :: "(string \<times> scheduled_operation) list \<Rightarrow> (string \<times> running_execution) list \<Rightarrow> (scheduled_operation \<times> bool) list \<Rightarrow>
    nat \<Rightarrow> dispatch_phase \<Rightarrow> bool \<Rightarrow> sched_state" where
  "demo_sched scheduled running executing events phase started = \<lparr>sc_scheduled = scheduled, sc_account = demo_account, sc_running = running,
     sc_executing = executing, sc_cancelled = [], sc_submitted = map (\<lambda>e. (''a'', 1, sd_last_operation_id (fst e))) executing,
     sc_events = events, sc_timer = 0, sc_phase = phase, sc_started = started\<rparr>"

abbreviation (input) demo_oid :: string where "demo_oid \<equiv> ''schedule:D:v1''"
abbreviation (input) demo_exec :: "scheduled_operation" where "demo_exec \<equiv> demo_scheduled 1 ''1'' Sched_running demo_oid"

lemma demo_sched_trim: "trim_space ''a'' = ''a''" "trim_space ''i'' = ''i''" "trim_space ''w'' = ''w''" "to_lower ''w'' = ''w''"
  by code_simp+

lemma demo_bound: "bound_account demo_account = (''w'', 7)"
  by (simp add: bound_account_def demo_account_def demo_sched_trim)

lemma demo_oid: "scheduled_intent_operation_id (\<lambda>x. ''D'') demo_account (demo_scheduled 1 ''1'' Sched_scheduled []) = demo_oid"
  by (simp add: scheduled_intent_operation_id_def demo_scheduled_def show_nat.simps) code_simp

lemma demo_schedule:
  "sc_account s = demo_account \<Longrightarrow> map_of (sc_scheduled s) ''a'' = None \<Longrightarrow>
     schedule_operation (\<lambda>x. True) 1 None (demo_request ''1'') s =
       (None, None, s\<lparr>sc_scheduled := AList.update ''a'' (demo_scheduled 1 ''1'' Sched_scheduled []) (sc_scheduled s), sc_events := Suc (sc_events s)\<rparr>)"
  "sc_account s = demo_account \<Longrightarrow> map_of (sc_scheduled s) ''a'' = Some demo_exec \<Longrightarrow>
     schedule_operation (\<lambda>x. True) 1 None (demo_request ''2'') s =
       (None, Some (''a'', 1), s\<lparr>sc_scheduled := AList.update ''a'' (demo_scheduled 2 ''2'' Sched_scheduled []) (sc_scheduled s), sc_events := Suc (sc_events s)\<rparr>)"
  by (simp_all add: schedule_operation_def check_request_def demo_request_def demo_sched_trim schedule_change_def demo_bound
      demo_scheduled_def time_is_zero_def Let_def numeral_2_eq_2)

lemma demo_dispatchable: "dispatchable demo_account (demo_scheduled v arguments Sched_scheduled oid)" "dispatchable demo_account (demo_scheduled v arguments Sched_running oid)"
  by (simp_all add: dispatchable_def schedule_live_def scheduled_operation_matches_account_def demo_bound demo_scheduled_def demo_sched_trim equal_fold_def Let_def)

lemma demo_sched_reach:
  "sched_reachable (\<lambda>x. True) (\<lambda>x. ''D'') s \<Longrightarrow> sched_step (\<lambda>x. True) (\<lambda>x. ''D'') s t \<Longrightarrow> t = s' \<Longrightarrow>
    sched_reachable (\<lambda>x. True) (\<lambda>x. ''D'') s'"
  using sched_reachable.step by blast

lemma demo_scheduled_simps [simp]:
  "sd_id (demo_scheduled v arguments st oid) = ''a''" "sd_version (demo_scheduled v arguments st oid) = v"
  "sd_execute_at (demo_scheduled v arguments st oid) = 1" "sd_status (demo_scheduled v arguments st oid) = st"
  "sd_last_operation_id (demo_scheduled v arguments st oid) = oid"
  by (simp_all add: demo_scheduled_def)

lemmas demo_live = demo_dispatchable [unfolded dispatchable_def]

lemma demo_claim: "claim_mutation 1 1 demo_account demo_oid (demo_scheduled 1 ''1'' Sched_scheduled []) (Some (demo_scheduled 1 ''1'' Sched_scheduled [])) = Some demo_exec"
  using demo_live(1) [of 1 "''1''" "[]"] by (simp add: claim_mutation_def) (simp add: demo_scheduled_def)

abbreviation (input) demo_running :: "(string \<times> running_execution) list" where
  "demo_running \<equiv> [(''a'', \<lparr>re_version = 1, re_operation_id = demo_oid\<rparr>)]"

lemma demo_idle: "sched_reachable (\<lambda>x. True) (\<lambda>x. ''D'') (demo_sched [(''a'', demo_scheduled 1 ''1'' Sched_scheduled [])] [] [] 1 Waiting True)"
proof -
  have "sched_reachable (\<lambda>x. True) (\<lambda>x. ''D'') (demo_sched [] [] [] 0 Waiting False)"
    using sched_reachable.init [of "\<lambda>x. True" "\<lambda>x. ''D''" demo_account] by (simp add: new_scheduler_def demo_sched_def)
  then have "sched_reachable (\<lambda>x. True) (\<lambda>x. ''D'') (demo_sched [] [] [] 0 (Scanning 1 demo_account [] 0) True)"
    by (rule demo_sched_reach [OF _ sched_step.start [where now = 1]]) (simp add: run_start_def begin_scan_def demo_sched_def)
  then have "sched_reachable (\<lambda>x. True) (\<lambda>x. ''D'') (demo_sched [] [] [] 0 Waiting True)"
    by (rule demo_sched_reach [OF _ sched_step.scan]) (simp add: scan_next_def demo_sched_def)
  then show ?thesis
    by (rule demo_sched_reach [OF _ sched_step.schedule [OF demo_schedule(1)]]) (simp_all add: demo_sched_def)
qed

lemma demo_claiming: "sched_reachable (\<lambda>x. True) (\<lambda>x. ''D'')
  (demo_sched [(''a'', demo_scheduled 1 ''1'' Sched_scheduled [])] demo_running [] 0
     (Claiming 1 demo_account (demo_scheduled 1 ''1'' Sched_scheduled []) demo_oid [] 0) True)"
proof -
  let ?S = "demo_scheduled 1 ''1'' Sched_scheduled []"
  from demo_idle have "sched_reachable (\<lambda>x. True) (\<lambda>x. ''D'') (demo_sched [(''a'', ?S)] [] [] 0 (Scanning 1 demo_account [?S] 0) True)"
    by (rule demo_sched_reach [OF _ sched_step.event [where now = 1]]) (simp add: receive_event_def begin_scan_def demo_sched_def)
  then show ?thesis
    by (rule demo_sched_reach [OF _ sched_step.scan])
      (use demo_live(1) [of 1 "''1''" "[]"] demo_oid in \<open>simp add: scan_next_def demo_sched_def Let_def\<close>)
qed

lemma demo_executing: "sched_reachable (\<lambda>x. True) (\<lambda>x. ''D'') (demo_sched [(''a'', demo_exec)] demo_running [(demo_exec, False)] 0 Waiting True)"
proof -
  from demo_claiming have "sched_reachable (\<lambda>x. True) (\<lambda>x. ''D'')
      (demo_sched [(''a'', demo_exec)] demo_running [(demo_exec, False)] 1 (Scanning 1 demo_account [] 0) True)"
    by (rule demo_sched_reach [OF _ sched_step.claim [where clock = 1 and apply_err = None]])
      (simp add: claim_next_def claim_attempt_def demo_sched_def demo_claim [simplified] Let_def)
  then have "sched_reachable (\<lambda>x. True) (\<lambda>x. ''D'') (demo_sched [(''a'', demo_exec)] demo_running [(demo_exec, False)] 1 Waiting True)"
    by (rule demo_sched_reach [OF _ sched_step.scan]) (simp add: scan_next_def demo_sched_def)
  then have "sched_reachable (\<lambda>x. True) (\<lambda>x. ''D'') (demo_sched [(''a'', demo_exec)] demo_running [(demo_exec, False)] 0 (Scanning 1 demo_account [demo_exec] 0) True)"
    by (rule demo_sched_reach [OF _ sched_step.event [where now = 1]]) (simp add: receive_event_def begin_scan_def demo_sched_def)
  then have "sched_reachable (\<lambda>x. True) (\<lambda>x. ''D'') (demo_sched [(''a'', demo_exec)] demo_running [(demo_exec, False)] 0 (Scanning 1 demo_account [] 0) True)"
    by (rule demo_sched_reach [OF _ sched_step.scan])
      (use demo_live(2) [of 1 "''1''" demo_oid] in \<open>simp add: scan_next_def demo_sched_def Let_def\<close>)
  then show ?thesis
    by (rule demo_sched_reach [OF _ sched_step.scan]) (simp add: scan_next_def demo_sched_def)
qed

lemma demo_rescheduled: "sched_reachable (\<lambda>x. True) (\<lambda>x. ''D'')
  (demo_sched [(''a'', demo_scheduled 2 ''2'' Sched_scheduled [])] demo_running [(demo_exec, False)] 0 Waiting True)"
proof -
  let ?S = "demo_scheduled 2 ''2'' Sched_scheduled []"
  from demo_executing have "sched_reachable (\<lambda>x. True) (\<lambda>x. ''D'') (demo_sched [(''a'', ?S)] demo_running [(demo_exec, False)] 1 Waiting True)"
    by (rule demo_sched_reach [OF _ sched_step.schedule [OF demo_schedule(2)]]) (simp_all add: demo_sched_def)
  then have "sched_reachable (\<lambda>x. True) (\<lambda>x. ''D'') (demo_sched [(''a'', ?S)] demo_running [(demo_exec, False)] 0 (Scanning 1 demo_account [?S] 0) True)"
    by (rule demo_sched_reach [OF _ sched_step.event [where now = 1]]) (simp add: receive_event_def begin_scan_def demo_sched_def)
  then have "sched_reachable (\<lambda>x. True) (\<lambda>x. ''D'') (demo_sched [(''a'', ?S)] demo_running [(demo_exec, False)] 0 (Scanning 1 demo_account [] 0) True)"
    by (rule demo_sched_reach [OF _ sched_step.scan])
      (use demo_live(1) [of 2 "''2''" "[]"] in \<open>simp add: scan_next_def demo_sched_def Let_def\<close>)
  then show ?thesis
    by (rule demo_sched_reach [OF _ sched_step.scan]) (simp add: scan_next_def demo_sched_def)
qed

theorem scheduler_single_execution_witness:
  "map_option re_version (map_of demo_running ''a'') = Some (1 :: nat) \<and> distinct [sd_id demo_exec]"
  using scheduler_single_execution [OF demo_executing] by (simp add: demo_sched_def)

theorem scheduler_one_operation_per_version_witness: "demo_oid \<noteq> []"
  using scheduler_one_operation_per_version [OF demo_executing, of "''a''" 1 demo_oid demo_oid] by (simp add: demo_sched_def)


theorem dispatch_due_complete_witness:
  "''a'' \<in> set (executing_ids (dispatch_run (\<lambda>x. ''D'') 1 3
     (begin_scan 1 (demo_sched [(''a'', demo_scheduled 1 ''1'' Sched_scheduled [])] [] [] 1 Waiting True))))"
  using dispatch_due_complete [OF demo_idle _ _ refl, of 1 1] demo_dispatchable(1) [of 1 "''1''" "[]"]
  by (simp add: demo_sched_def numeral_3_eq_3)

theorem rescheduled_while_running_is_lost_witness:
  "map_of (sc_running (end_execution 0 (finish_execution 5 None (demo_receipt demo_oid Status_cancelled Phase_completed) 0
     (demo_sched [(''a'', demo_scheduled 2 ''2'' Sched_scheduled [])] demo_running [(demo_exec, False)] 0 Waiting True)))) ''a'' = None"
  using rescheduled_while_running_is_lost [OF demo_rescheduled, of 0 demo_exec "demo_scheduled 2 ''2'' Sched_scheduled []", OF _ _ _ _ _ _ _ _ refl]
  by (simp add: demo_sched_def schedule_live_def)

end
