(* ===== verification/Partitions.thy ===== *)
theory Partitions
  imports WaitOrder LegacyClaims "HOL-Library.AList"
begin

text \<open>
  Versions of the partitions of the game state, and the protocol context:
  \<^verbatim>\<open>src/Server/State/Partitions.go\<close>.

  Every change of the game state advances the versions of the partitions it touches; a plan
  remembers the versions it has read and is current as long as none of them has changed. The
  program keeps the versions of the usual partitions in an array with one slot per capability and
  the others in a map. The theory compares this with the plain function from partitions to version
  numbers. The protocol context follows the castle that the game has in focus.
\<close>

section \<open>Scopes and keys\<close>

abbreviation (input) kind_application :: string where "kind_application \<equiv> ''application''"
abbreviation (input) kind_session :: string where "kind_session \<equiv> ''session''"
abbreviation (input) kind_account :: string where "kind_account \<equiv> ''account''"
abbreviation (input) kind_kingdom :: string where "kind_kingdom \<equiv> ''kingdom''"
abbreviation (input) kind_castle :: string where "kind_castle \<equiv> ''castle''"

record scope_key =
  sk_kind :: string
  sk_world :: string
  sk_player :: int
  sk_kingdom :: int
  sk_castle :: int
  sk_session_generation :: nat
  sk_connection_generation :: nat

record partition_key =
  pk_capability :: string
  pk_scope :: scope_key

text \<open>What the scopes and the protocol context read of the game state: the account, the session and
  the castles in focus (in the order in which the map of castles is visited).\<close>

record partition_view = account_view +
  vw_generation :: nat
  vw_connection_generation :: nat
  vw_focused :: "int list"

definition scope_of :: "string \<Rightarrow> scope_key" where
  "scope_of kind = \<lparr>sk_kind = kind, sk_world = [], sk_player = 0, sk_kingdom = 0, sk_castle = 0,
     sk_session_generation = 0, sk_connection_generation = 0\<rparr>"

definition session_scope :: "partition_view \<Rightarrow> scope_key" where
  "session_scope g = (scope_of kind_session)\<lparr>sk_world := trim_space (av_server_url g), sk_player := av_player g,
     sk_session_generation := vw_generation g, sk_connection_generation := vw_connection_generation g\<rparr>"

definition account_scope :: "partition_view \<Rightarrow> scope_key" where
  "account_scope g = (let (world, player) = bound_account (account_view.truncate g)
     in (scope_of kind_account)\<lparr>sk_world := world, sk_player := player\<rparr>)"

definition kingdom_scope :: "partition_view \<Rightarrow> int \<Rightarrow> scope_key" where
  "kingdom_scope g kingdom = (let (world, player) = bound_account (account_view.truncate g)
     in (scope_of kind_kingdom)\<lparr>sk_world := world, sk_player := player, sk_kingdom := kingdom\<rparr>)"

definition castle_scope :: "partition_view \<Rightarrow> int \<Rightarrow> scope_key" where
  "castle_scope g castle = (let (world, player) = bound_account (account_view.truncate g)
     in (scope_of kind_castle)\<lparr>sk_world := world, sk_player := player,
          sk_kingdom := (case av_castle_kingdom g castle of None \<Rightarrow> 0 | Some k \<Rightarrow> k), sk_castle := castle\<rparr>)"

definition normalize_partition_key :: "partition_key \<Rightarrow> partition_key" where
  "normalize_partition_key key =
     (let s = (pk_scope key)\<lparr>sk_world := trim_space (sk_world (pk_scope key))\<rparr>;
          s = (if sk_kind s = kind_application then scope_of kind_application
               else if sk_kind s = kind_session then scope_of kind_session
               else if sk_kind s = kind_kingdom then s\<lparr>sk_castle := 0, sk_session_generation := 0, sk_connection_generation := 0\<rparr>
               else if sk_kind s = kind_castle then s\<lparr>sk_session_generation := 0, sk_connection_generation := 0\<rparr>
               else s\<lparr>sk_kind := kind_account, sk_kingdom := 0, sk_castle := 0, sk_session_generation := 0, sk_connection_generation := 0\<rparr>)
      in \<lparr>pk_capability = norm_str (pk_capability key), pk_scope = s\<rparr>)"

definition partition_key_less :: "partition_key \<Rightarrow> partition_key \<Rightarrow> bool" where
  "partition_key_less left right =
     (let left = normalize_partition_key left; right = normalize_partition_key right; l = pk_scope left; r = pk_scope right
      in if pk_capability left \<noteq> pk_capability right then pk_capability left < pk_capability right
         else if sk_kind l \<noteq> sk_kind r then sk_kind l < sk_kind r
         else if sk_world l \<noteq> sk_world r then sk_world l < sk_world r
         else if sk_player l \<noteq> sk_player r then sk_player l < sk_player r
         else if sk_kingdom l \<noteq> sk_kingdom r then sk_kingdom l < sk_kingdom r
         else if sk_castle l \<noteq> sk_castle r then sk_castle l < sk_castle r
         else if sk_session_generation l \<noteq> sk_session_generation r then sk_session_generation l < sk_session_generation r
         else sk_connection_generation l < sk_connection_generation r)"

text \<open>The loop of \<open>normalizePartitionKeys\<close> keeps the first of equal keys.\<close>

definition normalize_partition_keys :: "partition_key list \<Rightarrow> partition_key list" where
  "normalize_partition_keys keys =
     stable_sort partition_key_less
       (rev (remdups (rev (filter (\<lambda>key. \<not> (pk_capability key = [] \<or> sk_kind (pk_scope key) = [])) (map normalize_partition_key keys)))))"

section \<open>Canonical texts\<close>

text \<open>\<open>url.QueryEscape\<close> on bytes.\<close>

definition hex_digit :: "nat \<Rightarrow> char" where
  "hex_digit n = (if n < 10 then char_of (48 + n) else char_of (55 + n))"

definition unreserved :: "char \<Rightarrow> bool" where
  "unreserved c \<longleftrightarrow> (let n = (of_char c :: nat) in
     48 \<le> n \<and> n \<le> 57 \<or> 65 \<le> n \<and> n \<le> 90 \<or> 97 \<le> n \<and> n \<le> 122 \<or> c \<in> {CHR ''-'', CHR ''_'', CHR ''.'', CHR ''~''})"

definition query_escape_char :: "char \<Rightarrow> string" where
  "query_escape_char c =
     (if unreserved c then [c] else if c = CHR '' '' then ''+''
      else [CHR ''%'', hex_digit (of_char c div 16), hex_digit (of_char c mod 16)])"

definition query_escape :: "string \<Rightarrow> string" where
  "query_escape s = concat (map query_escape_char s)"

definition scope_canonical :: "scope_key \<Rightarrow> string" where
  "scope_canonical s =
     (let world = query_escape (trim_space (sk_world s)) in
      if sk_kind s = kind_application then kind_application
      else if sk_kind s = kind_session then kind_session
      else if sk_kind s = kind_kingdom then ''kingdom:'' @ world @ '':'' @ show_int (sk_player s) @ '':'' @ show_int (sk_kingdom s)
      else if sk_kind s = kind_castle
      then ''castle:'' @ world @ '':'' @ show_int (sk_player s) @ '':'' @ show_int (sk_kingdom s) @ '':'' @ show_int (sk_castle s)
      else ''account:'' @ world @ '':'' @ show_int (sk_player s))"

definition partition_canonical :: "partition_key \<Rightarrow> string" where
  "partition_canonical key = norm_str (pk_capability key) @ ''@'' @ scope_canonical (pk_scope key)"

section \<open>Versions\<close>

record partition_version =
  pv_key :: partition_key
  pv_version :: nat
  pv_revision :: nat
  pv_updated_at :: gotime

type_synonym partition_dependency = "partition_key \<times> nat"

record partition_snapshot =
  sn_common :: "partition_version option list"
  sn_extra :: "(partition_key \<times> partition_version) list"
  sn_count :: nat

definition empty_snapshot :: partition_snapshot where
  "empty_snapshot = \<lparr>sn_common = replicate 32 None, sn_extra = [], sn_count = 0\<rparr>"

text \<open>The slots of \<open>commonPartitionVersionSlot\<close> in their order, and the capabilities of a session
  among them; \<open>None\<close> is the second result \<open>false\<close>.\<close>

definition slot_capabilities :: "string list" where
  "slot_capabilities =
     [''protocol'', ''session'', ''session-context'', ''account-profile'', ''account-wallet'', ''castle-directory'', ''buildings'',
      ''building-queue'', ''construction'', ''construction-items'', ''construction-inventory'', ''construction-commerce'',
      ''inventory'', ''economy'', ''garrison'', ''defense'', ''production'', ''crafting'', ''movement'', ''attacks'', ''logistics'',
      ''leaders'', ''equipment'', ''alliance'', ''world-map'', ''events'', ''reports'', ''automation'']"

definition session_capability :: "string \<Rightarrow> bool" where
  "session_capability capability \<longleftrightarrow> capability \<in> {''protocol'', ''session'', ''session-context'', ''attacks''}"

definition common_partition_version_slot :: "partition_key \<Rightarrow> nat option" where
  "common_partition_version_slot key =
     (case map_of (zip slot_capabilities [0..<28]) (pk_capability key) of None \<Rightarrow> None
      | Some slot \<Rightarrow>
          if sk_kind (pk_scope key) = (if session_capability (pk_capability key) then kind_session else kind_account) then Some slot else None)"

definition version_at :: "partition_snapshot \<Rightarrow> partition_key \<Rightarrow> nat" where
  "version_at s key =
     (case common_partition_version_slot key of
        Some slot \<Rightarrow> (case sn_common s ! slot of None \<Rightarrow> 0 | Some v \<Rightarrow> if pv_key v \<noteq> key then 0 else pv_version v)
      | None \<Rightarrow> (case map_of (sn_extra s) key of None \<Rightarrow> 0 | Some v \<Rightarrow> pv_version v))"

definition partition_version_of :: "partition_snapshot option \<Rightarrow> partition_key \<Rightarrow> nat" where
  "partition_version_of s key = (case s of None \<Rightarrow> 0 | Some s \<Rightarrow> version_at s (normalize_partition_key key))"

definition partition_dependencies :: "partition_snapshot option \<Rightarrow> partition_key list \<Rightarrow> partition_dependency list" where
  "partition_dependencies s keys = map (\<lambda>key. (key, partition_version_of s key)) (normalize_partition_keys keys)"

definition partitions_current :: "partition_snapshot option \<Rightarrow> partition_dependency list \<Rightarrow> bool" where
  "partitions_current s deps = list_all (\<lambda>(key, version). partition_version_of s key = version) deps"

definition list_versions :: "partition_snapshot option \<Rightarrow> partition_version list" where
  "list_versions s =
     (case s of None \<Rightarrow> []
      | Some s \<Rightarrow> stable_sort (\<lambda>a b. partition_key_less (pv_key a) (pv_key b))
          (List.map_filter id (sn_common s) @ map snd (sn_extra s)))"

text \<open>One iteration of the loop of \<open>advancePartitionVersions\<close>; \<open>current\<close> is the snapshot it started
  from. The copy of the extra map on the first write is not visible.\<close>

definition advance_key :: "partition_snapshot option \<Rightarrow> nat \<Rightarrow> gotime \<Rightarrow> partition_key \<Rightarrow> partition_snapshot \<times> partition_version list \<Rightarrow>
    partition_snapshot \<times> partition_version list" where
  "advance_key current revision updated_at key acc =
     (let (s, changed) = acc;
          slot = common_partition_version_slot key;
          previous = (case slot of
              Some i \<Rightarrow> (case sn_common s ! i of None \<Rightarrow> None | Some v \<Rightarrow> if pv_key v \<noteq> key then None else Some v)
            | None \<Rightarrow> map_of (sn_extra s) key);
          version = \<lparr>pv_key = key, pv_version = (case previous of None \<Rightarrow> 1 | Some v \<Rightarrow> pv_version v + 1),
                     pv_revision = revision, pv_updated_at = updated_at\<rparr>;
          replaced = (case (slot, current) of (Some i, Some c) \<Rightarrow> sn_common c ! i \<noteq> None | _ \<Rightarrow> False)
      in (s\<lparr>sn_common := (case slot of Some i \<Rightarrow> (sn_common s)[i := Some version] | None \<Rightarrow> sn_common s),
            sn_extra := (case slot of Some i \<Rightarrow> sn_extra s | None \<Rightarrow> AList.update key version (sn_extra s)),
            sn_count := (if previous = None \<and> \<not> replaced then sn_count s + 1 else sn_count s)\<rparr>,
          changed @ [version]))"

definition advance_partition_versions :: "partition_snapshot option \<Rightarrow> partition_key list \<Rightarrow> nat \<Rightarrow> gotime \<Rightarrow>
    partition_snapshot \<times> partition_version list" where
  "advance_partition_versions current keys revision updated_at =
     fold (advance_key current revision updated_at) (normalize_partition_keys keys)
       (case current of None \<Rightarrow> empty_snapshot | Some c \<Rightarrow> c, [])"

section \<open>The protocol context\<close>

datatype focus_subcontext = Subcontext_unknown | Subcontext_castle | Subcontext_map

record protocol_context =
  pc_session_generation :: nat
  pc_connection_generation :: nat
  pc_focused_castle :: int
  pc_focus_subcontext :: focus_subcontext
  pc_focus_epoch :: nat
  pc_bup_castle :: int
  pc_bup_focus_epoch :: nat
  pc_bup_serial :: nat
  pc_ahr_covered_serial :: nat
  pc_ahr_focus_covered :: bool
  pc_ahr_pending :: bool
  pc_observed_at :: gotime
  pc_focused_kingdom :: int
  pc_focus_changed_at :: gotime
  pc_map_read_sent_at :: gotime
  pc_map_read_settled_at :: gotime

definition map_read_in_flight :: "protocol_context \<Rightarrow> bool" where
  "map_read_in_flight c \<longleftrightarrow> \<not> time_is_zero (pc_map_read_sent_at c) \<and> pc_focus_changed_at c < pc_map_read_sent_at c \<and>
     pc_map_read_settled_at c < pc_map_read_sent_at c"

definition clear_recruitment_bup_batch :: "protocol_context \<Rightarrow> protocol_context" where
  "clear_recruitment_bup_batch c = c\<lparr>pc_bup_castle := 0, pc_bup_focus_epoch := 0, pc_bup_serial := 0, pc_ahr_covered_serial := 0,
     pc_ahr_focus_covered := False, pc_ahr_pending := False\<rparr>"

definition contains_partition_capability :: "partition_key list \<Rightarrow> string \<Rightarrow> bool" where
  "contains_partition_capability partitions capability = list_ex (\<lambda>p. norm_str (pk_capability p) = norm_str capability) partitions"

definition contains_domain :: "string list \<Rightarrow> string \<Rightarrow> bool" where
  "contains_domain domains wanted = list_ex (\<lambda>d. norm_str d = norm_str wanted) domains"

definition focused_castle :: "partition_view \<Rightarrow> int" where
  "focused_castle g = (case vw_focused g of [] \<Rightarrow> 0 | castle # _ \<Rightarrow> castle)"

definition castle_kingdom :: "partition_view \<Rightarrow> int \<Rightarrow> int" where
  "castle_kingdom g castle = (if castle = 0 then 0 else case av_castle_kingdom g castle of None \<Rightarrow> 0 | Some k \<Rightarrow> k)"

definition initial_protocol_context :: "partition_view \<Rightarrow> gotime \<Rightarrow> protocol_context" where
  "initial_protocol_context g updated_at =
     (let focused = vw_focused g \<noteq> [] in
      \<lparr>pc_session_generation = vw_generation g, pc_connection_generation = vw_connection_generation g,
       pc_focused_castle = focused_castle g, pc_focus_subcontext = (if focused then Subcontext_castle else Subcontext_unknown),
       pc_focus_epoch = (if focused then 1 else 0), pc_bup_castle = 0, pc_bup_focus_epoch = 0, pc_bup_serial = 0,
       pc_ahr_covered_serial = 0, pc_ahr_focus_covered = False, pc_ahr_pending = False,
       pc_observed_at = (if focused then updated_at else time_zero), pc_focused_kingdom = 0, pc_focus_changed_at = time_zero,
       pc_map_read_sent_at = time_zero, pc_map_read_settled_at = time_zero\<rparr>)"

text \<open>The two parts of \<open>nextProtocolContext\<close>: a change of session, and a change of focus.\<close>

definition rebind_session :: "partition_view \<Rightarrow> gotime \<Rightarrow> protocol_context \<Rightarrow> protocol_context" where
  "rebind_session g observed_at c =
     (if pc_session_generation c \<noteq> vw_generation g \<or> pc_connection_generation c \<noteq> vw_connection_generation g
      then (clear_recruitment_bup_batch c)\<lparr>pc_session_generation := vw_generation g, pc_connection_generation := vw_connection_generation g,
             pc_focused_castle := 0, pc_focused_kingdom := 0, pc_focus_subcontext := Subcontext_unknown,
             pc_focus_epoch := pc_focus_epoch c + 1, pc_focus_changed_at := observed_at, pc_observed_at := observed_at\<rparr>
      else c)"

definition next_subcontext :: "partition_view \<Rightarrow> focus_subcontext \<Rightarrow> protocol_context \<Rightarrow> focus_subcontext" where
  "next_subcontext g subcontext c =
     (if focused_castle g = 0 then Subcontext_unknown
      else if subcontext \<noteq> Subcontext_unknown then subcontext
      else if pc_focused_castle c \<noteq> focused_castle g then Subcontext_castle
      else pc_focus_subcontext c)"

definition refocus :: "partition_view \<Rightarrow> focus_subcontext \<Rightarrow> gotime \<Rightarrow> protocol_context \<Rightarrow> protocol_context" where
  "refocus g subcontext observed_at c =
     (if pc_focused_castle c \<noteq> focused_castle g \<or> pc_focus_subcontext c \<noteq> next_subcontext g subcontext c
      then (clear_recruitment_bup_batch c)\<lparr>pc_focused_castle := focused_castle g, pc_focus_subcontext := next_subcontext g subcontext c,
             pc_focus_epoch := pc_focus_epoch c + 1, pc_focus_changed_at := observed_at\<rparr>
      else c)\<lparr>pc_focused_kingdom := castle_kingdom g (focused_castle g)\<rparr>"

definition next_protocol_context :: "protocol_context \<Rightarrow> partition_view \<Rightarrow> string list \<Rightarrow> partition_key list \<Rightarrow> focus_subcontext \<Rightarrow> gotime \<Rightarrow>
    protocol_context" where
  "next_protocol_context current g domains partitions subcontext observed_at =
     (let c = rebind_session g observed_at current in
      if subcontext = Subcontext_unknown \<and> \<not> contains_domain domains ''session-context'' \<and>
         \<not> contains_partition_capability partitions ''session-context'' then c
      else (refocus g subcontext observed_at c)\<lparr>pc_session_generation := vw_generation g,
             pc_connection_generation := vw_connection_generation g, pc_observed_at := observed_at\<rparr>)"

section \<open>Partitions of domains\<close>

definition domain_capabilities :: "(string \<times> string) list" where
  "domain_capabilities =
     [(''protocol'', ''protocol''), (''session'', ''session''), (''session-context'', ''session-context''), (''command-context'', ''session-context''),
      (''attack_dialog'', ''attacks''), (''attack-dialog'', ''attacks''), (''player'', ''account-profile''), (''achievements'', ''account-profile''),
      (''legend-skills'', ''account-profile''), (''subscriptions'', ''account-profile''), (''currencies'', ''account-wallet''),
      (''ruby-confirmation'', ''account-wallet''), (''castles'', ''castle-directory''), (''buildings'', ''buildings''),
      (''building-layout'', ''buildings''), (''building-queue'', ''building-queue''), (''building-construction'', ''building-queue''),
      (''construction-items'', ''construction-items''), (''construction-offers'', ''construction-commerce''), (''resources'', ''economy''),
      (''market'', ''economy''), (''units'', ''garrison''), (''beri'', ''garrison''), (''defense'', ''defense''), (''khan'', ''defense''),
      (''production'', ''production''), (''crafting'', ''crafting''), (''movements'', ''movement''), (''stationing'', ''movement''),
      (''kingdom-transport'', ''logistics''), (''commanders'', ''leaders''), (''castellans'', ''leaders''), (''generals'', ''leaders''),
      (''general-skills'', ''leaders''), (''equipment'', ''equipment''), (''gems'', ''equipment''), (''inventory'', ''inventory''),
      (''storage'', ''inventory''), (''alliance'', ''alliance''), (''alliances'', ''alliance''), (''map'', ''world-map''), (''events'', ''events''),
      (''event-scores'', ''events''), (''tower-cooldowns'', ''events''), (''tower-queue'', ''events''), (''invasion'', ''events''),
      (''storm'', ''events''), (''nomad-camps'', ''events''), (''rift'', ''events''), (''reports'', ''reports''), (''automations'', ''automation''),
      (''scheduled'', ''automation'')]"

definition capability_for_domain :: "string \<Rightarrow> string" where
  "capability_for_domain domain =
     (let normalized = norm_str domain in
      if has_prefix normalized ''map-'' \<or> normalized = ''storm-scan-progress'' \<or> normalized = ''fortress-scan-progress'' \<or> normalized = ''storm-scan''
      then ''world-map''
      else case map_of domain_capabilities normalized of None \<Rightarrow> norm_str domain | Some c \<Rightarrow> c)"

definition session_partition :: "partition_view \<Rightarrow> string \<Rightarrow> partition_key" where
  "session_partition g capability = \<lparr>pk_capability = norm_str capability, pk_scope = session_scope g\<rparr>"

definition account_partition :: "partition_view \<Rightarrow> string \<Rightarrow> partition_key" where
  "account_partition g capability = \<lparr>pk_capability = norm_str capability, pk_scope = account_scope g\<rparr>"

definition default_partition_keys :: "partition_view \<Rightarrow> string list \<Rightarrow> partition_key list" where
  "default_partition_keys g domains =
     concat (map (\<lambda>domain. let capability = capability_for_domain domain in
         if capability = [] then []
         else [if session_capability capability then session_partition g capability else account_partition g capability] @
              (if capability = ''session'' then [session_partition g ''session-context''] else []) @
              (if to_lower (trim_space domain) = ''resources'' then [account_partition g ''account-wallet''] else [])) domains)"

section \<open>Lemmas on keys\<close>

lemma normalize_partition_key_idem [simp]: "normalize_partition_key (normalize_partition_key k) = normalize_partition_key k"
  by (simp add: normalize_partition_key_def Let_def scope_of_def str_simps)

lemma normalized_keys: "k \<in> set (normalize_partition_keys keys) \<Longrightarrow> normalize_partition_key k = k"
  by (auto simp: normalize_partition_keys_def)

lemma distinct_normalized_keys: "distinct (normalize_partition_keys keys)"
  using distinct_map_stable_sort [of id partition_key_less] by (simp add: normalize_partition_keys_def del: distinct_map_stable_sort)

lemma slot_bound: "common_partition_version_slot k = Some i \<Longrightarrow> i < 28"
  by (auto simp: common_partition_version_slot_def split: option.splits if_splits dest!: map_of_SomeD set_zip_rightD)

text \<open>Two keys with one slot differ at most in their scope's identity.\<close>

lemma slot_same:
  assumes "common_partition_version_slot k = Some i" "common_partition_version_slot l = Some i"
  shows "pk_capability k = pk_capability l \<and> sk_kind (pk_scope k) = sk_kind (pk_scope l)"
proof -
  have "pk_capability k = slot_capabilities ! i" if "common_partition_version_slot k = Some i" for k
    using that by (auto simp: common_partition_version_slot_def set_zip split: option.splits if_splits dest!: map_of_SomeD)
  then have "pk_capability k = pk_capability l" using assms by metis
  with assms show ?thesis by (auto simp: common_partition_version_slot_def split: option.splits if_splits)
qed

section \<open>Versions as a function\<close>

text \<open>The reference: a function from partitions to versions. An advance of a partition increments its
  version; a partition that shares the slot but has another identity starts from zero again.\<close>

definition advance_reference :: "partition_key \<Rightarrow> (partition_key \<Rightarrow> nat) \<Rightarrow> partition_key \<Rightarrow> nat" where
  "advance_reference key f k =
     (if k = key then f key + 1
      else if common_partition_version_slot key \<noteq> None \<and> common_partition_version_slot k = common_partition_version_slot key then 0
      else f k)"

type_synonym advance = "partition_key list \<times> nat \<times> gotime"

definition advance_snapshot :: "advance \<Rightarrow> partition_snapshot option \<Rightarrow> partition_snapshot option" where
  "advance_snapshot a s = (case a of (keys, revision, updated_at) \<Rightarrow> Some (fst (advance_partition_versions s keys revision updated_at)))"

definition snapshot_after :: "advance list \<Rightarrow> partition_snapshot option" where
  "snapshot_after history = fold advance_snapshot history (Some empty_snapshot)"

definition advanced_keys :: "advance list \<Rightarrow> partition_key list" where
  "advanced_keys history = concat (map (\<lambda>a. normalize_partition_keys (fst a)) history)"

definition slots_ok :: "partition_snapshot \<Rightarrow> bool" where
  "slots_ok s \<longleftrightarrow> length (sn_common s) = 32"

lemma advance_key_version:
  assumes "slots_ok s"
  shows "slots_ok (fst (advance_key current revision updated_at key (s, changed))) \<and>
    version_at (fst (advance_key current revision updated_at key (s, changed))) = advance_reference key (version_at s)"
proof (cases "common_partition_version_slot key")
  case None
  then have "version_at (fst (advance_key current revision updated_at key (s, changed))) k = advance_reference key (version_at s) k" for k
    by (auto simp: advance_key_def advance_reference_def version_at_def Let_def update_conv' split: option.splits)
  with None assms show ?thesis by (simp add: slots_ok_def advance_key_def Let_def fun_eq_iff)
next
  case (Some i)
  then have i: "i < length (sn_common s)" using assms slot_bound [OF Some] by (simp add: slots_ok_def)
  have "version_at (fst (advance_key current revision updated_at key (s, changed))) k = advance_reference key (version_at s) k" for k
  proof (cases "common_partition_version_slot k")
    case None
    with Some have "k \<noteq> key" by auto
    with None Some show ?thesis by (simp add: advance_key_def advance_reference_def version_at_def Let_def)
  next
    case (Some j)
    with \<open>common_partition_version_slot key = Some i\<close> i show ?thesis
      by (cases "i = j"; cases "sn_common s ! i")
        (auto simp: advance_key_def advance_reference_def version_at_def Let_def split: option.split)
  qed
  with Some assms show ?thesis by (simp add: slots_ok_def advance_key_def Let_def fun_eq_iff)
qed

lemma fold_advance_key_version:
  "slots_ok s \<Longrightarrow> slots_ok (fst (fold (advance_key current revision updated_at) keys (s, changed))) \<and>
    version_at (fst (fold (advance_key current revision updated_at) keys (s, changed))) = fold advance_reference keys (version_at s)"
proof (induction keys arbitrary: s changed)
  case (Cons key keys)
  obtain s' changed' where step: "advance_key current revision updated_at key (s, changed) = (s', changed')" by fastforce
  with advance_key_version [OF Cons.prems, of current revision updated_at key changed] Cons.IH [of s' changed'] show ?case by simp
qed simp

lemma version_empty: "version_at empty_snapshot k = 0"
  using slot_bound [of k] by (auto simp: version_at_def empty_snapshot_def split: option.split)

lemma slots_ok_empty: "slots_ok empty_snapshot"
  by (simp add: slots_ok_def empty_snapshot_def)

lemma snapshot_after_version:
  "\<exists>s. snapshot_after history = Some s \<and> slots_ok s \<and> version_at s = fold advance_reference (advanced_keys history) (\<lambda>_. 0)"
proof (induction history rule: rev_induct)
  case Nil
  show ?case by (simp add: snapshot_after_def advanced_keys_def slots_ok_empty version_empty fun_eq_iff)
next
  case (snoc a history)
  then obtain s where s: "snapshot_after history = Some s" "slots_ok s" "version_at s = fold advance_reference (advanced_keys history) (\<lambda>_. 0)"
    by blast
  obtain keys revision updated_at where a: "a = (keys, revision, updated_at)" by (cases a) simp
  show ?case
    using fold_advance_key_version [OF s(2), of "Some s" revision updated_at "normalize_partition_keys keys" "[]"] s(1,3)
    by (simp add: snapshot_after_def advanced_keys_def advance_snapshot_def advance_partition_versions_def a)
qed

lemma version_counts_advances:
  "partition_version_of (snapshot_after history) key =
     fold advance_reference (advanced_keys history) (\<lambda>_. 0) (normalize_partition_key key)"
  using snapshot_after_version [of history] by (auto simp: partition_version_of_def)


section \<open>When a dependency is current\<close>

text \<open>The keys of one bound account: those that \<open>AccountPartition\<close> and its siblings build for it.\<close>

definition key_of_account :: "string \<times> int \<Rightarrow> partition_key \<Rightarrow> bool" where
  "key_of_account account key \<longleftrightarrow> (let s = pk_scope (normalize_partition_key key) in
     sk_kind s \<in> {kind_application, kind_session} \<or> (sk_world s, sk_player s) = account)"

lemma same_slot_same_key:
  assumes "key_of_account account k" "key_of_account account l" "normalize_partition_key k = k" "normalize_partition_key l = l"
    "common_partition_version_slot k = Some i" "common_partition_version_slot l = Some i"
  shows "k = l"
proof -
  have same: "pk_capability k = pk_capability l" "sk_kind (pk_scope k) = sk_kind (pk_scope l)"
    using slot_same [OF assms(5,6)] by blast+
  have "sk_kind (pk_scope k) = kind_session \<or> sk_kind (pk_scope k) = kind_account"
    using assms(5) by (auto simp: common_partition_version_slot_def split: option.splits if_splits)
  then show ?thesis
  proof
    assume session: "sk_kind (pk_scope k) = kind_session"
    then have "pk_scope (normalize_partition_key k) = scope_of kind_session" "pk_scope (normalize_partition_key l) = scope_of kind_session"
      using same(2) by (simp_all add: normalize_partition_key_def scope_of_def)
    with assms(3,4) same(1) show ?thesis by (metis partition_key.equality unit.exhaust old.unit.exhaust)
  next
    assume acc: "sk_kind (pk_scope k) = kind_account"
    have shape: "sk_kingdom (pk_scope m) = 0 \<and> sk_castle (pk_scope m) = 0 \<and> sk_session_generation (pk_scope m) = 0 \<and>
        sk_connection_generation (pk_scope m) = 0 \<and> (sk_world (pk_scope m), sk_player (pk_scope m)) = account"
      if "normalize_partition_key m = m" "sk_kind (pk_scope m) = kind_account" "key_of_account account m" for m
    proof -
      have "pk_scope (normalize_partition_key m) = (pk_scope m)\<lparr>sk_world := trim_space (sk_world (pk_scope m)), sk_kind := kind_account,
          sk_kingdom := 0, sk_castle := 0, sk_session_generation := 0, sk_connection_generation := 0\<rparr>"
        using that(2) by (simp add: normalize_partition_key_def)
      then have eq: "pk_scope m = (pk_scope m)\<lparr>sk_world := trim_space (sk_world (pk_scope m)), sk_kind := kind_account,
          sk_kingdom := 0, sk_castle := 0, sk_session_generation := 0, sk_connection_generation := 0\<rparr>" using that(1) by simp
      have "sk_kingdom (pk_scope m) = 0 \<and> sk_castle (pk_scope m) = 0 \<and> sk_session_generation (pk_scope m) = 0 \<and>
        sk_connection_generation (pk_scope m) = 0" by (subst (1 2 3 4) eq) simp
      with that show ?thesis by (simp add: key_of_account_def Let_def)
    qed
    show ?thesis
      using shape [OF assms(3) acc assms(1)] shape [OF assms(4) _ assms(2)] acc same
      by (intro partition_key.equality scope_key.equality) auto
  qed
qed

lemma key_of_account_normalize [simp]: "key_of_account account (normalize_partition_key k) = key_of_account account k"
  by (simp add: key_of_account_def)

lemma partitions_of_account:
  "key_of_account (bound_account (account_view.truncate g)) (session_partition g capability)"
  "key_of_account (bound_account (account_view.truncate g)) (account_partition g capability)"
  "key_of_account (bound_account (account_view.truncate g)) \<lparr>pk_capability = capability, pk_scope = kingdom_scope g kingdom\<rparr>"
  "key_of_account (bound_account (account_view.truncate g)) \<lparr>pk_capability = capability, pk_scope = castle_scope g castle\<rparr>"
proof -
  have "trim_space (fst (bound_account a)) = fst (bound_account a)" for a by (simp add: bound_account_def Let_def str_simps)
  then have "bound_account (account_view.truncate g) = (w, p) \<Longrightarrow> trim_space w = w" for w p by (metis fst_conv)
  then show "key_of_account (bound_account (account_view.truncate g)) (session_partition g capability)"
    "key_of_account (bound_account (account_view.truncate g)) (account_partition g capability)"
    "key_of_account (bound_account (account_view.truncate g)) \<lparr>pk_capability = capability, pk_scope = kingdom_scope g kingdom\<rparr>"
    "key_of_account (bound_account (account_view.truncate g)) \<lparr>pk_capability = capability, pk_scope = castle_scope g castle\<rparr>"
    by (auto simp: key_of_account_def session_partition_def session_scope_def account_partition_def account_scope_def kingdom_scope_def
        castle_scope_def normalize_partition_key_def scope_of_def Let_def split: prod.splits)
qed

lemma fold_reference_count:
  "\<forall>l \<in> set ks. common_partition_version_slot l \<noteq> None \<and> common_partition_version_slot k = common_partition_version_slot l \<longrightarrow> k = l \<Longrightarrow>
    fold advance_reference ks f k = f k + count_list ks k"
  by (induction ks arbitrary: f) (auto simp: advance_reference_def)

lemma advanced_keys_append: "advanced_keys (h @ h') = advanced_keys h @ advanced_keys h'"
  by (simp add: advanced_keys_def)

lemma set_normalized_keys: "set (normalize_partition_keys keys) \<subseteq> normalize_partition_key ` set keys"
  by (auto simp: normalize_partition_keys_def)

lemma advanced_key_of_account:
  "\<forall>k \<in> (\<Union>a \<in> set later. set (fst a)). key_of_account account k \<Longrightarrow> l \<in> set (advanced_keys later) \<Longrightarrow>
    key_of_account account l \<and> normalize_partition_key l = l"
  using set_normalized_keys normalized_keys by (fastforce simp: advanced_keys_def)

lemma current_while_untouched:
  assumes "\<forall>k \<in> set keys \<union> (\<Union>a \<in> set later. set (fst a)). key_of_account account k"
  shows "partitions_current (snapshot_after (history @ later)) (partition_dependencies (snapshot_after history) keys) \<longleftrightarrow>
    set (normalize_partition_keys keys) \<inter> set (advanced_keys later) = {}"
proof -
  have version: "partition_version_of (snapshot_after (history @ later)) k = partition_version_of (snapshot_after history) k + count_list (advanced_keys later) k"
    if "k \<in> set (normalize_partition_keys keys)" for k
  proof -
    have k: "normalize_partition_key k = k" "key_of_account account k"
      using that assms normalized_keys set_normalized_keys by fastforce+
    have "\<forall>l \<in> set (advanced_keys later). common_partition_version_slot l \<noteq> None \<and>
        common_partition_version_slot k = common_partition_version_slot l \<longrightarrow> k = l"
      using same_slot_same_key [OF k(2) _ k(1)] advanced_key_of_account [of later account] assms by fastforce
    then show ?thesis
      unfolding version_counts_advances advanced_keys_append fold_append comp_def k(1) by (rule fold_reference_count)
  qed
  show ?thesis
    by (auto simp: partitions_current_def partition_dependencies_def list_all_iff version count_list_0_iff)
qed

text \<open>As long as one account is bound, a plan's dependencies are current exactly as long as none of the
  partitions it has read has been advanced.\<close>

theorem dependencies_current_iff:
  assumes "\<forall>k \<in> set keys \<union> (\<Union>a \<in> set later. set (fst a)). key_of_account account k"
  shows "partitions_current (snapshot_after (history @ later)) (partition_dependencies (snapshot_after history) keys) \<longleftrightarrow>
    set (normalize_partition_keys keys) \<inter> set (advanced_keys later) = {}"
  using assms by (rule current_while_untouched)

text \<open>Versions can repeat across a change of account: the slot of a capability is taken over by the new
  account's partition, and the old one starts at one again when its account returns. A dependency
  on its first version is then current although the partition has been advanced since.\<close>

theorem rebinding_repeats_versions:
  assumes "partition_version_of (snapshot_after history) a = 1"
    and "common_partition_version_slot (normalize_partition_key a) \<noteq> None"
    and "common_partition_version_slot (normalize_partition_key b) = common_partition_version_slot (normalize_partition_key a)"
    and "normalize_partition_key b \<noteq> normalize_partition_key a"
  shows "partitions_current (snapshot_after (history @ [([b], r, t), ([a], r', t')])) (partition_dependencies (snapshot_after history) [a]) \<and>
    partition_dependencies (snapshot_after history) [a] = [(normalize_partition_key a, 1)] \<and>
    normalize_partition_key a \<in> set (advanced_keys [([b], r, t), ([a], r', t')])"
proof -
  have "normalize_partition_keys [k] = [normalize_partition_key k]" if "common_partition_version_slot (normalize_partition_key k) \<noteq> None" for k
  proof -
    have "pk_capability (normalize_partition_key k) \<in> set slot_capabilities"
      using that by (auto simp: common_partition_version_slot_def split: option.splits dest!: map_of_SomeD set_zip_leftD)
    then have "pk_capability (normalize_partition_key k) \<noteq> []" by (auto simp: slot_capabilities_def)
    moreover have "sk_kind (pk_scope (normalize_partition_key k)) \<noteq> []" by (simp add: normalize_partition_key_def scope_of_def Let_def)
    ultimately show ?thesis by (simp add: normalize_partition_keys_def stable_sort_def)
  qed
  then have one: "normalize_partition_keys [a] = [normalize_partition_key a]" "normalize_partition_keys [b] = [normalize_partition_key b]"
    using assms(2,3) by simp_all
  then show ?thesis
    using assms unfolding partitions_current_def partition_dependencies_def
    by (simp add: version_counts_advances advanced_keys_append fold_append)
      (simp add: advanced_keys_def one advance_reference_def)
qed

section \<open>The focus epoch\<close>

definition context_reset :: "gotime \<Rightarrow> protocol_context \<Rightarrow> bool" where
  "context_reset observed_at c \<longleftrightarrow> pc_bup_castle c = 0 \<and> pc_bup_serial c = 0 \<and> \<not> pc_ahr_pending c \<and> pc_focus_changed_at c = observed_at"

text \<open>The focus epoch detects every change of context: it never decreases, and as long as it stays the
  same, so do the session, the connection, the castle in focus and its subcontext. When it
  advances, the batch of recruitment observations is dropped.\<close>

theorem focus_epoch_detects_changes:
  "let c' = next_protocol_context c g domains partitions subcontext observed_at in
    pc_focus_epoch c \<le> pc_focus_epoch c' \<and>
    (pc_focus_epoch c' = pc_focus_epoch c \<longleftrightarrow>
       (pc_session_generation c', pc_connection_generation c', pc_focused_castle c', pc_focus_subcontext c') =
       (pc_session_generation c, pc_connection_generation c, pc_focused_castle c, pc_focus_subcontext c)) \<and>
    (pc_focus_epoch c' \<noteq> pc_focus_epoch c \<longrightarrow> context_reset observed_at c')"
proof -
  let ?early = "subcontext = Subcontext_unknown \<and> \<not> contains_domain domains ''session-context'' \<and> \<not> contains_partition_capability partitions ''session-context''"
  let ?r = "rebind_session g observed_at c"
  let ?f = "refocus g subcontext observed_at ?r"
  have r: "?r = c \<and> pc_session_generation c = vw_generation g \<and> pc_connection_generation c = vw_connection_generation g \<or>
      (pc_session_generation c \<noteq> vw_generation g \<or> pc_connection_generation c \<noteq> vw_connection_generation g) \<and>
      pc_focus_epoch ?r = pc_focus_epoch c + 1 \<and> context_reset observed_at ?r"
    by (simp add: rebind_session_def clear_recruitment_bup_batch_def context_reset_def)
  have f: "pc_focus_epoch ?f = pc_focus_epoch ?r \<and> pc_focused_castle ?f = pc_focused_castle ?r \<and> pc_focus_subcontext ?f = pc_focus_subcontext ?r \<and>
      (context_reset observed_at ?r \<longrightarrow> context_reset observed_at ?f) \<or>
      (pc_focused_castle ?f, pc_focus_subcontext ?f) \<noteq> (pc_focused_castle ?r, pc_focus_subcontext ?r) \<and>
      pc_focus_epoch ?f = pc_focus_epoch ?r + 1 \<and> context_reset observed_at ?f"
    by (auto simp: refocus_def clear_recruitment_bup_batch_def context_reset_def)
  have g: "pc_session_generation ?r = vw_generation g \<and> pc_connection_generation ?r = vw_connection_generation g"
    by (simp add: rebind_session_def)
  show ?thesis
  proof (cases ?early)
    case True
    then have "next_protocol_context c g domains partitions subcontext observed_at = ?r" by (simp add: next_protocol_context_def)
    with r g show ?thesis by (auto simp: context_reset_def)
  next
    case False
    then have "next_protocol_context c g domains partitions subcontext observed_at =
        ?f\<lparr>pc_session_generation := vw_generation g, pc_connection_generation := vw_connection_generation g, pc_observed_at := observed_at\<rparr>"
      unfolding next_protocol_context_def Let_def by (simp only: False if_False)
    then obtain n where n: "next_protocol_context c g domains partitions subcontext observed_at = n" "pc_focus_epoch n = pc_focus_epoch ?f"
        "pc_focused_castle n = pc_focused_castle ?f" "pc_focus_subcontext n = pc_focus_subcontext ?f"
        "pc_session_generation n = vw_generation g" "pc_connection_generation n = vw_connection_generation g"
        "context_reset observed_at ?f \<Longrightarrow> context_reset observed_at n"
      by (simp add: context_reset_def)
    show ?thesis unfolding n(1) Let_def using r
    proof
      assume same: "?r = c \<and> pc_session_generation c = vw_generation g \<and> pc_connection_generation c = vw_connection_generation g"
      from f show "pc_focus_epoch c \<le> pc_focus_epoch n \<and>
        (pc_focus_epoch n = pc_focus_epoch c \<longleftrightarrow>
           (pc_session_generation n, pc_connection_generation n, pc_focused_castle n, pc_focus_subcontext n) =
           (pc_session_generation c, pc_connection_generation c, pc_focused_castle c, pc_focus_subcontext c)) \<and>
        (pc_focus_epoch n \<noteq> pc_focus_epoch c \<longrightarrow> context_reset observed_at n)"
        by (elim disjE) (use same n in \<open>simp_all\<close>)
    next
      assume changed: "(pc_session_generation c \<noteq> vw_generation g \<or> pc_connection_generation c \<noteq> vw_connection_generation g) \<and>
        pc_focus_epoch ?r = pc_focus_epoch c + 1 \<and> context_reset observed_at ?r"
      from f show "pc_focus_epoch c \<le> pc_focus_epoch n \<and>
        (pc_focus_epoch n = pc_focus_epoch c \<longleftrightarrow>
           (pc_session_generation n, pc_connection_generation n, pc_focused_castle n, pc_focus_subcontext n) =
           (pc_session_generation c, pc_connection_generation c, pc_focused_castle c, pc_focus_subcontext c)) \<and>
        (pc_focus_epoch n \<noteq> pc_focus_epoch c \<longrightarrow> context_reset observed_at n)"
        by (elim disjE) (use changed n in \<open>auto\<close>)
    qed
  qed
qed

section \<open>Canonical texts identify partitions\<close>

lemma hex_digit_nat: "n < 16 \<Longrightarrow> (of_char (hex_digit n) :: nat) = (if n < 10 then 48 + n else 55 + n)"
  by (simp add: hex_digit_def)

lemma hex_digit_inj:
  assumes "m < 16" "n < 16" "hex_digit m = hex_digit n"
  shows "m = n"
proof -
  have "(of_char (hex_digit m) :: nat) = of_char (hex_digit n)" by (simp only: assms(3))
  then show ?thesis using assms(1,2) by (simp add: hex_digit_nat split: if_split_asm)
qed

lemma unreserved_simps [simp]:
  "\<not> unreserved (CHR ''%'')" "\<not> unreserved (CHR ''+'')" "\<not> unreserved (CHR '':'')" "\<not> unreserved (CHR ''@'')"
  by (simp_all add: unreserved_def)

lemma query_escape_char_prefix_free:
  assumes "query_escape_char c @ x = query_escape_char d @ y"
  shows "c = d \<and> x = y"
proof (cases "unreserved c \<or> c = CHR '' '' \<or> unreserved d \<or> d = CHR '' ''")
  case True
  then show ?thesis using assms by (elim disjE) (auto simp: query_escape_char_def split: if_splits)
next
  case False
  have byte: "(of_char e :: nat) div 16 < 16" for e :: char using nat_of_char_less_256 [of e] by (intro less_mult_imp_div_less) simp
  from False assms have "hex_digit (of_char c div 16) = hex_digit (of_char d div 16)" "hex_digit (of_char c mod 16) = hex_digit (of_char d mod 16)" "x = y"
    by (simp_all add: query_escape_char_def)
  then have "(of_char c :: nat) div 16 = of_char d div 16" "(of_char c :: nat) mod 16 = of_char d mod 16"
    using hex_digit_inj byte by simp_all
  then show ?thesis using \<open>x = y\<close> by (metis div_mult_mod_eq of_char_eq_iff)
qed

lemma query_escape_inj: "query_escape s = query_escape t \<Longrightarrow> s = t"
proof (induction s arbitrary: t)
  case Nil
  have "query_escape_char c \<noteq> []" for c by (simp add: query_escape_char_def)
  with Nil show ?case by (cases t) (auto simp: query_escape_def)
next
  case (Cons c s)
  have "query_escape_char c \<noteq> []" for c by (simp add: query_escape_char_def)
  with Cons show ?case
    by (cases t) (auto simp: query_escape_def dest: query_escape_char_prefix_free)
qed

lemma query_escape_free: "CHR '':'' \<notin> set (query_escape s)" "CHR ''@'' \<notin> set (query_escape s)"
proof -
  have "CHR '':'' \<noteq> hex_digit n \<and> CHR ''@'' \<noteq> hex_digit n" if "n < 16" for n
    using hex_digit_nat [OF that] that by (auto split: if_splits dest!: arg_cong [where f = "of_char :: char \<Rightarrow> nat"])
  moreover have "(of_char e :: nat) div 16 < 16" for e :: char using nat_of_char_less_256 [of e] by (intro less_mult_imp_div_less) simp
  ultimately have "CHR '':'' \<notin> set (query_escape_char c)" "CHR ''@'' \<notin> set (query_escape_char c)" for c
    by (auto simp: query_escape_char_def)
  then show "CHR '':'' \<notin> set (query_escape s)" "CHR ''@'' \<notin> set (query_escape s)"
    by (auto simp: query_escape_def)
qed

lemma at_not_in_show_int: "CHR ''@'' \<notin> set (show_int i)"
  using show_int_chars [of "CHR ''@''" i] by (auto simp: is_digit_def)

lemma scope_canonical_no_at: "CHR ''@'' \<notin> set (scope_canonical s)"
  by (simp add: scope_canonical_def Let_def query_escape_free at_not_in_show_int)

lemma last_sep_inj: "c \<notin> set s \<Longrightarrow> c \<notin> set t \<Longrightarrow> a @ c # s = b @ c # t \<longleftrightarrow> a = b \<and> s = t"
proof -
  assume free: "c \<notin> set s" "c \<notin> set t"
  have "a @ c # s = b @ c # t \<longleftrightarrow> rev s @ c # rev a = rev t @ c # rev b"
    by (metis append.assoc append_Cons append_Nil rev.simps(2) rev_append rev_is_rev_conv)
  then show ?thesis using append_sep_inj [of c "rev s" "rev t" "rev a" "rev b"] free by auto
qed

lemma scope_canonical_iff:
  "scope_canonical s = scope_canonical t \<longleftrightarrow>
    pk_scope (normalize_partition_key \<lparr>pk_capability = [], pk_scope = s\<rparr>) = pk_scope (normalize_partition_key \<lparr>pk_capability = [], pk_scope = t\<rparr>)"
proof -
  have fields: "a @ CHR '':'' # b = c @ CHR '':'' # d \<longleftrightarrow> a = c \<and> b = d" if "CHR '':'' \<notin> set a" "CHR '':'' \<notin> set c" for a b c d
    using that by (rule append_sep_inj)
  have worlds: "query_escape u = query_escape v \<longleftrightarrow> u = v" for u v using query_escape_inj by blast
  have ints: "show_int i = show_int j \<longleftrightarrow> i = j" for i j using show_int_inj by blast
  show ?thesis
    by (cases s; cases t) (auto simp: scope_canonical_def normalize_partition_key_def scope_of_def Let_def fields query_escape_free worlds ints)
qed

text \<open>The canonical text of a partition identifies it: two keys have the same text exactly when their
  normal forms are equal, so the dependencies of a plan, which are merged by text, and the versions,
  which are looked up by normal form, agree on what one partition is.\<close>

theorem partition_canonical_iff:
  "partition_canonical k = partition_canonical l \<longleftrightarrow> normalize_partition_key k = normalize_partition_key l"
proof -
  have "partition_canonical k = partition_canonical l \<longleftrightarrow>
      norm_str (pk_capability k) = norm_str (pk_capability l) \<and> scope_canonical (pk_scope k) = scope_canonical (pk_scope l)"
    by (simp add: partition_canonical_def last_sep_inj scope_canonical_no_at)
  moreover have "pk_capability (normalize_partition_key m) = norm_str (pk_capability m)"
    "pk_scope (normalize_partition_key m) = pk_scope (normalize_partition_key \<lparr>pk_capability = [], pk_scope = pk_scope m\<rparr>)" for m
    by (simp_all add: normalize_partition_key_def Let_def)
  ultimately show ?thesis unfolding scope_canonical_iff by (metis partition_key.equality unit.exhaust old.unit.exhaust)
qed

section \<open>Concrete partitions\<close>

definition demo_partition :: "string \<Rightarrow> int \<Rightarrow> string \<Rightarrow> partition_key" where
  "demo_partition world player capability = \<lparr>pk_capability = capability, pk_scope = (scope_of kind_account)\<lparr>sk_world := world, sk_player := player\<rparr>\<rparr>"

lemma demo_partition_normal:
  "normalize_partition_key (demo_partition ''w'' i ''economy'') = demo_partition ''w'' i ''economy''"
  "normalize_partition_key (demo_partition ''w'' i ''garrison'') = demo_partition ''w'' i ''garrison''"
proof -
  have "norm_str ''economy'' = ''economy''" "norm_str ''garrison'' = ''garrison''" "trim_space ''w'' = ''w''" by (code_simp, code_simp, code_simp)
  then show "normalize_partition_key (demo_partition ''w'' i ''economy'') = demo_partition ''w'' i ''economy''"
    "normalize_partition_key (demo_partition ''w'' i ''garrison'') = demo_partition ''w'' i ''garrison''"
    by (simp_all add: normalize_partition_key_def demo_partition_def scope_of_def)
qed

lemma demo_partition_keys:
  "normalize_partition_keys [demo_partition ''w'' i ''economy''] = [demo_partition ''w'' i ''economy'']"
  "normalize_partition_keys [demo_partition ''w'' i ''garrison''] = [demo_partition ''w'' i ''garrison'']"
  using demo_partition_normal [of i]
  by (simp_all add: normalize_partition_keys_def stable_sort_def) (simp_all add: demo_partition_def scope_of_def)

lemma demo_partition_slot: "common_partition_version_slot (demo_partition ''w'' i ''economy'') = Some 13"
  by (simp add: common_partition_version_slot_def demo_partition_def scope_of_def slot_capabilities_def session_capability_def upt_conv_Cons)

lemma demo_partition_inj: "demo_partition w i c = demo_partition w j d \<longleftrightarrow> i = j \<and> c = d"
  by (auto simp: demo_partition_def scope_of_def)

theorem dependencies_current_iff_witness:
  "partitions_current (snapshot_after ([] @ [([demo_partition ''w'' 7 ''garrison''], 1, 5)]))
     (partition_dependencies (snapshot_after []) [demo_partition ''w'' 7 ''economy'']) \<and>
   \<not> partitions_current (snapshot_after ([] @ [([demo_partition ''w'' 7 ''economy''], 1, 5)]))
     (partition_dependencies (snapshot_after []) [demo_partition ''w'' 7 ''economy''])"
proof -
  have "key_of_account (''w'', 7) (demo_partition ''w'' 7 c)" for c
    by (simp add: key_of_account_def normalize_partition_key_def demo_partition_def scope_of_def Let_def) code_simp
  then show ?thesis
    using dependencies_current_iff [of "[demo_partition ''w'' 7 ''economy'']" "[([demo_partition ''w'' 7 ''garrison''], 1, 5)]" "(''w'', 7)" "[]"]
      dependencies_current_iff [of "[demo_partition ''w'' 7 ''economy'']" "[([demo_partition ''w'' 7 ''economy''], 1, 5)]" "(''w'', 7)" "[]"]
    by (simp add: advanced_keys_def demo_partition_keys demo_partition_inj)
qed

theorem rebinding_repeats_versions_witness:
  "partitions_current (snapshot_after ([([demo_partition ''w'' 7 ''economy''], 1, 5)] @
       [([demo_partition ''w'' 8 ''economy''], 2, 6), ([demo_partition ''w'' 7 ''economy''], 3, 7)]))
     (partition_dependencies (snapshot_after [([demo_partition ''w'' 7 ''economy''], 1, 5)]) [demo_partition ''w'' 7 ''economy''])"
proof -
  have "partition_version_of (snapshot_after [([demo_partition ''w'' 7 ''economy''], 1, 5)]) (demo_partition ''w'' 7 ''economy'') = 1"
    by (simp add: version_counts_advances advanced_keys_def demo_partition_keys demo_partition_normal advance_reference_def)
  then show ?thesis
    by (rule rebinding_repeats_versions [THEN conjunct1]) (simp_all add: demo_partition_normal demo_partition_slot demo_partition_inj)
qed

definition demo_focus :: "int list \<Rightarrow> partition_view" where
  "demo_focus focused = \<lparr>av_world_id = ''w'', av_server_url = [], av_account_player = 7, av_player = 7, av_castle_kingdom = [12 \<mapsto> 0],
     vw_generation = 1, vw_connection_generation = 1, vw_focused = focused\<rparr>"

theorem focus_epoch_detects_changes_witness:
  "pc_focus_epoch (next_protocol_context (initial_protocol_context (demo_focus []) 0) (demo_focus [12]) [] [] Subcontext_map 9) = 1"
  using focus_epoch_detects_changes [of "initial_protocol_context (demo_focus []) 0" "demo_focus [12]" "[]" "[]" Subcontext_map 9]
  by (simp add: next_protocol_context_def rebind_session_def refocus_def next_subcontext_def clear_recruitment_bup_batch_def
      initial_protocol_context_def demo_focus_def focused_castle_def Let_def)

end
