(* ===== verification/Plans.thy ===== *)
theory Plans
  imports OperationStore Claims Admission Partitions
begin

text \<open>
  Plans and their normal form: the types \<open>Step\<close> and \<open>Plan\<close> of \<^verbatim>\<open>src/Server/Intent/Types.go\<close> and
  \<open>normalizePlan\<close>, \<open>finalizePlan\<close> with what they call, from \<^verbatim>\<open>src/Server/Intent/Engine.go\<close>.

  A planner returns steps (commands for the game, or actions of the program). The engine brings them
  into normal form, decides after which of them the game state must have caught up (response
  barriers), and derives the claims: one per awaited response, and the attack context and the
  admission class of an attack launch. Descriptors for the localisation and the batches of
  resolvers are left out; an action with its arguments is one record.
\<close>

section \<open>Steps and plans\<close>

record command =
  cm_namespace :: string
  cm_opcode :: string
  cm_sequence :: string
  cm_route :: string
  cm_payload :: string
  cm_bare :: bool
  cm_omit_namespace :: bool

record action_call =
  ac_name :: string
  ac_arguments :: string

record retry_policy =
  rp_codes :: "int list"
  rp_guard :: action_call
  rp_delay_millis :: int

record coin_cost =
  cc_amount :: int
  cc_reserve :: int
  cc_source :: string
  cc_upper_bound :: bool
  cc_additive :: bool

record dependency_request =
  dq_opcode :: string
  dq_payload :: string

record step =
  st_name :: string
  st_action :: action_call
  st_resolver :: action_call
  st_opcode :: string
  st_payload :: string
  st_await_opcode :: string
  st_await_opcodes :: "string list"
  st_timeout_millis :: int
  st_delay_millis :: int
  st_success_codes :: "int list"
  st_stale_codes :: "int list"
  st_response_retry :: "retry_policy option"
  st_capture_response :: bool
  st_expected_payload :: string
  st_response_identity :: response_identity
  st_response_barrier :: string
  st_pre_dispatch :: action_call
  st_final_dispatch :: action_call
  st_send_failure :: action_call
  st_response_failure :: action_call
  st_stale_response :: action_call
  st_projection_indeterminate :: bool
  st_resume_policy :: string
  st_dependencies :: "dependency_request option"
  st_coin_cost :: "coin_cost option"
  st_command :: command

abbreviation (input) resume_rebuild :: string where "resume_rebuild \<equiv> ''rebuild''"
abbreviation (input) barrier_wire :: string where "barrier_wire \<equiv> ''wire''"
abbreviation (input) barrier_wire_then_committed :: string where "barrier_wire_then_committed \<equiv> ''wire-then-committed''"
abbreviation (input) barrier_committed :: string where "barrier_committed \<equiv> ''committed''"
abbreviation (input) attack_launch_class :: string where "attack_launch_class \<equiv> ''attack-launch''"

record plan =
  pn_intent :: string
  pn_effect :: effect
  pn_state_revision :: nat
  pn_catalog_version :: string
  pn_dependencies :: "partition_dependency list"
  pn_claims :: "string list"
  pn_resources :: "resource_key list"
  pn_steps :: "step list"
  pn_summary :: string
  pn_admission :: "admission option"

record intent_definition =
  df_name :: string
  df_effect :: effect
  df_require_resources :: bool

section \<open>Awaited responses and barriers\<close>

text \<open>Keeping the first of equal values, the loop of \<open>normalizeAwaitOpcodes\<close> and \<open>normalizeResponseCodes\<close>.\<close>

definition dedupe :: "'a list \<Rightarrow> 'a list" where
  "dedupe xs = rev (remdups (rev xs))"

definition normalize_await_opcodes :: "string list \<Rightarrow> string list" where
  "normalize_await_opcodes opcodes = dedupe (filter (\<lambda>opcode. opcode \<noteq> []) (map norm_str opcodes))"

definition step_await_opcodes :: "step \<Rightarrow> string list" where
  "step_await_opcodes s =
     normalize_await_opcodes (st_await_opcodes s @ (if st_await_opcode s \<noteq> [] then [st_await_opcode s] else []))"

definition automatic_wire_candidate :: "step \<Rightarrow> bool" where
  "automatic_wire_candidate s \<longleftrightarrow> st_response_barrier s = [] \<and> ac_name (st_action s) = [] \<and> ac_name (st_resolver s) = [] \<and>
     (st_opcode s \<noteq> [] \<or> cm_opcode (st_command s) \<noteq> []) \<and> step_await_opcodes s \<noteq> []"

text \<open>A maximal run of at least two candidates waits for its responses on the wire, the last of them
  also for the state.\<close>

definition mark_run :: "step list \<Rightarrow> step list" where
  "mark_run run =
     (if length run > 1
      then map (\<lambda>s. s\<lparr>st_response_barrier := barrier_wire\<rparr>) (butlast run) @ [(last run)\<lparr>st_response_barrier := barrier_wire_then_committed\<rparr>]
      else run)"

function apply_automatic_response_barriers :: "step list \<Rightarrow> step list" where
  "apply_automatic_response_barriers [] = []"
| "apply_automatic_response_barriers (s # steps) =
     (if \<not> automatic_wire_candidate s then s # apply_automatic_response_barriers steps
      else mark_run (s # takeWhile automatic_wire_candidate steps) @
           apply_automatic_response_barriers (dropWhile automatic_wire_candidate steps))"
  by pat_completeness auto
termination
  by (relation "measure length") (auto simp: less_Suc_eq_le length_dropWhile_le)

section \<open>Normal forms\<close>

definition normalize_call :: "action_call \<Rightarrow> action_call" where
  "normalize_call a =
     (let name = trim_space (ac_name a)
      in \<lparr>ac_name = name, ac_arguments = (if name \<noteq> [] \<and> ac_arguments a = [] then ''{}'' else ac_arguments a)\<rparr>)"

definition normalize_retry :: "retry_policy \<Rightarrow> retry_policy" where
  "normalize_retry p = p\<lparr>rp_codes := dedupe (rp_codes p), rp_guard := normalize_call (rp_guard p)\<rparr>"

definition normalize_dependency :: "dependency_request \<Rightarrow> dependency_request" where
  "normalize_dependency d = \<lparr>dq_opcode = norm_str (dq_opcode d), dq_payload = (if dq_payload d = [] then ''{}'' else dq_payload d)\<rparr>"

text \<open>The body of the loop of \<open>normalizePlan\<close> up to the claims.\<close>

definition normalize_step :: "step \<Rightarrow> step" where
  "normalize_step s =
     (let barrier = norm_str (st_response_barrier s);
          retry = map_option normalize_retry (st_response_retry s)
      in s\<lparr>st_coin_cost := map_option (\<lambda>c. c\<lparr>cc_source := trim_space (cc_source c)\<rparr>) (st_coin_cost s),
           st_action := normalize_call (st_action s), st_resolver := normalize_call (st_resolver s),
           st_opcode := to_lower (if st_opcode s = [] then cm_opcode (st_command s) else st_opcode s),
           st_payload := (if st_payload s = [] then cm_payload (st_command s) else st_payload s),
           st_await_opcode := to_lower (st_await_opcode s), st_await_opcodes := normalize_await_opcodes (st_await_opcodes s),
           st_response_barrier := (if retry \<noteq> None \<and> barrier = [] then barrier_committed else barrier),
           st_pre_dispatch := normalize_call (st_pre_dispatch s), st_final_dispatch := normalize_call (st_final_dispatch s),
           st_send_failure := normalize_call (st_send_failure s), st_response_failure := normalize_call (st_response_failure s),
           st_stale_response := normalize_call (st_stale_response s), st_response_retry := retry,
           st_capture_response := (retry \<noteq> None \<or> st_capture_response s),
           st_dependencies := map_option normalize_dependency (st_dependencies s)\<rparr>)"

text \<open>Whether the step, in normal form, makes the plan an attack launch, and its claims.\<close>

definition step_launches_attack :: "step \<Rightarrow> bool" where
  "step_launches_attack s \<longleftrightarrow>
     (case st_dependencies s of None \<Rightarrow> False | Some d \<Rightarrow> dq_opcode d = ''cra'') \<or>
     st_opcode s = ''cra'' \<or> cm_opcode (st_command s) = ''cra'' \<or> ''cra'' \<in> set (step_await_opcodes s)"

definition response_claim :: "string \<Rightarrow> string" where
  "response_claim opcode = ''response:'' @ opcode"

definition normalize_admission :: "string \<Rightarrow> admission \<Rightarrow> admission option" where
  "normalize_admission name a =
     (let a = a\<lparr>ad_class := trim_space (ad_class a), ad_module := trim_space (ad_module a), ad_affinity := trim_space (ad_affinity a)\<rparr>
      in if ad_class a = [] then None else Some (a\<lparr>ad_module := (if ad_module a = [] then name else ad_module a)\<rparr>))"

definition attack_admission :: "string \<Rightarrow> admission" where
  "attack_admission name = \<lparr>ad_class = attack_launch_class, ad_module = name, ad_affinity = [], ad_not_before = time_zero, ad_deadline = time_zero\<rparr>"

definition normalize_plan :: "intent_definition \<Rightarrow> nat \<Rightarrow> plan \<Rightarrow> plan" where
  "normalize_plan d revision p =
     (let admission = (case pn_admission p of None \<Rightarrow> None | Some a \<Rightarrow> normalize_admission (df_name d) a);
          steps = map normalize_step (pn_steps p);
          has_attack_launch = list_ex step_launches_attack steps;
          claims = pn_claims p @ concat (map (\<lambda>s. map response_claim (step_await_opcodes s)) steps) @
            (if has_attack_launch then [''attack-context''] else [])
      in p\<lparr>pn_intent := df_name d, pn_effect := df_effect d, pn_state_revision := revision,
           pn_admission := (if has_attack_launch \<and> admission = None then Some (attack_admission (df_name d)) else admission),
           pn_steps := apply_automatic_response_barriers steps, pn_claims := normalize_claims claims\<rparr>)"

section \<open>Checks\<close>

definition step_label :: "step \<Rightarrow> string" where
  "step_label s =
     (if trim_space (st_name s) \<noteq> [] then trim_space (st_name s)
      else if ac_name (st_action s) \<noteq> [] then ac_name (st_action s)
      else if ac_name (st_resolver s) \<noteq> [] then ac_name (st_resolver s)
      else if st_opcode s \<noteq> [] then st_opcode s
      else ''intent step'')"

text \<open>What is wrong with a retry policy; \<open>None\<close> if nothing is. The texts of the errors are shortened.\<close>

definition retry_policy_error :: "step \<Rightarrow> string option" where
  "retry_policy_error s =
     (case st_response_retry s of None \<Rightarrow> None
      | Some policy \<Rightarrow>
          if rp_codes policy = [] then Some ''requires at least one code''
          else if ac_name (rp_guard policy) = [] then Some ''requires a guard action''
          else if rp_delay_millis policy \<le> 0 then Some ''requires a positive delay''
          else if step_await_opcodes s = [] \<or> st_success_codes s = [] then Some ''requires an awaited response with success codes''
          else if st_response_barrier s \<noteq> barrier_committed then Some ''requires a committed response barrier''
          else case List.find (\<lambda>code. code \<in> set (st_success_codes s) \<or> code \<in> set (st_stale_codes s) \<or> code < 1) (rp_codes policy) of
            None \<Rightarrow> None
          | Some code \<Rightarrow> Some (if code \<in> set (st_success_codes s) then ''code is also a success code''
              else if code \<in> set (st_stale_codes s) then ''code is also a stale code'' else ''code must be positive''))"

fun validate_response_retry_policies :: "step list \<Rightarrow> string option" where
  "validate_response_retry_policies [] = None"
| "validate_response_retry_policies (s # steps) =
     (case retry_policy_error s of Some e \<Rightarrow> Some (step_label s @ '': '' @ e) | None \<Rightarrow> validate_response_retry_policies steps)"

definition has_effect_resource :: "resource_key list \<Rightarrow> bool" where
  "has_effect_resource resources =
     list_ex (\<lambda>r. \<not> (rk_scope r = scope_session \<and> rk_capability r = ''protocol'' \<and> rk_kind r = ''response'')) resources"

definition plan_uses_focus :: "resource_key list \<Rightarrow> bool" where
  "plan_uses_focus resources = list_ex (\<lambda>r. rk_scope r = scope_session \<and> rk_capability r = ''session'' \<and> rk_kind r = ''focus'') resources"

definition normalize_partition_dependencies :: "partition_dependency list \<Rightarrow> partition_dependency list" where
  "normalize_partition_dependencies deps =
     (let kept = filter (\<lambda>d. \<not> (pk_capability (fst d) = [] \<or> sk_kind (pk_scope (fst d)) = [])) deps;
          latest = map_of (rev (map (\<lambda>d. (partition_canonical (fst d), d)) kept))
      in map (\<lambda>key. the (latest key)) (sort (remdups (map (\<lambda>d. partition_canonical (fst d)) kept))))"

definition same_strings :: "string list \<Rightarrow> string list \<Rightarrow> bool" where
  "same_strings left right \<longleftrightarrow> sort left = sort right"

definition same_admission :: "admission option \<Rightarrow> admission option \<Rightarrow> bool" where
  "same_admission left right \<longleftrightarrow> left = right"

text \<open>\<open>finalizePlan\<close>: \<open>read_set\<close> is the outcome of the definition's read set, \<open>None\<close> when there is no such
  function or the partitions are not available.\<close>

definition finalize_plan :: "intent_definition \<Rightarrow> account_view \<Rightarrow> nat \<Rightarrow> string \<Rightarrow> partition_snapshot option \<Rightarrow>
    (plan \<Rightarrow> string + partition_key list) option \<Rightarrow> plan \<Rightarrow> string + plan" where
  "finalize_plan d g revision catalog partitions read_set p =
     (let p = normalize_plan d revision p in
      case validate_response_retry_policies (pn_steps p) of Some e \<Rightarrow> Inl e
      | None \<Rightarrow>
          let p = p\<lparr>pn_catalog_version := catalog\<rparr> in
          case (case read_set of None \<Rightarrow> Inr [] | Some f \<Rightarrow> if partitions = None then Inr [] else f p) of
            Inl e \<Rightarrow> Inl e
          | Inr keys \<Rightarrow>
              let p = p\<lparr>pn_dependencies := normalize_partition_dependencies (pn_dependencies p @ partition_dependencies partitions keys)\<rparr>;
                  p = p\<lparr>pn_resources := derive_plan_resources g (pn_resources p) (pn_claims p)\<rparr>
              in if df_require_resources d \<and> pn_steps p \<noteq> [] \<and> \<not> has_effect_resource (pn_resources p)
                 then Inl (''intent '' @ df_name d @ '' has executable steps but declares no effect resource'')
                 else if df_require_resources d \<and> has_legacy_resource (pn_resources p)
                 then Inl (''intent '' @ df_name d @ '' uses an unmapped legacy claim; declare a typed resource'')
                 else Inr p)"

section \<open>Lists without duplicates\<close>

lemma set_dedupe [simp]: "set (dedupe xs) = set xs"
  by (simp add: dedupe_def)

lemma dedupe_distinct: "distinct xs \<Longrightarrow> dedupe xs = xs"
  by (simp add: dedupe_def distinct_remdups_id)

lemma distinct_dedupe: "distinct (dedupe xs)"
  by (simp add: dedupe_def)

lemma dedupe_idem [simp]: "dedupe (dedupe xs) = dedupe xs"
  by (simp add: dedupe_distinct distinct_dedupe)

lemma normal_opcodes: "opcode \<in> set (normalize_await_opcodes opcodes) \<Longrightarrow> norm_str opcode = opcode \<and> opcode \<noteq> []"
  by (auto simp: normalize_await_opcodes_def)

lemma normalize_await_opcodes_idem [simp]: "normalize_await_opcodes (normalize_await_opcodes opcodes) = normalize_await_opcodes opcodes"
proof -
  have "filter (\<lambda>opcode. opcode \<noteq> []) (map norm_str (normalize_await_opcodes opcodes)) = normalize_await_opcodes opcodes"
    using normal_opcodes [of _ opcodes] by (metis (mono_tags, lifting) filter_id_conv map_idI)
  then show ?thesis by (metis dedupe_idem normalize_await_opcodes_def)
qed

lemma normal_awaits: "opcode \<in> set (step_await_opcodes s) \<Longrightarrow> norm_str opcode = opcode \<and> opcode \<noteq> []"
  unfolding step_await_opcodes_def by (rule normal_opcodes)

section \<open>Response barriers\<close>

text \<open>The reference: the barrier of a step depends on its neighbours only.\<close>

definition neighbour_barrier :: "bool \<Rightarrow> step \<Rightarrow> step list \<Rightarrow> string" where
  "neighbour_barrier previous s steps =
     (if \<not> automatic_wire_candidate s then st_response_barrier s
      else if steps \<noteq> [] \<and> automatic_wire_candidate (hd steps) then barrier_wire
      else if previous then barrier_wire_then_committed
      else st_response_barrier s)"

fun barriers_by_neighbours :: "bool \<Rightarrow> step list \<Rightarrow> step list" where
  "barriers_by_neighbours previous [] = []"
| "barriers_by_neighbours previous (s # steps) =
     s\<lparr>st_response_barrier := neighbour_barrier previous s steps\<rparr> # barriers_by_neighbours (automatic_wire_candidate s) steps"

lemma same_barrier [simp]: "s\<lparr>st_response_barrier := st_response_barrier s\<rparr> = s"
  by simp

lemma barriers_run:
  assumes "\<forall>s \<in> set run. automatic_wire_candidate s" "run \<noteq> []" "rest = [] \<or> \<not> automatic_wire_candidate (hd rest)"
  shows "barriers_by_neighbours True (run @ rest) =
    map (\<lambda>s. s\<lparr>st_response_barrier := barrier_wire\<rparr>) (butlast run) @ [(last run)\<lparr>st_response_barrier := barrier_wire_then_committed\<rparr>] @
    barriers_by_neighbours False rest"
  using assms
proof (induction run)
  case (Cons s run)
  show ?case
  proof (cases "run = []")
    case True
    with Cons.prems show ?thesis by (cases rest) (auto simp: neighbour_barrier_def)
  next
    case False
    then have "hd (run @ rest) = hd run" by simp
    with False Cons show ?thesis by (simp add: neighbour_barrier_def)
  qed
qed simp

lemma barriers_flag:
  "steps = [] \<or> \<not> automatic_wire_candidate (hd steps) \<Longrightarrow> barriers_by_neighbours previous steps = barriers_by_neighbours False steps"
  by (cases steps) (auto simp: neighbour_barrier_def)

lemma barriers_by_neighbours_eq: "apply_automatic_response_barriers steps = barriers_by_neighbours False steps"
proof (induction steps rule: apply_automatic_response_barriers.induct)
  case (2 s steps)
  show ?case
  proof (cases "automatic_wire_candidate s")
    case True
    let ?run = "takeWhile automatic_wire_candidate steps" and ?rest = "dropWhile automatic_wire_candidate steps"
    have rest: "?rest = [] \<or> \<not> automatic_wire_candidate (hd ?rest)" using hd_dropWhile by blast
    note same = barriers_flag [OF rest, of True]
    show ?thesis
    proof (cases "?run = []")
      case True
      then have alone: "\<not> (steps \<noteq> [] \<and> automatic_wire_candidate (hd steps))" by (cases steps) auto
      have all: "?rest = steps" using True by (metis append_Nil takeWhile_dropWhile_id)
      have "apply_automatic_response_barriers (s # steps) = s # apply_automatic_response_barriers ?rest"
        using True \<open>automatic_wire_candidate s\<close> by (simp add: mark_run_def)
      also have "apply_automatic_response_barriers ?rest = barriers_by_neighbours True ?rest"
        using 2(2) \<open>automatic_wire_candidate s\<close> same by simp
      also have "s # barriers_by_neighbours True ?rest = barriers_by_neighbours False (s # steps)"
        unfolding all using alone \<open>automatic_wire_candidate s\<close> by (auto simp: neighbour_barrier_def)
      finally show ?thesis .
    next
      case False
      then have "steps \<noteq> [] \<and> automatic_wire_candidate (hd steps)" by (cases steps) (auto split: if_splits)
      then have "barriers_by_neighbours False (s # steps) = s\<lparr>st_response_barrier := barrier_wire\<rparr> # barriers_by_neighbours True (?run @ ?rest)"
        using \<open>automatic_wire_candidate s\<close> by (simp add: neighbour_barrier_def)
      also have "barriers_by_neighbours True (?run @ ?rest) =
          map (\<lambda>s. s\<lparr>st_response_barrier := barrier_wire\<rparr>) (butlast ?run) @
          [(last ?run)\<lparr>st_response_barrier := barrier_wire_then_committed\<rparr>] @ barriers_by_neighbours False ?rest"
        using False rest by (intro barriers_run) (auto dest: set_takeWhileD)
      also have "s\<lparr>st_response_barrier := barrier_wire\<rparr> # map (\<lambda>s. s\<lparr>st_response_barrier := barrier_wire\<rparr>) (butlast ?run) @
          [(last ?run)\<lparr>st_response_barrier := barrier_wire_then_committed\<rparr>] @ barriers_by_neighbours False ?rest =
          mark_run (s # ?run) @ barriers_by_neighbours False ?rest"
        using False by (simp add: mark_run_def)
      also have "barriers_by_neighbours False ?rest = apply_automatic_response_barriers ?rest"
        using 2(2) \<open>automatic_wire_candidate s\<close> by simp
      also have "mark_run (s # ?run) @ apply_automatic_response_barriers ?rest = apply_automatic_response_barriers (s # steps)"
        using \<open>automatic_wire_candidate s\<close> by simp
      finally show ?thesis by (rule sym)
    qed
  qed (use 2 in \<open>simp add: neighbour_barrier_def\<close>)
qed simp

section \<open>Claims of a plan\<close>

lemma barriers_keep_step:
  "s' \<in> set (barriers_by_neighbours previous steps) \<Longrightarrow> \<exists>s \<in> set steps. \<exists>b. s' = s\<lparr>st_response_barrier := b\<rparr>"
proof (induction steps arbitrary: previous)
  case (Cons s steps)
  then show ?case by fastforce
qed simp

lemma await_barrier [simp]: "step_await_opcodes (s\<lparr>st_response_barrier := b\<rparr>) = step_await_opcodes s"
  by (simp add: step_await_opcodes_def)

lemma launches_barrier [simp]: "step_launches_attack (s\<lparr>st_response_barrier := b\<rparr>) = step_launches_attack s"
  by (simp add: step_launches_attack_def)

lemma normalize_claims_mem: "c \<in> set claims \<Longrightarrow> trim_space c = c \<Longrightarrow> c \<noteq> [] \<Longrightarrow> c \<in> set (normalize_claims claims)"
  by (auto simp: normalize_claims_def rev_image_eqI)

lemma normalized_plan_awaits:
  assumes "s \<in> set (pn_steps (normalize_plan d r p))" "opcode \<in> set (step_await_opcodes s)"
  shows "response_claim opcode \<in> set (pn_claims (normalize_plan d r p))"
proof -
  obtain s' where s': "s' \<in> set (map normalize_step (pn_steps p))" "opcode \<in> set (step_await_opcodes s')"
    using assms barriers_keep_step by (fastforce simp: normalize_plan_def barriers_by_neighbours_eq Let_def)
  have "trim_space (response_claim opcode) = response_claim opcode"
    using normal_awaits [OF assms(2)] trim_space_append_trimmed [of "CHR ''r''" opcode "''esponse:''"] norm_str_trimmed [of opcode]
    by (simp add: response_claim_def)
  moreover have "response_claim opcode \<noteq> []" by (simp add: response_claim_def)
  moreover have "response_claim opcode \<in> set (concat (map (\<lambda>s. map response_claim (step_await_opcodes s)) (map normalize_step (pn_steps p))))"
    using s' by fastforce
  ultimately show ?thesis by (simp add: normalize_plan_def Let_def normalize_claims_mem)
qed

text \<open>The search for runs of commands gives every step the barrier its neighbours call for: inside a
  run the engine goes on when the response is on the wire, at the end of a run it waits for the
  state, and a step outside a run keeps its barrier.\<close>

theorem automatic_barriers_by_neighbours: "apply_automatic_response_barriers steps = barriers_by_neighbours False steps"
  by (rule barriers_by_neighbours_eq)

lemma normalized_plan_launches:
  assumes "list_ex step_launches_attack (pn_steps (normalize_plan d r p))"
  shows "''attack-context'' \<in> set (pn_claims (normalize_plan d r p)) \<and> pn_admission (normalize_plan d r p) \<noteq> None"
proof -
  have "list_ex step_launches_attack (map normalize_step (pn_steps p))"
    using assms barriers_keep_step by (fastforce simp: normalize_plan_def barriers_by_neighbours_eq Let_def list_ex_iff)
  moreover have "trim_space ''attack-context'' = ''attack-context''" by code_simp
  ultimately show ?thesis by (auto intro!: normalize_claims_mem simp: normalize_plan_def Let_def)
qed

section \<open>Conflicts between plans\<close>

text \<open>A claim whose resource does not depend on the castle of the other claims gives every plan with it
  the same authority.\<close>

definition scope_free :: "string \<Rightarrow> string \<Rightarrow> resource_key \<Rightarrow> bool" where
  "scope_free account claim r \<longleftrightarrow> trim_space claim = claim \<and> claim \<noteq> [] \<and>
     (\<forall>castle kingdom. \<exists>key. legacy_claim_resource account castle kingdom claim = key \<and> normalize_key key = Some r)"

lemma scope_free_covered:
  assumes "scope_free (resource_account g) claim r" "claim \<in> set claims"
  shows "\<exists>q \<in> set (derive_plan_resources g resources claims). canonical q = canonical r"
proof -
  let ?cs = "normalize_claims claims"
  let ?key = "legacy_claim_resource (resource_account g) (fst (legacy_claim_scope g ?cs)) (snd (legacy_claim_scope g ?cs)) claim"
  have "claim \<in> set ?cs" using assms by (simp add: scope_free_def normalize_claims_mem)
  then have "?key \<in> set (map (legacy_claim_resource (resource_account g) (fst (legacy_claim_scope g ?cs)) (snd (legacy_claim_scope g ?cs))) ?cs)"
    by simp
  moreover have "normalize_key ?key = Some r" using assms(1) by (simp add: scope_free_def)
  ultimately obtain q where q: "q \<in> set (legacy_claims_to_resources g claims)" "canonical q = canonical r"
    unfolding legacy_claims_to_resources_def Let_def by (meson normalize_covers)
  then have "normalize_key q = Some q" unfolding legacy_claims_to_resources_def Let_def by (intro normalize_member_normal)
  then show ?thesis unfolding derive_plan_resources_def using q normalize_covers [of q "resources @ legacy_claims_to_resources g claims" q] by auto
qed

lemma scope_free_conflict:
  assumes "scope_free (resource_account g) claim r" "resource_account g' = resource_account g" "claim \<in> set claims" "claim \<in> set claims'"
  shows "resources_overlap (derive_plan_resources g resources claims) (derive_plan_resources g' resources' claims')"
proof -
  obtain q q' where "q \<in> set (derive_plan_resources g resources claims)" "q' \<in> set (derive_plan_resources g' resources' claims')"
      "canonical q = canonical q'"
    using scope_free_covered [of g claim r claims resources] scope_free_covered [of g' claim r claims' resources'] assms by metis
  moreover from this have "resource_keys_overlap q q'" by (simp add: resource_keys_overlap_def)
  ultimately show ?thesis unfolding resources_overlap_iff by blast
qed

lemma response_scope_free:
  assumes "norm_str opcode = opcode" "opcode \<noteq> []"
  shows "\<exists>r. scope_free account (response_claim opcode) r"
proof -
  have trim: "trim_space (response_claim opcode) = response_claim opcode"
    using assms trim_space_append_trimmed [of "CHR ''r''" opcode "''esponse:''"] norm_str_trimmed [of opcode] by (simp add: response_claim_def)
  moreover have "to_lower ''response:'' = ''response:''" by code_simp
  ultimately have norm: "norm_str (response_claim opcode) = response_claim opcode"
    using norm_str_lower [OF assms(1)] by (simp add: norm_str_def response_claim_def to_lower_append del: append_Cons)
  have parts: "split_on CHR '':'' (response_claim opcode) = ''response'' # split_on CHR '':'' opcode"
    using split_on_append [of "CHR '':''" "''response''" opcode] by (simp add: response_claim_def)
  have key: "legacy_claim_resource account castle kingdom (response_claim opcode) =
      scoped_key account scope_session 0 0 ''protocol'' ''response'' opcode" for castle kingdom
    unfolding legacy_claim_resource_def norm parts by (simp add: legacy_switch_def)
  have "norm_str scope_session = scope_session" "norm_str ''protocol'' = ''protocol''" "norm_str ''response'' = ''response''"
    by (code_simp, code_simp, code_simp)
  then have "\<exists>r. normalize_key (scoped_key account scope_session 0 0 ''protocol'' ''response'' opcode) = Some r"
    by (simp add: normalize_key_def scoped_key_def Let_def)
  with trim key show ?thesis by (auto simp: scope_free_def response_claim_def)
qed

lemma attack_context_scope_free: "\<exists>r. scope_free account ''attack-context'' r"
proof -
  have norms: "norm_str ''attack-context'' = ''attack-context''" "trim_space ''attack-context'' = ''attack-context''"
    "norm_str scope_session = scope_session" "norm_str ''combat'' = ''combat''"
    by (code_simp, code_simp, code_simp, code_simp)
  have key: "legacy_claim_resource account castle kingdom ''attack-context'' =
      scoped_key account scope_session 0 0 ''combat'' ''attack-context'' ''*''" for castle kingdom
    unfolding legacy_claim_resource_def norms(1) by (simp add: legacy_switch_def)
  have "\<exists>r. normalize_key (scoped_key account scope_session 0 0 ''combat'' ''attack-context'' ''*'') = Some r"
    using norms by (simp add: normalize_key_def scoped_key_def Let_def)
  with norms key show ?thesis by (auto simp: scope_free_def)
qed

lemma normalize_plan_simps:
  "pn_resources (normalize_plan d revision p) = pn_resources p" "pn_effect (normalize_plan d revision p) = df_effect d"
  by (simp_all add: normalize_plan_def Let_def)

lemma finalize_planD:
  assumes "finalize_plan d g revision catalog partitions read_set p = Inr q"
  shows "pn_steps q = pn_steps (normalize_plan d revision p)" "pn_claims q = pn_claims (normalize_plan d revision p)"
    "pn_admission q = pn_admission (normalize_plan d revision p)" "validate_response_retry_policies (pn_steps q) = None"
    "pn_resources q = derive_plan_resources g (pn_resources p) (pn_claims q)" "pn_effect q = df_effect d"
    "df_require_resources d \<Longrightarrow> (pn_steps q = [] \<or> has_effect_resource (pn_resources q)) \<and> \<not> has_legacy_resource (pn_resources q)"
proof -
  let ?n = "normalize_plan d revision p"
  from assms obtain keys where ok: "validate_response_retry_policies (pn_steps ?n) = None"
      "\<not> (df_require_resources d \<and> pn_steps ?n \<noteq> [] \<and> \<not> has_effect_resource (derive_plan_resources g (pn_resources ?n) (pn_claims ?n)))"
      "\<not> (df_require_resources d \<and> has_legacy_resource (derive_plan_resources g (pn_resources ?n) (pn_claims ?n)))"
    and q: "q = ?n\<lparr>pn_catalog_version := catalog,
      pn_dependencies := normalize_partition_dependencies (pn_dependencies ?n @ partition_dependencies partitions keys),
      pn_resources := derive_plan_resources g (pn_resources ?n) (pn_claims ?n)\<rparr>"
    unfolding finalize_plan_def Let_def by (simp split: option.splits sum.splits if_split_asm) (blast dest: sym)+
  show "pn_steps q = pn_steps ?n" "pn_claims q = pn_claims ?n" "pn_admission q = pn_admission ?n"
    "validate_response_retry_policies (pn_steps q) = None" "pn_effect q = df_effect d"
    "pn_resources q = derive_plan_resources g (pn_resources p) (pn_claims q)"
    "df_require_resources d \<Longrightarrow> (pn_steps q = [] \<or> has_effect_resource (pn_resources q)) \<and> \<not> has_legacy_resource (pn_resources q)"
    using ok by (auto simp: q normalize_plan_simps)
qed

text \<open>C25. Two plans of one account that wait for the same response conflict, and so do two plans that launch
  attacks; a plan that launches an attack also waits for admission to a class.\<close>

theorem waiting_plans_conflict:
  assumes "finalize_plan d g revision catalog partitions read_set p = Inr q"
    and "finalize_plan d' g' revision' catalog' partitions' read_set' p' = Inr q'"
    and "resource_account g' = resource_account g"
    and "list_ex step_launches_attack (pn_steps q) \<and> list_ex step_launches_attack (pn_steps q') \<or>
      (\<exists>s \<in> set (pn_steps q). \<exists>s' \<in> set (pn_steps q'). set (step_await_opcodes s) \<inter> set (step_await_opcodes s') \<noteq> {})"
  shows "resources_overlap (pn_resources q) (pn_resources q') \<and>
    (list_ex step_launches_attack (pn_steps q) \<longrightarrow> pn_admission q \<noteq> None)"
proof
  note q = finalize_planD [OF assms(1)] and q' = finalize_planD [OF assms(2)]
  from assms(4) obtain claim r where "scope_free (resource_account g) claim r" "claim \<in> set (pn_claims q)" "claim \<in> set (pn_claims q')"
  proof
    assume "list_ex step_launches_attack (pn_steps q) \<and> list_ex step_launches_attack (pn_steps q')"
    then show thesis
      using that [of "''attack-context''"] attack_context_scope_free [of "resource_account g"] normalized_plan_launches q(1,2) q'(1,2) by metis
  next
    assume "\<exists>s \<in> set (pn_steps q). \<exists>s' \<in> set (pn_steps q'). set (step_await_opcodes s) \<inter> set (step_await_opcodes s') \<noteq> {}"
    then obtain s s' opcode where s: "s \<in> set (pn_steps q)" "s' \<in> set (pn_steps q')" "opcode \<in> set (step_await_opcodes s)"
        "opcode \<in> set (step_await_opcodes s')" by blast
    then have "response_claim opcode \<in> set (pn_claims q)" "response_claim opcode \<in> set (pn_claims q')"
      using normalized_plan_awaits q(1,2) q'(1,2) by metis+
    with that [of "response_claim opcode"] response_scope_free [of opcode "resource_account g"] normal_awaits [OF s(3)] show thesis by blast
  qed
  then show "resources_overlap (pn_resources q) (pn_resources q')"
    unfolding q(5) q'(5) using assms(3) by (intro scope_free_conflict)
  show "list_ex step_launches_attack (pn_steps q) \<longrightarrow> pn_admission q \<noteq> None"
    using normalized_plan_launches q(1,3) by metis
qed

text \<open>What a plan that was accepted guarantees about repeated commands: a step is resent only for
  definitive codes, which are neither success nor stale codes, after a positive delay and a guard,
  and only when its response is awaited and committed. If the intent must declare resources, an
  executable plan holds some besides its responses, and none of them is an unmapped claim.\<close>

theorem accepted_plan_sound:
  assumes "finalize_plan d g revision catalog partitions read_set p = Inr q" "s \<in> set (pn_steps q)"
  shows "(\<forall>policy. st_response_retry s = Some policy \<longrightarrow>
      rp_codes policy \<noteq> [] \<and> ac_name (rp_guard policy) \<noteq> [] \<and> 0 < rp_delay_millis policy \<and> step_await_opcodes s \<noteq> [] \<and>
      st_response_barrier s = barrier_committed \<and>
      (\<forall>code \<in> set (rp_codes policy). 0 < code \<and> code \<notin> set (st_success_codes s) \<and> code \<notin> set (st_stale_codes s))) \<and>
    (df_require_resources d \<longrightarrow> has_effect_resource (pn_resources q) \<and> \<not> has_legacy_resource (pn_resources q))"
proof -
  note q = finalize_planD [OF assms(1)]
  have "retry_policy_error s = None" if "validate_response_retry_policies steps = None" "s \<in> set steps" for steps
    using that by (induction steps) (auto split: option.splits)
  then have "retry_policy_error s = None" using q(4) assms(2) by blast
  then have "\<forall>policy. st_response_retry s = Some policy \<longrightarrow>
      rp_codes policy \<noteq> [] \<and> ac_name (rp_guard policy) \<noteq> [] \<and> 0 < rp_delay_millis policy \<and> step_await_opcodes s \<noteq> [] \<and>
      st_response_barrier s = barrier_committed \<and>
      (\<forall>code \<in> set (rp_codes policy). 0 < code \<and> code \<notin> set (st_success_codes s) \<and> code \<notin> set (st_stale_codes s))"
    by (force simp: retry_policy_error_def find_None_iff split: option.splits if_splits)
  then show ?thesis using q(7) assms(2) by auto
qed

section \<open>Normal forms are normal\<close>

lemma normalize_call_idem [simp]: "normalize_call (normalize_call a) = normalize_call a"
  by (simp add: normalize_call_def Let_def str_simps)

lemma normalize_retry_idem [simp]: "normalize_retry (normalize_retry p) = normalize_retry p"
  by (simp add: normalize_retry_def)

lemma normalize_dependency_idem [simp]: "normalize_dependency (normalize_dependency d) = normalize_dependency d"
  by (simp add: normalize_dependency_def)

lemma norm_barriers [simp]: "norm_str barrier_wire = barrier_wire" "norm_str barrier_committed = barrier_committed"
  "norm_str barrier_wire_then_committed = barrier_wire_then_committed"
  by (code_simp, code_simp, code_simp)

lemma normalize_step_idem [simp]: "normalize_step (normalize_step s) = normalize_step s"
  by (cases "st_response_retry s"; cases "st_coin_cost s"; cases "st_dependencies s") (simp_all add: normalize_step_def Let_def str_simps)

lemma normalize_marked_step:
  "automatic_wire_candidate (normalize_step s) \<Longrightarrow> norm_str b = b \<Longrightarrow> b \<noteq> [] \<Longrightarrow>
    normalize_step ((normalize_step s)\<lparr>st_response_barrier := b\<rparr>) = (normalize_step s)\<lparr>st_response_barrier := b\<rparr>"
proof -
  assume candidate: "automatic_wire_candidate (normalize_step s)" and b: "norm_str b = b" "b \<noteq> []"
  define t where "t = normalize_step s"
  have "normalize_step (t\<lparr>st_response_barrier := b\<rparr>) = (normalize_step t)\<lparr>st_response_barrier := b\<rparr>"
    using b by (simp add: normalize_step_def Let_def)
  then show ?thesis by (simp add: t_def)
qed

lemma barriers_normal:
  "\<forall>s \<in> set steps. normalize_step s = s \<Longrightarrow> map normalize_step (barriers_by_neighbours previous steps) = barriers_by_neighbours previous steps"
proof (induction steps arbitrary: previous)
  case (Cons s steps)
  then have "normalize_step (s\<lparr>st_response_barrier := b\<rparr>) = s\<lparr>st_response_barrier := b\<rparr>"
    if "automatic_wire_candidate s" "norm_str b = b" "b \<noteq> []" for b
    using that normalize_marked_step [of s b] by simp
  then have "normalize_step (s\<lparr>st_response_barrier := neighbour_barrier previous s steps\<rparr>) = s\<lparr>st_response_barrier := neighbour_barrier previous s steps\<rparr>"
    using Cons.prems by (simp add: neighbour_barrier_def)
  then show ?case using Cons by simp
qed simp

lemma marked_not_candidate: "b \<noteq> [] \<Longrightarrow> \<not> automatic_wire_candidate (s\<lparr>st_response_barrier := b\<rparr>)"
  by (simp add: automatic_wire_candidate_def)

text \<open>After the pass no two neighbours are candidates, so a second pass changes nothing.\<close>

lemma barriers_apart:
  "successively (\<lambda>s t. \<not> (automatic_wire_candidate s \<and> automatic_wire_candidate t)) (barriers_by_neighbours previous steps) \<and>
    (previous \<longrightarrow> steps = [] \<or> \<not> automatic_wire_candidate (hd (barriers_by_neighbours previous steps)))"
proof (induction steps arbitrary: previous)
  case (Cons s steps)
  have same: "automatic_wire_candidate (s\<lparr>st_response_barrier := st_response_barrier s\<rparr>) = automatic_wire_candidate s" by simp
  have keep: "automatic_wire_candidate (hd (barriers_by_neighbours b steps)) \<Longrightarrow> steps \<noteq> [] \<Longrightarrow> automatic_wire_candidate (hd steps)" for b
    by (cases steps) (auto simp: neighbour_barrier_def split: if_splits)
  have head: "automatic_wire_candidate (s\<lparr>st_response_barrier := neighbour_barrier previous s steps\<rparr>) \<longleftrightarrow>
      automatic_wire_candidate s \<and> \<not> previous \<and> \<not> (steps \<noteq> [] \<and> automatic_wire_candidate (hd steps))"
    by (simp add: neighbour_barrier_def marked_not_candidate)
  have empty: "barriers_by_neighbours b steps = [] \<longleftrightarrow> steps = []" for b by (cases steps) simp_all
  show ?case
    using Cons.IH [of "automatic_wire_candidate s"] keep [of "automatic_wire_candidate s"] head empty by (auto simp: successively_Cons)
qed simp

lemma barriers_settled:
  "successively (\<lambda>s t. \<not> (automatic_wire_candidate s \<and> automatic_wire_candidate t)) steps \<Longrightarrow>
    previous \<longrightarrow> steps = [] \<or> \<not> automatic_wire_candidate (hd steps) \<Longrightarrow> barriers_by_neighbours previous steps = steps"
proof (induction steps arbitrary: previous)
  case (Cons s steps)
  then have "neighbour_barrier previous s steps = st_response_barrier s" by (auto simp: neighbour_barrier_def successively_Cons)
  with Cons show ?case by (auto simp: successively_Cons)
qed simp

lemma normalize_claims_cong: "trim_space ` set cs - {[]} = trim_space ` set ds - {[]} \<Longrightarrow> normalize_claims cs = normalize_claims ds"
proof -
  assume "trim_space ` set cs - {[]} = trim_space ` set ds - {[]}"
  then have "set (normalize_claims cs) = set (normalize_claims ds)" by (auto simp: normalize_claims_def)
  then show ?thesis by (intro sorted_distinct_set_unique) (simp_all add: normalize_claims_def)
qed

lemma set_normalize_claims: "set (normalize_claims cs) = trim_space ` set cs - {[]}"
  by (auto simp: normalize_claims_def)

lemma normalize_claims_again: "normalize_claims (normalize_claims (cs @ ds) @ ds) = normalize_claims (cs @ ds)"
proof (rule normalize_claims_cong)
  have "f ` ((f ` C - {e}) \<union> B) - {e} = f ` C - {e}" if "\<And>x. f (f x) = f x" "B \<subseteq> C" for f :: "string \<Rightarrow> string" and B C e
  proof (intro equalityI subsetI)
    fix y assume "y \<in> f ` C - {e}"
    then have "y \<in> f ` C - {e}" "f y = y" using that(1) by auto
    then show "y \<in> f ` ((f ` C - {e}) \<union> B) - {e}" by (metis Diff_iff UnI1 rev_image_eqI)
  qed (use that in auto)
  then show "trim_space ` set (normalize_claims (cs @ ds) @ ds) - {[]} = trim_space ` set (cs @ ds) - {[]}"
    by (simp add: set_normalize_claims str_simps)
qed

lemma trim_launch_class: "trim_space attack_launch_class = attack_launch_class"
  by code_simp

text \<open>A plan in normal form is left alone by another normalisation, so resolving a step or a
  dependency at run time, which normalises again, changes neither claims nor barriers.\<close>

theorem normalize_plan_idempotent:
  assumes "trim_space (df_name d) = df_name d"
  shows "normalize_plan d revision (normalize_plan d revision p) = normalize_plan d revision p"
proof -
  let ?steps = "map normalize_step (pn_steps p)" and ?n = "normalize_plan d revision p"
  have steps: "pn_steps ?n = barriers_by_neighbours False ?steps"
    by (simp add: normalize_plan_def barriers_by_neighbours_eq Let_def)
  have normal: "map normalize_step (pn_steps ?n) = pn_steps ?n" unfolding steps by (rule barriers_normal) simp
  have again: "apply_automatic_response_barriers (pn_steps ?n) = pn_steps ?n"
    unfolding barriers_by_neighbours_eq steps using barriers_apart [of False ?steps] by (intro barriers_settled) simp_all
  have awaits: "map step_await_opcodes (barriers_by_neighbours b ss) = map step_await_opcodes ss" for b ss
    by (induction ss arbitrary: b) simp_all
  have launch: "list_ex step_launches_attack (barriers_by_neighbours b ss) = list_ex step_launches_attack ss" for b ss
    by (induction ss arbitrary: b) simp_all
  let ?own = "\<lambda>ss. concat (map (\<lambda>s. map response_claim (step_await_opcodes s)) ss) @ (if list_ex step_launches_attack ss then [''attack-context''] else [])"
  have "map (\<lambda>s. map response_claim (step_await_opcodes s)) (pn_steps ?n) = map (\<lambda>s. map response_claim (step_await_opcodes s)) ?steps"
    unfolding steps using awaits [of False ?steps] by (metis (no_types, lifting) list.map_comp comp_apply map_eq_conv)
  then have own: "?own (pn_steps ?n) = ?own ?steps" unfolding steps launch by simp
  have claims: "pn_claims ?n = normalize_claims (pn_claims p @ ?own ?steps)" by (simp add: normalize_plan_def Let_def)
  have "normalize_claims (pn_claims ?n @ ?own (pn_steps ?n)) = pn_claims ?n"
    unfolding own claims by (rule normalize_claims_again)
  moreover have "(case pn_admission ?n of None \<Rightarrow> None | Some a \<Rightarrow> normalize_admission (df_name d) a) = pn_admission ?n"
    using assms trim_launch_class by (auto simp: normalize_plan_def normalize_admission_def attack_admission_def Let_def str_simps split: option.split)
  moreover have "list_ex step_launches_attack (pn_steps ?n) \<longrightarrow> pn_admission ?n \<noteq> None" using normalized_plan_launches by blast
  moreover have "pn_intent ?n = df_name d" "pn_effect ?n = df_effect d" "pn_state_revision ?n = revision"
    by (simp_all add: normalize_plan_def Let_def)
  ultimately show ?thesis
    unfolding normalize_plan_def [of d revision "normalize_plan d revision p"] Let_def normal again by (intro plan.equality) auto
qed

section \<open>A concrete plan\<close>

definition demo_call :: "string \<Rightarrow> action_call" where
  "demo_call name = \<lparr>ac_name = name, ac_arguments = []\<rparr>"

definition demo_step :: "string \<Rightarrow> retry_policy option \<Rightarrow> step" where
  "demo_step opcode retry =
     \<lparr>st_name = [], st_action = demo_call [], st_resolver = demo_call [], st_opcode = opcode, st_payload = ''{}'', st_await_opcode = opcode,
      st_await_opcodes = [], st_timeout_millis = 0, st_delay_millis = 0, st_success_codes = [0], st_stale_codes = [],
      st_response_retry = retry, st_capture_response = False, st_expected_payload = [], st_response_identity = \<lparr>ri_player_id = 0, ri_castle_id = 0\<rparr>,
      st_response_barrier = [], st_pre_dispatch = demo_call [], st_final_dispatch = demo_call [], st_send_failure = demo_call [],
      st_response_failure = demo_call [], st_stale_response = demo_call [], st_projection_indeterminate = False, st_resume_policy = [],
      st_dependencies = None, st_coin_cost = None,
      st_command = \<lparr>cm_namespace = [], cm_opcode = opcode, cm_sequence = [], cm_route = [], cm_payload = ''{}'', cm_bare = False, cm_omit_namespace = False\<rparr>\<rparr>"

definition demo_plan :: plan where
  "demo_plan = \<lparr>pn_intent = [], pn_effect = Effect_launch, pn_state_revision = 0, pn_catalog_version = [], pn_dependencies = [], pn_claims = [],
     pn_resources = [], pn_steps = [demo_step ''cra'' (Some \<lparr>rp_codes = [5], rp_guard = demo_call ''guard'', rp_delay_millis = 100\<rparr>)],
     pn_summary = [], pn_admission = None\<rparr>"

definition demo_definition :: intent_definition where
  "demo_definition = \<lparr>df_name = ''attack'', df_effect = Effect_launch, df_require_resources = False\<rparr>"

definition demo_planner_view :: account_view where
  "demo_planner_view = \<lparr>av_world_id = ''w'', av_server_url = [], av_account_player = 7, av_player = 7, av_castle_kingdom = Map.empty\<rparr>"

definition demo_final :: "string + plan" where
  "demo_final = finalize_plan demo_definition demo_planner_view 3 ''v'' None None demo_plan"

lemma demo_norms:
  "norm_str ''cra'' = ''cra''" "to_lower ''cra'' = ''cra''" "trim_space ''guard'' = ''guard''" "trim_space ''attack'' = ''attack''"
  by (code_simp, code_simp, code_simp, code_simp)

lemma demo_steps: "pn_steps (normalize_plan demo_definition 3 demo_plan) = [normalize_step (demo_step ''cra'' (Some \<lparr>rp_codes = [5], rp_guard = demo_call ''guard'', rp_delay_millis = 100\<rparr>))]"
  by (simp add: normalize_plan_def barriers_by_neighbours_eq demo_plan_def Let_def neighbour_barrier_def)

lemma demo_final_ok: "\<exists>q. demo_final = Inr q \<and> pn_steps q = pn_steps (normalize_plan demo_definition 3 demo_plan)"
proof -
  have "retry_policy_error (normalize_step (demo_step ''cra'' (Some \<lparr>rp_codes = [5], rp_guard = demo_call ''guard'', rp_delay_millis = 100\<rparr>))) = None"
    using demo_norms
    by (simp add: retry_policy_error_def normalize_step_def demo_step_def normalize_retry_def dedupe_def normalize_call_def demo_call_def
        step_await_opcodes_def normalize_await_opcodes_def Let_def)
  then have "validate_response_retry_policies (pn_steps (normalize_plan demo_definition 3 demo_plan)) = None"
    by (simp add: demo_steps)
  then show ?thesis by (simp add: demo_final_def finalize_plan_def Let_def demo_definition_def)
qed

lemma demo_launches: "list_ex step_launches_attack (pn_steps (normalize_plan demo_definition 3 demo_plan))"
  by (simp add: demo_steps step_launches_attack_def normalize_step_def demo_step_def demo_norms Let_def)

theorem waiting_plans_conflict_witness:
  "resources_overlap (pn_resources (projr demo_final)) (pn_resources (projr demo_final)) \<and> pn_admission (projr demo_final) \<noteq> None"
proof -
  obtain q where q: "demo_final = Inr q" "pn_steps q = pn_steps (normalize_plan demo_definition 3 demo_plan)" using demo_final_ok by blast
  then show ?thesis
    using waiting_plans_conflict [of demo_definition demo_planner_view 3 "''v''" None None demo_plan q
        demo_definition demo_planner_view 3 "''v''" None None demo_plan q] demo_launches
    by (simp add: demo_final_def)
qed

theorem accepted_plan_sound_witness:
  "rp_codes (the (st_response_retry (hd (pn_steps (projr demo_final))))) \<noteq> []"
proof -
  obtain q where q: "demo_final = Inr q" "pn_steps q = pn_steps (normalize_plan demo_definition 3 demo_plan)" using demo_final_ok by blast
  have "st_response_retry (hd (pn_steps q)) \<noteq> None" "hd (pn_steps q) \<in> set (pn_steps q)"
    by (simp_all add: q(2) demo_steps normalize_step_def demo_step_def Let_def)
  then show ?thesis
    using accepted_plan_sound [of demo_definition demo_planner_view 3 "''v''" None None demo_plan q "hd (pn_steps q)"] q(1)
    by (auto simp: demo_final_def)
qed

theorem normalize_plan_idempotent_witness:
  "normalize_plan demo_definition 3 (normalize_plan demo_definition 3 demo_plan) = normalize_plan demo_definition 3 demo_plan"
  by (rule normalize_plan_idempotent) (simp add: demo_definition_def demo_norms)

end
