(* ===== verification/Execution.thy ===== *)
theory Execution
  imports Plans LaneSafety
begin

text \<open>
  The execution of one operation: \<open>Engine.execute\<close> of \<^verbatim>\<open>src/Server/Intent/Engine.go\<close> with \<open>fail\<close>,
  \<open>failAfterProgress\<close>, \<open>pause\<close> and \<open>persistenceFailure\<close>.

  The goroutine plans, passes the gate, waits for admission and for its claims, plans again if the
  state may have changed, and then executes the steps of the plan. It pauses when the automation
  lock takes over and goes on from its checkpoint, and it plans anew when the plan turns out to be
  stale before anything is done. The model is a machine whose phase says where the goroutine is;
  each function below is the code from one call of the environment (planner, gate, admission,
  claims, journal, game) to the next, and takes the answer of that call as its arguments. What a
  step does on the wire is an answer of the environment, too. A map of counters is the list of the
  keys counted.
\<close>

section \<open>Errors\<close>

text \<open>An error as the code takes it apart: its text, and what \<open>errors.Is\<close> and \<open>errors.As\<close> find in it.\<close>

record exec_error =
  ee_text :: string
  ee_indeterminate :: bool
  ee_cancelled :: bool
  ee_deadline :: bool
  ee_automation_locked :: bool
  ee_plan_stale :: bool
  ee_lane_locked :: bool
  ee_response_code :: "int option"

definition plain_error :: "string \<Rightarrow> exec_error" where
  "plain_error t = \<lparr>ee_text = t, ee_indeterminate = False, ee_cancelled = False, ee_deadline = False, ee_automation_locked = False,
     ee_plan_stale = False, ee_lane_locked = False, ee_response_code = None\<rparr>"

definition stale_error :: "string \<Rightarrow> exec_error" where
  "stale_error t = (plain_error t)\<lparr>ee_plan_stale := True\<rparr>"

text \<open>\<open>fmt.Errorf\<close> with \<open>%w\<close> at the end, and \<open>errors.Join\<close>.\<close>

definition wrap_error :: "string \<Rightarrow> exec_error \<Rightarrow> exec_error" where
  "wrap_error prefix e = e\<lparr>ee_text := prefix @ '': '' @ ee_text e\<rparr>"

definition join_errors :: "exec_error \<Rightarrow> exec_error \<Rightarrow> exec_error" where
  "join_errors e f = \<lparr>ee_text = ee_text e @ [CHR 0x0A] @ ee_text f, ee_indeterminate = (ee_indeterminate e \<or> ee_indeterminate f),
     ee_cancelled = (ee_cancelled e \<or> ee_cancelled f), ee_deadline = (ee_deadline e \<or> ee_deadline f),
     ee_automation_locked = (ee_automation_locked e \<or> ee_automation_locked f), ee_plan_stale = (ee_plan_stale e \<or> ee_plan_stale f),
     ee_lane_locked = (ee_lane_locked e \<or> ee_lane_locked f),
     ee_response_code = (if ee_response_code e \<noteq> None then ee_response_code e else ee_response_code f)\<rparr>"

definition retryable_step_response :: "step \<Rightarrow> exec_error \<Rightarrow> bool" where
  "retryable_step_response s e \<longleftrightarrow>
     (if ee_lane_locked e then False
      else case st_response_retry s of None \<Rightarrow> False
      | Some policy \<Rightarrow>
          if ee_plan_stale e \<or> ee_indeterminate e then False
          else case ee_response_code e of None \<Rightarrow> False | Some code \<Rightarrow> code \<in> set (rp_codes policy))"

section \<open>Receipts\<close>

record exec_body =
  eb_plan :: "plan option"
  eb_attempt :: nat
  eb_started_at :: "gotime option"
  eb_completed_steps :: "nat list"
  eb_evidence :: "string list"
  eb_exchanges :: "string list"

type_synonym exec_receipt = "exec_body receipt"

record exec_config =
  xc_expected_revision :: "nat option"
  xc_dry_run :: bool
  xc_durable :: bool
  xc_definition :: intent_definition
  xc_read_set :: bool
  xc_humanize :: "string \<Rightarrow> string"
  xc_humanize_plan :: "plan \<Rightarrow> plan"
  xc_encode_retry :: "retry_policy \<Rightarrow> string"

text \<open>\<open>Plan == nil || Plan.Effect != read\<close>.\<close>

definition may_have_written :: "exec_receipt \<Rightarrow> bool" where
  "may_have_written r \<longleftrightarrow> rc_plan_effect r \<noteq> Some Effect_read"

definition set_plan :: "plan \<Rightarrow> exec_receipt \<Rightarrow> exec_receipt" where
  "set_plan p r = r\<lparr>rc_plan_effect := Some (pn_effect p), rc_body := (rc_body r)\<lparr>eb_plan := Some p\<rparr>\<rparr>"

text \<open>\<open>drain\<close> says whether a drain of the engine has cancelled the operation.\<close>

definition fail_receipt :: "exec_config \<Rightarrow> gotime \<Rightarrow> bool \<Rightarrow> exec_error \<Rightarrow> exec_receipt \<Rightarrow> exec_receipt" where
  "fail_receipt c now drain e r =
     (let (status, phase) =
            (if ee_indeterminate e \<and> may_have_written r then (Status_indeterminate, Phase_reconciliation_required)
             else if ee_cancelled e then (Status_cancelled, Phase_completed)
             else (Status_failed, Phase_completed));
          (status, phase) = (if drain \<and> rc_plan_effect r = Some Effect_read then (Status_failed, Phase_completed) else (status, phase))
      in with_failure (xc_humanize c) (ee_text e) (r\<lparr>rc_status := status, rc_phase := phase\<rparr>)\<lparr>rc_completed_at := Some now\<rparr>)"

definition fail_after_progress :: "exec_config \<Rightarrow> gotime \<Rightarrow> bool \<Rightarrow> exec_error \<Rightarrow> string list \<Rightarrow> exec_receipt \<Rightarrow> exec_receipt" where
  "fail_after_progress c now drain e completed r =
     (if ee_indeterminate e \<or> rc_plan_effect r = None \<or> rc_plan_effect r = Some Effect_read then fail_receipt c now drain e r
      else if completed \<noteq> []
      then with_failure (xc_humanize c) (ee_text e)
             (r\<lparr>rc_status := Status_partially_succeeded, rc_phase := Phase_reconciliation_required\<rparr>)\<lparr>rc_completed_at := Some now\<rparr>
      else fail_receipt c now drain e r)"

definition pause_receipt :: "exec_receipt \<Rightarrow> exec_receipt" where
  "pause_receipt r = r\<lparr>rc_status := Status_paused, rc_error := [], rc_completed_at := None\<rparr>"

definition persistence_failure :: "exec_config \<Rightarrow> gotime \<Rightarrow> exec_error \<Rightarrow> exec_receipt \<Rightarrow> exec_receipt" where
  "persistence_failure c now e r =
     with_failure (xc_humanize c) (ee_text e) (r\<lparr>rc_status := Status_failed, rc_phase := Phase_completed\<rparr>)\<lparr>rc_completed_at := Some now\<rparr>"

definition append_completed_step_index :: "nat list \<Rightarrow> nat \<Rightarrow> nat list" where
  "append_completed_step_index indexes index = (if index \<in> set indexes then indexes else indexes @ [index])"

text \<open>The callback of the effect phases.\<close>

definition advance_effect_phase :: "effect_phase \<Rightarrow> exec_receipt \<Rightarrow> exec_receipt" where
  "advance_effect_phase phase r =
     r\<lparr>rc_phase := phase,
       rc_body := (rc_body r)\<lparr>eb_attempt := (if phase = Phase_dispatching then eb_attempt (rc_body r) + 1 else eb_attempt (rc_body r))\<rparr>\<rparr>"

section \<open>Keys of steps\<close>

definition show_bool :: "bool \<Rightarrow> string" where
  "show_bool b = (if b then ''true'' else ''false'')"

definition show_ints :: "int list \<Rightarrow> string" where
  "show_ints xs = ''['' @ join_with '' '' (map show_int xs) @ '']''"

definition coin_cost_requirement_key :: "coin_cost option \<Rightarrow> string" where
  "coin_cost_requirement_key requirement =
     (case requirement of None \<Rightarrow> []
      | Some r \<Rightarrow> join_with ''/'' [show_int (cc_amount r), show_int (cc_reserve r), cc_source r, show_bool (cc_upper_bound r), show_bool (cc_additive r)])"

text \<open>The JSON text of a retry policy is an argument.\<close>

definition step_resume_key :: "(retry_policy \<Rightarrow> string) \<Rightarrow> step \<Rightarrow> string" where
  "step_resume_key encode_retry s =
     join_with [CHR 0x00]
       [st_name s, ac_name (st_action s), ac_arguments (st_action s), ac_name (st_resolver s), ac_arguments (st_resolver s),
        st_opcode s, st_payload s, st_await_opcode s, join_with '','' (st_await_opcodes s), st_response_barrier s,
        ac_name (st_pre_dispatch s), ac_arguments (st_pre_dispatch s), ac_name (st_final_dispatch s), ac_arguments (st_final_dispatch s),
        coin_cost_requirement_key (st_coin_cost s), ac_name (st_send_failure s), ac_arguments (st_send_failure s),
        ac_name (st_response_failure s), ac_arguments (st_response_failure s), ac_name (st_stale_response s), ac_arguments (st_stale_response s),
        show_bool (st_projection_indeterminate s), show_int (st_timeout_millis s), show_int (st_delay_millis s),
        show_ints (st_success_codes s), show_ints (st_stale_codes s),
        (case st_response_retry s of None \<Rightarrow> [] | Some policy \<Rightarrow> encode_retry policy), show_bool (st_capture_response s),
        st_expected_payload s, show_int (ri_player_id (st_response_identity s)), show_int (ri_castle_id (st_response_identity s)),
        (case st_dependencies s of None \<Rightarrow> [] | Some d \<Rightarrow> dq_opcode d @ [CHR 0x1F] @ dq_payload d),
        cm_namespace (st_command s), cm_opcode (st_command s), cm_sequence (st_command s), cm_route (st_command s), cm_payload (st_command s),
        show_bool (cm_bare (st_command s)), show_bool (cm_omit_namespace (st_command s))]"

section \<open>The state of an execution\<close>

record session_state =
  ss_logged_in :: bool
  ss_socket_ready :: bool
  ss_generation :: nat
  ss_baseline_generation :: nat
  ss_connection_generation :: nat

definition session_has_authoritative_baseline :: "session_state \<Rightarrow> bool" where
  "session_has_authoritative_baseline s \<longleftrightarrow>
     ss_logged_in s \<and> ss_socket_ready s \<and> 0 < ss_generation s \<and> ss_baseline_generation s = ss_generation s"

text \<open>One pass over the steps: the plan, the index, the keys counted in this pass, the revision handed to
  the next step, and how many acknowledged responses have not been committed yet.\<close>

record attempt =
  at_plan :: plan
  at_index :: nat
  at_counted :: "string list"
  at_revision :: nat
  at_uncommitted :: nat

datatype pass_outcome = Pass_finished | Pass_yielded | Pass_replan exec_error

text \<open>The phases. \<open>X_gate\<close>, \<open>X_admission\<close>, \<open>X_claims\<close> and \<open>X_revalidate\<close> carry the plan, whether it is the
  checkpoint, and the revision it was made for; then whether the admission has changed, and whether the
  claims had to be waited for.\<close>

datatype exec_phase = X_plan
  | X_gate plan bool nat
  | X_admission plan bool nat
  | X_claims plan bool nat bool
  | X_revalidate plan bool nat bool bool
  | X_reserve plan nat
  | X_step attempt
  | X_guard attempt
  | X_execute attempt
  | X_retry attempt
  | X_failed attempt exec_error
  | X_completed attempt
  | X_end attempt pass_outcome
  | X_done

record execution =
  ex_receipt :: exec_receipt
  ex_completed :: "string list"
  ex_pending_retries :: "string list"
  ex_checkpoint :: "plan option"
  ex_admitted :: "admission option"
  ex_claims :: "resource_key list option"
  ex_revision_accepted :: bool
  ex_first_plan :: bool
  ex_stale_replans :: nat
  ex_connection :: nat
  ex_reserved :: bool
  ex_phase :: exec_phase
  ex_log :: "(string \<times> plan \<times> resource_key list option \<times> admission option \<times> bool) list"

definition new_execution :: "exec_receipt \<Rightarrow> execution" where
  "new_execution r = \<lparr>ex_receipt = r, ex_completed = [], ex_pending_retries = [], ex_checkpoint = None, ex_admitted = None, ex_claims = None,
     ex_revision_accepted = False, ex_first_plan = True, ex_stale_replans = 0, ex_connection = 0, ex_reserved = False, ex_phase = X_plan, ex_log = []\<rparr>"

text \<open>A return: the deferred release of the admission.\<close>

definition finish :: "exec_receipt \<Rightarrow> execution \<Rightarrow> execution" where
  "finish r x = x\<lparr>ex_receipt := r, ex_admitted := None, ex_phase := X_done\<rparr>"

definition release_claims :: "execution \<Rightarrow> execution" where
  "release_claims x = x\<lparr>ex_claims := None\<rparr>"

definition finish_fail :: "exec_config \<Rightarrow> gotime \<Rightarrow> bool \<Rightarrow> exec_error \<Rightarrow> execution \<Rightarrow> execution" where
  "finish_fail c now drain e x = finish (fail_receipt c now drain e (ex_receipt x)) x"

definition finish_after_progress :: "exec_config \<Rightarrow> gotime \<Rightarrow> bool \<Rightarrow> exec_error \<Rightarrow> execution \<Rightarrow> execution" where
  "finish_after_progress c now drain e x =
     finish (fail_after_progress c now drain e (ex_completed x) (ex_receipt x)) (release_claims x)"

definition finish_persistence :: "exec_config \<Rightarrow> gotime \<Rightarrow> string \<Rightarrow> exec_error \<Rightarrow> execution \<Rightarrow> execution" where
  "finish_persistence c now prefix e x = finish (persistence_failure c now (wrap_error prefix e) (ex_receipt x)) (release_claims x)"

definition pause_execution :: "execution \<Rightarrow> execution" where
  "pause_execution x = x\<lparr>ex_receipt := pause_receipt (ex_receipt x), ex_phase := X_plan\<rparr>"

definition adopt_connection :: "session_state \<Rightarrow> execution \<Rightarrow> execution" where
  "adopt_connection session x =
     (if ex_connection x = 0 \<and> session_has_authoritative_baseline session then x\<lparr>ex_connection := ss_connection_generation session\<rparr> else x)"

definition revision_conflict :: "exec_config \<Rightarrow> nat \<Rightarrow> execution \<Rightarrow> bool" where
  "revision_conflict c revision x \<longleftrightarrow> \<not> ex_revision_accepted x \<and> (case xc_expected_revision c of None \<Rightarrow> False | Some r \<Rightarrow> revision \<noteq> r)"


section \<open>Planning\<close>

text \<open>What \<open>planningContext\<close> reads in one go; \<open>pi_read_set\<close> is what the definition's read set answers on it.\<close>

record planning_input =
  pi_revision :: nat
  pi_view :: account_view
  pi_session :: session_state
  pi_context :: protocol_context
  pi_partitions :: "partition_snapshot option"
  pi_catalog :: string
  pi_read_set :: "plan \<Rightarrow> string + partition_key list"

text \<open>The planner's answer, made final and readable.\<close>

definition finish_planning :: "exec_config \<Rightarrow> planning_input \<Rightarrow> exec_error + plan \<Rightarrow> exec_error + plan" where
  "finish_planning c inp planned =
     (case planned of Inl e \<Rightarrow> Inl e
      | Inr p \<Rightarrow>
          (case finalize_plan (xc_definition c) (pi_view inp) (pi_revision inp) (pi_catalog inp) (pi_partitions inp)
              (if xc_read_set c then Some (pi_read_set inp) else None) p of
             Inl text \<Rightarrow> Inl (plain_error text)
           | Inr p \<Rightarrow> Inr (xc_humanize_plan c p)))"

definition use_checkpoint :: "execution \<Rightarrow> bool" where
  "use_checkpoint x \<longleftrightarrow> ex_checkpoint x \<noteq> None \<and> ex_completed x \<noteq> []"

text \<open>From the top of the loop to the gate.\<close>

definition start_pass :: "exec_config \<Rightarrow> gotime \<Rightarrow> bool \<Rightarrow> exec_error option \<Rightarrow> planning_input \<Rightarrow> exec_error + plan \<Rightarrow> execution \<Rightarrow> execution" where
  "start_pass c now drain ctx_err inp planned x =
     (case ctx_err of Some e \<Rightarrow> finish_fail c now drain e x
      | None \<Rightarrow>
          let x = adopt_connection (pi_session inp) x in
          if revision_conflict c (pi_revision inp) x then finish_fail c now drain (stale_error ''state revision changed'') x
          else
            let uc = use_checkpoint x in
            case (if uc then Inr ((the (ex_checkpoint x))\<lparr>pn_state_revision := pi_revision inp\<rparr>) else finish_planning c inp planned) of
              Inl e \<Rightarrow> finish_fail c now drain e x
            | Inr p \<Rightarrow>
                let r = set_plan p (ex_receipt x) in
                if ex_first_plan x \<and> xc_dry_run c
                then finish (r\<lparr>rc_status := Status_planned, rc_phase := Phase_completed, rc_completed_at := Some now\<rparr>) x
                else x\<lparr>ex_receipt := r, ex_first_plan := False, ex_phase := X_gate p uc (pi_revision inp)\<rparr>)"

text \<open>The gate, and the comparison of the admission held with the one the plan needs.\<close>

definition pass_gate :: "exec_config \<Rightarrow> gotime \<Rightarrow> bool \<Rightarrow> exec_error option \<Rightarrow> plan \<Rightarrow> bool \<Rightarrow> nat \<Rightarrow> execution \<Rightarrow> execution" where
  "pass_gate c now drain gate p uc revision x =
     (case gate of
        Some e \<Rightarrow> if ee_automation_locked e then pause_execution x else finish_fail c now drain e x
      | None \<Rightarrow>
          let changed = (\<not> same_admission (ex_admitted x) (pn_admission p));
              admitted = (if changed then None else ex_admitted x)
          in if pn_admission p \<noteq> None \<and> admitted = None
             then x\<lparr>ex_admitted := admitted, ex_phase := X_admission p uc revision,
                    ex_receipt := (ex_receipt x)\<lparr>rc_status := Status_queued, rc_phase := Phase_planned, rc_error := []\<rparr>\<rparr>
             else x\<lparr>ex_admitted := admitted, ex_phase := X_claims p uc revision changed\<rparr>)"

definition admit :: "exec_config \<Rightarrow> gotime \<Rightarrow> bool \<Rightarrow> exec_error option \<Rightarrow> plan \<Rightarrow> bool \<Rightarrow> nat \<Rightarrow> execution \<Rightarrow> execution" where
  "admit c now drain err p uc revision x =
     (case err of Some e \<Rightarrow> finish_fail c now drain e x
      | None \<Rightarrow> x\<lparr>ex_admitted := pn_admission p, ex_phase := X_claims p uc revision True\<rparr>)"

text \<open>The claims; the wait ends early when it would hold up an admission for too long.\<close>

definition acquire_claims :: "exec_config \<Rightarrow> gotime \<Rightarrow> bool \<Rightarrow> bool \<Rightarrow> exec_error + bool \<Rightarrow> plan \<Rightarrow> bool \<Rightarrow> nat \<Rightarrow> bool \<Rightarrow> execution \<Rightarrow> execution" where
  "acquire_claims c now drain ctx_done granted p uc revision changed x =
     (case granted of
        Inl e \<Rightarrow>
          if ex_admitted x \<noteq> None \<and> ee_deadline e \<and> \<not> ctx_done then x\<lparr>ex_admitted := None, ex_phase := X_plan\<rparr>
          else finish_fail c now drain e x
      | Inr waited \<Rightarrow> x\<lparr>ex_claims := Some (pn_resources p), ex_phase := X_revalidate p uc revision changed waited\<rparr>)"

text \<open>With the claims held: the same plan, or the plan of the state as it is now, as long as that needs
  the same claims and the same admission.\<close>

definition begin_execution :: "gotime \<Rightarrow> plan \<Rightarrow> nat \<Rightarrow> execution \<Rightarrow> execution" where
  "begin_execution now p revision x =
     (let r = set_plan p (ex_receipt x);
          started = (case eb_started_at (rc_body r) of None \<Rightarrow> now | Some t \<Rightarrow> t)
      in x\<lparr>ex_revision_accepted := True, ex_checkpoint := Some p, ex_phase := X_reserve p revision,
           ex_receipt := r\<lparr>rc_status := Status_running, rc_phase := Phase_planned, rc_error := [],
             rc_body := (rc_body r)\<lparr>eb_started_at := Some started\<rparr>\<rparr>\<rparr>)"

definition revalidate :: "exec_config \<Rightarrow> gotime \<Rightarrow> bool \<Rightarrow> nat \<Rightarrow> planning_input \<Rightarrow> exec_error + plan \<Rightarrow> plan \<Rightarrow> bool \<Rightarrow> nat \<Rightarrow> bool \<Rightarrow> bool \<Rightarrow>
    execution \<Rightarrow> execution" where
  "revalidate c now drain revision_now inp planned p uc revision changed waited x =
     (let again = (uc \<or> changed \<or> waited \<or> revision_now \<noteq> revision);
          current = (if again then pi_revision inp else revision)
      in if revision_conflict c current x
         then finish_fail c now drain (stale_error ''state revision changed while waiting for claims'') (release_claims x)
         else if uc \<or> again \<and> xc_read_set c \<and> \<not> changed \<and> \<not> waited \<and> pi_partitions inp \<noteq> None \<and>
              partitions_current (pi_partitions inp) (pn_dependencies p)
         then begin_execution now (p\<lparr>pn_state_revision := current\<rparr>) current x
         else if again
         then (case finish_planning c inp planned of
                 Inl e \<Rightarrow> finish_fail c now drain e (release_claims x)
               | Inr q \<Rightarrow>
                   if \<not> same_strings (pn_claims p) (pn_claims q) \<or> \<not> same_resource_keys (pn_resources p) (pn_resources q) \<or>
                      \<not> same_admission (pn_admission p) (pn_admission q)
                   then (release_claims x)\<lparr>ex_admitted := None, ex_phase := X_plan\<rparr>
                   else begin_execution now q current x)
         else begin_execution now p current x)"

text \<open>The durable record of the operation, before anything is sent: a reservation that is refused
  returns the operation stored under the same id.\<close>

definition reserve_execution :: "exec_config \<Rightarrow> gotime \<Rightarrow> exec_error + exec_receipt option \<Rightarrow> exec_error option \<Rightarrow> plan \<Rightarrow> nat \<Rightarrow> execution \<Rightarrow> execution" where
  "reserve_execution c now reserved persist_err p revision x =
     (case (if xc_durable c then reserved else Inr None) of
        Inl e \<Rightarrow> finish_persistence c now ''persist operation before execution'' e x
      | Inr (Some stored) \<Rightarrow> finish stored (release_claims x)
      | Inr None \<Rightarrow>
          (case persist_err of Some e \<Rightarrow> finish_persistence c now ''persist operation before execution'' e x
           | None \<Rightarrow>
               x\<lparr>ex_reserved := xc_durable c,
                 ex_phase := X_step \<lparr>at_plan = p, at_index = 0, at_counted = [], at_revision = revision, at_uncommitted = 0\<rparr>\<rparr>))"

section \<open>Executing the steps\<close>

definition current_step :: "attempt \<Rightarrow> step" where
  "current_step a = pn_steps (at_plan a) ! at_index a"

definition step_key :: "exec_config \<Rightarrow> step \<Rightarrow> string" where
  "step_key c s = step_resume_key (xc_encode_retry c) s"

definition rebuilds :: "step \<Rightarrow> bool" where
  "rebuilds s \<longleftrightarrow> st_resume_policy s = resume_rebuild"

text \<open>Waiting until the acknowledged responses are committed: \<open>flush\<close> is the answer of the observer.\<close>

definition flush_error :: "exec_error option \<Rightarrow> attempt \<Rightarrow> exec_error option" where
  "flush_error flush a = (if at_uncommitted a = 0 then None else flush)"

definition flushed :: "attempt \<Rightarrow> attempt" where
  "flushed a = a\<lparr>at_uncommitted := 0\<rparr>"

text \<open>The top of the loop: skip what an earlier attempt has completed, pass the gate, commit what the step may
  depend on.\<close>

definition step_top :: "exec_config \<Rightarrow> gotime \<Rightarrow> bool \<Rightarrow> exec_error option \<Rightarrow> exec_error option \<Rightarrow> nat \<Rightarrow> session_state \<Rightarrow> attempt \<Rightarrow>
    execution \<Rightarrow> execution" where
  "step_top c now drain gate flush revision_now session a x =
     (if length (pn_steps (at_plan a)) \<le> at_index a then x\<lparr>ex_phase := X_end a Pass_finished\<rparr>
      else
        let s = current_step a; key = step_key c s in
        if \<not> rebuilds s \<and> count_list (at_counted a) key < count_list (ex_completed x) key
        then x\<lparr>ex_phase := X_step (a\<lparr>at_index := at_index a + 1, at_counted := at_counted a @ [key]\<rparr>)\<rparr>
        else case gate of
          Some e \<Rightarrow>
            (case flush_error flush a of
               Some f \<Rightarrow> finish_after_progress c now drain (wrap_error ''commit acknowledged response before yielding'' f) x
             | None \<Rightarrow> if ee_automation_locked e then x\<lparr>ex_phase := X_end (flushed a) Pass_yielded\<rparr>
                       else finish_after_progress c now drain e x)
        | None \<Rightarrow>
            let committed = (st_response_barrier s \<noteq> barrier_wire \<and> st_response_barrier s \<noteq> barrier_wire_then_committed) in
            case (if committed then flush_error flush a else None) of
              Some f \<Rightarrow> finish_after_progress c now drain (wrap_error ''commit acknowledged response before state-dependent step'' f) x
            | None \<Rightarrow>
                let a' = (if committed then (flushed a)\<lparr>at_revision := revision_now\<rparr> else a);
                    x' = adopt_connection session x
                in x'\<lparr>ex_phase := (if key \<in> set (ex_pending_retries x') then X_guard a' else X_execute a')\<rparr>)"

text \<open>The guard before a step is sent again, at the beginning of an attempt and after a response that asks for
  it.\<close>

definition pass_guard :: "exec_config \<Rightarrow> exec_error option \<Rightarrow> nat \<Rightarrow> attempt \<Rightarrow> execution \<Rightarrow> execution" where
  "pass_guard c guard revision_now a x =
     (case guard of
        Some e \<Rightarrow> x\<lparr>ex_phase := X_failed a (wrap_error ''response retry guard'' e)\<rparr>
      | None \<Rightarrow> x\<lparr>ex_pending_retries := removeAll (step_key c (current_step a)) (ex_pending_retries x),
                  ex_phase := X_execute (a\<lparr>at_revision := revision_now\<rparr>)\<rparr>)"

text \<open>What the call of \<open>executeStep\<close> brings: the phases it went through, the evidence it recorded, the
  number of acknowledged responses that are not committed yet, the response captured, and its
  result, an error as \<open>guardRejection\<close> leaves it.\<close>

datatype step_result = Step_ok | Step_error exec_error | Step_expanded "step list"

record step_outcome =
  so_phases :: "effect_phase list"
  so_evidence :: "string list"
  so_uncommitted :: nat
  so_exchange :: "string option"
  so_result :: step_result

definition expand_step :: "nat \<Rightarrow> step list \<Rightarrow> plan \<Rightarrow> plan" where
  "expand_step i steps p = p\<lparr>pn_steps := take i (pn_steps p) @ steps @ drop (i + 1) (pn_steps p)\<rparr>"

definition record_exchange :: "string option \<Rightarrow> exec_receipt \<Rightarrow> exec_receipt" where
  "record_exchange exchange r =
     (case exchange of None \<Rightarrow> r | Some e \<Rightarrow> r\<lparr>rc_body := (rc_body r)\<lparr>eb_exchanges := eb_exchanges (rc_body r) @ [e]\<rparr>\<rparr>)"

definition note_execution :: "exec_config \<Rightarrow> step_outcome \<Rightarrow> attempt \<Rightarrow> execution \<Rightarrow> execution" where
  "note_execution c out a x =
     (let r = fold advance_effect_phase (so_phases out) (ex_receipt x)
      in x\<lparr>ex_receipt := r\<lparr>rc_body := (rc_body r)\<lparr>eb_evidence := eb_evidence (rc_body r) @ so_evidence out\<rparr>\<rparr>,
           ex_log := ex_log x @ [(step_key c (current_step a), at_plan a, ex_claims x, ex_admitted x, ex_reserved x)]\<rparr>)"

definition execute_step :: "exec_config \<Rightarrow> gotime \<Rightarrow> step_outcome \<Rightarrow> exec_error option \<Rightarrow> exec_error option \<Rightarrow> attempt \<Rightarrow> execution \<Rightarrow> execution" where
  "execute_step c now out evidence_err expansion_err a x =
     (let s = current_step a;
          x = note_execution c out a x;
          a = a\<lparr>at_uncommitted := at_uncommitted a + so_uncommitted out\<rparr>
      in case (if so_evidence out \<noteq> [] then evidence_err else None) of
           Some e \<Rightarrow> finish_persistence c now ''persist operation evidence'' e x
         | None \<Rightarrow>
             (case so_result out of
                Step_expanded steps \<Rightarrow>
                  let p = expand_step (at_index a) steps (at_plan a);
                      x = x\<lparr>ex_checkpoint := Some p, ex_receipt := set_plan p (ex_receipt x)\<rparr>
                  in (case expansion_err of Some e \<Rightarrow> finish_persistence c now ''persist resolved command batches'' e x
                      | None \<Rightarrow> x\<lparr>ex_phase := X_step (a\<lparr>at_plan := p\<rparr>)\<rparr>)
              | Step_error e \<Rightarrow>
                  let x = x\<lparr>ex_receipt := record_exchange (so_exchange out) (ex_receipt x)\<rparr>
                  in if retryable_step_response s e
                     then x\<lparr>ex_pending_retries := List.insert (step_key c s) (ex_pending_retries x), ex_phase := X_retry a\<rparr>
                     else x\<lparr>ex_phase := X_failed a e\<rparr>
              | Step_ok \<Rightarrow>
                  x\<lparr>ex_receipt := record_exchange (so_exchange out) (ex_receipt x), ex_phase := X_completed a\<rparr>))"

definition retry_step :: "exec_config \<Rightarrow> exec_error option \<Rightarrow> exec_error option \<Rightarrow> nat \<Rightarrow> attempt \<Rightarrow> execution \<Rightarrow> execution" where
  "retry_step c gate guard revision_now a x =
     (case gate of Some e \<Rightarrow> x\<lparr>ex_phase := X_failed a e\<rparr> | None \<Rightarrow> pass_guard c guard revision_now a x)"

definition step_failed :: "exec_config \<Rightarrow> gotime \<Rightarrow> bool \<Rightarrow> exec_error option \<Rightarrow> attempt \<Rightarrow> exec_error \<Rightarrow> execution \<Rightarrow> execution" where
  "step_failed c now drain flush a e x =
     (let e = (case flush_error flush a of None \<Rightarrow> e | Some f \<Rightarrow> join_errors e (wrap_error ''commit earlier acknowledged response'' f));
          b = flushed a
      in if ee_automation_locked e then x\<lparr>ex_phase := X_end b Pass_yielded\<rparr>
         else if ee_plan_stale e \<and> ex_completed x = [] then x\<lparr>ex_phase := X_end b (Pass_replan e)\<rparr>
         else finish_after_progress c now drain (wrap_error (step_label (current_step a)) e) x)"

definition count_step :: "exec_config \<Rightarrow> attempt \<Rightarrow> execution \<Rightarrow> execution" where
  "count_step c a x =
     (if rebuilds (current_step a) then x
      else x\<lparr>ex_completed := ex_completed x @ [step_key c (current_step a)],
             ex_receipt := (ex_receipt x)\<lparr>rc_body := (rc_body (ex_receipt x))
               \<lparr>eb_completed_steps := append_completed_step_index (eb_completed_steps (rc_body (ex_receipt x))) (at_index a)\<rparr>\<rparr>\<rparr>)"

definition count_attempt :: "exec_config \<Rightarrow> attempt \<Rightarrow> attempt" where
  "count_attempt c a =
     (if rebuilds (current_step a) then a else a\<lparr>at_counted := at_counted a @ [step_key c (current_step a)]\<rparr>)"

definition step_completed :: "exec_config \<Rightarrow> gotime \<Rightarrow> bool \<Rightarrow> exec_error option \<Rightarrow> nat \<Rightarrow> attempt \<Rightarrow> execution \<Rightarrow> execution" where
  "step_completed c now drain flush revision_now a x =
     (let wire = (st_response_barrier (current_step a) = barrier_wire);
          y = count_step c a x;
          b = (count_attempt c a)\<lparr>at_index := at_index a + 1\<rparr>
      in case (if wire then None else flush_error flush a) of
           Some f \<Rightarrow> finish_after_progress c now drain (wrap_error ''commit acknowledged response'' f) y
         | None \<Rightarrow> y\<lparr>ex_phase := X_step (if wire then b else (flushed b)\<lparr>at_revision := revision_now\<rparr>)\<rparr>)"

section \<open>The end of a pass\<close>

definition maximum_stale_replans :: nat where
  "maximum_stale_replans = 3"

definition end_pass :: "exec_config \<Rightarrow> gotime \<Rightarrow> bool \<Rightarrow> exec_error option \<Rightarrow> exec_error option \<Rightarrow> attempt \<Rightarrow> pass_outcome \<Rightarrow> execution \<Rightarrow> execution" where
  "end_pass c now drain flush persist_err a outcome x =
     (case flush_error flush a of
        Some f \<Rightarrow> finish_after_progress c now drain (wrap_error ''commit acknowledged response before completion'' f) x
      | None \<Rightarrow>
          let x = (release_claims x)\<lparr>ex_admitted := None\<rparr> in
          case outcome of
            Pass_replan cause \<Rightarrow>
              let x = x\<lparr>ex_stale_replans := ex_stale_replans x + 1\<rparr> in
              if maximum_stale_replans < ex_stale_replans x
              then finish_fail c now drain (cause\<lparr>ee_text := ee_text cause @ '' after '' @ show_int (int (ex_stale_replans x) - 1) @ '' replans''\<rparr>) x
              else
                let x = x\<lparr>ex_checkpoint := None,
                          ex_receipt := (ex_receipt x)\<lparr>rc_status := Status_planning, rc_phase := Phase_accepted, rc_error := []\<rparr>\<rparr>
                in (case persist_err of Some e \<Rightarrow> finish_persistence c now ''persist replanning operation'' e x
                    | None \<Rightarrow> x\<lparr>ex_phase := X_plan\<rparr>)
          | Pass_yielded \<Rightarrow> pause_execution x
          | Pass_finished \<Rightarrow>
              let r = (ex_receipt x)\<lparr>rc_status := Status_succeeded, rc_phase := Phase_completed, rc_error := [], rc_completed_at := Some now\<rparr>
              in (case persist_err of None \<Rightarrow> finish r x
                  | Some e \<Rightarrow>
                      finish (with_failure (xc_humanize c) (''persist completed operation: '' @ ee_text e)
                        (r\<lparr>rc_status := (if rc_plan_effect r = Some Effect_read then Status_failed else Status_indeterminate),
                           rc_phase := Phase_reconciliation_required\<rparr>)) x))"

section \<open>The permit of a dispatch\<close>

text \<open>The check before each command of a pass leaves: \<open>was\<close> is the state the plan was checked against,
  \<open>view\<close> the state now. The partitions, or else the revision, and the focus matter for the first command only.\<close>

definition dispatch_permit :: "exec_error option \<Rightarrow> plan \<Rightarrow> planning_input \<Rightarrow> planning_input \<Rightarrow> nat \<Rightarrow> nat \<Rightarrow> exec_error + nat" where
  "dispatch_permit lane_err p was view expected_revision dispatches =
     (case lane_err of Some e \<Rightarrow> Inl e
      | None \<Rightarrow>
          let (world, player) = bound_account (pi_view was); (world', player') = bound_account (pi_view view) in
          if dispatches = 0 \<and> pn_dependencies p \<noteq> [] \<and> pi_partitions view \<noteq> None \<and>
             \<not> partitions_current (pi_partitions view) (pn_dependencies p)
          then Inl (stale_error ''a declared state partition changed'')
          else if dispatches = 0 \<and> (pn_dependencies p = [] \<or> pi_partitions view = None) \<and> pi_revision view \<noteq> expected_revision
          then Inl (stale_error ''state revision changed'')
          else if 0 < pc_session_generation (pi_context was) \<and> pc_session_generation (pi_context view) \<noteq> pc_session_generation (pi_context was)
          then Inl (stale_error ''session generation changed'')
          else if 0 < pc_connection_generation (pi_context was) \<and>
             pc_connection_generation (pi_context view) \<noteq> pc_connection_generation (pi_context was)
          then Inl (stale_error ''connection generation changed'')
          else if world \<noteq> [] \<and> to_lower world \<noteq> to_lower world' then Inl (stale_error ''bound game world changed'')
          else if 0 < player \<and> player' \<noteq> player then Inl (stale_error ''bound game account changed'')
          else if pn_catalog_version p \<noteq> [] \<and> pi_catalog view \<noteq> pn_catalog_version p
          then Inl (stale_error ''official game-data catalog changed'')
          else if dispatches = 0 \<and> plan_uses_focus (pn_resources p) \<and>
             (pc_focus_epoch (pi_context view) \<noteq> pc_focus_epoch (pi_context was) \<or>
              pc_focused_castle (pi_context view) \<noteq> pc_focused_castle (pi_context was))
          then Inl (stale_error ''focused castle context changed'')
          else Inr (dispatches + 1))"

section \<open>The machine\<close>

text \<open>What \<open>execute\<close> checks before its loop: the priority, the definition of the intent, and the lane.\<close>

definition enter_execution :: "exec_config \<Rightarrow> gotime \<Rightarrow> bool \<Rightarrow> exec_error option \<Rightarrow> exec_receipt \<Rightarrow> execution" where
  "enter_execution c now drain entry_err r =
     (case entry_err of Some e \<Rightarrow> finish_fail c now drain e (new_execution r) | None \<Rightarrow> new_execution r)"

inductive exec_step :: "exec_config \<Rightarrow> execution \<Rightarrow> execution \<Rightarrow> bool" for c where
  Start: "ex_phase x = X_plan \<Longrightarrow> exec_step c x (start_pass c now drain ctx_err inp planned x)"
| Gate: "ex_phase x = X_gate p uc revision \<Longrightarrow> exec_step c x (pass_gate c now drain gate p uc revision x)"
| Admit: "ex_phase x = X_admission p uc revision \<Longrightarrow> exec_step c x (admit c now drain err p uc revision x)"
| Acquire: "ex_phase x = X_claims p uc revision changed \<Longrightarrow>
    exec_step c x (acquire_claims c now drain ctx_done granted p uc revision changed x)"
| Revalidate: "ex_phase x = X_revalidate p uc revision changed waited \<Longrightarrow>
    exec_step c x (revalidate c now drain revision_now inp planned p uc revision changed waited x)"
| Reserve: "ex_phase x = X_reserve p revision \<Longrightarrow> exec_step c x (reserve_execution c now reserved persist_err p revision x)"
| Top: "ex_phase x = X_step a \<Longrightarrow> exec_step c x (step_top c now drain gate flush revision_now session a x)"
| Guard: "ex_phase x = X_guard a \<Longrightarrow> exec_step c x (pass_guard c guard revision_now a x)"
| Execute: "ex_phase x = X_execute a \<Longrightarrow> exec_step c x (execute_step c now out evidence_err expansion_err a x)"
| Retry: "ex_phase x = X_retry a \<Longrightarrow> exec_step c x (retry_step c gate guard revision_now a x)"
| Fail: "ex_phase x = X_failed a e \<Longrightarrow> exec_step c x (step_failed c now drain flush a e x)"
| Complete: "ex_phase x = X_completed a \<Longrightarrow> exec_step c x (step_completed c now drain flush revision_now a x)"
| End: "ex_phase x = X_end a outcome \<Longrightarrow> exec_step c x (end_pass c now drain flush persist_err a outcome x)"

inductive exec_reachable :: "exec_config \<Rightarrow> exec_receipt \<Rightarrow> execution \<Rightarrow> bool" for c r where
  Enter: "exec_reachable c r (enter_execution c now drain entry_err r)"
| Move: "exec_reachable c r x \<Longrightarrow> exec_step c x y \<Longrightarrow> exec_reachable c r y"

end
