(* ===== verification/ExecutionProofs.thy ===== *)
theory ExecutionProofs
  imports Execution "HOL-Library.Multiset"
begin

text \<open>
  Properties of the execution of an operation: what it holds while it executes a step, that it
  leaves nothing behind, how often a step is completed across pauses, what a success means, how
  often it plans anew, and what its failures report.
\<close>

section \<open>Fields after a return\<close>

lemma finish_fields [simp]:
  "ex_receipt (finish r x) = r" "ex_phase (finish r x) = X_done" "ex_admitted (finish r x) = None" "ex_claims (finish r x) = ex_claims x"
  "ex_log (finish r x) = ex_log x" "ex_completed (finish r x) = ex_completed x" "ex_checkpoint (finish r x) = ex_checkpoint x"
  "ex_stale_replans (finish r x) = ex_stale_replans x" "ex_reserved (finish r x) = ex_reserved x"
  by (simp_all add: finish_def)

lemma release_claims_fields [simp]:
  "ex_receipt (release_claims x) = ex_receipt x" "ex_phase (release_claims x) = ex_phase x" "ex_admitted (release_claims x) = ex_admitted x"
  "ex_claims (release_claims x) = None" "ex_log (release_claims x) = ex_log x" "ex_completed (release_claims x) = ex_completed x"
  "ex_checkpoint (release_claims x) = ex_checkpoint x" "ex_stale_replans (release_claims x) = ex_stale_replans x"
  "ex_reserved (release_claims x) = ex_reserved x"
  by (simp_all add: release_claims_def)

lemma finish_fail_fields [simp]:
  "ex_receipt (finish_fail c now drain e x) = fail_receipt c now drain e (ex_receipt x)"
  "ex_phase (finish_fail c now drain e x) = X_done" "ex_admitted (finish_fail c now drain e x) = None"
  "ex_claims (finish_fail c now drain e x) = ex_claims x" "ex_log (finish_fail c now drain e x) = ex_log x"
  "ex_completed (finish_fail c now drain e x) = ex_completed x" "ex_checkpoint (finish_fail c now drain e x) = ex_checkpoint x"
  "ex_stale_replans (finish_fail c now drain e x) = ex_stale_replans x"
  by (simp_all add: finish_fail_def)

lemma finish_after_progress_fields [simp]:
  "ex_receipt (finish_after_progress c now drain e x) = fail_after_progress c now drain e (ex_completed x) (ex_receipt x)"
  "ex_phase (finish_after_progress c now drain e x) = X_done" "ex_admitted (finish_after_progress c now drain e x) = None"
  "ex_claims (finish_after_progress c now drain e x) = None" "ex_log (finish_after_progress c now drain e x) = ex_log x"
  "ex_completed (finish_after_progress c now drain e x) = ex_completed x" "ex_checkpoint (finish_after_progress c now drain e x) = ex_checkpoint x"
  "ex_stale_replans (finish_after_progress c now drain e x) = ex_stale_replans x"
  by (simp_all add: finish_after_progress_def)

lemma finish_persistence_fields [simp]:
  "ex_phase (finish_persistence c now t e x) = X_done" "ex_admitted (finish_persistence c now t e x) = None"
  "ex_claims (finish_persistence c now t e x) = None" "ex_log (finish_persistence c now t e x) = ex_log x"
  "ex_completed (finish_persistence c now t e x) = ex_completed x" "ex_checkpoint (finish_persistence c now t e x) = ex_checkpoint x"
  "ex_stale_replans (finish_persistence c now t e x) = ex_stale_replans x"
  by (simp_all add: finish_persistence_def)

lemma pause_execution_fields [simp]:
  "ex_receipt (pause_execution x) = pause_receipt (ex_receipt x)" "ex_phase (pause_execution x) = X_plan"
  "ex_admitted (pause_execution x) = ex_admitted x" "ex_claims (pause_execution x) = ex_claims x" "ex_log (pause_execution x) = ex_log x"
  "ex_completed (pause_execution x) = ex_completed x" "ex_checkpoint (pause_execution x) = ex_checkpoint x"
  "ex_stale_replans (pause_execution x) = ex_stale_replans x" "ex_reserved (pause_execution x) = ex_reserved x"
  by (simp_all add: pause_execution_def)

lemma adopt_connection_fields [simp]:
  "ex_receipt (adopt_connection s x) = ex_receipt x" "ex_phase (adopt_connection s x) = ex_phase x"
  "ex_admitted (adopt_connection s x) = ex_admitted x" "ex_claims (adopt_connection s x) = ex_claims x"
  "ex_log (adopt_connection s x) = ex_log x" "ex_completed (adopt_connection s x) = ex_completed x"
  "ex_checkpoint (adopt_connection s x) = ex_checkpoint x" "ex_stale_replans (adopt_connection s x) = ex_stale_replans x"
  "ex_reserved (adopt_connection s x) = ex_reserved x" "ex_pending_retries (adopt_connection s x) = ex_pending_retries x"
  "ex_first_plan (adopt_connection s x) = ex_first_plan x"
  by (simp_all add: adopt_connection_def)

lemma begin_execution_fields [simp]:
  "ex_phase (begin_execution now p n x) = X_reserve p n" "ex_admitted (begin_execution now p n x) = ex_admitted x"
  "ex_claims (begin_execution now p n x) = ex_claims x" "ex_log (begin_execution now p n x) = ex_log x"
  "ex_completed (begin_execution now p n x) = ex_completed x" "ex_checkpoint (begin_execution now p n x) = Some p"
  "ex_stale_replans (begin_execution now p n x) = ex_stale_replans x" "ex_reserved (begin_execution now p n x) = ex_reserved x"
  by (simp_all add: begin_execution_def Let_def)

lemma note_execution_fields [simp]:
  "ex_phase (note_execution c out a x) = ex_phase x" "ex_admitted (note_execution c out a x) = ex_admitted x"
  "ex_claims (note_execution c out a x) = ex_claims x" "ex_completed (note_execution c out a x) = ex_completed x"
  "ex_log (note_execution c out a x) = ex_log x @ [(step_key c (current_step a), at_plan a, ex_claims x, ex_admitted x, ex_reserved x)]"
  "ex_checkpoint (note_execution c out a x) = ex_checkpoint x" "ex_stale_replans (note_execution c out a x) = ex_stale_replans x"
  "ex_reserved (note_execution c out a x) = ex_reserved x" "ex_pending_retries (note_execution c out a x) = ex_pending_retries x"
  by (simp_all add: note_execution_def Let_def)

lemma execute_step_log:
  "ex_log (execute_step c now out evidence_err expansion_err a x) =
     ex_log x @ [(step_key c (current_step a), at_plan a, ex_claims x, ex_admitted x, ex_reserved x)]"
  by (simp add: execute_step_def Let_def split: option.split step_result.split)

lemma count_step_fields [simp]:
  "ex_phase (count_step c a x) = ex_phase x" "ex_admitted (count_step c a x) = ex_admitted x" "ex_claims (count_step c a x) = ex_claims x"
  "ex_log (count_step c a x) = ex_log x" "ex_checkpoint (count_step c a x) = ex_checkpoint x"
  "ex_stale_replans (count_step c a x) = ex_stale_replans x" "ex_reserved (count_step c a x) = ex_reserved x"
  "ex_completed (count_step c a x) =
     (if rebuilds (current_step a) then ex_completed x else ex_completed x @ [step_key c (current_step a)])"
  by (simp_all add: count_step_def)

lemma count_attempt_fields [simp]:
  "at_plan (count_attempt c a) = at_plan a" "at_index (count_attempt c a) = at_index a"
  "at_counted (count_attempt c a) = (if rebuilds (current_step a) then at_counted a else at_counted a @ [step_key c (current_step a)])"
  by (simp_all add: count_attempt_def)

lemma flushed_fields [simp]:
  "at_plan (flushed a) = at_plan a" "at_index (flushed a) = at_index a" "at_counted (flushed a) = at_counted a"
  "current_step (flushed a) = current_step a"
  by (simp_all add: flushed_def current_step_def)

lemma expand_step_fields [simp]:
  "pn_resources (expand_step i steps p) = pn_resources p" "pn_admission (expand_step i steps p) = pn_admission p"
  "pn_effect (expand_step i steps p) = pn_effect p"
  "pn_steps (expand_step i steps p) = take i (pn_steps p) @ steps @ drop (i + 1) (pn_steps p)"
  by (simp_all add: expand_step_def)

lemma same_resource_keys_refl [simp]: "same_resource_keys rs rs"
  by (simp add: same_resource_keys_def list_all2_refl)

section \<open>What is held\<close>

definition holding :: "resource_key list option \<Rightarrow> admission option \<Rightarrow> plan \<Rightarrow> bool" where
  "holding claims admitted p \<longleftrightarrow> (\<exists>rs. claims = Some rs \<and> same_resource_keys rs (pn_resources p)) \<and> admitted = pn_admission p"

lemma holding_cong [simp]: "holding claims admitted (expand_step i steps p) = holding claims admitted p"
  "holding claims admitted (p\<lparr>pn_state_revision := n\<rparr>) = holding claims admitted p"
  by (simp_all add: holding_def)

definition entry_ok :: "exec_config \<Rightarrow> string \<times> plan \<times> resource_key list option \<times> admission option \<times> bool \<Rightarrow> bool" where
  "entry_ok c entry \<longleftrightarrow>
     (case entry of (key, p, claims, admitted, reserved) \<Rightarrow> holding claims admitted p \<and> reserved = xc_durable c)"

fun held_in :: "exec_config \<Rightarrow> resource_key list option \<Rightarrow> admission option \<Rightarrow> bool \<Rightarrow> exec_phase \<Rightarrow> bool" where
  "held_in c claims admitted reserved (X_claims p uc n changed) \<longleftrightarrow> claims = None \<and> admitted = pn_admission p"
| "held_in c claims admitted reserved (X_revalidate p uc n changed waited) \<longleftrightarrow> claims = Some (pn_resources p) \<and> admitted = pn_admission p"
| "held_in c claims admitted reserved (X_reserve p n) \<longleftrightarrow> holding claims admitted p"
| "held_in c claims admitted reserved (X_step a) \<longleftrightarrow> holding claims admitted (at_plan a) \<and> reserved = xc_durable c"
| "held_in c claims admitted reserved (X_guard a) \<longleftrightarrow> holding claims admitted (at_plan a) \<and> reserved = xc_durable c"
| "held_in c claims admitted reserved (X_execute a) \<longleftrightarrow> holding claims admitted (at_plan a) \<and> reserved = xc_durable c"
| "held_in c claims admitted reserved (X_retry a) \<longleftrightarrow> holding claims admitted (at_plan a) \<and> reserved = xc_durable c"
| "held_in c claims admitted reserved (X_failed a e) \<longleftrightarrow> holding claims admitted (at_plan a) \<and> reserved = xc_durable c"
| "held_in c claims admitted reserved (X_completed a) \<longleftrightarrow> holding claims admitted (at_plan a) \<and> reserved = xc_durable c"
| "held_in c claims admitted reserved (X_end a outcome) \<longleftrightarrow> holding claims admitted (at_plan a) \<and> reserved = xc_durable c"
| "held_in c claims admitted reserved X_done \<longleftrightarrow> claims = None \<and> admitted = None"
| "held_in c claims admitted reserved ph \<longleftrightarrow> claims = None"

definition held_inv :: "exec_config \<Rightarrow> execution \<Rightarrow> bool" where
  "held_inv c x \<longleftrightarrow> held_in c (ex_claims x) (ex_admitted x) (ex_reserved x) (ex_phase x) \<and> (\<forall>entry \<in> set (ex_log x). entry_ok c entry)"

lemma held_inv_step: "exec_step c x y \<Longrightarrow> held_inv c x \<Longrightarrow> held_inv c y"
proof (induction rule: exec_step.induct)
  case (Start x now drain ctx_err inp planned)
  then show ?case by (auto simp: held_inv_def start_pass_def Let_def split: option.split sum.split)
next
  case (Gate x p uc revision now drain gate)
  then show ?case by (auto simp: held_inv_def pass_gate_def same_admission_def Let_def split: option.split)
next
  case (Admit x p uc revision now drain err)
  then show ?case by (auto simp: held_inv_def admit_def split: option.split)
next
  case (Acquire x p uc revision changed now drain ctx_done granted)
  then show ?case by (auto simp: held_inv_def acquire_claims_def split: sum.split)
next
  case (Revalidate x p uc revision changed waited now drain revision_now inp planned)
  then show ?case
    by (auto simp: held_inv_def revalidate_def holding_def same_admission_def Let_def split: sum.split)
next
  case (Reserve x p revision now reserved persist_err)
  then show ?case by (auto simp: held_inv_def reserve_execution_def split: sum.split option.split)
next
  case (Top x a now drain gate flush revision_now session)
  then show ?case by (auto simp: held_inv_def step_top_def Let_def split: option.split)
next
  case (Guard x a guard revision_now)
  then show ?case by (auto simp: held_inv_def pass_guard_def split: option.split)
next
  case (Execute x a now out evidence_err expansion_err)
  then show ?case
    by (auto simp: held_inv_def execute_step_def entry_ok_def Let_def split: option.split step_result.split)
next
  case (Retry x a gate guard revision_now)
  then show ?case by (auto simp: held_inv_def retry_step_def pass_guard_def split: option.split)
next
  case (Fail x a e now drain flush)
  then show ?case by (auto simp: held_inv_def step_failed_def Let_def split: option.split)
next
  case (Complete x a now drain flush revision_now)
  then show ?case by (auto simp: held_inv_def step_completed_def Let_def split: option.split)
next
  case (End x a outcome now drain flush persist_err)
  then show ?case by (auto simp: held_inv_def end_pass_def Let_def split: option.split pass_outcome.split)
qed

lemma exec_invariant:
  assumes "exec_reachable c r x" "\<And>now drain entry_err. I (enter_execution c now drain entry_err r)" "\<And>x y. exec_step c x y \<Longrightarrow> I x \<Longrightarrow> I y"
  shows "I x"
  using assms(1) by (induction rule: exec_reachable.induct) (auto intro: assms(2,3))

lemma held_inv_reachable: "exec_reachable c r x \<Longrightarrow> held_inv c x"
proof (erule exec_invariant)
  show "held_inv c (enter_execution c now drain entry_err r)" for now drain entry_err
    by (simp add: held_inv_def enter_execution_def new_execution_def split: option.split)
qed (rule held_inv_step)


text \<open>C31. An execution that has returned holds neither claims nor an admission, whichever way it took; and
  while it plans, waits for the gate or for its admission it holds no claims.\<close>

theorem returned_holds_nothing:
  assumes "exec_reachable c r x"
  shows "(ex_phase x = X_done \<longrightarrow> ex_claims x = None \<and> ex_admitted x = None) \<and>
    (\<forall>p uc n. ex_phase x \<in> {X_plan, X_gate p uc n, X_admission p uc n} \<longrightarrow> ex_claims x = None)"
  using held_inv_reachable [OF assms] by (auto simp: held_inv_def)

section \<open>Progress across attempts\<close>

definition step_keys :: "exec_config \<Rightarrow> step list \<Rightarrow> string list" where
  "step_keys c steps = map (step_key c) (filter (\<lambda>s. \<not> rebuilds s) steps)"

lemma step_keys_simps [simp]:
  "step_keys c [] = []"
  "step_keys c (s # steps) = (if rebuilds s then step_keys c steps else step_key c s # step_keys c steps)"
  "step_keys c (steps @ steps') = step_keys c steps @ step_keys c steps'"
  by (simp_all add: step_keys_def)

text \<open>What has been passed in this attempt is exactly what stands before the index, and all of it is completed.\<close>

definition attempt_ok :: "exec_config \<Rightarrow> string list \<Rightarrow> plan option \<Rightarrow> attempt \<Rightarrow> bool" where
  "attempt_ok c completed checkpoint a \<longleftrightarrow>
     checkpoint = Some (at_plan a) \<and> at_counted a = step_keys c (take (at_index a) (pn_steps (at_plan a))) \<and>
     mset (at_counted a) \<subseteq># mset completed \<and> mset completed \<subseteq># mset (step_keys c (pn_steps (at_plan a)))"

text \<open>The step at the index is not completed yet.\<close>

definition due_ok :: "exec_config \<Rightarrow> string list \<Rightarrow> plan option \<Rightarrow> attempt \<Rightarrow> bool" where
  "due_ok c completed checkpoint a \<longleftrightarrow>
     attempt_ok c completed checkpoint a \<and> at_index a < length (pn_steps (at_plan a)) \<and>
     (\<not> rebuilds (current_step a) \<longrightarrow>
        count_list completed (step_key c (current_step a)) = count_list (at_counted a) (step_key c (current_step a)))"

definition resume_ok :: "string list \<Rightarrow> plan option \<Rightarrow> plan \<Rightarrow> bool \<Rightarrow> bool" where
  "resume_ok completed checkpoint p uc \<longleftrightarrow>
     (if uc then \<exists>q. checkpoint = Some q \<and> pn_steps p = pn_steps q else completed = [])"

fun progress_in :: "exec_config \<Rightarrow> string list \<Rightarrow> plan option \<Rightarrow> exec_phase \<Rightarrow> bool" where
  "progress_in c completed checkpoint (X_gate p uc n) \<longleftrightarrow> resume_ok completed checkpoint p uc"
| "progress_in c completed checkpoint (X_admission p uc n) \<longleftrightarrow> resume_ok completed checkpoint p uc"
| "progress_in c completed checkpoint (X_claims p uc n changed) \<longleftrightarrow> resume_ok completed checkpoint p uc"
| "progress_in c completed checkpoint (X_revalidate p uc n changed waited) \<longleftrightarrow> resume_ok completed checkpoint p uc"
| "progress_in c completed checkpoint (X_reserve p n) \<longleftrightarrow> checkpoint = Some p"
| "progress_in c completed checkpoint (X_step a) \<longleftrightarrow> attempt_ok c completed checkpoint a"
| "progress_in c completed checkpoint (X_guard a) \<longleftrightarrow> due_ok c completed checkpoint a"
| "progress_in c completed checkpoint (X_execute a) \<longleftrightarrow> due_ok c completed checkpoint a"
| "progress_in c completed checkpoint (X_retry a) \<longleftrightarrow> due_ok c completed checkpoint a"
| "progress_in c completed checkpoint (X_failed a e) \<longleftrightarrow> due_ok c completed checkpoint a"
| "progress_in c completed checkpoint (X_completed a) \<longleftrightarrow> due_ok c completed checkpoint a"
| "progress_in c completed checkpoint (X_end a outcome) \<longleftrightarrow> attempt_ok c completed checkpoint a \<and>
     (case outcome of Pass_finished \<Rightarrow> length (pn_steps (at_plan a)) \<le> at_index a | Pass_yielded \<Rightarrow> True | Pass_replan e \<Rightarrow> completed = [])"
| "progress_in c completed checkpoint ph \<longleftrightarrow> True"

definition progress_inv :: "exec_config \<Rightarrow> execution \<Rightarrow> bool" where
  "progress_inv c x \<longleftrightarrow>
     progress_in c (ex_completed x) (ex_checkpoint x) (ex_phase x) \<and>
     (ex_completed x \<noteq> [] \<longrightarrow>
       (\<exists>q. ex_checkpoint x = Some q \<and> mset (ex_completed x) \<subseteq># mset (step_keys c (pn_steps q))))"

lemma count_take_less:
  assumes "i < length steps" "\<not> rebuilds (steps ! i)"
  shows "count (mset (step_keys c (take i steps))) (step_key c (steps ! i)) < count (mset (step_keys c steps)) (step_key c (steps ! i))"
proof -
  have "step_keys c steps = step_keys c (take i steps) @ step_keys c (drop i steps)"
    by (metis append_take_drop_id step_keys_simps(3))
  moreover have "step_keys c (drop i steps) = step_key c (steps ! i) # step_keys c (drop (i + 1) steps)"
    using assms by (simp add: Cons_nth_drop_Suc [symmetric])
  ultimately show ?thesis by simp
qed

lemma step_keys_take_Suc:
  "i < length steps \<Longrightarrow> step_keys c (take (Suc i) steps) =
     step_keys c (take i steps) @ (if rebuilds (steps ! i) then [] else [step_key c (steps ! i)])"
  by (simp add: take_Suc_conv_app_nth)

text \<open>Skipping a completed step, completing one, and replacing one by the commands it stands for.\<close>

lemma attempt_skip:
  assumes "attempt_ok c completed checkpoint a" "at_index a < length (pn_steps (at_plan a))" "\<not> rebuilds (current_step a)"
    and "count_list (at_counted a) (step_key c (current_step a)) < count_list completed (step_key c (current_step a))"
  shows "attempt_ok c completed checkpoint (a\<lparr>at_index := Suc (at_index a), at_counted := at_counted a @ [step_key c (current_step a)]\<rparr>)"
  using assms
  by (auto simp: attempt_ok_def step_keys_take_Suc current_step_def subseteq_mset_def count_mset)

lemma attempt_complete:
  assumes "due_ok c completed checkpoint a"
  shows "attempt_ok c (completed @ (if rebuilds (current_step a) then [] else [step_key c (current_step a)])) checkpoint
    ((count_attempt c a)\<lparr>at_index := Suc (at_index a)\<rparr>)"
  using assms count_take_less [of "at_index a" "pn_steps (at_plan a)" c]
  by (auto simp: attempt_ok_def due_ok_def step_keys_take_Suc current_step_def subseteq_mset_def count_mset)

lemma attempt_expand:
  assumes "due_ok c completed checkpoint a"
  shows "attempt_ok c completed (Some (expand_step (at_index a) steps (at_plan a)))
    (a\<lparr>at_uncommitted := n, at_plan := expand_step (at_index a) steps (at_plan a)\<rparr>)"
proof -
  let ?i = "at_index a" and ?steps = "pn_steps (at_plan a)"
  have i: "?i < length ?steps" and ok: "attempt_ok c completed checkpoint a" using assms by (auto simp: due_ok_def)
  have split: "step_keys c ?steps = step_keys c (take ?i ?steps) @ (if rebuilds (current_step a) then [] else [step_key c (current_step a)]) @
      step_keys c (drop (Suc ?i) ?steps)"
    using arg_cong [OF id_take_nth_drop [OF i], of "step_keys c"] by (simp add: current_step_def)
  have "count (mset completed) k \<le> count (mset (step_keys c (take ?i ?steps) @ step_keys c steps @ step_keys c (drop (Suc ?i) ?steps))) k" for k
  proof (cases "\<not> rebuilds (current_step a) \<and> k = step_key c (current_step a)")
    case True
    then show ?thesis using assms by (auto simp: due_ok_def attempt_ok_def count_mset)
  next
    case False
    have "count (mset completed) k \<le> count (mset (step_keys c ?steps)) k"
      using ok by (simp add: attempt_ok_def mset_subset_eq_count)
    then show ?thesis unfolding split using False by (auto split: if_splits)
  qed
  then have "mset completed \<subseteq># mset (step_keys c (take ?i ?steps) @ step_keys c steps @ step_keys c (drop (Suc ?i) ?steps))"
    by (simp only: subseteq_mset_def) blast
  then show ?thesis using ok i by (clarsimp simp: attempt_ok_def)
qed


lemma due_attempt: "due_ok c completed checkpoint a \<Longrightarrow> attempt_ok c completed checkpoint a"
  by (simp add: due_ok_def)

lemma attempt_ok_cong [simp]:
  "attempt_ok c completed checkpoint (flushed a) = attempt_ok c completed checkpoint a"
  "attempt_ok c completed checkpoint (a\<lparr>at_revision := n\<rparr>) = attempt_ok c completed checkpoint a"
  "attempt_ok c completed checkpoint (a\<lparr>at_uncommitted := m\<rparr>) = attempt_ok c completed checkpoint a"
  by (simp_all add: attempt_ok_def)

lemma due_ok_cong [simp]:
  "due_ok c completed checkpoint (flushed a) = due_ok c completed checkpoint a"
  "due_ok c completed checkpoint (a\<lparr>at_revision := n\<rparr>) = due_ok c completed checkpoint a"
  "due_ok c completed checkpoint (a\<lparr>at_uncommitted := m\<rparr>) = due_ok c completed checkpoint a"
  by (simp_all add: due_ok_def current_step_def)

lemma attempt_due:
  assumes "attempt_ok c completed checkpoint a" "at_index a < length (pn_steps (at_plan a))"
    and "rebuilds (current_step a) \<or> \<not> count_list (at_counted a) (step_key c (current_step a)) < count_list completed (step_key c (current_step a))"
  shows "due_ok c completed checkpoint a"
proof -
  have "count_list (at_counted a) k \<le> count_list completed k" for k
    using assms(1) by (auto simp: attempt_ok_def subseteq_mset_def count_mset)
  from this [of "step_key c (current_step a)"] show ?thesis using assms by (auto simp: due_ok_def)
qed

lemma attempt_begin: "checkpoint = Some p \<Longrightarrow> (completed \<noteq> [] \<Longrightarrow> mset completed \<subseteq># mset (step_keys c (pn_steps p))) \<Longrightarrow>
    attempt_ok c completed checkpoint \<lparr>at_plan = p, at_index = 0, at_counted = [], at_revision = n, at_uncommitted = m\<rparr>"
  by (cases completed) (auto simp: attempt_ok_def)

lemma attempt_within: "attempt_ok c completed checkpoint a \<Longrightarrow>
    \<exists>q. checkpoint = Some q \<and> mset completed \<subseteq># mset (step_keys c (pn_steps q))"
  by (auto simp: attempt_ok_def)

lemma progress_inv_step: "exec_step c x y \<Longrightarrow> progress_inv c x \<Longrightarrow> progress_inv c y"
proof (induction rule: exec_step.induct)
  case (Start x now drain ctx_err inp planned)
  then show ?case
    by (auto simp: progress_inv_def start_pass_def use_checkpoint_def resume_ok_def Let_def split: option.split sum.split)
next
  case (Gate x p uc revision now drain gate)
  then show ?case by (auto simp: progress_inv_def pass_gate_def Let_def split: option.split)
next
  case (Admit x p uc revision now drain err)
  then show ?case by (auto simp: progress_inv_def admit_def split: option.split)
next
  case (Acquire x p uc revision changed now drain ctx_done granted)
  then show ?case by (auto simp: progress_inv_def acquire_claims_def split: sum.split)
next
  case (Revalidate x p uc revision changed waited now drain revision_now inp planned)
  then show ?case
    by (auto simp: progress_inv_def revalidate_def resume_ok_def Let_def split: sum.split if_splits)
next
  case (Reserve x p revision now reserved persist_err)
  then show ?case
    by (auto simp: progress_inv_def reserve_execution_def intro!: attempt_begin split: sum.split option.split)
next
  case (Top x a now drain gate flush revision_now session)
  then show ?case
    by (auto simp: progress_inv_def step_top_def Let_def intro: attempt_due attempt_skip split: option.split)
next
  case (Guard x a guard revision_now)
  then show ?case by (auto simp: progress_inv_def pass_guard_def split: option.split)
next
  case (Execute x a now out evidence_err expansion_err)
  then have expanded: "attempt_ok c (ex_completed x) (Some (expand_step (at_index a) steps (at_plan a)))
      (a\<lparr>at_uncommitted := n, at_plan := expand_step (at_index a) steps (at_plan a)\<rparr>)" for steps n
    by (intro attempt_expand [of _ _ "ex_checkpoint x"]) (simp add: progress_inv_def)
  then have "mset (ex_completed x) \<subseteq># mset (step_keys c (take (at_index a) (pn_steps (at_plan a)))) +
      (mset (step_keys c steps) + mset (step_keys c (drop (Suc (at_index a)) (pn_steps (at_plan a)))))" for steps
    using attempt_within by fastforce
  then show ?case
    using Execute expanded
    by (auto simp: progress_inv_def execute_step_def Let_def dest: attempt_within split: option.split step_result.split)
next
  case (Retry x a gate guard revision_now)
  then show ?case by (auto simp: progress_inv_def retry_step_def pass_guard_def split: option.split)
next
  case (Fail x a e now drain flush)
  then show ?case by (auto simp: progress_inv_def step_failed_def Let_def dest: due_attempt split: option.split)
next
  case (Complete x a now drain flush revision_now)
  then have "attempt_ok c (ex_completed (count_step c a x)) (ex_checkpoint x) ((count_attempt c a)\<lparr>at_index := Suc (at_index a)\<rparr>)"
    using attempt_complete [of c "ex_completed x" "ex_checkpoint x" a] by (auto simp: progress_inv_def split: if_splits)
  then show ?case
    using Complete attempt_within by (auto simp: progress_inv_def step_completed_def Let_def split: option.split simp del: count_step_fields(8))
next
  case (End x a outcome now drain flush persist_err)
  then show ?case by (auto simp: progress_inv_def end_pass_def Let_def split: option.split pass_outcome.split)
qed


lemma progress_inv_reachable: "exec_reachable c r x \<Longrightarrow> progress_inv c x"
proof (erule exec_invariant)
  show "progress_inv c (enter_execution c now drain entry_err r)" for now drain entry_err
    by (simp add: progress_inv_def enter_execution_def new_execution_def split: option.split)
qed (rule progress_inv_step)

text \<open>C8. Pauses and resumptions repeat nothing: a step is executed only while fewer of its kind are completed
  than the plan contains, and no step is ever counted more often than the plan at hand contains it.\<close>

theorem completed_steps_not_repeated:
  assumes "exec_reachable c r x"
  shows "(\<forall>a. ex_phase x = X_execute a \<and> \<not> rebuilds (current_step a) \<longrightarrow>
      count_list (ex_completed x) (step_key c (current_step a)) < count_list (step_keys c (pn_steps (at_plan a))) (step_key c (current_step a))) \<and>
    (ex_completed x \<noteq> [] \<longrightarrow>
      (\<exists>q. ex_checkpoint x = Some q \<and> (\<forall>k. count_list (ex_completed x) k \<le> count_list (step_keys c (pn_steps q)) k)))"
proof -
  have inv: "progress_inv c x" using assms by (rule progress_inv_reachable)
  have "count_list (ex_completed x) (step_key c (current_step a)) < count_list (step_keys c (pn_steps (at_plan a))) (step_key c (current_step a))"
    if "ex_phase x = X_execute a" "\<not> rebuilds (current_step a)" for a
    using inv that count_take_less [of "at_index a" "pn_steps (at_plan a)" c]
    by (auto simp: progress_inv_def due_ok_def attempt_ok_def current_step_def count_mset)
  moreover have "\<exists>q. ex_checkpoint x = Some q \<and> (\<forall>k. count_list (ex_completed x) k \<le> count_list (step_keys c (pn_steps q)) k)"
    if "ex_completed x \<noteq> []"
    using inv that by (auto simp: progress_inv_def subseteq_mset_def count_mset)
  ultimately show ?thesis by blast
qed


section \<open>Replanning\<close>

definition replan_inv :: "execution \<Rightarrow> bool" where
  "replan_inv x \<longleftrightarrow> (if ex_phase x = X_done then ex_stale_replans x \<le> maximum_stale_replans + 1 else ex_stale_replans x \<le> maximum_stale_replans)"

lemma replan_inv_step: "exec_step c x y \<Longrightarrow> replan_inv x \<Longrightarrow> replan_inv y"
  by (induction rule: exec_step.induct)
    (auto simp: replan_inv_def start_pass_def pass_gate_def admit_def acquire_claims_def revalidate_def reserve_execution_def step_top_def
      pass_guard_def execute_step_def retry_step_def step_failed_def step_completed_def end_pass_def Let_def
      split: option.split sum.split step_result.split pass_outcome.split)


lemma replan_inv_reachable: "exec_reachable c r x \<Longrightarrow> replan_inv x"
proof (erule exec_invariant)
  show "replan_inv (enter_execution c now drain entry_err r)" for now drain entry_err
    by (simp add: replan_inv_def enter_execution_def new_execution_def split: option.split)
qed (rule replan_inv_step)

text \<open>A stale plan is replaced at most three times, and only while nothing is completed; the fourth time
  ends the operation, so a planner that cannot see what made its plan stale does not keep it going.\<close>

theorem replans_bounded:
  assumes "exec_reachable c r x"
  shows "ex_stale_replans x \<le> maximum_stale_replans + 1 \<and>
    (ex_stale_replans x = maximum_stale_replans + 1 \<longrightarrow> ex_phase x = X_done) \<and>
    (\<forall>a cause. ex_phase x = X_end a (Pass_replan cause) \<longrightarrow> ex_completed x = [])"
  using replan_inv_reachable [OF assms] progress_inv_reachable [OF assms]
  by (auto simp: replan_inv_def progress_inv_def split: if_splits)

section \<open>Reporting failures\<close>

fun phase_plan :: "exec_phase \<Rightarrow> plan option" where
  "phase_plan (X_gate p uc n) = Some p"
| "phase_plan (X_admission p uc n) = Some p"
| "phase_plan (X_claims p uc n changed) = Some p"
| "phase_plan (X_revalidate p uc n changed waited) = Some p"
| "phase_plan (X_reserve p n) = Some p"
| "phase_plan (X_step a) = Some (at_plan a)"
| "phase_plan (X_guard a) = Some (at_plan a)"
| "phase_plan (X_execute a) = Some (at_plan a)"
| "phase_plan (X_retry a) = Some (at_plan a)"
| "phase_plan (X_failed a e) = Some (at_plan a)"
| "phase_plan (X_completed a) = Some (at_plan a)"
| "phase_plan (X_end a outcome) = Some (at_plan a)"
| "phase_plan ph = None"

definition effect_inv :: "execution \<Rightarrow> bool" where
  "effect_inv x \<longleftrightarrow> (\<forall>p. phase_plan (ex_phase x) = Some p \<longrightarrow> rc_plan_effect (ex_receipt x) = Some (pn_effect p))"

lemma plan_effect_kept [simp]:
  "rc_plan_effect (set_plan p r) = Some (pn_effect p)" "rc_plan_effect (record_exchange exchange r) = rc_plan_effect r"
  "rc_plan_effect (ex_receipt (count_step c a x)) = rc_plan_effect (ex_receipt x)"
  "rc_plan_effect (ex_receipt (begin_execution now p n x)) = Some (pn_effect p)"
  "rc_plan_effect (ex_receipt (note_execution c out a x)) = rc_plan_effect (ex_receipt x)"
proof -
  have "rc_plan_effect (fold advance_effect_phase phases r') = rc_plan_effect r'" for phases r'
    by (induction phases arbitrary: r') (simp_all add: advance_effect_phase_def)
  then show "rc_plan_effect (ex_receipt (note_execution c out a x)) = rc_plan_effect (ex_receipt x)"
    by (simp add: note_execution_def Let_def)
qed (simp_all add: set_plan_def record_exchange_def count_step_def begin_execution_def Let_def split: option.split)

lemma effect_inv_step: "exec_step c x y \<Longrightarrow> effect_inv x \<Longrightarrow> effect_inv y"
  by (induction rule: exec_step.induct)
    (auto simp: effect_inv_def start_pass_def pass_gate_def admit_def acquire_claims_def revalidate_def reserve_execution_def step_top_def
      pass_guard_def execute_step_def retry_step_def step_failed_def step_completed_def end_pass_def Let_def
      split: option.split sum.split step_result.split pass_outcome.split)

lemma effect_inv_reachable: "exec_reachable c r x \<Longrightarrow> effect_inv x"
proof (erule exec_invariant)
  show "effect_inv (enter_execution c now drain entry_err r)" for now drain entry_err
    by (simp add: effect_inv_def enter_execution_def new_execution_def split: option.split)
qed (rule effect_inv_step)

text \<open>C10. How the failure of a step is reported. An operation that may have written something is indeterminate
  if the failure is, and otherwise partially succeeded once any step is completed; both ask for
  reconciliation. Everything else is a cancellation or a plain failure.\<close>

theorem step_failure_report:
  assumes "exec_reachable c r x" "ex_phase x = X_failed a e" "flush_error flush a = None"
    and "\<not> ee_automation_locked e" "ee_plan_stale e \<longrightarrow> ex_completed x \<noteq> []"
  shows "let y = step_failed c now drain flush a e x; writes = (pn_effect (at_plan a) \<noteq> Effect_read) in
    ex_phase y = X_done \<and>
    rc_status (ex_receipt y) =
      (if writes \<and> ee_indeterminate e then Status_indeterminate
       else if writes \<and> ex_completed x \<noteq> [] then Status_partially_succeeded
       else if \<not> writes \<and> drain then Status_failed
       else if ee_cancelled e then Status_cancelled else Status_failed) \<and>
    (rc_phase (ex_receipt y) = Phase_reconciliation_required \<longleftrightarrow>
      rc_status (ex_receipt y) \<in> {Status_indeterminate, Status_partially_succeeded})"
proof -
  have "rc_plan_effect (ex_receipt x) = Some (pn_effect (at_plan a))"
    using effect_inv_reachable [OF assms(1)] assms(2) by (simp add: effect_inv_def)
  then show ?thesis
    using assms(3-5)
    by (auto simp: step_failed_def fail_after_progress_def fail_receipt_def with_failure_def may_have_written_def wrap_error_def Let_def)
qed

text \<open>The same failure is reported differently while the operation is paused: when it is cancelled then, or
  its claims or its admission fail, a write that has completed steps is reported as cancelled or
  failed, completed, with nothing to reconcile.\<close>

theorem cancelled_while_paused_hides_progress:
  assumes "exec_reachable c r x" "ex_phase x = X_plan" "ex_completed x \<noteq> []" "ee_cancelled e" "\<not> ee_indeterminate e"
    and "rc_plan_effect (ex_receipt x) = Some Effect_write"
  shows "let y = start_pass c now drain (Some e) inp planned x in
    ex_phase y = X_done \<and> rc_status (ex_receipt y) = Status_cancelled \<and> rc_phase (ex_receipt y) = Phase_completed \<and>
    rc_status (fail_after_progress c now drain e (ex_completed x) (ex_receipt x)) = Status_partially_succeeded"
  using assms by (simp add: start_pass_def fail_receipt_def fail_after_progress_def with_failure_def may_have_written_def Let_def)

text \<open>A response that was acknowledged but could not be committed ends the operation, except when the next
  step fails because the automation is locked: then the failure is dropped, the operation pauses and
  may yet be reported as a success.\<close>

theorem commit_failure_forgotten:
  assumes "exec_reachable c r x" "ex_phase x = X_failed a e" "flush_error flush a = Some f" "ee_automation_locked e"
  shows "let y = step_failed c now drain flush a e x; z = end_pass c now' drain' flush' persist_err (flushed a) Pass_yielded y in
    ex_phase y = X_end (flushed a) Pass_yielded \<and> ex_phase z = X_plan \<and> rc_error (ex_receipt z) = [] \<and>
    rc_raw_error (ex_receipt z) = rc_raw_error (ex_receipt x) \<and> ex_completed z = ex_completed x"
  using assms(3,4)
  by (simp add: step_failed_def end_pass_def join_errors_def flush_error_def flushed_def release_claims_def pause_execution_def pause_receipt_def Let_def)


section \<open>The first command\<close>

text \<open>The first command of a pass leaves only while its lane is open, and only if nothing the plan has read has been
  advanced since; if the plan relies on the castle in focus, that is still in focus, without any
  change of focus in between.\<close>

theorem first_dispatch_reads_current:
  assumes "dispatch_permit lane_err p was view n 0 = Inr m" "pi_partitions view = snapshot_after (history @ later)" "pi_partitions view \<noteq> None"
    and "set (partition_dependencies (snapshot_after history) keys) \<subseteq> set (pn_dependencies p)"
    and "\<forall>k \<in> set keys \<union> (\<Union>a \<in> set later. set (fst a)). key_of_account account k"
  shows "lane_err = None \<and> set (normalize_partition_keys keys) \<inter> set (advanced_keys later) = {} \<and>
    (plan_uses_focus (pn_resources p) \<longrightarrow>
      pc_focus_epoch (pi_context view) = pc_focus_epoch (pi_context was) \<and> pc_focused_castle (pi_context view) = pc_focused_castle (pi_context was))"
proof -
  have "pn_dependencies p = [] \<or> partitions_current (pi_partitions view) (pn_dependencies p)"
    using assms(1,3) by (auto simp: dispatch_permit_def Let_def split: option.splits prod.splits if_splits)
  then have "partitions_current (pi_partitions view) (partition_dependencies (snapshot_after history) keys)"
    using assms(3,4) by (auto simp: partitions_current_def list_all_iff)
  then have "set (normalize_partition_keys keys) \<inter> set (advanced_keys later) = {}"
    unfolding assms(2) current_while_untouched [OF assms(5)] .
  then show ?thesis
    using assms(1) by (auto simp: dispatch_permit_def Let_def split: option.splits prod.splits if_splits)
qed

section \<open>A run\<close>

text \<open>An intent of two actions; the automation lock comes while the first is done and the second is not.\<close>

definition demo_config :: exec_config where
  "demo_config = \<lparr>xc_expected_revision = None, xc_dry_run = False, xc_durable = True,
     xc_definition = \<lparr>df_name = ''unit.train'', df_effect = Effect_write, df_require_resources = False\<rparr>, xc_read_set = False,
     xc_humanize = id, xc_humanize_plan = id, xc_encode_retry = (\<lambda>_. [])\<rparr>"

definition demo_action :: "string \<Rightarrow> step" where
  "demo_action name = (demo_step [] None)\<lparr>st_action := demo_call name\<rparr>"

definition demo_actions :: plan where
  "demo_actions = demo_plan\<lparr>pn_effect := Effect_write, pn_steps := [demo_action ''a'', demo_action ''b'']\<rparr>"

definition demo_input :: planning_input where
  "demo_input = \<lparr>pi_revision = 3, pi_view = demo_planner_view,
     pi_session = \<lparr>ss_logged_in = True, ss_socket_ready = True, ss_generation = 1, ss_baseline_generation = 1, ss_connection_generation = 1\<rparr>,
     pi_context = initial_protocol_context (demo_focus []) 0, pi_partitions = None, pi_catalog = ''v'', pi_read_set = (\<lambda>_. Inr [])\<rparr>"

definition demo_submitted :: exec_receipt where
  "demo_submitted = \<lparr>rc_id = ''op'', rc_intent = ''unit.train'', rc_actor = ''user'', rc_status = Status_planning, rc_phase = Phase_accepted,
     rc_plan_effect = None, rc_error = [], rc_raw_error = [], rc_submitted_at = 1, rc_completed_at = None,
     rc_body = \<lparr>eb_plan = None, eb_attempt = 0, eb_started_at = None, eb_completed_steps = [], eb_evidence = [], eb_exchanges = []\<rparr>\<rparr>"

definition demo_outcome :: "step_result \<Rightarrow> step_outcome" where
  "demo_outcome result = \<lparr>so_phases = [Phase_dispatching], so_evidence = [], so_uncommitted = 1, so_exchange = None, so_result = result\<rparr>"

definition demo_planned :: plan where
  "demo_planned = projr (finish_planning demo_config demo_input (Inr demo_actions))"

lemma demo_normal:
  defines "n \<equiv> normalize_plan (xc_definition demo_config) 3 demo_actions"
  shows "pn_steps n = [normalize_step (demo_action ''a''), normalize_step (demo_action ''b'')]" "pn_admission n = None" "pn_claims n = []"
    "validate_response_retry_policies (pn_steps n) = None" "pn_effect n = Effect_write"
proof -
  have norms: "trim_space ''a'' = ''a''" "trim_space ''b'' = ''b''" by (code_simp, code_simp)
  show steps: "pn_steps n = [normalize_step (demo_action ''a''), normalize_step (demo_action ''b'')]"
    by (simp add: n_def normalize_plan_def barriers_by_neighbours_eq demo_actions_def Let_def neighbour_barrier_def
        automatic_wire_candidate_def normalize_step_def demo_action_def demo_step_def normalize_call_def demo_call_def norms)
  have none: "st_response_retry (normalize_step (demo_action name)) = None" for name
    by (simp add: normalize_step_def demo_action_def demo_step_def Let_def)
  show "validate_response_retry_policies (pn_steps n) = None"
    by (simp add: steps retry_policy_error_def none)
  have awaits: "step_await_opcodes (normalize_step (demo_action name)) = []" for name
    by (simp add: step_await_opcodes_def normalize_await_opcodes_def normalize_step_def demo_action_def demo_step_def Let_def dedupe_def to_lower_def)
  then have "\<not> step_launches_attack (normalize_step (demo_action name))" for name
    by (simp add: step_launches_attack_def) (simp add: normalize_step_def demo_action_def demo_step_def Let_def to_lower_def)
  then show "pn_admission n = None" "pn_claims n = []" "pn_effect n = Effect_write"
    by (simp_all add: n_def normalize_plan_def demo_actions_def demo_plan_def Let_def awaits normalize_claims_def demo_config_def)
qed

lemma demo_planned:
  "finish_planning demo_config demo_input (Inr demo_actions) = Inr demo_planned"
  "pn_steps demo_planned = [normalize_step (demo_action ''a''), normalize_step (demo_action ''b'')]"
  "pn_admission demo_planned = None" "pn_effect demo_planned = Effect_write"
proof -
  obtain q where "finish_planning demo_config demo_input (Inr demo_actions) = Inr q"
      "pn_steps q = pn_steps (normalize_plan (xc_definition demo_config) 3 demo_actions)"
      "pn_admission q = pn_admission (normalize_plan (xc_definition demo_config) 3 demo_actions)" "pn_effect q = Effect_write"
    using demo_normal
    by (simp add: finish_planning_def finalize_plan_def demo_input_def demo_config_def Let_def)
  then show "finish_planning demo_config demo_input (Inr demo_actions) = Inr demo_planned"
    "pn_steps demo_planned = [normalize_step (demo_action ''a''), normalize_step (demo_action ''b'')]"
    "pn_admission demo_planned = None" "pn_effect demo_planned = Effect_write"
    by (simp_all add: demo_planned_def demo_normal)
qed

lemma demo_not_rebuilt: "\<not> rebuilds (normalize_step (demo_action name))"
  by (simp add: rebuilds_def normalize_step_def demo_action_def demo_step_def Let_def)


lemma demo_config_fields [simp]:
  "xc_expected_revision demo_config = None" "xc_dry_run demo_config = False" "xc_durable demo_config = True"
  by (simp_all add: demo_config_def)

lemma demo_input_revision [simp]: "pi_revision demo_input = 3"
  by (simp add: demo_input_def)

lemma no_revision_conflict [simp]: "\<not> revision_conflict demo_config n x"
  by (simp add: revision_conflict_def)

definition demo_planning :: execution where
  "demo_planning = start_pass demo_config 5 False None demo_input (Inr demo_actions) (new_execution demo_submitted)"

definition demo_claimed :: execution where
  "demo_claimed = acquire_claims demo_config 5 False False (Inr False) demo_planned False 3 False
     (pass_gate demo_config 5 False None demo_planned False 3 demo_planning)"

definition demo_attempt :: "nat \<Rightarrow> string list \<Rightarrow> nat \<Rightarrow> attempt" where
  "demo_attempt i counted n = \<lparr>at_plan = demo_planned, at_index = i, at_counted = counted, at_revision = 3, at_uncommitted = n\<rparr>"

definition demo_begun :: execution where
  "demo_begun = reserve_execution demo_config 5 (Inr None) None demo_planned 3
     (revalidate demo_config 5 False 3 demo_input (Inr demo_actions) demo_planned False 3 False False demo_claimed)"

lemma demo_planning: "ex_phase demo_planning = X_gate demo_planned False 3" "ex_admitted demo_planning = None"
  "ex_completed demo_planning = []" "ex_pending_retries demo_planning = []"
  by (simp_all add: demo_planning_def start_pass_def new_execution_def use_checkpoint_def demo_planned Let_def adopt_connection_def)

lemma demo_claimed: "ex_phase demo_claimed = X_revalidate demo_planned False 3 False False" "ex_completed demo_claimed = []"
  "ex_pending_retries demo_claimed = []"
  by (simp_all add: demo_claimed_def acquire_claims_def pass_gate_def demo_planning demo_planned same_admission_def Let_def)

lemma demo_begun: "ex_phase demo_begun = X_step (demo_attempt 0 [] 0)" "ex_completed demo_begun = []" "ex_pending_retries demo_begun = []"
  "ex_log demo_begun = ex_log demo_claimed"
  by (simp_all add: demo_begun_def revalidate_def reserve_execution_def demo_claimed demo_attempt_def begin_execution_def Let_def)

abbreviation (input) demo_reachable :: "execution \<Rightarrow> bool" where
  "demo_reachable \<equiv> exec_reachable demo_config demo_submitted"

lemma demo_begun_reachable: "demo_reachable demo_begun"
proof -
  have "demo_reachable (new_execution demo_submitted)"
    using exec_reachable.Enter [of demo_config demo_submitted 0 False None] by (simp add: enter_execution_def)
  then have planning: "demo_reachable demo_planning"
    unfolding demo_planning_def by (rule exec_reachable.Move) (intro exec_step.Start, simp add: new_execution_def)
  have "demo_reachable (pass_gate demo_config 5 False None demo_planned False 3 demo_planning)"
    by (rule exec_reachable.Move [OF planning]) (intro exec_step.Gate demo_planning)
  then have claimed: "demo_reachable demo_claimed"
    unfolding demo_claimed_def
    by (rule exec_reachable.Move)
      (intro exec_step.Acquire, simp add: pass_gate_def demo_planning demo_planned same_admission_def Let_def)
  have "demo_reachable (revalidate demo_config 5 False 3 demo_input (Inr demo_actions) demo_planned False 3 False False demo_claimed)"
    by (rule exec_reachable.Move [OF claimed]) (intro exec_step.Revalidate demo_claimed)
  then show ?thesis
    unfolding demo_begun_def by (rule exec_reachable.Move) (intro exec_step.Reserve, simp add: revalidate_def Let_def)
qed

text \<open>The first step is executed and counted; then the second fails, or succeeds, or the lock intervenes.\<close>

definition demo_step_key :: "nat \<Rightarrow> string" where
  "demo_step_key i = step_key demo_config (pn_steps demo_planned ! i)"

definition demo_run :: "nat \<Rightarrow> step_result \<Rightarrow> execution \<Rightarrow> execution" where
  "demo_run i result x = execute_step demo_config 6 (demo_outcome result) None None (demo_attempt i (map demo_step_key [0..<i]) 0)
     (step_top demo_config 6 False None None 3 (pi_session demo_input) (demo_attempt i (map demo_step_key [0..<i]) 0) x)"

lemma demo_current [simp]: "current_step (demo_attempt i counted n) = pn_steps demo_planned ! i"
  by (simp add: current_step_def demo_attempt_def)

lemma demo_steps_plain:
  "i < 2 \<Longrightarrow> st_response_retry (pn_steps demo_planned ! i) = None" "i < 2 \<Longrightarrow> st_response_barrier (pn_steps demo_planned ! i) = []"
  "i < 2 \<Longrightarrow> \<not> rebuilds (pn_steps demo_planned ! i)" "length (pn_steps demo_planned) = 2"
  by (auto simp: demo_planned less_2_cases_iff demo_not_rebuilt)
    (simp_all add: normalize_step_def demo_action_def demo_step_def norm_str_def to_lower_def trim_space_def trim_left_def Let_def)

lemma demo_run:
  assumes "demo_reachable x" "ex_phase x = X_step (demo_attempt i (map demo_step_key [0..<i]) 0)" "i < 2"
    and "ex_completed x = map demo_step_key [0..<i]" "ex_pending_retries x = []"
  shows "demo_reachable (demo_run i result x)" "ex_completed (demo_run i result x) = map demo_step_key [0..<i]"
    "ex_phase (demo_run i Step_ok x) = X_completed (demo_attempt i (map demo_step_key [0..<i]) 1)"
    "ex_phase (demo_run i (Step_error e) x) = X_failed (demo_attempt i (map demo_step_key [0..<i]) 1) e"
proof -
  let ?a = "demo_attempt i (map demo_step_key [0..<i]) 0"
  let ?y = "step_top demo_config 6 False None None 3 (pi_session demo_input) ?a x"
  have top: "demo_reachable ?y" using assms(2) by (intro exec_reachable.Move [OF assms(1)] exec_step.Top)
  have y: "ex_phase ?y = X_execute ?a" "ex_completed ?y = map demo_step_key [0..<i]"
    using assms(3-5) demo_steps_plain
    by (simp_all add: step_top_def Let_def flush_error_def flushed_def) (simp_all add: demo_attempt_def)
  then show "demo_reachable (demo_run i result x)"
    unfolding demo_run_def by (intro exec_reachable.Move [OF top] exec_step.Execute)
  show "ex_completed (demo_run i result x) = map demo_step_key [0..<i]"
    using y by (simp add: demo_run_def execute_step_def demo_outcome_def Let_def split: step_result.split)
  show "ex_phase (demo_run i Step_ok x) = X_completed (demo_attempt i (map demo_step_key [0..<i]) 1)"
    by (simp add: demo_run_def execute_step_def demo_outcome_def Let_def) (simp add: demo_attempt_def)
  show "ex_phase (demo_run i (Step_error e) x) = X_failed (demo_attempt i (map demo_step_key [0..<i]) 1) e"
    using assms(3) demo_steps_plain
    by (simp add: demo_run_def execute_step_def demo_outcome_def retryable_step_response_def Let_def) (simp add: demo_attempt_def)
qed


definition demo_done :: "nat \<Rightarrow> execution \<Rightarrow> execution" where
  "demo_done i x = step_completed demo_config 7 False None 3 (demo_attempt i (map demo_step_key [0..<i]) 1) (demo_run i Step_ok x)"

lemma demo_done:
  assumes "demo_reachable x" "ex_phase x = X_step (demo_attempt i (map demo_step_key [0..<i]) 0)" "i < 2"
    and "ex_completed x = map demo_step_key [0..<i]" "ex_pending_retries x = []"
  shows "demo_reachable (demo_done i x)" "ex_completed (demo_done i x) = map demo_step_key [0..<Suc i]"
    "ex_phase (demo_done i x) = X_step (demo_attempt (Suc i) (map demo_step_key [0..<Suc i]) 0)" "ex_pending_retries (demo_done i x) = []"
proof -
  note run = demo_run [OF assms] and plain = demo_steps_plain(1-3) [OF assms(3)]
  show "demo_reachable (demo_done i x)"
    unfolding demo_done_def by (rule exec_reachable.Move [OF run(1) [where result = Step_ok]]) (intro exec_step.Complete run(3))
  show "ex_completed (demo_done i x) = map demo_step_key [0..<Suc i]"
    using run(2) plain by (simp add: demo_done_def step_completed_def flush_error_def Let_def demo_step_key_def)
  show "ex_phase (demo_done i x) = X_step (demo_attempt (Suc i) (map demo_step_key [0..<Suc i]) 0)"
    using plain by (simp add: demo_done_def step_completed_def flush_error_def Let_def)
      (simp add: count_attempt_def flushed_def demo_attempt_def current_step_def demo_step_key_def)
  show "ex_pending_retries (demo_done i x) = []"
    using assms(5) plain
    by (simp add: demo_done_def step_completed_def flush_error_def Let_def count_step_def demo_run_def execute_step_def demo_outcome_def step_top_def
        split: option.split if_splits)
qed

text \<open>Halfway, and at the end.\<close>

definition demo_half :: execution where
  "demo_half = demo_done 0 demo_begun"

lemma demo_half: "demo_reachable demo_half" "ex_completed demo_half = [demo_step_key 0]"
  "ex_phase demo_half = X_step (demo_attempt 1 (map demo_step_key [0..<1]) 0)" "ex_pending_retries demo_half = []"
proof -
  have "ex_phase demo_begun = X_step (demo_attempt 0 (map demo_step_key [0..<0]) 0)" "ex_completed demo_begun = map demo_step_key [0..<0]"
    by (simp_all add: demo_begun)
  note half = demo_done [OF demo_begun_reachable this(1) _ this(2) demo_begun(3), folded demo_half_def]
  show "demo_reachable demo_half" "ex_pending_retries demo_half = []" by (rule half; simp)+
  show "ex_completed demo_half = [demo_step_key 0]" using half(2) by simp
  show "ex_phase demo_half = X_step (demo_attempt 1 (map demo_step_key [0..<1]) 0)" using half(3) by simp
qed

definition demo_full :: execution where
  "demo_full = step_top demo_config 8 False None None 3 (pi_session demo_input) (demo_attempt 2 (map demo_step_key [0..<2]) 0) (demo_done 1 demo_half)"

lemma demo_full: "demo_reachable demo_full" "ex_phase demo_full = X_end (demo_attempt 2 (map demo_step_key [0..<2]) 0) Pass_finished"
proof -
  have "ex_completed demo_half = map demo_step_key [0..<1]" and two: "Suc 1 = (2::nat)" by (simp_all add: demo_half)
  note full = demo_done [OF demo_half(1,3) _ this(1) demo_half(4), unfolded two]
  show "demo_reachable demo_full"
    unfolding demo_full_def by (rule exec_reachable.Move [OF full(1)], simp) (intro exec_step.Top full(3), simp)
  show "ex_phase demo_full = X_end (demo_attempt 2 (map demo_step_key [0..<2]) 0) Pass_finished"
    by (simp add: demo_full_def step_top_def demo_attempt_def demo_steps_plain)
qed

definition demo_locked :: exec_error where
  "demo_locked = (plain_error ''locked'')\<lparr>ee_automation_locked := True\<rparr>"

definition demo_failed :: "exec_error \<Rightarrow> execution" where
  "demo_failed e = demo_run 1 (Step_error e) demo_half"

lemma demo_failed: "demo_reachable (demo_failed e)" "ex_phase (demo_failed e) = X_failed (demo_attempt 1 (map demo_step_key [0..<1]) 1) e"
  "ex_completed (demo_failed e) = [demo_step_key 0]"
  using demo_run [of demo_half 1] demo_half by (simp_all add: demo_failed_def)

definition demo_paused :: execution where
  "demo_paused = end_pass demo_config 9 False None None (flushed (demo_attempt 1 (map demo_step_key [0..<1]) 1)) Pass_yielded
     (step_failed demo_config 9 False None (demo_attempt 1 (map demo_step_key [0..<1]) 1) demo_locked (demo_failed demo_locked))"

lemma demo_paused: "demo_reachable demo_paused" "ex_phase demo_paused = X_plan" "ex_completed demo_paused = [demo_step_key 0]"
  "rc_plan_effect (ex_receipt demo_paused) = Some Effect_write"
proof -
  let ?a = "demo_attempt 1 (map demo_step_key [0..<1]) 1"
  let ?y = "step_failed demo_config 9 False None ?a demo_locked (demo_failed demo_locked)"
  have y: "ex_phase ?y = X_end (flushed ?a) Pass_yielded" "ex_completed ?y = [demo_step_key 0]" "ex_receipt ?y = ex_receipt (demo_failed demo_locked)"
    by (simp_all add: step_failed_def flush_error_def demo_locked_def Let_def demo_failed)
  have "demo_reachable ?y" by (rule exec_reachable.Move [OF demo_failed(1) [of demo_locked]]) (intro exec_step.Fail demo_failed)
  then show "demo_reachable demo_paused"
    unfolding demo_paused_def by (rule exec_reachable.Move) (intro exec_step.End y)
  have "rc_plan_effect (ex_receipt (demo_failed demo_locked)) = Some Effect_write"
    using effect_inv_reachable [OF demo_failed(1) [of demo_locked]] demo_failed(2) demo_planned(4) by (simp add: effect_inv_def demo_attempt_def)
  then show "ex_phase demo_paused = X_plan" "ex_completed demo_paused = [demo_step_key 0]"
    "rc_plan_effect (ex_receipt demo_paused) = Some Effect_write"
    using y by (simp_all add: demo_paused_def end_pass_def flush_error_def pause_receipt_def flushed_def Let_def)
qed

section \<open>Witnesses\<close>


theorem returned_holds_nothing_witness:
  "ex_phase (end_pass demo_config 9 False None None (demo_attempt 2 (map demo_step_key [0..<2]) 0) Pass_finished demo_full) = X_done \<and>
   ex_claims (end_pass demo_config 9 False None None (demo_attempt 2 (map demo_step_key [0..<2]) 0) Pass_finished demo_full) = None"
proof -
  let ?x = "end_pass demo_config 9 False None None (demo_attempt 2 (map demo_step_key [0..<2]) 0) Pass_finished demo_full"
  have "demo_reachable ?x" by (rule exec_reachable.Move [OF demo_full(1)]) (intro exec_step.End demo_full)
  moreover have "ex_phase ?x = X_done" by (simp add: end_pass_def flush_error_def demo_attempt_def Let_def)
  ultimately show ?thesis using returned_holds_nothing by blast
qed

theorem completed_steps_not_repeated_witness:
  "\<exists>q. ex_checkpoint demo_paused = Some q \<and> (\<forall>k. count_list [demo_step_key 0] k \<le> count_list (step_keys demo_config (pn_steps q)) k)"
  using completed_steps_not_repeated [OF demo_paused(1)] demo_paused(3) by simp


theorem replans_bounded_witness: "ex_stale_replans demo_full \<le> 4"
  using replans_bounded [OF demo_full(1)] by (simp add: maximum_stale_replans_def)

theorem step_failure_report_witness:
  "rc_status (ex_receipt (step_failed demo_config 9 False None (demo_attempt 1 (map demo_step_key [0..<1]) 1) (plain_error ''refused'')
     (demo_failed (plain_error ''refused'')))) = Status_partially_succeeded"
  using step_failure_report [OF demo_failed(1,2) [of "plain_error ''refused''"], of None 9 False]
  by (simp add: plain_error_def flush_error_def demo_failed Let_def demo_attempt_def demo_planned)

theorem cancelled_while_paused_hides_progress_witness:
  "rc_status (ex_receipt (start_pass demo_config 9 False (Some ((plain_error ''cancelled'')\<lparr>ee_cancelled := True\<rparr>)) demo_input (Inr demo_actions) demo_paused))
     = Status_cancelled"
  using cancelled_while_paused_hides_progress [OF demo_paused(1,2) _ _ _ demo_paused(4), of "(plain_error ''cancelled'')\<lparr>ee_cancelled := True\<rparr>" 9 False]
  by (simp add: demo_paused plain_error_def Let_def)

theorem commit_failure_forgotten_witness:
  "ex_phase (end_pass demo_config 9 False None None (flushed (demo_attempt 1 (map demo_step_key [0..<1]) 1)) Pass_yielded
     (step_failed demo_config 9 False (Some (plain_error ''not reduced'')) (demo_attempt 1 (map demo_step_key [0..<1]) 1) demo_locked (demo_failed demo_locked))) = X_plan"
  using commit_failure_forgotten [OF demo_failed(1,2) [of demo_locked], of "Some (plain_error ''not reduced'')" "plain_error ''not reduced''"]
  by (simp add: demo_locked_def flush_error_def demo_attempt_def Let_def)


definition demo_view :: planning_input where
  "demo_view = demo_input\<lparr>pi_partitions := snapshot_after [([demo_partition ''w'' 7 ''garrison''], 1, 5)]\<rparr>"

theorem first_dispatch_reads_current_witness:
  "set (normalize_partition_keys [demo_partition ''w'' 7 ''economy'']) \<inter> set (advanced_keys [([demo_partition ''w'' 7 ''garrison''], 1, 5)]) = {}"
proof -
  have account: "key_of_account (''w'', 7) (demo_partition ''w'' 7 c)" for c
    by (simp add: key_of_account_def normalize_partition_key_def demo_partition_def scope_of_def Let_def) code_simp
  have some: "pi_partitions demo_view \<noteq> None"
    by (simp add: demo_view_def snapshot_after_def advance_snapshot_def)
  let ?deps = "partition_dependencies (snapshot_after []) [demo_partition ''w'' 7 ''economy'']"
  let ?p = "demo_actions\<lparr>pn_dependencies := ?deps\<rparr>"
  have "partitions_current (pi_partitions demo_view) ?deps"
    using current_while_untouched [of "[demo_partition ''w'' 7 ''economy'']" "[([demo_partition ''w'' 7 ''garrison''], 1, 5)]" "(''w'', 7)" "[]"] account
    by (simp add: demo_view_def advanced_keys_def demo_partition_keys demo_partition_inj)
  moreover have "?deps \<noteq> []" by (simp add: partition_dependencies_def demo_partition_keys)
  ultimately have "dispatch_permit None ?p demo_view demo_view 3 0 = Inr 1"
    using some by (auto simp: dispatch_permit_def demo_actions_def demo_plan_def plan_uses_focus_def Let_def split: prod.split)
  from first_dispatch_reads_current [OF this _ some, of "[]" "[([demo_partition ''w'' 7 ''garrison''], 1, 5)]" "[demo_partition ''w'' 7 ''economy'']" "(''w'', 7)"]
  show ?thesis using account by (simp add: demo_view_def)
qed

end
