(* ===== verification/EventStream.thy ===== *)
theory EventStream
  imports OperationStore
begin

text \<open>
  The stream of receipts: \<open>Subscribe\<close>, the deliveries of \<open>publishLocked\<close> and \<open>Await\<close> of
  \<^verbatim>\<open>src/Server/Intent/Engine.go\<close>.

  A subscriber is a bounded channel. When it is full, its oldest receipt makes room for the new one, which
  is marked as following a gap. The reader may take receipts between the two attempts to deliver; what
  it has taken is kept here, too, with the number of the last receipt before it subscribed.
\<close>

section \<open>The stream\<close>

record 'b delivery =
  dv_sequence :: nat
  dv_gap :: bool
  dv_receipt :: "'b receipt"

record 'b subscriber =
  sb_capacity :: nat
  sb_queue :: "'b delivery list"
  sb_taken :: "'b delivery list"
  sb_since :: nat

record 'b event_stream =
  es_sequence :: nat
  es_subscribers :: "(nat \<times> 'b subscriber) list"

definition empty_stream :: "'b event_stream" where
  "empty_stream = \<lparr>es_sequence = 0, es_subscribers = []\<rparr>"

definition subscribe :: "nat \<Rightarrow> int \<Rightarrow> 'b event_stream \<Rightarrow> 'b event_stream" where
  "subscribe i buffer s =
     s\<lparr>es_subscribers := es_subscribers s @
        [(i, \<lparr>sb_capacity = nat (if buffer < 1 then 1 else buffer), sb_queue = [], sb_taken = [], sb_since = es_sequence s\<rparr>)]\<rparr>"

definition unsubscribe :: "nat \<Rightarrow> 'b event_stream \<Rightarrow> 'b event_stream" where
  "unsubscribe i s = s\<lparr>es_subscribers := filter (\<lambda>(j, _). j \<noteq> i) (es_subscribers s)\<rparr>"

text \<open>\<open>drained\<close> receipts are taken by the reader between the two attempts.\<close>

definition take_receipts :: "nat \<Rightarrow> 'b subscriber \<Rightarrow> 'b subscriber" where
  "take_receipts n b = b\<lparr>sb_queue := drop n (sb_queue b), sb_taken := sb_taken b @ take n (sb_queue b)\<rparr>"

definition deliver :: "nat \<Rightarrow> nat \<Rightarrow> 'b receipt \<Rightarrow> 'b subscriber \<Rightarrow> 'b subscriber" where
  "deliver drained sequence r b =
     (let d = \<lparr>dv_sequence = sequence, dv_gap = False, dv_receipt = r\<rparr> in
      if length (sb_queue b) < sb_capacity b then b\<lparr>sb_queue := sb_queue b @ [d]\<rparr>
      else
        let b = take_receipts drained b in
        case sb_queue b of
          [] \<Rightarrow> b\<lparr>sb_queue := [d]\<rparr>
        | _ # rest \<Rightarrow> b\<lparr>sb_queue := rest @ [d\<lparr>dv_gap := True\<rparr>]\<rparr>)"

definition publish_receipt :: "(nat \<Rightarrow> nat) \<Rightarrow> 'b receipt \<Rightarrow> 'b event_stream \<Rightarrow> 'b event_stream" where
  "publish_receipt drained r s =
     (let sequence = es_sequence s + 1
      in \<lparr>es_sequence = sequence, es_subscribers = map (\<lambda>(i, b). (i, deliver (drained i) sequence r b)) (es_subscribers s)\<rparr>)"

definition read_receipts :: "nat \<Rightarrow> nat \<Rightarrow> 'b event_stream \<Rightarrow> 'b event_stream" where
  "read_receipts i n s = s\<lparr>es_subscribers := map (\<lambda>(j, b). (j, if j = i then take_receipts n b else b)) (es_subscribers s)\<rparr>"

text \<open>The steps on the stream; a subscriber's number is new. \<open>hs\<close> are the receipts published so far.\<close>

inductive stream_step :: "'b event_stream \<Rightarrow> 'b receipt list \<Rightarrow> 'b event_stream \<Rightarrow> bool" where
  Subscribe: "i \<notin> fst ` set (es_subscribers s) \<Longrightarrow> stream_step s [] (subscribe i buffer s)"
| Unsubscribe: "stream_step s [] (unsubscribe i s)"
| Publish: "stream_step s [r] (publish_receipt drained r s)"
| Read: "stream_step s [] (read_receipts i n s)"

inductive stream_run :: "'b receipt list \<Rightarrow> 'b event_stream \<Rightarrow> bool" where
  Empty: "stream_run [] empty_stream"
| Step: "stream_run hs s \<Longrightarrow> stream_step s rs s' \<Longrightarrow> stream_run (hs @ rs) s'"

section \<open>Waiting for an operation\<close>

text \<open>The loop of \<open>Await\<close>: what one receipt from the channel does to the receipt it holds. After a gap it
  looks the operation up, \<open>look\<close>, as of the time it has read that receipt.\<close>

definition await_receive :: "string \<Rightarrow> (nat \<Rightarrow> 'b receipt option) \<Rightarrow> 'b delivery \<Rightarrow> 'b receipt \<Rightarrow> 'b receipt" where
  "await_receive i look d current =
     (if rc_id (dv_receipt d) = i then dv_receipt d
      else if dv_gap d then (case look (dv_sequence d) of None \<Rightarrow> current | Some latest \<Rightarrow> latest)
      else current)"

fun await_loop :: "string \<Rightarrow> (nat \<Rightarrow> 'b receipt option) \<Rightarrow> 'b receipt \<Rightarrow> 'b delivery list \<Rightarrow> 'b receipt option" where
  "await_loop i look current [] = None"
| "await_loop i look current (d # ds) =
     (let current = await_receive i look d current
      in if receipt_terminal current then Some current else await_loop i look current ds)"

text \<open>The lookup after subscribing, and the loop over the receipts the reader takes; \<open>None\<close> while it waits, an
  error for an operation that is not known.\<close>

definition await :: "string \<Rightarrow> 'b receipt option \<Rightarrow> (nat \<Rightarrow> 'b receipt option) \<Rightarrow> 'b delivery list \<Rightarrow> (string + 'b receipt) option" where
  "await i first look ds =
     (case first of None \<Rightarrow> Some (Inl ''operation was not found'')
      | Some current \<Rightarrow> if receipt_terminal current then Some (Inr current) else map_option Inr (await_loop (trim_space i) look current ds))"

section \<open>Gaps are marked\<close>

definition delivered :: "'b subscriber \<Rightarrow> 'b delivery list" where
  "delivered b = sb_taken b @ sb_queue b"

text \<open>In order, nothing after the newest, and whatever is missing is followed by a mark.\<close>

definition subscriber_ok :: "nat \<Rightarrow> 'b subscriber \<Rightarrow> bool" where
  "subscriber_ok n b \<longleftrightarrow>
     sorted_wrt (<) (map dv_sequence (delivered b)) \<and> (\<forall>d \<in> set (delivered b). sb_since b < dv_sequence d \<and> dv_sequence d \<le> n) \<and>
     (\<forall>t. sb_since b < t \<and> t \<le> n \<longrightarrow>
        (\<exists>d \<in> set (delivered b). dv_sequence d = t \<or> t < dv_sequence d \<and> dv_gap d)) \<and>
     sb_since b \<le> n \<and> 0 < sb_capacity b \<and> length (sb_queue b) \<le> sb_capacity b"

definition stream_inv :: "'b receipt list \<Rightarrow> 'b event_stream \<Rightarrow> bool" where
  "stream_inv hs s \<longleftrightarrow> es_sequence s = length hs \<and>
     (\<forall>(i, b) \<in> set (es_subscribers s). subscriber_ok (length hs) b \<and> (\<forall>d \<in> set (delivered b). dv_receipt d = hs ! (dv_sequence d - 1)))"

lemma delivered_take [simp]: "delivered (take_receipts k b) = delivered b"
  by (simp add: delivered_def take_receipts_def)

lemma take_receipts_ok: "subscriber_ok n b \<Longrightarrow> subscriber_ok n (take_receipts k b)"
  by (auto simp: subscriber_ok_def) (auto simp: take_receipts_def)

lemma deliver_ok:
  assumes "subscriber_ok n b"
  shows "subscriber_ok (Suc n) (deliver k (Suc n) r b)"
proof (cases "length (sb_queue b) < sb_capacity b")
  case True
  then show ?thesis
    using assms by (auto simp: subscriber_ok_def deliver_def delivered_def sorted_wrt_append le_Suc_eq less_Suc_eq_le Let_def)
next
  case False
  define c where "c = take_receipts k b"
  have ok: "subscriber_ok n c" unfolding c_def using assms by (rule take_receipts_ok)
  show ?thesis
  proof (cases "sb_queue c")
    case Nil
    then show ?thesis
      using ok False unfolding deliver_def Let_def c_def [symmetric]
      by (auto simp: subscriber_ok_def delivered_def sorted_wrt_append le_Suc_eq less_Suc_eq_le)
  next
    case (Cons d rest)
    then show ?thesis
      using ok False unfolding deliver_def Let_def c_def [symmetric]
      by (auto simp: subscriber_ok_def delivered_def sorted_wrt_append le_Suc_eq less_Suc_eq_le)
  qed
qed

lemma set_delivered_deliver: "d \<in> set (delivered (deliver k n r b)) \<Longrightarrow> d \<in> set (delivered b) \<or> dv_sequence d = n \<and> dv_receipt d = r"
proof -
  have "d \<in> set (delivered (deliver k n r b)) \<Longrightarrow> d \<in> set (delivered b) \<union> set (delivered (take_receipts k b)) \<or> dv_sequence d = n \<and> dv_receipt d = r"
    by (auto simp: deliver_def delivered_def Let_def split: if_splits list.splits simp del: delivered_take)
  then show "d \<in> set (delivered (deliver k n r b)) \<Longrightarrow> d \<in> set (delivered b) \<or> dv_sequence d = n \<and> dv_receipt d = r" by simp
qed

lemma stream_inv_step: "stream_step s rs s' \<Longrightarrow> stream_inv hs s \<Longrightarrow> stream_inv (hs @ rs) s'"
proof (induction rule: stream_step.induct)
  case (Subscribe i s buffer)
  then show ?case by (auto simp: stream_inv_def subscribe_def subscriber_ok_def delivered_def)
next
  case (Unsubscribe s i)
  then show ?case by (auto simp: stream_inv_def unsubscribe_def)
next
  case (Publish s r drained)
  have "dv_receipt d = (hs @ [r]) ! (dv_sequence d - 1)"
    if "(i, b) \<in> set (es_subscribers s)" "d \<in> set (delivered (deliver (drained i) (Suc (length hs)) r b))" for i b d
  proof -
    have "subscriber_ok (length hs) b" "\<forall>d \<in> set (delivered b). dv_receipt d = hs ! (dv_sequence d - 1)"
      using Publish that(1) by (auto simp: stream_inv_def)
    then show ?thesis
      using set_delivered_deliver [OF that(2)] by (fastforce simp: subscriber_ok_def nth_append)
  qed
  then show ?case
    using Publish by (fastforce simp: stream_inv_def publish_receipt_def Let_def intro: deliver_ok)
next
  case (Read s i n)
  then have "subscriber_ok (length hs) c \<and> (\<forall>d \<in> set (delivered c). dv_receipt d = hs ! (dv_sequence d - 1))"
    if "(j, b) \<in> set (es_subscribers s)" "c = (if j = i then take_receipts n b else b)" for j b c
    using that by (auto simp: stream_inv_def intro: take_receipts_ok)
  then show ?case using Read by (fastforce simp: stream_inv_def read_receipts_def)
qed

lemma stream_inv_run: "stream_run hs s \<Longrightarrow> stream_inv hs s"
proof (induction rule: stream_run.induct)
  case Empty
  then show ?case by (simp add: stream_inv_def empty_stream_def)
next
  case (Step hs s rs s')
  then show ?case by (blast intro: stream_inv_step)
qed

lemma stream_delivered:
  assumes "stream_run hs s" "(i, b) \<in> set (es_subscribers s)"
  shows "sorted_wrt (<) (map dv_sequence (delivered b)) \<and> length (sb_queue b) \<le> sb_capacity b \<and>
    (\<forall>d \<in> set (delivered b). 0 < dv_sequence d \<and> dv_sequence d \<le> length hs \<and> dv_receipt d = hs ! (dv_sequence d - 1)) \<and>
    (\<forall>t. sb_since b < t \<and> t \<le> length hs \<longrightarrow> (\<exists>d \<in> set (delivered b). dv_sequence d = t \<or> t < dv_sequence d \<and> dv_gap d))"
proof -
  have ok: "subscriber_ok (length hs) b" "\<forall>d \<in> set (delivered b). dv_receipt d = hs ! (dv_sequence d - 1)"
    using stream_inv_run [OF assms(1)] assms(2) by (auto simp: stream_inv_def)
  then show ?thesis by (auto simp: subscriber_ok_def)
qed

text \<open>C5. A subscriber gets the receipts in order, each as it was published; of the receipts since it subscribed
  it gets every one or else a later one marked as following a gap. The publisher never waits: the
  channel always has room after the oldest receipt is dropped.\<close>

theorem lost_events_are_flagged:
  assumes "stream_run hs s" "(i, b) \<in> set (es_subscribers s)"
  shows "sorted_wrt (<) (map dv_sequence (delivered b)) \<and> length (sb_queue b) \<le> sb_capacity b \<and>
    (\<forall>d \<in> set (delivered b). 0 < dv_sequence d \<and> dv_sequence d \<le> length hs \<and> dv_receipt d = hs ! (dv_sequence d - 1)) \<and>
    (\<forall>t. sb_since b < t \<and> t \<le> length hs \<longrightarrow> (\<exists>d \<in> set (delivered b). dv_sequence d = t \<or> t < dv_sequence d \<and> dv_gap d))"
  using stream_delivered [OF assms] by blast

section \<open>No wake-up is lost\<close>

text \<open>What a lookup of the operation finds after \<open>m\<close> publications.\<close>

definition latest_receipt :: "string \<Rightarrow> 'b receipt list \<Rightarrow> nat \<Rightarrow> 'b receipt option" where
  "latest_receipt i hs m = (case filter (\<lambda>r. rc_id r = i) (take m hs) of [] \<Rightarrow> None | rs \<Rightarrow> Some (last rs))"

definition terminal_stays :: "string \<Rightarrow> 'b receipt list \<Rightarrow> bool" where
  "terminal_stays i hs \<longleftrightarrow>
     (\<forall>k l. k < l \<and> l < length hs \<and> rc_id (hs ! k) = i \<and> rc_id (hs ! l) = i \<and> receipt_terminal (hs ! k) \<longrightarrow> receipt_terminal (hs ! l))"

lemma terminal_staysD:
  "terminal_stays i hs \<Longrightarrow> k \<le> l \<Longrightarrow> l < length hs \<Longrightarrow> rc_id (hs ! k) = i \<Longrightarrow> rc_id (hs ! l) = i \<Longrightarrow>
    receipt_terminal (hs ! k) \<Longrightarrow> receipt_terminal (hs ! l)"
  unfolding terminal_stays_def by (cases "k = l") (blast, metis le_neq_implies_less)

lemma latest_receipt_some: "latest_receipt i hs m = Some r \<Longrightarrow> rc_id r = i \<and> r \<in> set hs"
proof -
  assume "latest_receipt i hs m = Some r"
  then have "r = last (filter (\<lambda>r. rc_id r = i) (take m hs))" "filter (\<lambda>r. rc_id r = i) (take m hs) \<noteq> []"
    by (auto simp: latest_receipt_def split: list.splits)
  then have "r \<in> set (filter (\<lambda>r. rc_id r = i) (take m hs))" using last_in_set by fastforce
  then show ?thesis by (auto dest: in_set_takeD)
qed

lemma last_filter_index:
  assumes "filter P xs \<noteq> []"
  shows "\<exists>l < length xs. xs ! l = last (filter P xs) \<and> P (xs ! l) \<and> (\<forall>k < length xs. P (xs ! k) \<longrightarrow> k \<le> l)"
  using assms
proof (induction xs rule: rev_induct)
  case (snoc x xs)
  show ?case
  proof (cases "P x")
    case True
    then show ?thesis by (intro exI [of _ "length xs"]) (auto simp: nth_append)
  next
    case False
    then obtain l where l: "l < length xs" "xs ! l = last (filter P xs)" "P (xs ! l)" "\<forall>k < length xs. P (xs ! k) \<longrightarrow> k \<le> l"
      using snoc by auto
    have "k \<le> l" if "k < length (xs @ [x])" "P ((xs @ [x]) ! k)" for k
      using that l(4) False by (cases "k < length xs") (auto simp: nth_append less_Suc_eq)
    then show ?thesis using l False by (intro exI [of _ l]) (auto simp: nth_append)
  qed
qed simp

lemma latest_receipt_terminal:
  assumes "terminal_stays i hs" "k < m" "m \<le> length hs" "rc_id (hs ! k) = i" "receipt_terminal (hs ! k)"
  shows "\<exists>r. latest_receipt i hs m = Some r \<and> receipt_terminal r"
proof -
  let ?P = "\<lambda>r. rc_id r = i"
  have "take m hs ! k \<in> set (take m hs)" using assms by (intro nth_mem) simp
  then have "hs ! k \<in> set (filter ?P (take m hs))" using assms by simp
  then have ne: "filter ?P (take m hs) \<noteq> []" by force
  then obtain l where l: "l < length (take m hs)" "take m hs ! l = last (filter ?P (take m hs))" "?P (take m hs ! l)"
      "\<forall>k < length (take m hs). ?P (take m hs ! k) \<longrightarrow> k \<le> l"
    using last_filter_index [of ?P "take m hs"] by blast
  then have "k \<le> l" "l < length hs" "rc_id (hs ! l) = i" using assms by simp_all
  then have "receipt_terminal (hs ! l)" using assms terminal_staysD by metis
  moreover have "latest_receipt i hs m = Some (last (filter ?P (take m hs)))"
    using ne by (auto simp: latest_receipt_def split: list.splits)
  ultimately show ?thesis using l by auto
qed

lemma await_loop_returns:
  assumes "d \<in> set ds" "\<And>current. receipt_terminal (await_receive i look d current)"
  shows "\<exists>r. await_loop i look current ds = Some r \<and> receipt_terminal r"
  using assms(1)
proof (induction ds arbitrary: current)
  case (Cons e ds)
  then show ?case using assms(2) by (auto simp: Let_def)
qed simp

lemma await_loop_id:
  assumes "rc_id current = i" "\<And>n r. look n = Some r \<Longrightarrow> rc_id r = i" "await_loop i look current ds = Some r"
  shows "rc_id r = i \<and> receipt_terminal r"
  using assms(1,3)
proof (induction ds arbitrary: current)
  case (Cons d ds)
  have "rc_id (await_receive i look d current) = i"
    using Cons.prems(1) assms(2) by (auto simp: await_receive_def split: option.split)
  then show ?case using Cons by (auto simp: Let_def split: if_splits)
qed simp



section \<open>A subscriber that falls behind\<close>

definition demo_event :: "nat \<Rightarrow> gotime option \<Rightarrow> unit receipt" where
  "demo_event n completed = (demo_receipt (if n = 0 then ''a'' else ''b'') Status_running Phase_planned)\<lparr>rc_completed_at := completed\<rparr>"

text \<open>A channel for one receipt: the final receipt of \<open>a\<close> is dropped for one of \<open>b\<close>.\<close>

definition demo_stream :: "unit event_stream" where
  "demo_stream = read_receipts 1 1 (publish_receipt (\<lambda>_. 0) (demo_event 1 None) (publish_receipt (\<lambda>_. 0) (demo_event 0 (Some 4))
     (subscribe 1 1 (publish_receipt (\<lambda>_. 0) (demo_event 0 None) empty_stream))))"

definition demo_events :: "unit receipt list" where
  "demo_events = [demo_event 0 None, demo_event 0 (Some 4), demo_event 1 None]"

lemma demo_stream_run: "stream_run demo_events demo_stream"
proof -
  note step = stream_run.Step
  have "stream_run [demo_event 0 None] (publish_receipt (\<lambda>_. 0) (demo_event 0 None) empty_stream)" (is "stream_run _ ?one")
    using step [OF stream_run.Empty stream_step.Publish] by simp
  then have "stream_run [demo_event 0 None] (subscribe 1 1 ?one)" (is "stream_run _ ?two")
    using step [OF _ stream_step.Subscribe [of 1 ?one 1]] by (fastforce simp: publish_receipt_def empty_stream_def Let_def)
  from step [OF step [OF step [OF this stream_step.Publish] stream_step.Publish] stream_step.Read]
  show ?thesis by (simp add: demo_stream_def demo_events_def)
qed

lemma demo_stream_eq:
  "demo_stream = \<lparr>es_sequence = 3, es_subscribers = [(1, \<lparr>sb_capacity = 1, sb_queue = [],
     sb_taken = [\<lparr>dv_sequence = 3, dv_gap = True, dv_receipt = demo_event 1 None\<rparr>], sb_since = 1\<rparr>)]\<rparr>"
  by (simp add: demo_stream_def publish_receipt_def subscribe_def read_receipts_def empty_stream_def deliver_def take_receipts_def Let_def)

theorem lost_events_are_flagged_witness:
  "\<exists>d \<in> set (delivered (snd (hd (es_subscribers demo_stream)))). dv_sequence d = 2 \<or> 2 < dv_sequence d \<and> dv_gap d"
  using lost_events_are_flagged [OF demo_stream_run, of 1 "snd (hd (es_subscribers demo_stream))"]
  by (simp add: demo_stream_eq demo_events_def)


end
