(* ===== verification/OperationCache.thy ===== *)
theory OperationCache
  imports EventStream "HOL-Library.AList" "HOL-Library.Multiset"
begin

text \<open>
  What the engine keeps of its operations: the receipts in memory with their budget, the submissions,
  the operations that execute, and the drain before an update, of \<^verbatim>\<open>src/Server/Intent/Engine.go\<close>
  and \<^verbatim>\<open>src/Server/Intent/Drain.go\<close>.

  Go's maps are association lists; the index of the order is the set of its elements. The journal is
  the environment: the answers of its calls are arguments. How many bytes a receipt takes,
  \<open>estimatedReceiptBytes\<close>, is an argument, too.
\<close>

section \<open>The cache\<close>

record 'b engine =
  en_store :: bool
  en_operations :: "(string \<times> 'b receipt) list"
  en_hashes :: "(string \<times> string) list"
  en_durable :: "string list"
  en_order :: "string list"
  en_sizes :: "(string \<times> int) list"
  en_bytes :: int
  en_active :: "string list"
  en_drain_cancelled :: "string list"
  en_draining :: bool
  en_inflight :: int
  en_persistence_error :: "string option"
  en_stream :: "'b event_stream"

definition new_engine :: "'b engine" where
  "new_engine = \<lparr>en_store = False, en_operations = [], en_hashes = [], en_durable = [], en_order = [], en_sizes = [], en_bytes = 0,
     en_active = [], en_drain_cancelled = [], en_draining = False, en_inflight = 0, en_persistence_error = None, en_stream = empty_stream\<rparr>"

definition operation_memory_limit :: nat where
  "operation_memory_limit = 500"

definition operation_memory_bytes :: int where
  "operation_memory_bytes = 8 * 1024 * 1024"

definition over_budget :: "'b engine \<Rightarrow> bool" where
  "over_budget e \<longleftrightarrow> operation_memory_limit < length (en_operations e) \<or> operation_memory_bytes < en_bytes e"

definition size_in :: "'b engine \<Rightarrow> string \<Rightarrow> int" where
  "size_in e i = (case map_of (en_sizes e) i of None \<Rightarrow> 0 | Some n \<Rightarrow> n)"

definition forget_operation :: "string \<Rightarrow> 'b engine \<Rightarrow> 'b engine" where
  "forget_operation i e = e\<lparr>en_operations := AList.delete i (en_operations e), en_hashes := AList.delete i (en_hashes e),
     en_durable := removeAll i (en_durable e), en_bytes := en_bytes e - size_in e i, en_sizes := AList.delete i (en_sizes e)\<rparr>"

text \<open>The loop of \<open>evictOperationHistoryLocked\<close>: the oldest goes first, an active one to the back.\<close>

function evict_loop :: "nat \<Rightarrow> 'b engine \<Rightarrow> 'b engine" where
  "evict_loop attempts e =
     (case en_order e of
        [] \<Rightarrow> e
      | i # rest \<Rightarrow>
          if \<not> over_budget e \<or> attempts = 0 then e
          else if i \<in> set (en_active e) then evict_loop (attempts - 1) (e\<lparr>en_order := rest @ [i]\<rparr>)
          else evict_loop (length rest) (forget_operation i (e\<lparr>en_order := rest\<rparr>)))"
  by pat_completeness auto
termination
  by (relation "measures [\<lambda>(_, e). length (en_order e), fst]") (auto simp: forget_operation_def)

declare evict_loop.simps [simp del]

definition evict_history :: "'b engine \<Rightarrow> 'b engine" where
  "evict_history e = (if en_store e then evict_loop (length (en_order e)) e else e)"

definition cache_operation :: "('b receipt \<Rightarrow> int) \<Rightarrow> 'b receipt \<Rightarrow> string \<Rightarrow> 'b engine \<Rightarrow> 'b engine" where
  "cache_operation size_of r hash e =
     (let i = trim_space (rc_id r) in
      if i = [] then e
      else evict_history
        (e\<lparr>en_order := (if i \<in> set (en_order e) then en_order e else en_order e @ [i]),
           en_operations := AList.update i r (en_operations e),
           en_bytes := en_bytes e + (size_of r - size_in e i),
           en_sizes := AList.update i (size_of r) (en_sizes e),
           en_hashes := (if hash \<noteq> [] then AList.update i hash (en_hashes e) else en_hashes e)\<rparr>))"

definition publish_operation :: "('b receipt \<Rightarrow> int) \<Rightarrow> (nat \<Rightarrow> nat) \<Rightarrow> 'b receipt \<Rightarrow> 'b engine \<Rightarrow> 'b engine" where
  "publish_operation size_of drained r e =
     (let e = cache_operation size_of r [] e in e\<lparr>en_stream := publish_receipt drained r (en_stream e)\<rparr>)"

text \<open>\<open>update\<close>: what is saved, and what is published in any case; the error goes back to the caller.\<close>

definition durable_receipt_checkpoint :: "'b receipt \<Rightarrow> bool" where
  "durable_receipt_checkpoint r \<longleftrightarrow> rc_status r \<in> {Status_succeeded, Status_cancelled, Status_failed, Status_partially_succeeded,
     Status_indeterminate, Status_paused, Status_reconciling}"

definition saves_update :: "'b receipt \<Rightarrow> 'b engine \<Rightarrow> bool" where
  "saves_update r e \<longleftrightarrow> en_store e \<and> rc_id r \<in> set (en_durable e) \<and> durable_receipt_checkpoint r"

definition update_operation :: "('b receipt \<Rightarrow> int) \<Rightarrow> (nat \<Rightarrow> nat) \<Rightarrow> string option \<Rightarrow> 'b receipt \<Rightarrow> 'b engine \<Rightarrow> 'b engine \<times> string option" where
  "update_operation size_of drained save_err r e =
     (let e' = (if saves_update r e then e\<lparr>en_persistence_error := save_err\<rparr> else e)
      in (publish_operation size_of drained r e', if saves_update r e then save_err else None))"

section \<open>Reservation and lookup\<close>

datatype 'b reservation = Reservation_conflict | Reservation_existing "'b receipt" | Reservation_created

definition reserve_submission :: "('b receipt \<Rightarrow> int) \<Rightarrow> (nat \<Rightarrow> nat) \<Rightarrow> string \<Rightarrow> 'b receipt \<Rightarrow> 'b engine \<Rightarrow> 'b reservation \<times> 'b engine" where
  "reserve_submission size_of drained hash r e =
     (case map_of (en_operations e) (rc_id r) of
        Some existing \<Rightarrow>
          (if (case map_of (en_hashes e) (rc_id r) of None \<Rightarrow> [] | Some h \<Rightarrow> h) \<noteq> hash then Reservation_conflict else Reservation_existing existing, e)
      | None \<Rightarrow> (Reservation_created, publish_operation size_of drained r (cache_operation size_of r hash e)))"

text \<open>\<open>reserveDurableOperation\<close>: \<open>answer\<close> is what the journal reserves, the receipt and whether it is new.\<close>

definition reserve_durable :: "('b receipt \<Rightarrow> int) \<Rightarrow> string \<Rightarrow> 'b receipt \<Rightarrow> string + ('b receipt \<times> bool) \<Rightarrow> 'b engine \<Rightarrow>
    (string + ('b receipt \<times> bool)) \<times> 'b engine" where
  "reserve_durable size_of hash r answer e =
     (if rc_id r \<in> set (en_durable e) \<or> \<not> en_store e then (Inr (r, True), e)
      else case answer of
        Inl err \<Rightarrow> (Inl err, e\<lparr>en_persistence_error := Some err\<rparr>)
      | Inr (reserved, created) \<Rightarrow>
          let e = e\<lparr>en_persistence_error := None, en_durable := List.insert (rc_id reserved) (en_durable e)\<rparr>
          in (Inr (reserved, created), if created then e else cache_operation size_of reserved hash e))"

text \<open>\<open>Operation\<close>: from memory, else from the journal.\<close>

definition find_receipt :: "('b receipt \<Rightarrow> int) \<Rightarrow> string \<Rightarrow> string + ('b receipt \<times> string) option \<Rightarrow> 'b engine \<Rightarrow> 'b receipt option \<times> 'b engine" where
  "find_receipt size_of i answer e =
     (case map_of (en_operations e) i of
        Some r \<Rightarrow> (Some r, e)
      | None \<Rightarrow>
          if \<not> en_store e then (None, e)
          else case answer of
            Inl err \<Rightarrow> (None, e\<lparr>en_persistence_error := Some err\<rparr>)
          | Inr None \<Rightarrow> (None, e)
          | Inr (Some (r, hash)) \<Rightarrow> (Some r, cache_operation size_of r hash (e\<lparr>en_durable := List.insert (rc_id r) (en_durable e)\<rparr>)))"

text \<open>\<open>SetOperationStore\<close>: the recent operations, newest first, and the recovered ones.\<close>

definition adopt_stored :: "('b receipt \<Rightarrow> int) \<Rightarrow> 'b stored_operation \<Rightarrow> 'b engine \<Rightarrow> 'b engine" where
  "adopt_stored size_of stored e =
     cache_operation size_of (so_receipt stored) (so_request_hash stored) (e\<lparr>en_durable := List.insert (rc_id (so_receipt stored)) (en_durable e)\<rparr>)"

definition set_operation_store :: "('b receipt \<Rightarrow> int) \<Rightarrow> string + 'b stored_operation list \<Rightarrow> string + 'b stored_operation list \<Rightarrow> 'b engine \<Rightarrow>
    string option \<times> 'b engine" where
  "set_operation_store size_of recovered recent e =
     (case recovered of Inl err \<Rightarrow> (Some err, e)
      | Inr recovered \<Rightarrow>
          (case recent of Inl err \<Rightarrow> (Some err, e)
           | Inr recent \<Rightarrow>
               if en_store e then (Some ''operation store is already configured'', e)
               else (None, fold (adopt_stored size_of) recovered (fold (adopt_stored size_of) (rev recent) (e\<lparr>en_store := True\<rparr>)))))"

text \<open>\<open>RecentOperations\<close>: memory newest first, then the journal; \<open>page\<close> is the journal's answer for a page of that
  length.\<close>

definition recent_from_memory :: "nat \<Rightarrow> 'b engine \<Rightarrow> 'b receipt list" where
  "recent_from_memory limit e = List.map_filter (\<lambda>i. map_of (en_operations e) i) (take limit (rev (en_order e)))"

fun fill_from_store :: "nat \<Rightarrow> 'b receipt list \<Rightarrow> 'b receipt list \<Rightarrow> 'b receipt list" where
  "fill_from_store limit out [] = out"
| "fill_from_store limit out (r # stored) =
     (if rc_id r \<in> rc_id ` set out then fill_from_store limit out stored
      else if length (out @ [r]) = limit then out @ [r]
      else fill_from_store limit (out @ [r]) stored)"

definition engine_recent_operations :: "int \<Rightarrow> (nat \<Rightarrow> string + 'b receipt list) \<Rightarrow> 'b engine \<Rightarrow> string + 'b receipt list" where
  "engine_recent_operations limit page e =
     (let limit = (if limit \<le> 0 \<or> int operation_history_limit < limit then operation_history_limit else nat limit);
          out = recent_from_memory limit e
      in if length out < limit \<and> en_store e
         then (case page (limit + length out) of Inl err \<Rightarrow> Inl err | Inr stored \<Rightarrow> Inr (fill_from_store limit out stored))
         else Inr out)"


section \<open>Submissions and the drain\<close>

text \<open>\<open>preparing\<close> are the goroutines inside \<open>prepare\<close>, which share the admission lock: whether the operation is
  registered already. \<open>executing\<close> are those inside \<open>execute\<close>: whether it is still registered.\<close>

record 'b control =
  ct_engine :: "'b engine"
  ct_preparing :: "(nat \<times> string \<times> bool) list"
  ct_executing :: "(nat \<times> string \<times> bool) list"

definition register_active :: "string \<Rightarrow> 'b engine \<Rightarrow> bool \<times> 'b engine" where
  "register_active i e = (if i \<in> set (en_active e) then (False, e) else (True, e\<lparr>en_active := en_active e @ [i]\<rparr>))"

definition unregister_active :: "string \<Rightarrow> 'b engine \<Rightarrow> 'b engine" where
  "unregister_active i e = e\<lparr>en_active := removeAll i (en_active e), en_drain_cancelled := removeAll i (en_drain_cancelled e)\<rparr>"

text \<open>The parts of \<open>prepare\<close>: the reservation, the registration, and the count.\<close>

definition prepare_reserve :: "('b receipt \<Rightarrow> int) \<Rightarrow> (nat \<Rightarrow> nat) \<Rightarrow> nat \<Rightarrow> string \<Rightarrow> 'b receipt \<Rightarrow> 'b control \<Rightarrow> 'b control" where
  "prepare_reserve size_of drained t hash r ct =
     (if en_draining (ct_engine ct) then ct
      else case reserve_submission size_of drained hash r (ct_engine ct) of
        (Reservation_created, e) \<Rightarrow> ct\<lparr>ct_engine := e, ct_preparing := ct_preparing ct @ [(t, rc_id r, False)]\<rparr>
      | (_, e) \<Rightarrow> ct\<lparr>ct_engine := e\<rparr>)"

definition prepare_register :: "nat \<Rightarrow> string \<Rightarrow> 'b control \<Rightarrow> 'b control" where
  "prepare_register t i ct =
     (case register_active i (ct_engine ct) of
        (ok, e) \<Rightarrow> ct\<lparr>ct_engine := e,
          ct_preparing := remove1 (t, i, False) (ct_preparing ct) @ (if ok then [(t, i, True)] else [])\<rparr>)"

definition prepare_count :: "nat \<Rightarrow> string \<Rightarrow> 'b control \<Rightarrow> 'b control" where
  "prepare_count t i ct = ct\<lparr>ct_engine := (ct_engine ct)\<lparr>en_inflight := en_inflight (ct_engine ct) + 1\<rparr>,
     ct_preparing := remove1 (t, i, True) (ct_preparing ct), ct_executing := ct_executing ct @ [(t, i, True)]\<rparr>"

text \<open>The deferred end of \<open>execute\<close>.\<close>

definition execution_unregister :: "nat \<Rightarrow> string \<Rightarrow> 'b control \<Rightarrow> 'b control" where
  "execution_unregister t i ct = ct\<lparr>ct_engine := unregister_active i (ct_engine ct),
     ct_executing := remove1 (t, i, True) (ct_executing ct) @ [(t, i, False)]\<rparr>"

definition execution_leave :: "nat \<Rightarrow> string \<Rightarrow> 'b control \<Rightarrow> 'b control" where
  "execution_leave t i ct = ct\<lparr>ct_engine := (ct_engine ct)\<lparr>en_inflight := en_inflight (ct_engine ct) - 1\<rparr>,
     ct_executing := remove1 (t, i, False) (ct_executing ct)\<rparr>"

text \<open>\<open>FinishOpen\<close>: closing the admission, one round of its loop (the reads that are cancelled, and whether it is
  done), and \<open>ResumeAdmission\<close>. The first and the last wait for the goroutines inside \<open>prepare\<close>.\<close>

definition begin_drain :: "'b engine \<Rightarrow> bool \<times> 'b engine" where
  "begin_drain e = (if en_draining e then (False, e) else (True, e\<lparr>en_draining := True\<rparr>))"

definition drain_round :: "'b engine \<Rightarrow> bool \<times> 'b engine" where
  "drain_round e =
     (let reads = filter (\<lambda>i. case map_of (en_operations e) i of None \<Rightarrow> False | Some r \<Rightarrow> rc_plan_effect r = Some Effect_read) (en_active e)
      in (en_inflight e = 0, e\<lparr>en_drain_cancelled := fold List.insert reads (en_drain_cancelled e)\<rparr>))"

definition resume_admission :: "'b engine \<Rightarrow> 'b engine" where
  "resume_admission e = e\<lparr>en_draining := False\<rparr>"

text \<open>The steps of all goroutines. What an execution does to its receipt is arbitrary.\<close>

inductive control_step :: "('b receipt \<Rightarrow> int) \<Rightarrow> 'b control \<Rightarrow> 'b control \<Rightarrow> bool" for size_of where
  Reserve: "control_step size_of ct (prepare_reserve size_of drained t hash r ct)"
| Register: "(t, i, False) \<in> set (ct_preparing ct) \<Longrightarrow> control_step size_of ct (prepare_register t i ct)"
| Count: "(t, i, True) \<in> set (ct_preparing ct) \<Longrightarrow> control_step size_of ct (prepare_count t i ct)"
| Update: "control_step size_of ct (ct\<lparr>ct_engine := fst (update_operation size_of drained err r (ct_engine ct))\<rparr>)"
| Durable: "control_step size_of ct (ct\<lparr>ct_engine := snd (reserve_durable size_of hash r answer (ct_engine ct))\<rparr>)"
| Unregister: "(t, i, True) \<in> set (ct_executing ct) \<Longrightarrow> control_step size_of ct (execution_unregister t i ct)"
| Leave: "(t, i, False) \<in> set (ct_executing ct) \<Longrightarrow> control_step size_of ct (execution_leave t i ct)"
| Lookup: "control_step size_of ct (ct\<lparr>ct_engine := snd (find_receipt size_of i answer' (ct_engine ct))\<rparr>)"
| Store: "control_step size_of ct (ct\<lparr>ct_engine := snd (set_operation_store size_of recovered recent (ct_engine ct))\<rparr>)"
| Drain: "ct_preparing ct = [] \<Longrightarrow> control_step size_of ct (ct\<lparr>ct_engine := snd (begin_drain (ct_engine ct))\<rparr>)"
| Round: "control_step size_of ct (ct\<lparr>ct_engine := snd (drain_round (ct_engine ct))\<rparr>)"
| Resume: "ct_preparing ct = [] \<Longrightarrow> control_step size_of ct (ct\<lparr>ct_engine := resume_admission (ct_engine ct)\<rparr>)"

inductive control_reachable :: "('b receipt \<Rightarrow> int) \<Rightarrow> 'b control \<Rightarrow> bool" for size_of where
  New: "control_reachable size_of \<lparr>ct_engine = new_engine, ct_preparing = [], ct_executing = []\<rparr>"
| Step: "control_reachable size_of ct \<Longrightarrow> control_step size_of ct ct' \<Longrightarrow> control_reachable size_of ct'"

section \<open>The cache is consistent\<close>

text \<open>One entry per operation in each map, the same operations in the order, and the bytes counted are those of
  the operations kept.\<close>

definition cache_ok :: "'b engine \<Rightarrow> bool" where
  "cache_ok e \<longleftrightarrow> distinct (en_order e) \<and> distinct (map fst (en_operations e)) \<and> distinct (map fst (en_sizes e)) \<and>
     fst ` set (en_operations e) = set (en_order e) \<and> fst ` set (en_sizes e) = set (en_order e) \<and>
     fst ` set (en_hashes e) \<subseteq> set (en_order e) \<and> en_bytes e = sum_list (map snd (en_sizes e))"

lemma sum_delete:
  "distinct (map fst xs) \<Longrightarrow> sum_list (map snd (AList.delete i xs)) = sum_list (map snd xs) - (case map_of xs i of None \<Rightarrow> 0 | Some n \<Rightarrow> n)"
  for xs :: "(string \<times> int) list"
proof (induction xs)
  case (Cons x xs)
  show ?case
  proof (cases "fst x = i")
    case True
    then have "i \<notin> fst ` set xs" using Cons.prems by (auto simp: rev_image_eqI)
    then have "AList.delete i xs = xs" by (force simp: AList.delete_eq intro!: filter_True)
    then show ?thesis using True by (cases x) simp
  next
    case False
    then show ?thesis using Cons by (cases x) (auto simp: AList.delete_eq)
  qed
qed simp

lemma sum_update:
  "distinct (map fst xs) \<Longrightarrow> sum_list (map snd (AList.update i n xs)) = sum_list (map snd xs) - (case map_of xs i of None \<Rightarrow> 0 | Some m \<Rightarrow> m) + n"
  for xs :: "(string \<times> int) list"
proof (induction xs)
  case (Cons x xs)
  then show ?case by (cases x) auto
qed simp

lemma keys_delete [simp]: "fst ` set (AList.delete i xs) = fst ` set xs - {i}"
  by (metis AList.delete_keys list.set_map set_removeAll)

lemma keys_update [simp]: "fst ` set (AList.update i x xs) = insert i (fst ` set xs)"
  by (induction xs) auto

lemma forget_ok:
  assumes "cache_ok e" "en_order e = i # rest"
  shows "cache_ok (forget_operation i (e\<lparr>en_order := rest\<rparr>))"
  using assms
  by (auto simp: cache_ok_def forget_operation_def sum_delete size_in_def AList.distinct_delete)

lemma rotate_ok: "cache_ok e \<Longrightarrow> en_order e = i # rest \<Longrightarrow> cache_ok (e\<lparr>en_order := rest @ [i]\<rparr>)"
  by (auto simp: cache_ok_def)

lemma evict_loop_ok: "cache_ok e \<Longrightarrow> cache_ok (evict_loop attempts e)"
proof (induction attempts e rule: evict_loop.induct)
  case (1 attempts e)
  then show ?case
    using forget_ok [of e] rotate_ok [of e] by (subst evict_loop.simps) (auto split: list.split)
qed

lemma evict_history_ok: "cache_ok e \<Longrightarrow> cache_ok (evict_history e)"
  by (simp add: evict_history_def evict_loop_ok)

lemma cache_operation_ok: "cache_ok e \<Longrightarrow> cache_ok (cache_operation size_of r hash e)"
  unfolding cache_operation_def Let_def
  by (auto intro!: evict_history_ok) (auto simp: cache_ok_def AList.distinct_update sum_update size_in_def)

lemma cache_ok_cong [simp]:
  "cache_ok (e\<lparr>en_stream := v1\<rparr>) = cache_ok e" "cache_ok (e\<lparr>en_durable := v2\<rparr>) = cache_ok e"
  "cache_ok (e\<lparr>en_persistence_error := v3\<rparr>) = cache_ok e" "cache_ok (e\<lparr>en_active := v4\<rparr>) = cache_ok e"
  "cache_ok (e\<lparr>en_drain_cancelled := v5\<rparr>) = cache_ok e" "cache_ok (e\<lparr>en_draining := v6\<rparr>) = cache_ok e"
  "cache_ok (e\<lparr>en_inflight := v7\<rparr>) = cache_ok e" "cache_ok (e\<lparr>en_store := v8\<rparr>) = cache_ok e"
  by (simp_all add: cache_ok_def)

lemma publish_operation_ok: "cache_ok e \<Longrightarrow> cache_ok (publish_operation size_of drained r e)"
  by (simp add: publish_operation_def cache_operation_ok Let_def)

lemma adopt_stored_ok: "cache_ok e \<Longrightarrow> cache_ok (fold (adopt_stored size_of) os e)"
  by (induction os arbitrary: e) (simp_all add: adopt_stored_def cache_operation_ok)

lemma cache_ok_step: "control_step size_of ct ct' \<Longrightarrow> cache_ok (ct_engine ct) \<Longrightarrow> cache_ok (ct_engine ct')"
proof (induction rule: control_step.induct)
  case (Reserve ct drained t hash r)
  then show ?case
    by (auto simp: prepare_reserve_def reserve_submission_def publish_operation_ok cache_operation_ok split: option.split)
next
  case (Register t i ct)
  then show ?case by (simp add: prepare_register_def register_active_def)
next
  case (Count t i ct)
  then show ?case by (simp add: prepare_count_def)
next
  case (Update ct drained err r)
  then show ?case by (simp add: update_operation_def publish_operation_ok Let_def)
next
  case (Durable ct hash r answer)
  then show ?case by (auto simp: reserve_durable_def cache_operation_ok Let_def split: sum.split)
next
  case (Unregister t i ct)
  then show ?case by (simp add: execution_unregister_def unregister_active_def)
next
  case (Leave t i ct)
  then show ?case by (simp add: execution_leave_def)
next
  case (Lookup ct i answer')
  then show ?case by (auto simp: find_receipt_def cache_operation_ok split: option.split sum.split)
next
  case (Store ct recovered recent)
  then show ?case by (auto simp: set_operation_store_def adopt_stored_ok split: sum.split)
next
  case (Drain ct)
  then show ?case by (simp add: begin_drain_def)
next
  case (Round ct)
  then show ?case by (simp add: drain_round_def Let_def)
next
  case (Resume ct)
  then show ?case by (simp add: resume_admission_def)
qed

lemma cache_ok_reachable: "control_reachable size_of ct \<Longrightarrow> cache_ok (ct_engine ct)"
  by (induction rule: control_reachable.induct) (simp add: cache_ok_def new_engine_def, blast intro: cache_ok_step)


section \<open>The budget\<close>

text \<open>What the loop has passed without success is active, and stands at the end of the order.\<close>

lemma evict_loop_active [simp]: "en_active (evict_loop attempts e) = en_active e"
proof (induction attempts e rule: evict_loop.induct)
  case (1 attempts e)
  then show ?case by (subst evict_loop.simps) (auto simp: forget_operation_def split: list.split)
qed

lemma evict_loop_budget:
  assumes "attempts \<le> length (en_order e)" "set (drop attempts (en_order e)) \<subseteq> set (en_active e)"
  shows "\<not> over_budget (evict_loop attempts e) \<or> set (en_order (evict_loop attempts e)) \<subseteq> set (en_active e)"
  using assms
proof (induction attempts e rule: evict_loop.induct)
  case (1 attempts e)
  show ?case
  proof (cases "en_order e")
    case Nil
    then show ?thesis by (subst (1 2) evict_loop.simps) simp
  next
    case (Cons i rest)
    consider "\<not> over_budget e" | "attempts = 0" | "over_budget e" "attempts \<noteq> 0" "i \<in> set (en_active e)"
      | "over_budget e" "attempts \<noteq> 0" "i \<notin> set (en_active e)" by blast
    then show ?thesis
    proof cases
      case 3
      then have "set (drop (attempts - 1) (rest @ [i])) \<subseteq> set (en_active e)"
        using "1.prems" Cons by (cases attempts) auto
      then show ?thesis
        using "1.IH"(1) [OF Cons _ 3(3)] 3 "1.prems"(1) Cons by (subst (1 2) evict_loop.simps) auto
    next
      case 4
      then show ?thesis
        using "1.IH"(2) [OF Cons _ 4(3)] 4 Cons by (subst (1 2) evict_loop.simps) (auto simp: forget_operation_def)
    qed (use "1.prems" Cons in \<open>(subst (1 2) evict_loop.simps, simp)+\<close>)
  qed
qed

text \<open>C29. With a journal behind it the memory stays within 500 operations and 8 MiB whenever a receipt is cached,
  unless every operation it keeps is active.\<close>

theorem history_within_budget:
  assumes "en_store e" "trim_space (rc_id r) \<noteq> []"
  shows "let e' = cache_operation size_of r hash e in
    length (en_operations e') \<le> 500 \<and> en_bytes e' \<le> 8388608 \<or> set (en_order e') \<subseteq> set (en_active e')"
proof -
  have "\<not> over_budget e' \<or> set (en_order e') \<subseteq> set (en_active e')" if "e' = evict_history d" "en_store d" for d e' :: "'a engine"
    using that evict_loop_budget [of "length (en_order d)" d] by (simp add: evict_history_def)
  then show ?thesis
    using assms by (fastforce simp: cache_operation_def over_budget_def operation_memory_limit_def operation_memory_bytes_def Let_def not_less)
qed


section \<open>Executions\<close>

definition registered :: "(nat \<times> string \<times> bool) list \<Rightarrow> string list" where
  "registered ts = map (fst \<circ> snd) (filter (snd \<circ> snd) ts)"

lemma registered_simps [simp]:
  "registered [] = []" "registered ((t, i, b) # ts) = (if b then i # registered ts else registered ts)"
  "registered (ts @ us) = registered ts @ registered us"
  by (auto simp: registered_def)

lemma registered_remove1:
  "(t, i, b) \<in> set ts \<Longrightarrow> mset (registered ts) = mset (registered (remove1 (t, i, b) ts)) + (if b then {#i#} else {#})"
  by (induction ts) (auto split: if_splits)

definition control_inv :: "'b control \<Rightarrow> bool" where
  "control_inv ct \<longleftrightarrow> en_inflight (ct_engine ct) = int (length (ct_executing ct)) \<and> distinct (en_active (ct_engine ct)) \<and>
     mset (en_active (ct_engine ct)) = mset (registered (ct_preparing ct)) + mset (registered (ct_executing ct)) \<and>
     (en_draining (ct_engine ct) \<longrightarrow> ct_preparing ct = [])"

lemma evict_loop_control [simp]:
  "en_inflight (evict_loop attempts e) = en_inflight e" "en_draining (evict_loop attempts e) = en_draining e"
  "en_store (evict_loop attempts e) = en_store e"
proof (induction attempts e rule: evict_loop.induct)
  case (1 attempts e)
  { case 1 then show ?case using "1.IH" by (subst evict_loop.simps) (auto simp: forget_operation_def split: list.split) }
  { case 2 then show ?case using "1.IH" by (subst evict_loop.simps) (auto simp: forget_operation_def split: list.split) }
  { case 3 then show ?case using "1.IH" by (subst evict_loop.simps) (auto simp: forget_operation_def split: list.split) }
qed

lemma cache_operation_stream [simp]: "en_stream (cache_operation size_of r hash e) = en_stream e"
proof -
  have "en_stream (evict_loop attempts d) = en_stream d" for attempts and d :: "'a engine"
  proof (induction attempts d rule: evict_loop.induct)
    case (1 attempts d)
    then show ?case by (subst evict_loop.simps) (auto simp: forget_operation_def split: list.split)
  qed
  then show ?thesis by (simp add: cache_operation_def evict_history_def Let_def)
qed

lemma cache_operation_control [simp]:
  "en_inflight (cache_operation size_of r hash e) = en_inflight e" "en_draining (cache_operation size_of r hash e) = en_draining e"
  "en_active (cache_operation size_of r hash e) = en_active e"
  by (simp_all add: cache_operation_def evict_history_def Let_def)

lemma publish_operation_control [simp]:
  "en_inflight (publish_operation size_of drained r e) = en_inflight e" "en_draining (publish_operation size_of drained r e) = en_draining e"
  "en_active (publish_operation size_of drained r e) = en_active e"
  by (simp_all add: publish_operation_def Let_def)

lemma adopt_stored_control [simp]:
  "en_inflight (fold (adopt_stored size_of) os e) = en_inflight e" "en_draining (fold (adopt_stored size_of) os e) = en_draining e"
  "en_active (fold (adopt_stored size_of) os e) = en_active e"
  by (induction os arbitrary: e) (simp_all add: adopt_stored_def)

lemma control_inv_step: "control_step size_of ct ct' \<Longrightarrow> control_inv ct \<Longrightarrow> control_inv ct'"
proof (induction rule: control_step.induct)
  case (Reserve ct drained t hash r)
  then show ?case
    by (auto simp: control_inv_def prepare_reserve_def reserve_submission_def split: option.split)
next
  case (Register t i ct)
  then show ?case
    using registered_remove1 [OF Register(1)]
    by (auto simp: control_inv_def prepare_register_def register_active_def)
next
  case (Count t i ct)
  then show ?case
    using registered_remove1 [OF Count(1)] by (auto simp: control_inv_def prepare_count_def)
next
  case (Update ct drained err r)
  then show ?case by (simp add: control_inv_def update_operation_def Let_def)
next
  case (Durable ct hash r answer)
  then show ?case by (auto simp: control_inv_def reserve_durable_def Let_def split: sum.split)
next
  case (Unregister t i ct)
  let ?rest = "registered (ct_preparing ct) @ registered (remove1 (t, i, True) (ct_executing ct))"
  have active: "mset (en_active (ct_engine ct)) = add_mset i (mset ?rest)" "distinct (en_active (ct_engine ct))"
    using Unregister registered_remove1 [OF Unregister(1)] by (auto simp: control_inv_def)
  then have "mset (removeAll i (en_active (ct_engine ct))) = mset ?rest"
    by (simp add: distinct_remove1_removeAll [symmetric])
  moreover have "length (ct_executing ct) = Suc (length (remove1 (t, i, True) (ct_executing ct)))"
    using Unregister(1) by (metis Suc_pred' length_pos_if_in_set length_remove1)
  ultimately show ?case
    using Unregister active(2) by (auto simp: control_inv_def execution_unregister_def unregister_active_def distinct_removeAll)
next
  case (Leave t i ct)
  moreover have "length (ct_executing ct) = Suc (length (remove1 (t, i, False) (ct_executing ct)))"
    using Leave(1) by (metis Suc_pred' length_pos_if_in_set length_remove1)
  ultimately show ?case
    using registered_remove1 [OF Leave(1)] by (auto simp: control_inv_def execution_leave_def)
next
  case (Lookup ct i answer')
  then show ?case by (auto simp: control_inv_def find_receipt_def split: option.split sum.split)
next
  case (Store ct recovered recent)
  then show ?case by (auto simp: control_inv_def set_operation_store_def split: sum.split)
next
  case (Drain ct)
  then show ?case by (simp add: control_inv_def begin_drain_def)
next
  case (Round ct)
  then show ?case by (simp add: control_inv_def drain_round_def Let_def)
next
  case (Resume ct)
  then show ?case by (simp add: control_inv_def resume_admission_def)
qed

lemma control_inv_reachable: "control_reachable size_of ct \<Longrightarrow> control_inv ct"
  by (induction rule: control_reachable.induct) (simp add: control_inv_def new_engine_def, blast intro: control_inv_step)

text \<open>C4. No operation is executed twice at a time, however many goroutines submit it at once, and the count of
  executions is exact.\<close>

theorem operations_run_once:
  assumes "control_reachable size_of ct"
  shows "distinct (registered (ct_preparing ct) @ registered (ct_executing ct)) \<and>
    set (en_active (ct_engine ct)) = set (registered (ct_preparing ct)) \<union> set (registered (ct_executing ct)) \<and>
    en_inflight (ct_engine ct) = int (length (ct_executing ct))"
proof -
  have inv: "mset (en_active (ct_engine ct)) = mset (registered (ct_preparing ct) @ registered (ct_executing ct))" "distinct (en_active (ct_engine ct))"
      "en_inflight (ct_engine ct) = int (length (ct_executing ct))"
    using control_inv_reachable [OF assms] by (auto simp: control_inv_def)
  then show ?thesis using mset_eq_setD [OF inv(1)] mset_eq_imp_distinct_iff [OF inv(1)] by simp
qed

text \<open>C27. A drain that reports the engine idle has stopped it: nothing executes, nothing is on its way in, and no step
  but the one that resumes admission changes that.\<close>

theorem drained_engine_is_quiet:
  assumes "control_reachable size_of ct" "en_draining (ct_engine ct)" "fst (drain_round (ct_engine ct))"
  shows "ct_executing ct = [] \<and> ct_preparing ct = [] \<and> en_active (ct_engine ct) = [] \<and>
    (\<forall>ct'. control_step size_of ct ct' \<longrightarrow>
      ct_executing ct' = [] \<and> ct_preparing ct' = [] \<and> (en_draining (ct_engine ct') \<or> ct_engine ct' = resume_admission (ct_engine ct)))"
proof -
  have quiet: "ct_executing ct = []" "ct_preparing ct = []" "en_active (ct_engine ct) = []"
    using control_inv_reachable [OF assms(1)] assms(2,3) by (auto simp: control_inv_def drain_round_def Let_def)
  have "ct_executing ct' = [] \<and> ct_preparing ct' = [] \<and> (en_draining (ct_engine ct') \<or> ct_engine ct' = resume_admission (ct_engine ct))"
    if "control_step size_of ct ct'" for ct'
    using that quiet assms(2)
    by cases (auto simp: prepare_reserve_def update_operation_def reserve_durable_def find_receipt_def set_operation_store_def begin_drain_def
      drain_round_def Let_def split: option.split sum.split)
  then show ?thesis using quiet by blast
qed


text \<open>Filling up from the journal repeats no operation and stops at the limit.\<close>

lemma fill_from_store_sound:
  "distinct (map rc_id out) \<Longrightarrow> length out < limit \<Longrightarrow>
    distinct (map rc_id (fill_from_store limit out stored)) \<and> length (fill_from_store limit out stored) \<le> limit \<and>
    rc_id ` set (fill_from_store limit out stored) \<subseteq> rc_id ` (set out \<union> set stored)"
  by (induction limit out stored rule: fill_from_store.induct) (auto simp: image_iff)

section \<open>A submission\<close>

definition demo_size :: "unit receipt \<Rightarrow> int" where
  "demo_size r = 9000000"

definition demo_opened :: "unit control" where
  "demo_opened = \<lparr>ct_engine = new_engine, ct_preparing = [], ct_executing = []\<rparr>"

definition demo_submitting :: "unit control" where
  "demo_submitting = prepare_count 7 ''a'' (prepare_register 7 ''a'' (prepare_reserve demo_size (\<lambda>_. 0) 7 ''h'' (demo_event 0 None) demo_opened))"

lemma demo_cache_trim: "trim_space ''a'' = ''a''" by code_simp

lemma demo_reserved: "ct_preparing (prepare_reserve demo_size (\<lambda>_. 0) 7 ''h'' (demo_event 0 None) demo_opened) = [(7, ''a'', False)]"
  "en_active (ct_engine (prepare_reserve demo_size (\<lambda>_. 0) 7 ''h'' (demo_event 0 None) demo_opened)) = []"
  by (simp_all add: prepare_reserve_def reserve_submission_def demo_opened_def new_engine_def demo_event_def demo_receipt_def)

lemma demo_submitting: "ct_executing demo_submitting = [(7, ''a'', True)]" "ct_preparing demo_submitting = []"
  by (simp_all add: demo_submitting_def prepare_count_def prepare_register_def register_active_def demo_reserved)
    (simp add: prepare_reserve_def reserve_submission_def demo_opened_def new_engine_def)

lemma demo_submitting_reachable: "control_reachable demo_size demo_submitting"
proof -
  let ?one = "prepare_reserve demo_size (\<lambda>_. 0) 7 ''h'' (demo_event 0 None) demo_opened"
  have "control_reachable demo_size ?one"
    by (rule control_reachable.Step [OF control_reachable.New]) (simp add: demo_opened_def control_step.Reserve)
  then have two: "control_reachable demo_size (prepare_register 7 ''a'' ?one)"
    by (rule control_reachable.Step) (intro control_step.Register, simp add: demo_reserved)
  have "(7, ''a'', True) \<in> set (ct_preparing (prepare_register 7 ''a'' ?one))"
    by (simp add: prepare_register_def register_active_def demo_reserved)
  from control_reachable.Step [OF two control_step.Count [OF this]] show ?thesis by (simp add: demo_submitting_def)
qed


theorem history_within_budget_witness:
  "length (en_operations (cache_operation demo_size (demo_event 0 None) ''h'' (new_engine\<lparr>en_store := True\<rparr>))) \<le> 500 \<and>
     en_bytes (cache_operation demo_size (demo_event 0 None) ''h'' (new_engine\<lparr>en_store := True\<rparr>)) \<le> 8388608 \<or>
   en_order (cache_operation demo_size (demo_event 0 None) ''h'' (new_engine\<lparr>en_store := True\<rparr>)) = []"
  using history_within_budget [of "new_engine\<lparr>en_store := True\<rparr>" "demo_event 0 None" demo_size "''h''"]
  by (simp add: demo_event_def demo_receipt_def demo_cache_trim new_engine_def Let_def)

theorem operations_run_once_witness:
  "set (en_active (ct_engine demo_submitting)) = {''a''} \<and> en_inflight (ct_engine demo_submitting) = 1"
  using operations_run_once [OF demo_submitting_reachable] by (simp add: demo_submitting)

theorem drained_engine_is_quiet_witness:
  "ct_executing (demo_opened\<lparr>ct_engine := snd (begin_drain (ct_engine demo_opened))\<rparr>) = []"
proof -
  let ?ct = "demo_opened\<lparr>ct_engine := snd (begin_drain (ct_engine demo_opened))\<rparr>"
  have "control_reachable demo_size ?ct"
    by (rule control_reachable.Step [OF control_reachable.New]) (unfold demo_opened_def, rule control_step.Drain, simp)
  then show ?thesis
    by (rule drained_engine_is_quiet [THEN conjunct1]) (simp_all add: demo_opened_def begin_drain_def new_engine_def drain_round_def Let_def)
qed

end
