(* ===== verification/Operations.thy ===== *)
theory Operations
  imports ExecutionProofs OperationCache
begin

text \<open>
  Properties that span the parts of the intent engine: executions with the claim manager, and
  executions with the stream of their receipts.
\<close>

section \<open>Conflicting operations\<close>

lemma same_clean_keys:
  assumes "same_resource_keys ls rs" "list_all clean_key ls" "list_all clean_key rs"
  shows "ls = rs"
proof -
  have "list_all2 (\<lambda>l r. canonical l = canonical r) ls rs" using assms(1) by (simp add: same_resource_keys_def)
  then show ?thesis using assms(2,3) by (induction rule: list_all2_induct) (auto intro: canonical_inj)
qed


text \<open>An operation that nothing disturbs: its gate is open, it needs no admission, and its claims are free.\<close>

lemma undisturbed_execution:
  assumes "xc_expected_revision c = None" "\<not> xc_dry_run c" "finish_planning c inp planned = Inr p" "pn_admission p = None" "pn_steps p \<noteq> []"
  shows "\<exists>x a. exec_reachable c r x \<and> ex_phase x = X_execute a \<and> at_plan a = p \<and> ex_claims x = Some (pn_resources p) \<and> ex_completed x = []"
proof -
  let ?x1 = "start_pass c 5 False None inp planned (new_execution r)"
  let ?n = "pi_revision inp"
  let ?x2 = "pass_gate c 5 False None p False ?n ?x1"
  let ?x3 = "acquire_claims c 5 False False (Inr False) p False ?n False ?x2"
  let ?x4 = "revalidate c 5 False ?n inp planned p False ?n False False ?x3"
  let ?x5 = "reserve_execution c 5 (Inr None) None p ?n ?x4"
  let ?a = "\<lparr>at_plan = p, at_index = 0, at_counted = [], at_revision = ?n, at_uncommitted = 0\<rparr>"
  let ?x6 = "step_top c 5 False None None ?n (pi_session inp) ?a ?x5"
  have free [simp]: "\<not> revision_conflict c n x" for n x using assms(1) by (simp add: revision_conflict_def)
  have 1: "ex_phase ?x1 = X_gate p False ?n" "ex_admitted ?x1 = None" "ex_completed ?x1 = []" "ex_pending_retries ?x1 = []"
    using assms(2,3) by (simp_all add: start_pass_def new_execution_def use_checkpoint_def Let_def adopt_connection_def)
  have 2: "ex_phase ?x2 = X_claims p False ?n False" "ex_completed ?x2 = []" "ex_pending_retries ?x2 = []"
    using assms(4) by (simp_all add: pass_gate_def 1 same_admission_def)
  have 3: "ex_phase ?x3 = X_revalidate p False ?n False False" "ex_completed ?x3 = []" "ex_pending_retries ?x3 = []"
      "ex_claims ?x3 = Some (pn_resources p)"
    using 2 by (simp_all add: acquire_claims_def)
  have 4: "?x4 = begin_execution 5 p ?n ?x3" by (simp add: revalidate_def Let_def)
  have 5: "ex_phase ?x5 = X_step ?a" "ex_completed ?x5 = []" "ex_pending_retries ?x5 = []" "ex_claims ?x5 = Some (pn_resources p)"
    unfolding 4 using 3 by (simp_all add: reserve_execution_def begin_execution_def Let_def)
  have 6: "ex_phase ?x6 = X_execute (if st_response_barrier (hd (pn_steps p)) \<noteq> barrier_wire \<and> st_response_barrier (hd (pn_steps p)) \<noteq> barrier_wire_then_committed
        then (flushed ?a)\<lparr>at_revision := ?n\<rparr> else ?a)" "ex_completed ?x6 = []" "ex_claims ?x6 = Some (pn_resources p)"
    using 5 assms(5) by (simp_all add: step_top_def current_step_def flush_error_def hd_conv_nth Let_def)
  have "exec_reachable c r (new_execution r)"
    using exec_reachable.Enter [of c r 0 False None] by (simp add: enter_execution_def)
  then have "exec_reachable c r ?x1"
    by (rule exec_reachable.Move) (intro exec_step.Start, simp add: new_execution_def)
  then have "exec_reachable c r ?x2" by (rule exec_reachable.Move) (intro exec_step.Gate 1)
  then have "exec_reachable c r ?x3" by (rule exec_reachable.Move) (intro exec_step.Acquire 2)
  then have "exec_reachable c r ?x4" by (rule exec_reachable.Move) (intro exec_step.Revalidate 3)
  then have "exec_reachable c r ?x5" by (rule exec_reachable.Move) (intro exec_step.Reserve, simp add: 4)
  then have "exec_reachable c r ?x6" by (rule exec_reachable.Move) (intro exec_step.Top 5)
  then show ?thesis using 6 by (intro exI [of _ ?x6]) (auto simp: flushed_def)
qed

section \<open>A success that is taken back\<close>

text \<open>When the final receipt of a successful write cannot be saved, the operation ends as indeterminate. The
  success has been published before, though, and an \<open>Await\<close> that reads it returns it.\<close>

theorem unsaved_success_is_returned:
  assumes "exec_reachable c r x" "ex_phase x = X_end a Pass_finished" "flush_error flush a = None" "pn_effect (at_plan a) \<noteq> Effect_read"
    and "success = (ex_receipt x)\<lparr>rc_status := Status_succeeded, rc_phase := Phase_completed, rc_error := [], rc_completed_at := Some now\<rparr>"
    and "saves_update success e" "stream_run hs (en_stream e)" "(j, b) \<in> set (es_subscribers (en_stream e))" "sb_queue b = []"
  shows "rc_status (ex_receipt (end_pass c now drain flush (Some err) a Pass_finished x)) = Status_indeterminate \<and>
    snd (update_operation size_of drained (Some text) success e) = Some text \<and>
    (\<exists>b'. (j, b') \<in> set (es_subscribers (en_stream (fst (update_operation size_of drained (Some text) success e)))) \<and>
      await_loop (rc_id success) look current (sb_queue b') = Some success)"
proof -
  have "rc_plan_effect (ex_receipt x) \<noteq> Some Effect_read"
    using effect_inv_reachable [OF assms(1)] assms(2,4) by (simp add: effect_inv_def)
  then have "rc_status (ex_receipt (end_pass c now drain flush (Some err) a Pass_finished x)) = Status_indeterminate"
    using assms(3) by (simp add: end_pass_def with_failure_def Let_def)
  moreover have "0 < sb_capacity b"
    using stream_inv_run [OF assms(7)] assms(8) by (auto simp: stream_inv_def subscriber_ok_def)
  then have "(j, b\<lparr>sb_queue := [\<lparr>dv_sequence = es_sequence (en_stream e) + 1, dv_gap = False, dv_receipt = success\<rparr>]\<rparr>)
      \<in> set (es_subscribers (en_stream (fst (update_operation size_of drained (Some text) success e))))"
    using assms(8,9) by (force simp: update_operation_def publish_operation_def publish_receipt_def deliver_def Let_def)
  moreover have "receipt_terminal success" using assms(5) by (simp add: receipt_terminal_def)
  ultimately show ?thesis
    using assms(6) by (force simp: update_operation_def await_receive_def Let_def)
qed


section \<open>Witnesses\<close>

definition demo_claiming :: "string \<Rightarrow> plan" where
  "demo_claiming k = demo_actions\<lparr>pn_resources := [demo_key k]\<rparr>"

lemma demo_claiming_planned:
  assumes "norm_str k = k" "k \<noteq> []"
  shows "\<exists>p. finish_planning demo_config demo_input (Inr (demo_claiming k)) = Inr p \<and> pn_admission p = None \<and> pn_steps p \<noteq> [] \<and>
    pn_resources p = [demo_key k]"
proof -
  have norms: "norm_str ''a'' = ''a''" "norm_str ''account'' = ''account''" "norm_str ''march'' = ''march''" "norm_str ''army'' = ''army''"
    by (code_simp, code_simp, code_simp, code_simp)
  have "legacy_claims_to_resources g [] = []" for g
    by (simp add: legacy_claims_to_resources_def normalize_claims_def normalize_resource_keys_def Let_def)
  then have resources: "derive_plan_resources g [demo_key k] [] = [demo_key k]" for g
    using assms norms by (simp add: derive_plan_resources_def normalize_resource_keys_def normalize_key_def demo_key_def Let_def)
  have same: "normalize_plan d n (demo_claiming k) = (normalize_plan d n demo_actions)\<lparr>pn_resources := [demo_key k]\<rparr>" for d n
    by (simp add: normalize_plan_def demo_claiming_def demo_actions_def demo_plan_def Let_def)
  show ?thesis
    using demo_normal
    by (simp add: finish_planning_def finalize_plan_def demo_input_def same resources Let_def) (simp add: demo_config_def)
qed


theorem unsaved_success_is_returned_witness:
  "rc_status (ex_receipt (end_pass demo_config 9 False None (Some (plain_error ''disk'')) (demo_attempt 2 (map demo_step_key [0..<2]) 0) Pass_finished demo_full))
     = Status_indeterminate"
proof -
  let ?success = "(ex_receipt demo_full)\<lparr>rc_status := Status_succeeded, rc_phase := Phase_completed, rc_error := [], rc_completed_at := Some 9\<rparr>"
  let ?e = "new_engine\<lparr>en_store := True, en_durable := [rc_id (ex_receipt demo_full)], en_stream := subscribe 1 4 empty_stream\<rparr>"
  have "stream_run ([] @ []) (subscribe 1 4 empty_stream)"
    by (rule stream_run.Step [OF stream_run.Empty], rule stream_step.Subscribe) (simp add: empty_stream_def)
  moreover have "saves_update ?success ?e"
    by (simp add: saves_update_def durable_receipt_checkpoint_def)
  ultimately show ?thesis
    by (intro unsaved_success_is_returned [OF demo_full _ _ refl, of None 9 ?e "[]" 1 "\<lparr>sb_capacity = 4, sb_queue = [], sb_taken = [], sb_since = 0\<rparr>", THEN conjunct1])
      (simp_all add: subscribe_def empty_stream_def demo_attempt_def demo_planned flush_error_def)
qed

end
