(* ===== verification/CoinGate.thy ===== *)
theory CoinGate
  imports Complex_Main Plans "HOL-Library.AList"
begin

text \<open>
  The gate through which every command that costs coins passes right before it is sent:
  \<open>coinDispatchGate\<close> and \<open>resolveCoinCost\<close> of \<^verbatim>\<open>src/Server/App/CoinGate.go\<close>.

  The gate keeps a debit for each command it has let through until a snapshot of the balance is known to
  include that command, and lets a command through only if the balance covers it, the debits pending
  and the coins to be kept back. The formulas that compute the price of a command from its payload
  and the game data are an argument, and so is the digest that names a command without a response
  token. A balance is a \<open>float64\<close>; finite values are rationals.
\<close>

section \<open>Costs\<close>

datatype float64 = Finite rat | Infinite bool | Not_a_number

definition max_int64 :: int where "max_int64 = 9223372036854775807"

text \<open>\<open>x < 0 || IsNaN(x) || IsInf(x) || x >= Exp2(63)\<close>, and \<open>int64(math.Floor(x))\<close> of the others.\<close>

definition malformed_balance :: "float64 \<Rightarrow> bool" where
  "malformed_balance x = (case x of Finite q \<Rightarrow> q < 0 \<or> 2 ^ 63 \<le> q | _ \<Rightarrow> True)"

definition balance_coins :: "float64 \<Rightarrow> int" where
  "balance_coins x = (case x of Finite q \<Rightarrow> \<lfloor>q\<rfloor> | _ \<Rightarrow> 0)"

record resolved_coin_cost =
  rc_amount :: int
  rc_reserve :: int
  rc_source :: string
  rc_upper_bound :: bool
  rc_additive :: bool

datatype coin_error =
    Cost_unavailable string string
  | Declared_cost_malformed
  | Combined_cost_overflowed
  | Coin_resource_unavailable string
  | Balance_missing
  | Balance_malformed
  | Snapshot_predates_gate
  | Repeated_changed_cost int int
  | Repeated_changed_reserve int int
  | Pending_debit_overflowed
  | Coins_unavailable (cu_required: int) (cu_reserve: int) (cu_observed: int) (cu_pending: int) (cu_source: string)

definition no_cost :: resolved_coin_cost where
  "no_cost = \<lparr>rc_amount = 0, rc_reserve = 0, rc_source = [], rc_upper_bound = False, rc_additive = False\<rparr>"

definition coin_opcodes :: "string list" where
  "coin_opcodes = [''bup'', ''hru'', ''cds'', ''cra'', ''csm'', ''crm'', ''ere'', ''eqe'', ''bge'', ''kut'', ''sbp'']"

definition declared_cost :: "coin_cost option \<Rightarrow> coin_error + resolved_coin_cost" where
  "declared_cost c =
     (case c of
        None \<Rightarrow> Inr no_cost
      | Some c \<Rightarrow>
          if cc_amount c < 0 \<or> cc_reserve c < 0 \<or> trim_space (cc_source c) = [] then Inl Declared_cost_malformed
          else Inr \<lparr>rc_amount = cc_amount c, rc_reserve = cc_reserve c, rc_source = trim_space (cc_source c),
                 rc_upper_bound = cc_upper_bound c, rc_additive = cc_additive c\<rparr>)"

definition merge_costs :: "resolved_coin_cost \<Rightarrow> resolved_coin_cost \<Rightarrow> coin_error + resolved_coin_cost" where
  "merge_costs declared computed =
     (if rc_additive declared \<and> max_int64 - rc_amount computed < rc_amount declared then Inl Combined_cost_overflowed
      else
        let amount = (if rc_additive declared then rc_amount computed + rc_amount declared
                      else if rc_amount computed < rc_amount declared then rc_amount declared else rc_amount computed);
            reserve = (if rc_reserve computed < rc_reserve declared then rc_reserve declared else rc_reserve computed);
            merged = computed\<lparr>rc_amount := amount, rc_reserve := reserve\<rparr>
        in Inr (if rc_source declared = [] then merged
                else merged\<lparr>rc_source := (if rc_source computed = [] then rc_source declared
                                          else rc_source computed @ ''; '' @ rc_source declared),
                       rc_upper_bound := rc_upper_bound computed \<or> rc_upper_bound declared\<rparr>))"

text \<open>The cost of a step, and whether the step is one the gate looks at.\<close>

definition resolve_coin_cost ::
    "(string \<Rightarrow> string \<Rightarrow> string + resolved_coin_cost) \<Rightarrow> step \<Rightarrow> coin_error + resolved_coin_cost \<times> bool" where
  "resolve_coin_cost formula s =
     (case declared_cost (st_coin_cost s) of
        Inl e \<Rightarrow> Inl e
      | Inr declared \<Rightarrow>
          let opcode = norm_str (st_opcode s);
              covered = opcode \<in> set coin_opcodes
          in case (if covered then formula opcode (st_payload s) else Inr no_cost) of
               Inl e \<Rightarrow> Inl (Cost_unavailable opcode e)
             | Inr computed \<Rightarrow>
                 (case merge_costs declared computed of
                    Inl e \<Rightarrow> Inl e
                  | Inr cost \<Rightarrow> Inr (cost, covered \<or> rc_source declared \<noteq> [])))"

section \<open>The gate\<close>

record resource_observation =
  ro_observed_at :: gotime
  ro_connection_generation :: nat

record coin_debit =
  pd_amount :: int
  pd_reserve :: int
  pd_observed_balance :: int
  pd_observed_at :: gotime
  pd_connection_generation :: nat
  pd_reserved_at :: gotime
  pd_completed_at :: gotime
  pd_indeterminate_at :: gotime

record coin_gate =
  cg_pending :: "(string \<times> coin_debit) list"
  cg_watermark :: resource_observation
  cg_watermark_balance :: int

text \<open>What the gate reads of a planning context.\<close>

record coin_view =
  cv_resource_id :: "string + int"
  cv_observations :: "int \<Rightarrow> resource_observation option"
  cv_resources :: "int \<Rightarrow> float64"
  cv_session_generation :: nat

definition new_coin_gate :: coin_gate where
  "new_coin_gate = \<lparr>cg_pending = [], cg_watermark = \<lparr>ro_observed_at = time_zero, ro_connection_generation = 0\<rparr>,
     cg_watermark_balance = 0\<rparr>"

definition coin_dispatch_key :: "(string \<Rightarrow> string) \<Rightarrow> metadata \<Rightarrow> step \<Rightarrow> string" where
  "coin_dispatch_key digest md s =
     (let token = trim_space (md_response_token md)
      in if token \<noteq> [] then token
         else trim_space (md_operation_id md) @ ''/'' @ digest (to_lower (st_opcode s) @ [CHR 0x00] @ st_payload s))"

text \<open>Whether a snapshot is older than one the gate has used, and the gate's use of the others.\<close>

definition snapshot_predates :: "coin_gate \<Rightarrow> resource_observation \<Rightarrow> int \<Rightarrow> bool" where
  "snapshot_predates g ob coins \<longleftrightarrow>
     (let wm = cg_watermark g in
      ro_connection_generation ob < ro_connection_generation wm \<or>
      ro_connection_generation wm = ro_connection_generation ob \<and> ro_observed_at ob < ro_observed_at wm \<or>
      ro_connection_generation wm = ro_connection_generation ob \<and> ro_observed_at ob = ro_observed_at wm \<and>
        \<not> time_is_zero (ro_observed_at wm) \<and> coins \<noteq> cg_watermark_balance g)"

definition advance_watermark :: "resource_observation \<Rightarrow> int \<Rightarrow> coin_gate \<Rightarrow> coin_gate" where
  "advance_watermark ob coins g =
     (if ro_connection_generation (cg_watermark g) < ro_connection_generation ob \<or>
         ro_observed_at (cg_watermark g) < ro_observed_at ob
      then g\<lparr>cg_watermark := ob, cg_watermark_balance := coins\<rparr> else g)"

text \<open>\<open>reconcile\<close>: which debits the snapshot is known to include.\<close>

definition debit_settled :: "resource_observation \<Rightarrow> coin_debit \<Rightarrow> bool" where
  "debit_settled ob d \<longleftrightarrow>
     (if ro_connection_generation ob \<noteq> pd_connection_generation d
      then 0 < ro_connection_generation ob \<and> pd_reserved_at d < ro_observed_at ob
      else
        let after = (if time_is_zero (pd_completed_at d) then pd_indeterminate_at d else pd_completed_at d)
        in \<not> time_is_zero after \<and> after < ro_observed_at ob)"

definition reconcile :: "resource_observation \<Rightarrow> coin_gate \<Rightarrow> coin_gate" where
  "reconcile ob g = g\<lparr>cg_pending := filter (\<lambda>(_, d). \<not> debit_settled ob d) (cg_pending g)\<rparr>"

fun sum_pending :: "string \<Rightarrow> (string \<times> coin_debit) list \<Rightarrow> int \<Rightarrow> int option" where
  "sum_pending key [] pending = Some pending"
| "sum_pending key ((candidate, d) # ds) pending =
     (if candidate \<noteq> key
      then if pd_amount d < 0 \<or> max_int64 - pd_amount d < pending then None else sum_pending key ds (pending + pd_amount d)
      else sum_pending key ds pending)"

text \<open>The part of \<open>Validate\<close> under the lock.\<close>

definition repeated_changed :: "coin_gate \<Rightarrow> string \<Rightarrow> resolved_coin_cost \<Rightarrow> coin_error option" where
  "repeated_changed g key cost =
     (case map_of (cg_pending g) key of
        None \<Rightarrow> None
      | Some d \<Rightarrow>
          if pd_amount d \<noteq> rc_amount cost then Some (Repeated_changed_cost (pd_amount d) (rc_amount cost))
          else if pd_reserve d \<noteq> rc_reserve cost then Some (Repeated_changed_reserve (pd_reserve d) (rc_reserve cost))
          else None)"

definition reserve_coins ::
    "gotime \<Rightarrow> string \<Rightarrow> resolved_coin_cost \<Rightarrow> resource_observation \<Rightarrow> int \<Rightarrow> coin_gate \<Rightarrow> coin_error option \<times> coin_gate" where
  "reserve_coins now key cost ob coins g =
     (if snapshot_predates g ob coins then (Some Snapshot_predates_gate, g)
      else
        let g = reconcile ob (advance_watermark ob coins g)
        in case repeated_changed g key cost of
             Some e \<Rightarrow> (Some e, g)
           | None \<Rightarrow>
               (case sum_pending key (cg_pending g) 0 of
                  None \<Rightarrow> (Some Pending_debit_overflowed, g)
                | Some pending \<Rightarrow>
                    if max_int64 - rc_reserve cost < rc_amount cost \<or>
                       max_int64 - rc_amount cost - rc_reserve cost < pending \<or>
                       coins < pending + rc_amount cost + rc_reserve cost
                    then (Some (Coins_unavailable (rc_amount cost) (rc_reserve cost) coins pending (rc_source cost)), g)
                    else if map_of (cg_pending g) key \<noteq> None then (None, g)
                    else (None, g\<lparr>cg_pending := AList.update key
                           \<lparr>pd_amount = rc_amount cost, pd_reserve = rc_reserve cost, pd_observed_balance = coins,
                            pd_observed_at = ro_observed_at ob, pd_connection_generation = ro_connection_generation ob,
                            pd_reserved_at = now, pd_completed_at = time_zero, pd_indeterminate_at = time_zero\<rparr>
                           (cg_pending g)\<rparr>)))"

definition validate_coins ::
    "(string \<Rightarrow> string \<Rightarrow> string + resolved_coin_cost) \<Rightarrow> (string \<Rightarrow> string) \<Rightarrow> gotime \<Rightarrow> metadata \<Rightarrow> coin_view \<Rightarrow> step \<Rightarrow>
     coin_gate \<Rightarrow> coin_error option \<times> coin_gate" where
  "validate_coins formula digest now md v s g =
     (case resolve_coin_cost formula s of
        Inl e \<Rightarrow> (Some e, g)
      | Inr (cost, covered) \<Rightarrow>
          if \<not> covered \<or> rc_amount cost \<le> 0 then (None, g)
          else
            case cv_resource_id v of
              Inl e \<Rightarrow> (Some (Coin_resource_unavailable e), g)
            | Inr rid \<Rightarrow>
                (case cv_observations v rid of
                   None \<Rightarrow> (Some Balance_missing, g)
                 | Some ob \<Rightarrow>
                     if cv_session_generation v = 0 \<or> time_is_zero (ro_observed_at ob) \<or>
                        ro_connection_generation ob \<noteq> cv_session_generation v
                     then (Some Balance_missing, g)
                     else if malformed_balance (cv_resources v rid) then (Some Balance_malformed, g)
                     else reserve_coins now (coin_dispatch_key digest md s) cost ob (balance_coins (cv_resources v rid)) g))"

definition definitive_failure :: "string \<Rightarrow> coin_gate \<Rightarrow> coin_gate" where
  "definitive_failure key g = g\<lparr>cg_pending := AList.delete key (cg_pending g)\<rparr>"

definition indeterminate_dispatch :: "gotime \<Rightarrow> string \<Rightarrow> coin_gate \<Rightarrow> coin_gate" where
  "indeterminate_dispatch now key g =
     (case map_of (cg_pending g) key of
        None \<Rightarrow> g
      | Some d \<Rightarrow> g\<lparr>cg_pending := AList.update key (d\<lparr>pd_indeterminate_at := now\<rparr>) (cg_pending g)\<rparr>)"

text \<open>\<open>Completed\<close>: only a snapshot with the very time of the response is known to include the command. The
  result tells whether the balance has to be refreshed.\<close>

definition completed_dispatch ::
    "gotime \<Rightarrow> string \<Rightarrow> coin_view \<Rightarrow> bool \<Rightarrow> gotime \<Rightarrow> coin_gate \<Rightarrow> bool \<times> coin_gate" where
  "completed_dispatch now key v reduced received_at g =
     (case map_of (cg_pending g) key of
        None \<Rightarrow> (False, g)
      | Some d \<Rightarrow>
          let g = g\<lparr>cg_pending := AList.update key (d\<lparr>pd_completed_at := now\<rparr>) (cg_pending g)\<rparr>
          in case cv_resource_id v of
               Inl _ \<Rightarrow> (True, g)
             | Inr rid \<Rightarrow>
                 (case cv_observations v rid of
                    None \<Rightarrow> (True, g)
                  | Some ob \<Rightarrow>
                      if reduced \<and> \<not> time_is_zero received_at \<and>
                         ro_connection_generation ob = pd_connection_generation d \<and> ro_observed_at ob = received_at
                      then (False,
                        (let balance = cv_resources v rid;
                             g = (if \<not> malformed_balance balance \<and>
                                     (ro_connection_generation (cg_watermark g) < ro_connection_generation ob \<or>
                                      \<not> ro_observed_at ob < ro_observed_at (cg_watermark g))
                                  then g\<lparr>cg_watermark := ob, cg_watermark_balance := balance_coins balance\<rparr> else g)
                         in g\<lparr>cg_pending := AList.delete key (cg_pending g)\<rparr>))
                      else (True, g)))"

section \<open>What the gate does to its debits\<close>

definition pending_total :: "(string \<times> coin_debit) list \<Rightarrow> int" where
  "pending_total p = sum_list (map (\<lambda>(_, d). pd_amount d) p)"

lemma sum_pending_total:
  "sum_pending key p acc = Some n \<Longrightarrow> n = acc + pending_total (filter (\<lambda>(k, _). k \<noteq> key) p)"
proof (induction key p acc rule: sum_pending.induct)
  case (2 key candidate d ds acc)
  then show ?case by (cases "candidate = key") (auto simp: pending_total_def split: if_splits)
qed (simp add: pending_total_def)

lemma sum_pending_bounds:
  "sum_pending key p acc = Some n \<Longrightarrow> acc \<le> max_int64 \<Longrightarrow> acc \<le> n \<and> n \<le> max_int64"
  by (induction p arbitrary: acc) (fastforce split: if_splits)+

lemma pending_total_split:
  assumes "distinct (map fst p)" and "map_of p key = Some d"
  shows "pending_total p = pending_total (filter (\<lambda>(k, _). k \<noteq> key) p) + pd_amount d"
  using assms
proof (induction p)
  case (Cons a p)
  obtain k e where a: "a = (k, e)" by (cases a)
  show ?case
  proof (cases "k = key")
    case True
    then have "key \<notin> fst ` set p" using Cons.prems a by auto
    then have "filter (\<lambda>(k, _). k \<noteq> key) p = p" by (force simp: filter_id_conv)
    then show ?thesis using Cons.prems a True by (simp add: pending_total_def)
  next
    case False
    then show ?thesis using Cons a by (auto simp: pending_total_def)
  qed
qed simp

lemma pending_total_sum:
  "distinct (map fst p) \<Longrightarrow> pending_total p = (\<Sum>k\<in>fst ` set p. pd_amount (the (map_of p k)))"
proof (induction p)
  case (Cons a p)
  obtain k e where a: "a = (k, e)" by (cases a)
  have "(\<Sum>j\<in>fst ` set p. pd_amount (the (map_of (a # p) j))) = (\<Sum>j\<in>fst ` set p. pd_amount (the (map_of p j)))"
    using Cons.prems a by (intro sum.cong) auto
  then show ?case using Cons a by (simp add: pending_total_def)
qed (simp add: pending_total_def)

text \<open>The outcomes of a validation.\<close>

definition settled_gate :: "resource_observation \<Rightarrow> int \<Rightarrow> coin_gate \<Rightarrow> coin_gate" where
  "settled_gate ob coins g = reconcile ob (advance_watermark ob coins g)"

definition debit_of :: "gotime \<Rightarrow> resolved_coin_cost \<Rightarrow> resource_observation \<Rightarrow> int \<Rightarrow> coin_debit" where
  "debit_of now cost ob coins = \<lparr>pd_amount = rc_amount cost, pd_reserve = rc_reserve cost, pd_observed_balance = coins,
     pd_observed_at = ro_observed_at ob, pd_connection_generation = ro_connection_generation ob,
     pd_reserved_at = now, pd_completed_at = time_zero, pd_indeterminate_at = time_zero\<rparr>"

lemma reserve_coins_cases:
  assumes "reserve_coins now key cost ob coins g = (r, g')"
  obtains (stale) "r \<noteq> None" "g' = g"
  | (refused) "r \<noteq> None" "\<not> snapshot_predates g ob coins" "g' = settled_gate ob coins g"
  | (repeated) d n where "r = None" "\<not> snapshot_predates g ob coins" "g' = settled_gate ob coins g"
      "map_of (cg_pending g') key = Some d" "pd_amount d = rc_amount cost"
      "sum_pending key (cg_pending g') 0 = Some n" "n + rc_amount cost + rc_reserve cost \<le> coins"
  | (reserved) n where "r = None" "\<not> snapshot_predates g ob coins" "map_of (cg_pending (settled_gate ob coins g)) key = None"
      "g' = settled_gate ob coins g\<lparr>cg_pending := AList.update key (debit_of now cost ob coins) (cg_pending (settled_gate ob coins g))\<rparr>"
      "sum_pending key (cg_pending (settled_gate ob coins g)) 0 = Some n" "n + rc_amount cost + rc_reserve cost \<le> coins"
  using assms unfolding reserve_coins_def Let_def settled_gate_def [symmetric] debit_of_def [symmetric]
  by (fastforce simp: repeated_changed_def split: if_splits option.splits)

lemma validate_coins_cases:
  assumes "validate_coins formula digest now md v s g = (r, g')"
  obtains (untouched) "g' = g"
  | (reserving) cost ob rid where "resolve_coin_cost formula s = Inr (cost, True)" "0 < rc_amount cost"
      "cv_resource_id v = Inr rid" "cv_observations v rid = Some ob" "0 < ro_connection_generation ob"
      "\<not> malformed_balance (cv_resources v rid)"
      "reserve_coins now (coin_dispatch_key digest md s) cost ob (balance_coins (cv_resources v rid)) g = (r, g')"
  using assms unfolding validate_coins_def
  by (auto split: sum.splits if_splits option.splits prod.splits)

section \<open>What a validation decides\<close>

lemma sum_pending_SomeI:
  assumes "\<And>k d. (k, d) \<in> set p \<Longrightarrow> 0 \<le> pd_amount d"
    and "acc + pending_total (filter (\<lambda>(k, _). k \<noteq> key) p) \<le> max_int64"
  shows "sum_pending key p acc = Some (acc + pending_total (filter (\<lambda>(k, _). k \<noteq> key) p))"
  using assms
proof (induction key p acc rule: sum_pending.induct)
  case (2 key candidate d ds acc)
  have "0 \<le> pending_total (filter (\<lambda>(k, _). k \<noteq> key) ds)"
    unfolding pending_total_def by (rule sum_list_nonneg) (use "2.prems"(1) in auto)
  moreover have "0 \<le> pd_amount d" using "2.prems"(1) [of candidate d] by simp
  ultimately show ?case using 2 by (cases "candidate = key") (auto simp: pending_total_def add.assoc)
qed (simp add: pending_total_def)

definition others_total :: "string \<Rightarrow> coin_gate \<Rightarrow> int" where
  "others_total key g = pending_total (filter (\<lambda>(k, _). k \<noteq> key) (cg_pending g))"

lemma repeated_changed_iff:
  "repeated_changed g key cost = None \<longleftrightarrow>
   (\<forall>d. map_of (cg_pending g) key = Some d \<longrightarrow> pd_amount d = rc_amount cost \<and> pd_reserve d = rc_reserve cost)"
  by (simp add: repeated_changed_def split: option.split)

lemma settled_gate_pending_set: "set (cg_pending (settled_gate ob coins g)) \<subseteq> set (cg_pending g)"
  by (auto simp: settled_gate_def reconcile_def advance_watermark_def)

text \<open>A command is let through exactly when the snapshot is no older than the last one used, a repeated
  command asks for what it asked for before, and the coins cover the other debits still pending, the price and
  the reserve. The checks against overflow refuse nothing else.\<close>

theorem dispatch_accepted_iff:
  assumes "\<And>k d. (k, d) \<in> set (cg_pending g) \<Longrightarrow> 0 \<le> pd_amount d"
    and "0 \<le> rc_amount cost" and "0 \<le> rc_reserve cost" and "coins \<le> max_int64"
  shows "fst (reserve_coins now key cost ob coins g) = None \<longleftrightarrow>
    \<not> snapshot_predates g ob coins \<and> repeated_changed (settled_gate ob coins g) key cost = None \<and>
    others_total key (settled_gate ob coins g) + rc_amount cost + rc_reserve cost \<le> coins"
proof -
  let ?g = "settled_gate ob coins g" and ?n = "others_total key (settled_gate ob coins g)"
  have pos: "0 \<le> pd_amount d" if "(k, d) \<in> set (cg_pending ?g)" for k d
    using assms(1) that settled_gate_pending_set by blast
  have small: "sum_pending key (cg_pending ?g) 0 = Some ?n" if "?n \<le> max_int64"
    using sum_pending_SomeI [of "cg_pending ?g" 0 key] pos that by (simp add: others_total_def)
  have n: "m = ?n" if "sum_pending key (cg_pending ?g) 0 = Some m" for m
    using sum_pending_total [OF that] by (simp add: others_total_def)
  have le: "?n \<le> max_int64" if "sum_pending key (cg_pending ?g) 0 = Some m" for m
    using sum_pending_bounds [OF that] n [OF that] by (simp add: max_int64_def)
  have "0 \<le> ?n"
    unfolding others_total_def pending_total_def by (rule sum_list_nonneg) (use pos in auto)
  then show ?thesis
    using assms(2-4) small n le
    unfolding reserve_coins_def Let_def settled_gate_def [symmetric]
    by (cases "sum_pending key (cg_pending ?g) 0") (auto split: option.split)
qed

definition demo_price :: "int \<Rightarrow> resolved_coin_cost" where
  "demo_price n = \<lparr>rc_amount = n, rc_reserve = 0, rc_source = ''tax'', rc_upper_bound = False, rc_additive = False\<rparr>"

definition demo_coin_gate :: coin_gate where
  "demo_coin_gate = \<lparr>cg_pending = [(''u'', \<lparr>pd_amount = 5, pd_reserve = 0, pd_observed_balance = 10, pd_observed_at = 3,
      pd_connection_generation = 7, pd_reserved_at = 4, pd_completed_at = 0, pd_indeterminate_at = 0\<rparr>)],
     cg_watermark = \<lparr>ro_observed_at = 3, ro_connection_generation = 7\<rparr>, cg_watermark_balance = 10\<rparr>"

theorem dispatch_accepted_iff_witness:
  "fst (reserve_coins 6 ''t'' (demo_price 5) \<lparr>ro_observed_at = 5, ro_connection_generation = 7\<rparr> 10 demo_coin_gate) = None \<and>
   fst (reserve_coins 6 ''t'' (demo_price 6) \<lparr>ro_observed_at = 5, ro_connection_generation = 7\<rparr> 10 demo_coin_gate) \<noteq> None"
proof -
  let ?ob = "\<lparr>ro_observed_at = 5, ro_connection_generation = 7\<rparr>"
  have iff: "fst (reserve_coins 6 ''t'' (demo_price n) ?ob 10 demo_coin_gate) = None \<longleftrightarrow>
      \<not> snapshot_predates demo_coin_gate ?ob 10 \<and> repeated_changed (settled_gate ?ob 10 demo_coin_gate) ''t'' (demo_price n) = None \<and>
      others_total ''t'' (settled_gate ?ob 10 demo_coin_gate) + n \<le> 10" if "0 \<le> n" for n
    using dispatch_accepted_iff [of demo_coin_gate "demo_price n" 10 6 "''t''" ?ob] that
    by (simp add: demo_price_def demo_coin_gate_def max_int64_def)
  have "\<not> snapshot_predates demo_coin_gate ?ob 10" "others_total ''t'' (settled_gate ?ob 10 demo_coin_gate) = 5"
    "repeated_changed (settled_gate ?ob 10 demo_coin_gate) ''t'' (demo_price n) = None" for n
    by (simp_all add: snapshot_predates_def demo_coin_gate_def others_total_def settled_gate_def reconcile_def advance_watermark_def
        debit_settled_def pending_total_def repeated_changed_def time_is_zero_def)
  with iff [of 5] iff [of 6] show ?thesis by simp
qed

text \<open>A merged cost is at least what the step declares and what the formula computes.\<close>

lemma merged_cost_bounds:
  assumes "merge_costs declared computed = Inr cost" and "0 \<le> rc_amount declared" and "0 \<le> rc_amount computed"
  shows "rc_amount declared \<le> rc_amount cost \<and> rc_amount computed \<le> rc_amount cost \<and>
    rc_reserve declared \<le> rc_reserve cost \<and> rc_reserve computed \<le> rc_reserve cost"
  using assms by (auto simp: merge_costs_def Let_def split: if_splits)

end
