(* ===== verification/CoinWorld.thy ===== *)
theory CoinWorld
  imports CoinGate
begin

text \<open>
  The coin gate together with the game server: the coins on the server always cover the commands under way.
  The gate is that of \<^verbatim>\<open>src/Server/App/CoinGate.go\<close>, called as \<open>executeStep\<close> of \<^verbatim>\<open>src/Server/Intent/Engine.go\<close>
  calls it; the server is the environment.
\<close>

section \<open>The gate and the server\<close>

text \<open>
  The world around a gate: the coins the server has on the account, the connection, the snapshots of the balance
  that have arrived, and the commands under way, which the server may still carry out. A snapshot remembers
  what was spent after it was taken. The clock advances with every step.

  Each step of the gate is one of its methods, called with any view that shows a snapshot that has arrived. The
  server carries out a command for at most the price the gate was given, and only over the connection
  it was validated for. \<open>late\<close> says whether it may do so after the gate was told that the outcome is uncertain;
  \<open>floor_coins\<close> are the coins every step keeps back at least.
\<close>

record coin_snapshot =
  sn_observation :: resource_observation
  sn_balance :: rat
  sn_spent :: "(string \<times> rat) list"

record coin_world =
  cw_gate :: coin_gate
  cw_now :: gotime
  cw_balance :: rat
  cw_connection :: nat
  cw_snapshots :: "coin_snapshot list"
  cw_under_way :: "(string \<times> int \<times> nat) list"
  cw_answered :: "(string \<times> gotime) list"
  cw_keys :: "string list"

definition new_coin_world :: "rat \<Rightarrow> coin_world" where
  "new_coin_world q = \<lparr>cw_gate = new_coin_gate, cw_now = 1, cw_balance = q, cw_connection = 0, cw_snapshots = [],
     cw_under_way = [], cw_answered = [], cw_keys = []\<rparr>"

definition view_shows :: "coin_snapshot list \<Rightarrow> coin_view \<Rightarrow> bool" where
  "view_shows ss v \<longleftrightarrow>
     (case cv_resource_id v of
        Inl _ \<Rightarrow> True
      | Inr rid \<Rightarrow>
          (case cv_observations v rid of
             None \<Rightarrow> True
           | Some ob \<Rightarrow> list_ex (\<lambda>s. sn_observation s = ob \<and> cv_resources v rid = Finite (sn_balance s)) ss))"

definition send_if_reserved :: "string \<Rightarrow> coin_error option \<times> coin_gate \<Rightarrow> coin_world \<Rightarrow> coin_world" where
  "send_if_reserved key r w =
     (let w = w\<lparr>cw_gate := snd r\<rparr>
      in case (fst r, map_of (cg_pending (snd r)) key) of
           (None, Some d) \<Rightarrow> w\<lparr>cw_under_way := AList.update key (pd_amount d, pd_connection_generation d) (cw_under_way w),
                              cw_keys := key # cw_keys w\<rparr>
         | _ \<Rightarrow> w)"

definition spend :: "string \<Rightarrow> rat \<Rightarrow> coin_world \<Rightarrow> coin_world" where
  "spend key c w = w\<lparr>cw_balance := cw_balance w - c, cw_under_way := AList.delete key (cw_under_way w),
     cw_snapshots := map (\<lambda>s. s\<lparr>sn_spent := (key, c) # sn_spent s\<rparr>) (cw_snapshots w)\<rparr>"

definition take_snapshot :: "gotime \<Rightarrow> coin_world \<Rightarrow> coin_world" where
  "take_snapshot now w = w\<lparr>cw_snapshots :=
     \<lparr>sn_observation = \<lparr>ro_observed_at = now, ro_connection_generation = cw_connection w\<rparr>, sn_balance = cw_balance w, sn_spent = []\<rparr>
       # cw_snapshots w\<rparr>"

inductive coin_step :: "bool \<Rightarrow> int \<Rightarrow> coin_world \<Rightarrow> coin_world \<Rightarrow> bool" for late floor_coins where
  Validate:
    "\<lbrakk>cw_now w < now; view_shows (cw_snapshots w) v;
      coin_dispatch_key digest md s \<notin> set (cw_keys w) \<or> coin_dispatch_key digest md s \<in> fst ` set (cw_under_way w);
      \<forall>cost. resolve_coin_cost formula s = Inr (cost, True) \<longrightarrow> floor_coins \<le> rc_reserve cost\<rbrakk> \<Longrightarrow>
     coin_step late floor_coins w
       (send_if_reserved (coin_dispatch_key digest md s) (validate_coins formula digest start md v s (cw_gate w)) (w\<lparr>cw_now := now\<rparr>))"
| Spend:
    "\<lbrakk>cw_now w < now; map_of (cw_under_way w) key = Some (amount, cw_connection w); 0 \<le> c; c \<le> of_int amount\<rbrakk> \<Longrightarrow>
     coin_step late floor_coins w (spend key c (w\<lparr>cw_now := now\<rparr>))"
| Income:
    "\<lbrakk>cw_now w < now; 0 \<le> c\<rbrakk> \<Longrightarrow> coin_step late floor_coins w (w\<lparr>cw_now := now, cw_balance := cw_balance w + c\<rparr>)"
| Snapshot:
    "\<lbrakk>cw_now w < now; 0 < cw_connection w; cw_balance w < 2 ^ 63\<rbrakk> \<Longrightarrow>
     coin_step late floor_coins w (take_snapshot now (w\<lparr>cw_now := now\<rparr>))"
| Connect:
    "cw_now w < now \<Longrightarrow> coin_step late floor_coins w (w\<lparr>cw_now := now, cw_connection := Suc (cw_connection w)\<rparr>)"
| Answer:
    "\<lbrakk>cw_now w < now; key \<in> set (cw_keys w); cw_balance w < 2 ^ 63; 0 < cw_connection w\<rbrakk> \<Longrightarrow>
     coin_step late floor_coins w
       ((if fresh then take_snapshot now else id)
          (w\<lparr>cw_now := now, cw_under_way := AList.delete key (cw_under_way w), cw_answered := (key, now) # cw_answered w\<rparr>))"
| Complete:
    "\<lbrakk>cw_now w < now; view_shows (cw_snapshots w) v; (key, received_at) \<in> set (cw_answered w); key \<notin> fst ` set (cw_under_way w)\<rbrakk> \<Longrightarrow>
     coin_step late floor_coins w (w\<lparr>cw_now := now, cw_gate := snd (completed_dispatch now key v reduced received_at (cw_gate w))\<rparr>)"
| Fail:
    "\<lbrakk>cw_now w < now; key \<in> fst ` set (cw_under_way w) \<or> map_of (cg_pending (cw_gate w)) key = None\<rbrakk> \<Longrightarrow>
     coin_step late floor_coins w
       (w\<lparr>cw_now := now, cw_under_way := AList.delete key (cw_under_way w), cw_gate := definitive_failure key (cw_gate w)\<rparr>)"
| Uncertain:
    "cw_now w < now \<Longrightarrow>
     coin_step late floor_coins w
       (w\<lparr>cw_now := now, cw_under_way := (if late then cw_under_way w else AList.delete key (cw_under_way w)),
          cw_gate := indeterminate_dispatch now key (cw_gate w)\<rparr>)"

inductive coin_run :: "bool \<Rightarrow> int \<Rightarrow> coin_world \<Rightarrow> bool" for late floor_coins where
  Start: "0 \<le> q \<Longrightarrow> coin_run late floor_coins (new_coin_world q)"
| Step: "coin_run late floor_coins w \<Longrightarrow> coin_step late floor_coins w w' \<Longrightarrow> coin_run late floor_coins w'"

text \<open>The coins that the commands still under way on the present connection may cost.\<close>

definition committed_coins :: "coin_world \<Rightarrow> int" where
  "committed_coins w = sum_list (map (\<lambda>(_, amount, connection). if connection = cw_connection w then amount else 0) (cw_under_way w))"

abbreviation (input) sn_time :: "coin_snapshot \<Rightarrow> gotime" where "sn_time s \<equiv> ro_observed_at (sn_observation s)"
abbreviation (input) sn_generation :: "coin_snapshot \<Rightarrow> nat" where "sn_generation s \<equiv> ro_connection_generation (sn_observation s)"

section \<open>The invariant of the world\<close>

abbreviation (input) watermark_time :: "coin_gate \<Rightarrow> gotime" where "watermark_time g \<equiv> ro_observed_at (cg_watermark g)"
abbreviation (input) watermark_generation :: "coin_gate \<Rightarrow> nat" where
  "watermark_generation g \<equiv> ro_connection_generation (cg_watermark g)"

definition spent_total :: "coin_snapshot \<Rightarrow> rat" where
  "spent_total s = sum_list (map snd (sn_spent s))"

text \<open>Snapshots are ordered, and what they showed and what was spent since account for the balance.\<close>

definition newer_snapshot :: "coin_snapshot \<Rightarrow> coin_snapshot \<Rightarrow> bool" where
  "newer_snapshot s s' \<longleftrightarrow> sn_time s' < sn_time s \<and> sn_generation s' \<le> sn_generation s"

definition snapshot_ok :: "gotime \<Rightarrow> nat \<Rightarrow> rat \<Rightarrow> string set \<Rightarrow> coin_snapshot \<Rightarrow> bool" where
  "snapshot_ok now connection balance spendable s \<longleftrightarrow>
     0 < sn_time s \<and> sn_time s \<le> now \<and> 0 < sn_generation s \<and> sn_generation s \<le> connection \<and>
     0 \<le> sn_balance s \<and> sn_balance s < 2 ^ 63 \<and> sn_balance s \<le> balance + spent_total s \<and>
     distinct (map fst (sn_spent s)) \<and> fst ` set (sn_spent s) \<subseteq> spendable"

text \<open>The keys of commands that are over.\<close>

definition over :: "coin_world \<Rightarrow> string set" where
  "over w = set (cw_keys w) - fst ` set (cw_under_way w)"

definition snapshots_ok :: "coin_world \<Rightarrow> bool" where
  "snapshots_ok w \<longleftrightarrow> sorted_wrt newer_snapshot (cw_snapshots w) \<and>
     (\<forall>s\<in>set (cw_snapshots w). snapshot_ok (cw_now w) (cw_connection w) (cw_balance w) (over w) s)"

definition gate_ok :: "coin_gate \<Rightarrow> coin_snapshot list \<Rightarrow> string set \<Rightarrow> bool" where
  "gate_ok g ss keys \<longleftrightarrow> distinct (map fst (cg_pending g)) \<and>
     (\<forall>(k, d)\<in>set (cg_pending g). 0 < pd_amount d \<and> 0 < pd_connection_generation d \<and>
        pd_connection_generation d \<le> watermark_generation g \<and> k \<in> keys) \<and>
     (cg_watermark g = \<lparr>ro_observed_at = 0, ro_connection_generation = 0\<rparr> \<or>
      (\<exists>s\<in>set ss. sn_observation s = cg_watermark g \<and> cg_watermark_balance g = \<lfloor>sn_balance s\<rfloor>))"

text \<open>What was spent after a snapshot the gate may still use is pending.\<close>

definition unsettled :: "gotime \<Rightarrow> coin_debit \<Rightarrow> bool" where
  "unsettled t d \<longleftrightarrow> (pd_completed_at d = 0 \<or> t < pd_completed_at d) \<and> (pd_indeterminate_at d = 0 \<or> t < pd_indeterminate_at d)"

definition spent_ok :: "coin_gate \<Rightarrow> coin_snapshot list \<Rightarrow> bool" where
  "spent_ok g ss \<longleftrightarrow> (\<forall>s\<in>set ss. watermark_time g \<le> sn_time s \<longrightarrow>
     (\<forall>(k, c)\<in>set (sn_spent s). \<exists>d. map_of (cg_pending g) k = Some d \<and> c \<le> of_int (pd_amount d) \<and>
        pd_connection_generation d = sn_generation s \<and> unsettled (sn_time s) d))"

definition under_way_ok :: "coin_gate \<Rightarrow> nat \<Rightarrow> string set \<Rightarrow> (string \<times> int \<times> nat) list \<Rightarrow> bool" where
  "under_way_ok g connection keys u \<longleftrightarrow> distinct (map fst u) \<and>
     (\<forall>(k, a, n)\<in>set u. k \<in> keys \<and> 0 < a \<and> n \<le> connection \<and>
        (n = connection \<longrightarrow> map_of (cg_pending g) k \<noteq> None) \<and>
        (\<forall>d. map_of (cg_pending g) k = Some d \<longrightarrow> pd_amount d = a \<and> pd_connection_generation d = n \<and>
           pd_completed_at d = 0 \<and> pd_indeterminate_at d = 0))"

definition answer_ok :: "gotime \<Rightarrow> string set \<Rightarrow> coin_snapshot list \<Rightarrow> string \<Rightarrow> gotime \<Rightarrow> bool" where
  "answer_ok now done ss k r \<longleftrightarrow> k \<in> done \<and> r \<le> now \<and> (\<forall>s\<in>set ss. k \<in> fst ` set (sn_spent s) \<longrightarrow> sn_time s < r)"

definition answered_ok :: "coin_world \<Rightarrow> bool" where
  "answered_ok w \<longleftrightarrow> (\<forall>(k, r)\<in>set (cw_answered w). answer_ok (cw_now w) (over w) (cw_snapshots w) k r)"

definition coins_covered :: "int \<Rightarrow> coin_world \<Rightarrow> bool" where
  "coins_covered floor_coins w \<longleftrightarrow> 0 \<le> cw_balance w \<and>
     (0 < committed_coins w \<longrightarrow> of_int (committed_coins w + floor_coins) \<le> cw_balance w)"

definition coin_base :: "coin_world \<Rightarrow> bool" where
  "coin_base w \<longleftrightarrow> 0 < cw_now w \<and> snapshots_ok w \<and> gate_ok (cw_gate w) (cw_snapshots w) (set (cw_keys w)) \<and>
     spent_ok (cw_gate w) (cw_snapshots w) \<and>
     under_way_ok (cw_gate w) (cw_connection w) (set (cw_keys w)) (cw_under_way w) \<and> answered_ok w"

definition coin_inv :: "int \<Rightarrow> coin_world \<Rightarrow> bool" where
  "coin_inv floor_coins w \<longleftrightarrow> coin_base w \<and> coins_covered floor_coins w"

lemma sorted_newer_cases:
  assumes "sorted_wrt newer_snapshot ss" and "s \<in> set ss" and "s' \<in> set ss"
  shows "s = s' \<or> newer_snapshot s s' \<or> newer_snapshot s' s"
  using assms by (induction ss) auto

lemma unpredated_watermark:
  assumes "\<not> snapshot_predates g (sn_observation s) coins" and "sorted_wrt newer_snapshot ss" and "s \<in> set ss"
    and "gate_ok g ss keys" and "0 < sn_time s"
  shows "watermark_time g \<le> sn_time s \<and> watermark_generation g \<le> sn_generation s"
proof -
  consider "cg_watermark g = \<lparr>ro_observed_at = 0, ro_connection_generation = 0\<rparr>"
    | s0 where "s0 \<in> set ss" "sn_observation s0 = cg_watermark g"
    using assms(4) by (auto simp: gate_ok_def)
  then show ?thesis
  proof cases
    case 1 then show ?thesis using assms(5) by simp
  next
    case (2 s0)
    have "s = s0 \<or> newer_snapshot s s0 \<or> newer_snapshot s0 s"
      by (rule sorted_newer_cases [OF assms(2,3) 2(1)])
    then show ?thesis using assms(1) 2(2) by (auto simp: snapshot_predates_def newer_snapshot_def Let_def)
  qed
qed

lemma advanced_watermark:
  assumes "\<not> snapshot_predates g ob coins" and "watermark_time g \<le> ro_observed_at ob" "watermark_generation g \<le> ro_connection_generation ob"
    and "0 < ro_observed_at ob"
  shows "cg_watermark (advance_watermark ob coins g) = ob \<and> cg_watermark_balance (advance_watermark ob coins g) = coins"
  using assms by (cases "cg_watermark g"; cases ob) (auto simp: snapshot_predates_def advance_watermark_def Let_def time_is_zero_def)

lemma settled_gate_simps [simp]:
  "cg_watermark (settled_gate ob coins g) = cg_watermark (advance_watermark ob coins g)"
  "cg_watermark_balance (settled_gate ob coins g) = cg_watermark_balance (advance_watermark ob coins g)"
  "cg_pending (settled_gate ob coins g) = filter (\<lambda>(_, d). \<not> debit_settled ob d) (cg_pending g)"
  by (simp_all add: settled_gate_def reconcile_def advance_watermark_def)

lemma map_of_filter_snd:
  "distinct (map fst p) \<Longrightarrow> map_of (filter (\<lambda>(_, d). P d) p) k = (case map_of p k of None \<Rightarrow> None | Some d \<Rightarrow> if P d then Some d else None)"
  by (induction p) (auto split: option.splits simp: map_of_eq_None_iff)

lemma gate_okD:
  assumes "gate_ok g ss keys" and "map_of (cg_pending g) k = Some d"
  shows "0 < pd_amount d" "0 < pd_connection_generation d" "pd_connection_generation d \<le> watermark_generation g" "k \<in> keys"
  using assms map_of_SomeD [OF assms(2)] by (auto simp: gate_ok_def)

lemma settled_gate_ok:
  assumes "\<not> snapshot_predates g (sn_observation s) \<lfloor>sn_balance s\<rfloor>" and "sorted_wrt newer_snapshot ss" and "s \<in> set ss"
    and "gate_ok g ss keys" and "0 < sn_time s"
  shows "gate_ok (settled_gate (sn_observation s) \<lfloor>sn_balance s\<rfloor> g) ss keys"
    and "cg_watermark (settled_gate (sn_observation s) \<lfloor>sn_balance s\<rfloor> g) = sn_observation s"
proof -
  note le = unpredated_watermark [OF assms]
  have wm: "cg_watermark (advance_watermark (sn_observation s) \<lfloor>sn_balance s\<rfloor> g) = sn_observation s"
    "cg_watermark_balance (advance_watermark (sn_observation s) \<lfloor>sn_balance s\<rfloor> g) = \<lfloor>sn_balance s\<rfloor>"
    using advanced_watermark [OF assms(1)] le assms(5) by auto
  show "cg_watermark (settled_gate (sn_observation s) \<lfloor>sn_balance s\<rfloor> g) = sn_observation s" using wm by simp
  have "distinct (map fst (filter (\<lambda>(_, d). \<not> debit_settled (sn_observation s) d) (cg_pending g)))"
    using assms(4) by (simp add: gate_ok_def distinct_map_filter)
  then show "gate_ok (settled_gate (sn_observation s) \<lfloor>sn_balance s\<rfloor> g) ss keys"
    using assms(3,4) le wm by (fastforce simp: gate_ok_def)
qed

lemma settled_gate_pending:
  assumes "gate_ok g ss keys"
  shows "map_of (cg_pending (settled_gate ob coins g)) k =
    (case map_of (cg_pending g) k of None \<Rightarrow> None | Some d \<Rightarrow> if debit_settled ob d then None else Some d)"
  using assms by (simp add: gate_ok_def map_of_filter_snd split: option.split)

lemma under_way_okD:
  assumes "under_way_ok g connection keys u" and "(k, a, n) \<in> set u"
  shows "k \<in> keys" "0 < a" "n \<le> connection" "n = connection \<Longrightarrow> map_of (cg_pending g) k \<noteq> None"
    and "map_of (cg_pending g) k = Some d \<Longrightarrow>
      pd_amount d = a \<and> pd_connection_generation d = n \<and> pd_completed_at d = 0 \<and> pd_indeterminate_at d = 0"
  using bspec [OF conjunct2 [OF assms(1) [unfolded under_way_ok_def]] assms(2)] by simp_all

lemma settled_spent_ok:
  assumes "\<not> snapshot_predates g (sn_observation s) \<lfloor>sn_balance s\<rfloor>" and "sorted_wrt newer_snapshot ss" and "s \<in> set ss"
    and "gate_ok g ss keys" and "0 < sn_time s" and "spent_ok g ss"
  shows "spent_ok (settled_gate (sn_observation s) \<lfloor>sn_balance s\<rfloor> g) ss"
  unfolding spent_ok_def
proof (intro ballI impI, clarify)
  fix t k c
  assume t: "t \<in> set ss" and "watermark_time (settled_gate (sn_observation s) \<lfloor>sn_balance s\<rfloor> g) \<le> sn_time t"
    and kc: "(k, c) \<in> set (sn_spent t)"
  then have later: "sn_time s \<le> sn_time t" using settled_gate_ok(2) [OF assms(1-5)] by simp
  note le = unpredated_watermark [OF assms(1-5)]
  have gen: "sn_generation s \<le> sn_generation t"
    using sorted_newer_cases [OF assms(2,3) t] later by (auto simp: newer_snapshot_def)
  from later le have "watermark_time g \<le> sn_time t" by simp
  with assms(6) t kc obtain d where d: "map_of (cg_pending g) k = Some d" "c \<le> of_int (pd_amount d)"
    "pd_connection_generation d = sn_generation t" "unsettled (sn_time t) d"
    unfolding spent_ok_def by blast
  have "sn_generation t \<le> sn_generation s" using gate_okD(3) [OF assms(4) d(1)] d(3) le by simp
  with gen d(3) have "pd_connection_generation d = sn_generation s" by simp
  with d(4) later have "\<not> debit_settled (sn_observation s) d"
    by (auto simp: debit_settled_def unsettled_def time_is_zero_def Let_def)
  with d show "\<exists>d. map_of (cg_pending (settled_gate (sn_observation s) \<lfloor>sn_balance s\<rfloor> g)) k = Some d \<and>
      c \<le> of_int (pd_amount d) \<and> pd_connection_generation d = sn_generation t \<and> unsettled (sn_time t) d"
    unfolding settled_gate_pending [OF assms(4)] by simp
qed

lemma settled_under_way_ok:
  assumes "\<not> snapshot_predates g (sn_observation s) \<lfloor>sn_balance s\<rfloor>" and "sorted_wrt newer_snapshot ss" and "s \<in> set ss"
    and "gate_ok g ss keys" and "0 < sn_time s" and "under_way_ok g connection keys u" and "sn_generation s \<le> connection"
  shows "under_way_ok (settled_gate (sn_observation s) \<lfloor>sn_balance s\<rfloor> g) connection keys u"
  unfolding under_way_ok_def
proof (intro conjI ballI, goal_cases)
  case 1
  then show ?case using assms(6) by (simp add: under_way_ok_def)
next
  case (2 x)
  obtain k a n where x: "x = (k, a, n)" by (cases x)
  note le = unpredated_watermark [OF assms(1-5)]
  have kan: "k \<in> keys \<and> 0 < a \<and> n \<le> connection \<and> (n = connection \<longrightarrow> map_of (cg_pending g) k \<noteq> None) \<and>
      (\<forall>d. map_of (cg_pending g) k = Some d \<longrightarrow> pd_amount d = a \<and> pd_connection_generation d = n \<and>
         pd_completed_at d = 0 \<and> pd_indeterminate_at d = 0)"
    using assms(6) 2 x by (auto simp: under_way_ok_def)
  have "\<not> debit_settled (sn_observation s) d" if d: "map_of (cg_pending g) k = Some d" and n: "n = connection" for d
    using kan d n gate_okD(3) [OF assms(4) d] le assms(7) by (auto simp: debit_settled_def time_is_zero_def Let_def)
  then show ?case
    unfolding x prod.case settled_gate_pending [OF assms(4)]
    by (cases "map_of (cg_pending g) k") (use kan in \<open>simp_all\<close>)
qed

text \<open>A balance the gate accepts covers what is pending and may still be spent.\<close>

fun live_entry :: "nat \<Rightarrow> (int \<times> nat) option \<Rightarrow> int" where
  "live_entry connection None = 0"
| "live_entry connection (Some (a, n)) = (if n = connection then a else 0)"

definition live_amount :: "coin_world \<Rightarrow> string \<Rightarrow> int" where
  "live_amount w k = live_entry (cw_connection w) (map_of (cw_under_way w) k)"

lemma committed_coins_sum:
  assumes "distinct (map fst (cw_under_way w))"
  shows "committed_coins w = (\<Sum>k\<in>fst ` set (cw_under_way w). live_amount w k)"
proof -
  have "sum_list (map (\<lambda>(_, a, n). if n = c then a else 0) u) = (\<Sum>k\<in>fst ` set u. live_entry c (map_of u k))"
    if "distinct (map fst u)" for u :: "(string \<times> int \<times> nat) list" and c
    using that
  proof (induction u)
    case (Cons x u)
    obtain k a n where x: "x = (k, a, n)" by (cases x)
    have "(\<Sum>j\<in>fst ` set u. live_entry c (map_of (x # u) j)) = (\<Sum>j\<in>fst ` set u. live_entry c (map_of u j))"
      using Cons.prems x by (intro sum.cong) auto
    then show ?case using Cons x by simp
  qed simp
  then show ?thesis using assms by (simp add: committed_coins_def live_amount_def)
qed

lemma spent_total_le:
  assumes "spent_ok g ss" and "s \<in> set ss" and "watermark_time g \<le> sn_time s" and "distinct (map fst (sn_spent s))"
  shows "spent_total s \<le> of_int (\<Sum>k\<in>fst ` set (sn_spent s). pd_amount (the (map_of (cg_pending g) k)))"
proof -
  have le: "c \<le> of_int (pd_amount (the (map_of (cg_pending g) k)))" if "(k, c) \<in> set (sn_spent s)" for k c
    using assms(1-3) that unfolding spent_ok_def by fastforce
  have "sum_list (map snd p) \<le> of_int (\<Sum>k\<in>fst ` set p. pd_amount (the (map_of (cg_pending g) k)))"
    if "set p \<subseteq> set (sn_spent s)" "distinct (map fst p)" for p
    using that by (induction p) (auto simp: add_mono le)
  then show ?thesis using assms(4) by (simp add: spent_total_def)
qed

lemma cover_from_snapshot:
  assumes s: "s \<in> set ss" "snapshot_ok now connection (cw_balance w) (over w) s"
    and gate: "gate_ok g ss keys'" "cg_watermark g = sn_observation s" "spent_ok g ss"
    and u: "under_way_ok g (cw_connection w) keys' (cw_under_way w)"
    and enough: "pending_total (cg_pending g) + floor_coins \<le> \<lfloor>sn_balance s\<rfloor>"
  shows "of_int (committed_coins w + floor_coins) \<le> cw_balance w"
proof -
  let ?amt = "\<lambda>k. pd_amount (the (map_of (cg_pending g) k))"
  let ?P = "fst ` set (cg_pending g)" and ?S = "fst ` set (sn_spent s)"
  let ?L = "{k \<in> fst ` set (cw_under_way w). live_amount w k \<noteq> 0}"
  have du: "distinct (map fst (cw_under_way w))" using u by (simp add: under_way_ok_def)
  have live: "k \<in> ?P \<and> live_amount w k = ?amt k" if "k \<in> ?L" for k
  proof -
    from that obtain a where a: "map_of (cw_under_way w) k = Some (a, cw_connection w)" "live_amount w k = a"
      by (cases "map_of (cw_under_way w) k") (auto simp: live_amount_def split: if_splits)
    from map_of_SomeD [OF a(1)] u obtain d where d: "map_of (cg_pending g) k = Some d" "pd_amount d = a"
      unfolding under_way_ok_def by fastforce
    with map_of_SomeD [OF d(1)] a(2) show ?thesis by force
  qed
  have spent: "?S \<subseteq> ?P"
  proof
    fix k assume "k \<in> ?S"
    then obtain c where "(k, c) \<in> set (sn_spent s)" by auto
    with gate(2,3) s(1) obtain d where "map_of (cg_pending g) k = Some d" unfolding spent_ok_def by fastforce
    then show "k \<in> ?P" by (rule map_of_SomeD [THEN image_eqI [rotated]]) simp
  qed
  have disjoint: "?L \<inter> ?S = {}" using s(2) by (auto simp: snapshot_ok_def over_def)
  have "committed_coins w = (\<Sum>k\<in>?L. live_amount w k)"
    unfolding committed_coins_sum [OF du] by (rule sum.mono_neutral_right) auto
  also have "\<dots> = (\<Sum>k\<in>?L. ?amt k)" by (intro sum.cong refl) (use live in blast)
  finally have "committed_coins w + (\<Sum>k\<in>?S. ?amt k) = (\<Sum>k\<in>?L \<union> ?S. ?amt k)"
    using disjoint by (simp add: sum.union_disjoint)
  also have "\<dots> \<le> (\<Sum>k\<in>?P. ?amt k)"
  proof (rule sum_mono2)
    show "?L \<union> ?S \<subseteq> ?P" using live spent by blast
    fix k assume "k \<in> ?P - (?L \<union> ?S)"
    then have "map_of (cg_pending g) k \<noteq> None" unfolding map_of_eq_None_iff by blast
    then obtain d where d: "map_of (cg_pending g) k = Some d" by blast
    show "0 \<le> ?amt k" unfolding d using gate_okD(1) [OF gate(1) d] by simp
  qed simp
  also have "\<dots> = pending_total (cg_pending g)" using gate(1) by (simp add: pending_total_sum gate_ok_def)
  finally have "of_int (committed_coins w + floor_coins) + of_int (\<Sum>k\<in>?S. ?amt k) \<le> (of_int \<lfloor>sn_balance s\<rfloor> :: rat)"
    using enough unfolding of_int_add [symmetric] of_int_le_iff by linarith
  also have "\<dots> \<le> sn_balance s" by simp
  also have "\<dots> \<le> cw_balance w + spent_total s" using s(2) by (simp add: snapshot_ok_def)
  also have "\<dots> \<le> cw_balance w + of_int (\<Sum>k\<in>?S. ?amt k)"
    by (intro add_left_mono spent_total_le [OF gate(3) s(1)]) (use gate(2) s(2) in \<open>simp_all add: snapshot_ok_def\<close>)
  finally show ?thesis by linarith
qed

lemma alist_update_set:
  assumes "distinct (map fst u)"
  shows "(k, v') \<in> set (AList.update key v u) \<longleftrightarrow> (if k = key then v' = v else (k, v') \<in> set u)"
proof -
  have "(k, v') \<in> set (AList.update key v u) \<longleftrightarrow> map_of (AList.update key v u) k = Some v'"
    by (rule map_of_eq_Some_iff [OF distinct_update [OF assms], symmetric])
  also have "\<dots> \<longleftrightarrow> (if k = key then v' = v else map_of u k = Some v')" by (auto simp: update_conv')
  finally show ?thesis by (simp add: map_of_eq_Some_iff [OF assms])
qed

lemma under_way_update:
  assumes "under_way_ok g connection keys u" and "map_of (cg_pending g') = (map_of (cg_pending g))(key \<mapsto> d)"
    and "pd_completed_at d = 0" "pd_indeterminate_at d = 0" "0 < pd_amount d" "pd_connection_generation d \<le> connection"
  shows "under_way_ok g' connection (insert key keys) (AList.update key (pd_amount d, pd_connection_generation d) u)"
proof -
  have d: "distinct (map fst u)" using assms(1) by (simp add: under_way_ok_def)
  have "x = (key, v) \<or> x \<in> set u \<and> fst x \<noteq> key" if "x \<in> set (AList.update key v u)" for x and v :: "int \<times> nat"
    using alist_update_set [OF d] that by (cases x) (auto split: if_splits)
  then show ?thesis
    using assms d unfolding under_way_ok_def by (fastforce simp: distinct_update)
qed

lemma snapshot_ok_mono:
  "snapshot_ok now connection balance keys s \<Longrightarrow> now \<le> now' \<Longrightarrow> connection \<le> connection' \<Longrightarrow> balance \<le> balance' \<Longrightarrow>
   keys \<subseteq> keys' \<Longrightarrow> snapshot_ok now' connection' balance' keys' s"
  unfolding snapshot_ok_def by (intro conjI; (elim conjE)?) auto

lemma answer_ok_mono:
  "answer_ok now keys ss k r \<Longrightarrow> now \<le> now' \<Longrightarrow> keys \<subseteq> keys' \<Longrightarrow> answer_ok now' keys' ss k r"
  unfolding answer_ok_def by (elim conjE, intro conjI) (assumption | blast | linarith)+

lemma coin_inv_snapshot:
  "coin_inv floor_coins w \<Longrightarrow> s \<in> set (cw_snapshots w) \<Longrightarrow>
   snapshot_ok (cw_now w) (cw_connection w) (cw_balance w) (over w) s"
  by (simp add: coin_inv_def coin_base_def snapshots_ok_def)

lemma coin_inv_answer:
  "coin_inv floor_coins w \<Longrightarrow> (k, r) \<in> set (cw_answered w) \<Longrightarrow> answer_ok (cw_now w) (over w) (cw_snapshots w) k r"
  unfolding coin_inv_def coin_base_def answered_ok_def by blast

lemma spent_over:
  assumes "coin_inv floor_coins w" and "s \<in> set (cw_snapshots w)"
  shows "fst ` set (sn_spent s) \<subseteq> over w"
  using coin_inv_snapshot [OF assms] by (simp add: snapshot_ok_def)

lemma past_kept:
  assumes "coin_inv floor_coins w" and "over w \<subseteq> over w'" and "cw_snapshots w' = cw_snapshots w" and "cw_answered w' = cw_answered w"
    and "cw_now w \<le> cw_now w'" and "cw_connection w \<le> cw_connection w'" and "cw_balance w \<le> cw_balance w'"
  shows "snapshots_ok w'" and "answered_ok w'"
proof -
  show "snapshots_ok w'"
    unfolding snapshots_ok_def assms(3)
    using assms(1) snapshot_ok_mono [OF coin_inv_snapshot [OF assms(1)] assms(5,6,7,2)]
    by (simp add: coin_inv_def coin_base_def snapshots_ok_def)
  show "answered_ok w'"
    unfolding answered_ok_def assms(3,4)
    using answer_ok_mono [OF coin_inv_answer [OF assms(1)] assms(5,2)] by blast
qed

lemma send_inv:
  assumes inv: "coin_inv floor_coins w" and key: "key \<notin> over w"
    and d: "pd_completed_at d = 0" "pd_indeterminate_at d = 0" "0 < pd_amount d" "0 < pd_connection_generation d"
      "pd_connection_generation d \<le> cw_connection w" "pd_connection_generation d \<le> watermark_generation (cw_gate w)"
    and g: "cg_watermark g = cg_watermark (cw_gate w)" "cg_watermark_balance g = cg_watermark_balance (cw_gate w)"
      "map_of (cg_pending g) = (map_of (cg_pending (cw_gate w)))(key \<mapsto> d)" "distinct (map fst (cg_pending g))"
    and w': "w' = w\<lparr>cw_gate := g, cw_under_way := AList.update key (pd_amount d, pd_connection_generation d) (cw_under_way w),
      cw_keys := key # cw_keys w\<rparr>"
    and covered: "coin_base w' \<Longrightarrow> coins_covered floor_coins w'"
  shows "coin_inv floor_coins w'"
proof -
  have over: "over w \<subseteq> over w'" using key by (auto simp: over_def w' dom_update)
  have past: "snapshots_ok w'" "answered_ok w'" by (rule past_kept [OF inv over]; simp add: w')+
  have "gate_ok g (cw_snapshots w) (insert key (set (cw_keys w)))"
  proof -
    have "0 < pd_amount e \<and> 0 < pd_connection_generation e \<and> pd_connection_generation e \<le> watermark_generation (cw_gate w) \<and>
        k \<in> insert key (set (cw_keys w))" if "(k, e) \<in> set (cg_pending g)" for k e
    proof (cases "k = key")
      case True
      from that g(4) have "map_of (cg_pending g) k = Some e" by simp
      with True g(3) d show ?thesis by simp
    next
      case False
      from that g(4) have "map_of (cg_pending g) k = Some e" by simp
      with False g(3) have "map_of (cg_pending (cw_gate w)) k = Some e" by simp
      with inv show ?thesis using gate_okD [of "cw_gate w" "cw_snapshots w" "set (cw_keys w)" k e] by (simp add: coin_inv_def coin_base_def)
    qed
    then show ?thesis using inv g(1,2,4) by (auto simp: coin_inv_def coin_base_def gate_ok_def)
  qed
  moreover have "spent_ok g (cw_snapshots w)"
    unfolding spent_ok_def
  proof (intro ballI impI, clarify)
    fix s k c
    assume s: "s \<in> set (cw_snapshots w)" and t: "watermark_time g \<le> sn_time s" and kc: "(k, c) \<in> set (sn_spent s)"
    from spent_over [OF inv s] kc key have "k \<noteq> key" by force
    moreover have "spent_ok (cw_gate w) (cw_snapshots w)" using inv by (simp add: coin_inv_def coin_base_def)
    ultimately show "\<exists>d. map_of (cg_pending g) k = Some d \<and> c \<le> of_int (pd_amount d) \<and>
        pd_connection_generation d = sn_generation s \<and> unsettled (sn_time s) d"
      using s t kc unfolding spent_ok_def g(1,3) by fastforce
  qed
  moreover have "under_way_ok g (cw_connection w) (insert key (set (cw_keys w)))
      (AList.update key (pd_amount d, pd_connection_generation d) (cw_under_way w))"
    by (rule under_way_update [OF _ g(3)]) (use inv d in \<open>simp_all add: coin_inv_def coin_base_def\<close>)
  ultimately have "coin_base w'" using inv past by (simp add: coin_inv_def coin_base_def w')
  with covered show ?thesis by (simp add: coin_inv_def)
qed

lemma coin_inv_tick: "coin_inv floor_coins w \<Longrightarrow> cw_now w \<le> now \<Longrightarrow> coin_inv floor_coins (w\<lparr>cw_now := now\<rparr>)"
  using past_kept [of floor_coins w "w\<lparr>cw_now := now\<rparr>"]
  by (simp add: coin_inv_def coin_base_def coins_covered_def committed_coins_def over_def)

lemma settled_inv:
  assumes inv: "coin_inv floor_coins w" and s: "s \<in> set (cw_snapshots w)"
    and "\<not> snapshot_predates (cw_gate w) (sn_observation s) \<lfloor>sn_balance s\<rfloor>"
  shows "coin_inv floor_coins (w\<lparr>cw_gate := settled_gate (sn_observation s) \<lfloor>sn_balance s\<rfloor> (cw_gate w)\<rparr>)"
proof -
  have snap: "0 < sn_time s" "sn_generation s \<le> cw_connection w"
    using coin_inv_snapshot [OF inv s] by (simp_all add: snapshot_ok_def)
  have sorted: "sorted_wrt newer_snapshot (cw_snapshots w)" using inv by (simp add: coin_inv_def coin_base_def snapshots_ok_def)
  have parts: "gate_ok (cw_gate w) (cw_snapshots w) (set (cw_keys w))" "spent_ok (cw_gate w) (cw_snapshots w)"
    "under_way_ok (cw_gate w) (cw_connection w) (set (cw_keys w)) (cw_under_way w)"
    using inv by (simp_all add: coin_inv_def coin_base_def)
  show ?thesis
    using inv settled_gate_ok(1) [OF assms(3) sorted s parts(1) snap(1)]
      settled_spent_ok [OF assms(3) sorted s parts(1) snap(1) parts(2)]
      settled_under_way_ok [OF assms(3) sorted s parts(1) snap(1) parts(3) snap(2)]
    by (simp add: coin_inv_def coin_base_def snapshots_ok_def answered_ok_def over_def coins_covered_def committed_coins_def del: settled_gate_simps)
qed

lemma resend_inv:
  assumes inv: "coin_inv floor_coins w" and key: "key \<notin> over w"
  shows "coin_inv floor_coins (send_if_reserved key (None, cw_gate w) w)"
proof (cases "map_of (cg_pending (cw_gate w)) key")
  case None
  then show ?thesis using inv by (simp add: send_if_reserved_def)
next
  case (Some d)
  have gate: "gate_ok (cw_gate w) (cw_snapshots w) (set (cw_keys w))"
    and u: "under_way_ok (cw_gate w) (cw_connection w) (set (cw_keys w)) (cw_under_way w)" using inv by (simp_all add: coin_inv_def coin_base_def)
  note d = gate_okD [OF gate Some]
  have du: "distinct (map fst (cw_under_way w))" using u by (simp add: under_way_ok_def)
  from key d(4) obtain a n where kan: "(key, a, n) \<in> set (cw_under_way w)" by (auto simp: over_def)
  with u Some have eq: "a = pd_amount d" "n = pd_connection_generation d" "pd_completed_at d = 0" "pd_indeterminate_at d = 0" "n \<le> cw_connection w"
    unfolding under_way_ok_def by fastforce+
  let ?w = "w\<lparr>cw_gate := cw_gate w, cw_under_way := AList.update key (pd_amount d, pd_connection_generation d) (cw_under_way w),
      cw_keys := key # cw_keys w\<rparr>"
  have same: "map_of (AList.update key (pd_amount d, pd_connection_generation d) (cw_under_way w)) = map_of (cw_under_way w)"
    using kan eq du by (simp add: update_conv' fun_upd_idem)
  have keys: "fst ` set (AList.update key (pd_amount d, pd_connection_generation d) (cw_under_way w)) = fst ` set (cw_under_way w)"
    using kan by (force simp: dom_update)
  have "committed_coins ?w = committed_coins w"
    using du same keys by (simp add: committed_coins_sum distinct_update live_amount_def)
  then have "coins_covered floor_coins ?w" using inv by (simp add: coin_inv_def coin_base_def coins_covered_def)
  have "coin_inv floor_coins ?w"
    by (rule send_inv [OF inv key eq(3,4) d(1,2) _ d(3), where g = "cw_gate w"])
      (use Some eq gate \<open>coins_covered floor_coins ?w\<close> in \<open>auto simp: fun_upd_idem gate_ok_def\<close>)
  then show ?thesis using Some by (simp add: send_if_reserved_def)
qed

lemma cover_reserved:
  assumes base: "coin_base w" and s: "s \<in> set (cw_snapshots w)" and "cg_watermark (cw_gate w) = sn_observation s"
    and "pending_total (cg_pending (cw_gate w)) + floor_coins \<le> \<lfloor>sn_balance s\<rfloor>" and "0 \<le> cw_balance w"
  shows "coins_covered floor_coins w"
proof -
  have "snapshot_ok (cw_now w) (cw_connection w) (cw_balance w) (over w) s"
    using base s by (simp add: coin_base_def snapshots_ok_def)
  then have "of_int (committed_coins w + floor_coins) \<le> cw_balance w"
    by (rule cover_from_snapshot [OF s _ _ assms(3) _ _ assms(4), where keys' = "set (cw_keys w)"]) (use base in \<open>simp_all add: coin_base_def\<close>)
  with assms(5) show ?thesis by (simp add: coins_covered_def)
qed

lemma view_shows_snapshot:
  assumes "view_shows ss v" and "cv_resource_id v = Inr rid" and "cv_observations v rid = Some ob"
  obtains s where "s \<in> set ss" "sn_observation s = ob" "cv_resources v rid = Finite (sn_balance s)"
  using assms by (auto simp: view_shows_def list_ex_iff)

lemma pending_total_update:
  assumes "distinct (map fst p)"
  shows "pending_total (AList.update key d p) = pending_total (filter (\<lambda>(k, _). k \<noteq> key) p) + pd_amount d"
proof -
  have "filter (\<lambda>(k, _). k \<noteq> key) (AList.update key d p) = filter (\<lambda>(k, _). k \<noteq> key) p" by (induction p) auto
  then show ?thesis
    using pending_total_split [OF distinct_update [OF assms], where key = key and d = d] by (simp add: update_conv')
qed

lemma validate_inv:
  assumes inv: "coin_inv floor_coins w" and v: "view_shows (cw_snapshots w) v" and key: "coin_dispatch_key digest md s \<notin> over w"
    and floor: "\<And>cost. resolve_coin_cost formula s = Inr (cost, True) \<Longrightarrow> floor_coins \<le> rc_reserve cost"
  shows "coin_inv floor_coins
     (send_if_reserved (coin_dispatch_key digest md s) (validate_coins formula digest start md v s (cw_gate w)) w)"
proof -
  let ?k = "coin_dispatch_key digest md s"
  obtain r g' where rg: "validate_coins formula digest start md v s (cw_gate w) = (r, g')" by (cases "validate_coins formula digest start md v s (cw_gate w)")
  have unsent: "send_if_reserved ?k (r, g') w = w\<lparr>cw_gate := g'\<rparr>" if "r \<noteq> None"
    using that by (auto simp: send_if_reserved_def)
  from rg have "coin_inv floor_coins (send_if_reserved ?k (r, g') w)"
  proof (cases rule: validate_coins_cases)
    case untouched
    then show ?thesis using resend_inv [OF inv key] unsent inv by (cases r) auto
  next
    case (reserving cost ob rid)
    obtain t where t: "t \<in> set (cw_snapshots w)" "sn_observation t = ob" "cv_resources v rid = Finite (sn_balance t)"
      by (rule view_shows_snapshot [OF v reserving(3,4)])
    let ?w = "w\<lparr>cw_gate := settled_gate (sn_observation t) \<lfloor>sn_balance t\<rfloor> (cw_gate w)\<rparr>"
    have rc: "reserve_coins start ?k cost (sn_observation t) \<lfloor>sn_balance t\<rfloor> (cw_gate w) = (r, g')"
      using reserving(7) t by (simp add: balance_coins_def)
    from rc show ?thesis
    proof (cases rule: reserve_coins_cases)
      case stale
      then show ?thesis using unsent inv by simp
    next
      case refused
      then show ?thesis using settled_inv [OF inv t(1)] unsent by simp
    next
      case (repeated d n)
      have "coin_inv floor_coins (send_if_reserved ?k (None, cw_gate ?w) ?w)"
        by (rule resend_inv [OF settled_inv [OF inv t(1) repeated(2)]]) (use key in \<open>simp add: over_def\<close>)
      then show ?thesis using repeated by (simp add: send_if_reserved_def Let_def del: settled_gate_simps)
    next
      case (reserved n)
      have inv': "coin_inv floor_coins ?w" by (rule settled_inv [OF inv t(1) reserved(2)])
      let ?d = "debit_of start cost (sn_observation t) \<lfloor>sn_balance t\<rfloor>"
      have gate: "gate_ok (cw_gate ?w) (cw_snapshots w) (set (cw_keys w))" using inv' by (simp add: coin_inv_def coin_base_def)
      have snap: "0 < sn_time t" "0 < sn_generation t" "sn_generation t \<le> cw_connection w"
        using coin_inv_snapshot [OF inv t(1)] by (simp_all add: snapshot_ok_def)
      have wm: "cg_watermark (cw_gate ?w) = sn_observation t"
        using settled_gate_ok(2) [OF reserved(2) _ t(1) _ snap(1), where keys = "set (cw_keys w)"] inv by (simp add: coin_inv_def coin_base_def snapshots_ok_def)
      have distinct: "distinct (map fst (cg_pending (cw_gate ?w)))" using gate by (simp add: gate_ok_def)
      let ?w' = "?w\<lparr>cw_gate := g', cw_under_way := AList.update ?k (pd_amount ?d, pd_connection_generation ?d) (cw_under_way w),
        cw_keys := ?k # cw_keys w\<rparr>"
      have "coins_covered floor_coins ?w'" if "coin_base ?w'"
      proof (rule cover_reserved [OF that, of t])
        have "n + rc_amount cost + floor_coins \<le> \<lfloor>sn_balance t\<rfloor>" using floor [OF reserving(1)] reserved(6) by simp
        then show "pending_total (cg_pending (cw_gate ?w')) + floor_coins \<le> \<lfloor>sn_balance t\<rfloor>"
          using sum_pending_total [OF reserved(5)] pending_total_update [OF distinct]
          by (simp add: reserved(4) debit_of_def del: settled_gate_simps)
      qed (use t wm inv reserved(4) in \<open>simp_all add: coin_inv_def coins_covered_def del: settled_gate_simps\<close>)
      then have "coin_inv floor_coins ?w'"
        by (intro send_inv [OF inv', where g = g' and d = ?d])
          (use key reserving(2) snap wm reserved(4) distinct in
            \<open>simp_all add: debit_of_def over_def time_is_zero_def update_conv' distinct_update del: settled_gate_simps\<close>)
      then show ?thesis using reserved by (simp add: send_if_reserved_def Let_def update_conv' debit_of_def del: settled_gate_simps)
    qed
  qed
  then show ?thesis by (simp only: rg)
qed

section \<open>Preservation by the other steps\<close>

lemma coin_invD:
  assumes "coin_inv floor_coins w"
  shows "gate_ok (cw_gate w) (cw_snapshots w) (set (cw_keys w))" "spent_ok (cw_gate w) (cw_snapshots w)"
    "under_way_ok (cw_gate w) (cw_connection w) (set (cw_keys w)) (cw_under_way w)"
    "sorted_wrt newer_snapshot (cw_snapshots w)" "distinct (map fst (cw_under_way w))" "0 \<le> cw_balance w"
  using assms by (simp_all add: coin_inv_def coin_base_def snapshots_ok_def coins_covered_def under_way_ok_def)

lemma committed_nonneg:
  "under_way_ok g connection keys u \<Longrightarrow> 0 \<le> sum_list (map (\<lambda>(_, amount, n). if n = c then amount else 0) u)"
  unfolding under_way_ok_def by (intro sum_list_nonneg) (auto split: prod.splits)

lemma committed_delete:
  assumes "distinct (map fst u)"
  shows "sum_list (map (\<lambda>(_, amount, n). if n = c then amount else 0) u) =
    sum_list (map (\<lambda>(_, amount, n). if n = c then amount else 0) (AList.delete key u)) + live_entry c (map_of u key)"
  using assms
proof (induction u)
  case (Cons x u)
  obtain k a n where x: "x = (k, a, n)" by (cases x)
  show ?case
  proof (cases "k = key")
    case True
    then have "AList.delete key u = u" using Cons.prems x by (simp add: delete_id)
    then show ?thesis using x True by simp
  qed (use Cons x in simp)
qed simp

lemma under_way_delete:
  "under_way_ok g connection keys u \<Longrightarrow> under_way_ok g connection keys (AList.delete key u)"
  unfolding under_way_ok_def by (simp add: AList.delete_eq distinct_map_filter)

lemma drop_inv:
  assumes inv: "coin_inv floor_coins w"
  shows "coin_inv floor_coins (w\<lparr>cw_under_way := AList.delete key (cw_under_way w)\<rparr>)" (is "coin_inv _ ?w")
proof -
  note D = coin_invD [OF inv]
  have "over w \<subseteq> over ?w" by (auto simp: over_def AList.delete_eq)
  then have past: "snapshots_ok ?w" "answered_ok ?w" using past_kept [OF inv] by simp_all
  have "0 \<le> live_entry (cw_connection w) (map_of (cw_under_way w) key)"
    using D(3) by (cases "map_of (cw_under_way w) key") (auto simp: under_way_ok_def dest!: map_of_SomeD)
  then have "committed_coins ?w \<le> committed_coins w"
    using committed_delete [OF D(5), of "cw_connection w" key] by (simp add: committed_coins_def)
  then have "coins_covered floor_coins ?w"
    using inv by (auto simp: coin_inv_def coins_covered_def)
  with past D under_way_delete [OF D(3), of key] inv show ?thesis by (simp add: coin_inv_def coin_base_def)
qed

lemma newer_spent: "newer_snapshot (s\<lparr>sn_spent := p\<rparr>) (s'\<lparr>sn_spent := q\<rparr>) = newer_snapshot s s'"
  by (simp add: newer_snapshot_def)

lemma spend_inv:
  assumes inv: "coin_inv floor_coins w" and key: "map_of (cw_under_way w) key = Some (a, cw_connection w)"
    and c: "0 \<le> c" "c \<le> of_int a" and "0 \<le> floor_coins"
  shows "coin_inv floor_coins (spend key c w)"
proof -
  let ?w = "spend key c w"
  note D = coin_invD [OF inv]
  have mem: "(key, a, cw_connection w) \<in> set (cw_under_way w)" by (rule map_of_SomeD [OF key])
  have notover: "key \<notin> over w" using mem by (force simp: over_def)
  note U = under_way_okD [OF D(3) mem]
  have keys: "key \<in> set (cw_keys w)" "0 < a" by (rule U)+
  obtain d where d: "map_of (cg_pending (cw_gate w)) key = Some d" using U(4) by blast
  have d': "pd_amount d = a" "pd_connection_generation d = cw_connection w" "pd_completed_at d = 0" "pd_indeterminate_at d = 0"
    using U(5) [OF d] by simp_all
  have over: "over ?w = insert key (over w)"
    using keys by (auto simp: over_def spend_def AList.delete_eq)
  have committed: "committed_coins w = committed_coins ?w + a"
    using committed_delete [OF D(5), of "cw_connection w" key] key by (simp add: committed_coins_def spend_def)
  moreover have "0 \<le> committed_coins ?w"
    using committed_nonneg [OF under_way_delete [OF D(3), of key], of "cw_connection w"] by (simp add: committed_coins_def spend_def)
  ultimately have enough: "of_int (committed_coins ?w + floor_coins) + of_int a \<le> cw_balance w"
    using inv keys(2) by (simp add: coin_inv_def coins_covered_def algebra_simps)
  have "(0 :: rat) \<le> of_int (committed_coins ?w + floor_coins)" using \<open>0 \<le> committed_coins ?w\<close> assms(5) by simp
  with enough have "of_int a \<le> cw_balance w" by linarith
  with enough c have covered: "coins_covered floor_coins ?w" by (simp add: coins_covered_def spend_def)
  have "snapshot_ok (cw_now w) (cw_connection w) (cw_balance w - c) (insert key (over w)) (s\<lparr>sn_spent := (key, c) # sn_spent s\<rparr>)"
    if "s \<in> set (cw_snapshots w)" for s
    using coin_inv_snapshot [OF inv that] notover spent_over [OF inv that] by (auto simp: snapshot_ok_def spent_total_def)
  then have "snapshots_ok ?w"
    using D(4) over by (auto simp: snapshots_ok_def sorted_wrt_map newer_spent spend_def)
  moreover have "gate_ok (cw_gate w) (cw_snapshots ?w) (set (cw_keys w))"
    using D(1) by (auto simp: gate_ok_def spend_def)
  moreover have "spent_ok (cw_gate w) (cw_snapshots ?w)"
    unfolding spent_ok_def
  proof (intro ballI impI, clarify)
    fix s' k b
    assume "s' \<in> set (cw_snapshots ?w)" and t: "watermark_time (cw_gate w) \<le> sn_time s'" and kb: "(k, b) \<in> set (sn_spent s')"
    then obtain s where s: "s \<in> set (cw_snapshots w)" "s' = s\<lparr>sn_spent := (key, c) # sn_spent s\<rparr>" by (auto simp: spend_def)
    show "\<exists>d. map_of (cg_pending (cw_gate w)) k = Some d \<and> b \<le> of_int (pd_amount d) \<and>
        pd_connection_generation d = sn_generation s' \<and> unsettled (sn_time s') d"
    proof (cases "(k, b) = (key, c)")
      case True
      have "watermark_generation (cw_gate w) \<le> sn_generation s"
        using D(1) sorted_newer_cases [OF D(4) s(1)] t s(2) by (force simp: gate_ok_def newer_snapshot_def)
      with gate_okD(3) [OF D(1) d] d'(2) coin_inv_snapshot [OF inv s(1)] have "sn_generation s = cw_connection w"
        by (simp add: snapshot_ok_def)
      with True d d' c s(2) show ?thesis by (simp add: unsettled_def)
    next
      case False
      with kb s(2) have "(k, b) \<in> set (sn_spent s)" by auto
      with D(2) s t show ?thesis unfolding spent_ok_def by fastforce
    qed
  qed
  moreover have "answered_ok ?w"
    unfolding answered_ok_def
  proof (clarify)
    fix k r assume "(k, r) \<in> set (cw_answered ?w)"
    then have "answer_ok (cw_now w) (over w) (cw_snapshots w) k r" using coin_inv_answer [OF inv] by (simp add: spend_def)
    with notover show "answer_ok (cw_now ?w) (over ?w) (cw_snapshots ?w) k r"
      unfolding answer_ok_def over by (auto simp: spend_def)
  qed
  moreover have "under_way_ok (cw_gate w) (cw_connection w) (set (cw_keys w)) (AList.delete key (cw_under_way w))"
    by (rule under_way_delete [OF D(3)])
  ultimately show ?thesis using inv covered by (simp add: coin_inv_def coin_base_def spend_def)
qed

lemma income_inv: "coin_inv floor_coins w \<Longrightarrow> 0 \<le> c \<Longrightarrow> coin_inv floor_coins (w\<lparr>cw_balance := cw_balance w + c\<rparr>)"
  using past_kept [of floor_coins w "w\<lparr>cw_balance := cw_balance w + c\<rparr>"]
  by (simp add: coin_inv_def coin_base_def over_def coins_covered_def committed_coins_def) linarith

lemma connect_inv:
  assumes inv: "coin_inv floor_coins w"
  shows "coin_inv floor_coins (w\<lparr>cw_connection := Suc (cw_connection w)\<rparr>)" (is "coin_inv _ ?w")
proof -
  note D = coin_invD [OF inv]
  have past: "snapshots_ok ?w" "answered_ok ?w" by (rule past_kept [OF inv]; simp add: over_def)+
  have old: "n \<le> cw_connection w" if "(k, a, n) \<in> set (cw_under_way w)" for k a n
    using D(3) that unfolding under_way_ok_def by blast
  have "map (\<lambda>(_, amount, n). if n = Suc (cw_connection w) then amount else 0) (cw_under_way w) = map (\<lambda>_. 0) (cw_under_way w)"
    using old by fastforce
  then have "sum_list (map (\<lambda>(_, amount, n). if n = Suc (cw_connection w) then amount else 0) (cw_under_way w)) =
      sum_list (map (\<lambda>_. 0) (cw_under_way w))" by (rule arg_cong)
  then have "committed_coins ?w = 0" by (simp add: committed_coins_def sum_list_0)
  then have "coins_covered floor_coins ?w" using D(6) by (simp add: coins_covered_def)
  moreover have "under_way_ok (cw_gate w) (Suc (cw_connection w)) (set (cw_keys w)) (cw_under_way w)"
    using D(3) old unfolding under_way_ok_def by fastforce
  ultimately show ?thesis using inv past by (simp add: coin_inv_def coin_base_def)
qed

lemma snapshot_inv:
  assumes inv: "coin_inv floor_coins w" and new: "\<forall>s\<in>set (cw_snapshots w). sn_time s < cw_now w"
    and "0 < cw_connection w" and "cw_balance w < 2 ^ 63"
  shows "coin_inv floor_coins (take_snapshot (cw_now w) w)" (is "coin_inv _ ?w")
proof -
  note D = coin_invD [OF inv]
  have "snapshots_ok ?w"
    using inv new assms(3,4) D(6) coin_inv_snapshot [OF inv]
    by (simp add: coin_inv_def coin_base_def snapshots_ok_def take_snapshot_def over_def newer_snapshot_def snapshot_ok_def
        spent_total_def)
  moreover have "gate_ok (cw_gate w) (cw_snapshots ?w) (set (cw_keys w))"
    using D(1) by (auto simp: gate_ok_def take_snapshot_def)
  moreover have "spent_ok (cw_gate w) (cw_snapshots ?w)"
    using D(2) by (simp add: spent_ok_def take_snapshot_def)
  moreover have "answered_ok ?w"
    using inv by (simp add: coin_inv_def coin_base_def answered_ok_def answer_ok_def take_snapshot_def over_def)
  ultimately show ?thesis
    using inv by (simp add: coin_inv_def coin_base_def take_snapshot_def coins_covered_def committed_coins_def)
qed

text \<open>Marking a debit, advancing the watermark and releasing a debit.\<close>

lemma under_way_other:
  assumes u: "under_way_ok g connection keys u" and key: "key \<notin> fst ` set u"
    and other: "\<And>k. k \<noteq> key \<Longrightarrow> map_of (cg_pending g') k = map_of (cg_pending g) k"
  shows "under_way_ok g' connection keys u"
  unfolding under_way_ok_def
proof (intro conjI ballI)
  show "distinct (map fst u)" using u by (simp add: under_way_ok_def)
  fix x assume x: "x \<in> set u"
  obtain k a n where kan: "x = (k, a, n)" by (cases x)
  note U = under_way_okD [OF u x [unfolded kan]]
  from x key kan have "k \<noteq> key" by force
  show "case x of (k, a, n) \<Rightarrow> k \<in> keys \<and> 0 < a \<and> n \<le> connection \<and>
      (n = connection \<longrightarrow> map_of (cg_pending g') k \<noteq> None) \<and>
      (\<forall>d. map_of (cg_pending g') k = Some d \<longrightarrow> pd_amount d = a \<and> pd_connection_generation d = n \<and>
         pd_completed_at d = 0 \<and> pd_indeterminate_at d = 0)"
    unfolding kan prod.case other [OF \<open>k \<noteq> key\<close>] using U by blast
qed

lemma mark_inv:
  assumes inv: "coin_inv floor_coins w" and key: "key \<notin> fst ` set (cw_under_way w)" and d: "map_of (cg_pending (cw_gate w)) key = Some d"
    and d': "pd_amount d' = pd_amount d" "pd_connection_generation d' = pd_connection_generation d"
      "\<forall>s\<in>set (cw_snapshots w). unsettled (sn_time s) d \<longrightarrow> unsettled (sn_time s) d'"
  shows "coin_inv floor_coins (w\<lparr>cw_gate := cw_gate w\<lparr>cg_pending := AList.update key d' (cg_pending (cw_gate w))\<rparr>\<rparr>)"
proof -
  let ?g = "cw_gate w\<lparr>cg_pending := AList.update key d' (cg_pending (cw_gate w))\<rparr>"
  note D = coin_invD [OF inv]
  have distinct: "distinct (map fst (cg_pending (cw_gate w)))" using D(1) by (simp add: gate_ok_def)
  have map: "map_of (cg_pending ?g) = (map_of (cg_pending (cw_gate w)))(key \<mapsto> d')" by (simp add: update_conv')
  have "gate_ok ?g (cw_snapshots w) (set (cw_keys w))"
    using D(1) gate_okD [OF D(1) d] d' distinct
    by (auto simp: gate_ok_def distinct_update alist_update_set split: if_splits)
  moreover have "spent_ok ?g (cw_snapshots w)"
    unfolding spent_ok_def map
  proof (intro ballI impI, clarify)
    fix s k c assume s: "s \<in> set (cw_snapshots w)" "watermark_time ?g \<le> sn_time s" and kc: "(k, c) \<in> set (sn_spent s)"
    then obtain e where "map_of (cg_pending (cw_gate w)) k = Some e" "c \<le> of_int (pd_amount e)"
        "pd_connection_generation e = sn_generation s" "unsettled (sn_time s) e"
      using D(2) unfolding spent_ok_def by fastforce
    then show "\<exists>e. ((map_of (cg_pending (cw_gate w)))(key \<mapsto> d')) k = Some e \<and> c \<le> of_int (pd_amount e) \<and>
        pd_connection_generation e = sn_generation s \<and> unsettled (sn_time s) e"
      using d d' s(1) by (cases "k = key") auto
  qed
  moreover have "under_way_ok ?g (cw_connection w) (set (cw_keys w)) (cw_under_way w)"
    by (rule under_way_other [OF D(3) key]) (simp add: update_conv')
  ultimately show ?thesis
    using inv by (simp add: coin_inv_def coin_base_def snapshots_ok_def answered_ok_def over_def coins_covered_def committed_coins_def)
qed

lemma raise_inv:
  assumes inv: "coin_inv floor_coins w" and s: "s \<in> set (cw_snapshots w)"
    and le: "watermark_time (cw_gate w) \<le> sn_time s" "watermark_generation (cw_gate w) \<le> sn_generation s"
  shows "coin_inv floor_coins (w\<lparr>cw_gate := cw_gate w\<lparr>cg_watermark := sn_observation s, cg_watermark_balance := \<lfloor>sn_balance s\<rfloor>\<rparr>\<rparr>)"
proof -
  let ?g = "cw_gate w\<lparr>cg_watermark := sn_observation s, cg_watermark_balance := \<lfloor>sn_balance s\<rfloor>\<rparr>"
  note D = coin_invD [OF inv]
  have "gate_ok ?g (cw_snapshots w) (set (cw_keys w))"
    using D(1) s le by (fastforce simp: gate_ok_def)
  moreover have "spent_ok ?g (cw_snapshots w)"
    using D(2) le by (fastforce simp: spent_ok_def)
  moreover have "under_way_ok ?g (cw_connection w) (set (cw_keys w)) (cw_under_way w)"
    using D(3) by (simp add: under_way_ok_def)
  ultimately show ?thesis
    using inv by (simp add: coin_inv_def coin_base_def snapshots_ok_def answered_ok_def over_def coins_covered_def committed_coins_def)
qed

lemma release_inv:
  assumes inv: "coin_inv floor_coins w" and key: "key \<notin> fst ` set (cw_under_way w)"
    and unspent: "\<forall>s\<in>set (cw_snapshots w). watermark_time (cw_gate w) \<le> sn_time s \<longrightarrow> key \<notin> fst ` set (sn_spent s)"
  shows "coin_inv floor_coins (w\<lparr>cw_gate := definitive_failure key (cw_gate w)\<rparr>)"
proof -
  let ?g = "definitive_failure key (cw_gate w)"
  note D = coin_invD [OF inv]
  have map: "map_of (cg_pending ?g) k = (if k = key then None else map_of (cg_pending (cw_gate w)) k)" for k
    by (simp add: definitive_failure_def delete_conv')
  have wm: "cg_watermark ?g = cg_watermark (cw_gate w)" "cg_watermark_balance ?g = cg_watermark_balance (cw_gate w)"
    by (simp_all add: definitive_failure_def)
  have "gate_ok ?g (cw_snapshots w) (set (cw_keys w))"
    using D(1) by (auto simp: gate_ok_def definitive_failure_def AList.delete_eq distinct_map_filter)
  moreover have "spent_ok ?g (cw_snapshots w)"
    unfolding spent_ok_def wm
  proof (intro ballI impI, clarify)
    fix s k c assume s: "s \<in> set (cw_snapshots w)" "watermark_time (cw_gate w) \<le> sn_time s" and kc: "(k, c) \<in> set (sn_spent s)"
    then have "k \<noteq> key" using unspent by force
    with s kc D(2) show "\<exists>d. map_of (cg_pending ?g) k = Some d \<and> c \<le> of_int (pd_amount d) \<and>
        pd_connection_generation d = sn_generation s \<and> unsettled (sn_time s) d"
      unfolding map spent_ok_def by fastforce
  qed
  moreover have "under_way_ok ?g (cw_connection w) (set (cw_keys w)) (cw_under_way w)"
    by (rule under_way_other [OF D(3) key]) (simp add: map)
  ultimately show ?thesis
    using inv by (simp add: coin_inv_def coin_base_def snapshots_ok_def answered_ok_def over_def coins_covered_def committed_coins_def)
qed

lemma completed_dispatch_cases:
  assumes "map_of (cg_pending g) key = Some d" and "g' = g\<lparr>cg_pending := AList.update key (d\<lparr>pd_completed_at := now\<rparr>) (cg_pending g)\<rparr>"
  obtains (kept) "completed_dispatch now key v reduced received_at g = (True, g')"
  | (released) rid ob where "cv_resource_id v = Inr rid" "cv_observations v rid = Some ob" "ro_observed_at ob = received_at"
      "completed_dispatch now key v reduced received_at g = (False, definitive_failure key
         (if \<not> malformed_balance (cv_resources v rid) \<and>
             (watermark_generation g' < ro_connection_generation ob \<or> \<not> ro_observed_at ob < watermark_time g')
          then g'\<lparr>cg_watermark := ob, cg_watermark_balance := balance_coins (cv_resources v rid)\<rparr> else g'))"
proof (cases "cv_resource_id v")
  case (Inl e)
  then show ?thesis using assms by (intro kept) (simp add: completed_dispatch_def)
next
  case (Inr rid)
  show ?thesis
  proof (cases "cv_observations v rid")
    case None
    then show ?thesis using assms Inr by (intro kept) (simp add: completed_dispatch_def)
  next
    case (Some ob)
    show ?thesis
    proof (cases "reduced \<and> \<not> time_is_zero received_at \<and> ro_connection_generation ob = pd_connection_generation d \<and> ro_observed_at ob = received_at")
      case True
      with Some Inr assms(1) show ?thesis
        by (intro released [OF Inr Some]) (simp_all add: completed_dispatch_def definitive_failure_def Let_def assms(2))
    next
      case False
      then show ?thesis using assms Inr Some by (intro kept) (auto simp: completed_dispatch_def Let_def)
    qed
  qed
qed

lemma complete_inv:
  assumes inv: "coin_inv floor_coins w" and v: "view_shows (cw_snapshots w) v" and answered: "(key, received_at) \<in> set (cw_answered w)"
    and late: "\<forall>s\<in>set (cw_snapshots w). sn_time s < now"
  shows "coin_inv floor_coins (w\<lparr>cw_gate := snd (completed_dispatch now key v reduced received_at (cw_gate w))\<rparr>)"
proof (cases "map_of (cg_pending (cw_gate w)) key")
  case None
  then show ?thesis using inv by (simp add: completed_dispatch_def)
next
  case (Some d)
  have ans: "answer_ok (cw_now w) (over w) (cw_snapshots w) key received_at" by (rule coin_inv_answer [OF inv answered])
  then have key: "key \<notin> fst ` set (cw_under_way w)" by (simp add: answer_ok_def over_def)
  let ?g = "cw_gate w\<lparr>cg_pending := AList.update key (d\<lparr>pd_completed_at := now\<rparr>) (cg_pending (cw_gate w))\<rparr>"
  have marked: "coin_inv floor_coins (w\<lparr>cw_gate := ?g\<rparr>)"
    by (rule mark_inv [OF inv key Some]) (use late in \<open>auto simp: unsettled_def\<close>)
  have settle: "coin_inv floor_coins (w\<lparr>cw_gate := definitive_failure key
      (if \<not> malformed_balance (cv_resources v rid) \<and>
          (watermark_generation ?g < ro_connection_generation ob \<or> \<not> ro_observed_at ob < watermark_time ?g)
       then ?g\<lparr>cg_watermark := ob, cg_watermark_balance := balance_coins (cv_resources v rid)\<rparr> else ?g)\<rparr>)"
    if view: "cv_resource_id v = Inr rid" "cv_observations v rid = Some ob" and r: "ro_observed_at ob = received_at" for rid ob
  proof -
    obtain s where s: "s \<in> set (cw_snapshots w)" "sn_observation s = ob" "cv_resources v rid = Finite (sn_balance s)"
      by (rule view_shows_snapshot [OF v view])
    note D = coin_invD [OF inv]
    have fine: "\<not> malformed_balance (cv_resources v rid)" "0 < sn_time s"
      using coin_inv_snapshot [OF inv s(1)] s(3) by (auto simp: malformed_balance_def snapshot_ok_def)
    have after: "key \<notin> fst ` set (sn_spent t)" if "t \<in> set (cw_snapshots w)" "received_at \<le> sn_time t" for t
      using ans that by (force simp: answer_ok_def)
    show ?thesis
    proof (cases "watermark_generation ?g < ro_connection_generation ob \<or> \<not> ro_observed_at ob < watermark_time ?g")
      case True
      then have "watermark_time ?g \<le> sn_time s \<and> watermark_generation ?g \<le> sn_generation s"
        using D(1) sorted_newer_cases [OF D(4) s(1)] s(2) fine(2) by (force simp: gate_ok_def newer_snapshot_def)
      then have "coin_inv floor_coins (w\<lparr>cw_gate := ?g\<lparr>cg_watermark := ob, cg_watermark_balance := balance_coins (cv_resources v rid)\<rparr>\<rparr>)"
        using raise_inv [OF marked, of s] s by (simp add: balance_coins_def)
      from release_inv [OF this, of key] show ?thesis using True fine(1) key after r by simp
    next
      case False
      with release_inv [OF marked, of key] show ?thesis using key after r by simp
    qed
  qed
  from Some refl show ?thesis
  proof (cases rule: completed_dispatch_cases [where now = now and v = v and reduced = reduced and received_at = received_at])
    case kept
    then show ?thesis using marked by simp
  next
    case (released rid ob)
    show ?thesis unfolding released(4) snd_conv by (rule settle [OF released(1-3)])
  qed
qed

lemma uncertain_inv:
  assumes inv: "coin_inv floor_coins w" and key: "key \<notin> fst ` set (cw_under_way w)"
    and late: "\<forall>s\<in>set (cw_snapshots w). sn_time s < now"
  shows "coin_inv floor_coins (w\<lparr>cw_gate := indeterminate_dispatch now key (cw_gate w)\<rparr>)"
proof (cases "map_of (cg_pending (cw_gate w)) key")
  case (Some d)
  from mark_inv [OF inv key Some, of "d\<lparr>pd_indeterminate_at := now\<rparr>"] late Some
  show ?thesis by (simp add: indeterminate_dispatch_def unsettled_def)
qed (use inv in \<open>simp add: indeterminate_dispatch_def\<close>)

lemma snapshot_times:
  assumes "coin_inv floor_coins w" and "cw_now w < now"
  shows "\<forall>s\<in>set (cw_snapshots w). sn_time s < now"
  using coin_inv_snapshot [OF assms(1)] assms(2) by (fastforce simp: snapshot_ok_def)

lemma coin_step_inv:
  assumes "coin_step False floor_coins w w'" and inv: "coin_inv floor_coins w" and floor: "0 \<le> floor_coins"
  shows "coin_inv floor_coins w'"
  using assms(1)
proof cases
  case (Validate now v digest md s formula start)
  have tick: "coin_inv floor_coins (w\<lparr>cw_now := now\<rparr>)" using coin_inv_tick [OF inv] Validate(2) by simp
  have "coin_dispatch_key digest md s \<notin> over (w\<lparr>cw_now := now\<rparr>)" using Validate(4) by (simp add: over_def)
  from validate_inv [OF tick _ this, of v formula start] Validate show ?thesis by simp
next
  case (Spend now key a c)
  then show ?thesis using spend_inv [OF coin_inv_tick [OF inv, of now], of key a c] floor by simp
next
  case (Income now c)
  then show ?thesis using income_inv [OF coin_inv_tick [OF inv, of now], of c] by simp
next
  case (Snapshot now)
  then show ?thesis
    using snapshot_inv [OF coin_inv_tick [OF inv, of now]] snapshot_times [OF inv Snapshot(2)] by simp
next
  case (Connect now)
  then show ?thesis using connect_inv [OF coin_inv_tick [OF inv, of now]] by simp
next
  case (Answer now key fresh)
  let ?u = "w\<lparr>cw_now := now, cw_under_way := AList.delete key (cw_under_way w)\<rparr>"
  let ?w = "?u\<lparr>cw_answered := (key, now) # cw_answered w\<rparr>"
  have times: "\<forall>s\<in>set (cw_snapshots w). sn_time s < now" by (rule snapshot_times [OF inv Answer(2)])
  have u: "coin_inv floor_coins ?u"
    using drop_inv [OF coin_inv_tick [OF inv, of now], of key] Answer(2) by simp
  have "answer_ok now (over ?u) (cw_snapshots w) key now"
    using Answer(3) times by (auto simp: answer_ok_def over_def AList.delete_eq)
  moreover have "answered_ok ?u" using u by (simp add: coin_inv_def coin_base_def)
  ultimately have "answered_ok ?w" by (simp add: answered_ok_def over_def)
  with u have "coin_inv floor_coins ?w"
    by (simp add: coin_inv_def coin_base_def snapshots_ok_def over_def coins_covered_def committed_coins_def)
  with snapshot_inv [OF this] times Answer show ?thesis by (cases fresh) simp_all
next
  case (Complete now v key received_at reduced)
  then show ?thesis
    using complete_inv [OF coin_inv_tick [OF inv, of now], of v key received_at now reduced] snapshot_times [OF inv Complete(2)] by simp
next
  case (Fail now key)
  let ?u = "w\<lparr>cw_now := now, cw_under_way := AList.delete key (cw_under_way w)\<rparr>"
  have u: "coin_inv floor_coins ?u" using drop_inv [OF coin_inv_tick [OF inv, of now], of key] Fail(2) by simp
  have gone: "key \<notin> fst ` set (cw_under_way ?u)" by (auto simp: AList.delete_eq)
  from Fail(3) show ?thesis
  proof
    assume key: "key \<in> fst ` set (cw_under_way w)"
    have "\<forall>s\<in>set (cw_snapshots w). key \<notin> fst ` set (sn_spent s)"
      using spent_over [OF inv] key by (auto simp: over_def)
    then show ?thesis using release_inv [OF u gone] Fail by simp
  next
    assume none: "map_of (cg_pending (cw_gate w)) key = None"
    then have "definitive_failure key (cw_gate w) = cw_gate w"
      by (simp add: definitive_failure_def delete_id map_of_eq_None_iff)
    then show ?thesis using u Fail by simp
  qed
next
  case (Uncertain now key)
  let ?u = "w\<lparr>cw_now := now, cw_under_way := AList.delete key (cw_under_way w)\<rparr>"
  have u: "coin_inv floor_coins ?u" using drop_inv [OF coin_inv_tick [OF inv, of now], of key] Uncertain(2) by simp
  have gone: "key \<notin> fst ` set (cw_under_way ?u)" by (auto simp: AList.delete_eq)
  show ?thesis using uncertain_inv [OF u gone, of now] snapshot_times [OF inv Uncertain(2)] Uncertain(1) by simp
qed

lemma coin_run_inv: "coin_run False floor_coins w \<Longrightarrow> 0 \<le> floor_coins \<Longrightarrow> coin_inv floor_coins w"
proof (induction rule: coin_run.induct)
  case (Start q)
  then show ?case
    by (simp add: coin_inv_def coin_base_def new_coin_world_def snapshots_ok_def gate_ok_def new_coin_gate_def spent_ok_def
        under_way_ok_def answered_ok_def coins_covered_def committed_coins_def)
next
  case (Step w w')
  then show ?case using coin_step_inv by blast
qed

section \<open>What the gate is for\<close>


definition demo_paid :: step where
  "demo_paid = (demo_step ''gbp'' None)\<lparr>st_coin_cost := Some \<lparr>cc_amount = 7, cc_reserve = 2, cc_source = ''tax'',
     cc_upper_bound = False, cc_additive = False\<rparr>\<rparr>"

definition demo_metadata :: "string \<Rightarrow> metadata" where
  "demo_metadata token = zero_metadata\<lparr>md_response_token := token\<rparr>"

definition demo_view :: "gotime \<Rightarrow> coin_view" where
  "demo_view t = \<lparr>cv_resource_id = Inr 5, cv_observations = (\<lambda>_. Some \<lparr>ro_observed_at = t, ro_connection_generation = Suc 0\<rparr>),
     cv_resources = (\<lambda>_. Finite 10), cv_session_generation = Suc 0\<rparr>"

definition demo_formula :: "string \<Rightarrow> string \<Rightarrow> string + resolved_coin_cost" where
  "demo_formula = (\<lambda>_ _. Inr no_cost)"

definition demo_seen :: coin_world where
  "demo_seen = take_snapshot 3 ((new_coin_world 10)\<lparr>cw_now := 3, cw_connection := Suc 0\<rparr>)"

definition demo_send :: "string \<Rightarrow> gotime \<Rightarrow> gotime \<Rightarrow> coin_world \<Rightarrow> coin_world" where
  "demo_send token seen now w =
     send_if_reserved (coin_dispatch_key id (demo_metadata token) demo_paid)
       (validate_coins demo_formula id now (demo_metadata token) (demo_view seen) demo_paid (cw_gate w)) (w\<lparr>cw_now := now\<rparr>)"

definition demo_doubted :: coin_world where
  "demo_doubted =
     (let w = demo_send ''t'' 3 4 demo_seen
      in take_snapshot 6 (w\<lparr>cw_gate := indeterminate_dispatch 5 ''t'' (cw_gate w), cw_now := 6\<rparr>))"

lemma demo_key: "coin_dispatch_key id (demo_metadata ''t'') demo_paid = ''t''" "coin_dispatch_key id (demo_metadata ''u'') demo_paid = ''u''"
  by code_simp+

lemma demo_cost: "resolve_coin_cost demo_formula demo_paid =
    Inr (\<lparr>rc_amount = 7, rc_reserve = 2, rc_source = ''tax'', rc_upper_bound = False, rc_additive = False\<rparr>, True)"
  by code_simp

lemma demo_sent:
  "demo_send ''t'' 3 4 demo_seen =
    \<lparr>cw_gate = \<lparr>cg_pending = [(''t'', \<lparr>pd_amount = 7, pd_reserve = 2, pd_observed_balance = 10, pd_observed_at = 3,
         pd_connection_generation = Suc 0, pd_reserved_at = 4, pd_completed_at = 0, pd_indeterminate_at = 0\<rparr>)],
       cg_watermark = \<lparr>ro_observed_at = 3, ro_connection_generation = Suc 0\<rparr>, cg_watermark_balance = 10\<rparr>,
     cw_now = 4, cw_balance = 10, cw_connection = Suc 0,
     cw_snapshots = [\<lparr>sn_observation = \<lparr>ro_observed_at = 3, ro_connection_generation = Suc 0\<rparr>, sn_balance = 10, sn_spent = []\<rparr>],
     cw_under_way = [(''t'', 7, Suc 0)], cw_answered = [], cw_keys = [''t'']\<rparr>"
  by (simp add: demo_send_def demo_key validate_coins_def demo_cost demo_view_def malformed_balance_def balance_coins_def
      demo_seen_def new_coin_world_def take_snapshot_def new_coin_gate_def reserve_coins_def snapshot_predates_def advance_watermark_def
      reconcile_def repeated_changed_def max_int64_def send_if_reserved_def time_is_zero_def Let_def)

lemma demo_doubted_eq:
  "demo_doubted =
    \<lparr>cw_gate = \<lparr>cg_pending = [(''t'', \<lparr>pd_amount = 7, pd_reserve = 2, pd_observed_balance = 10, pd_observed_at = 3,
         pd_connection_generation = Suc 0, pd_reserved_at = 4, pd_completed_at = 0, pd_indeterminate_at = 5\<rparr>)],
       cg_watermark = \<lparr>ro_observed_at = 3, ro_connection_generation = Suc 0\<rparr>, cg_watermark_balance = 10\<rparr>,
     cw_now = 6, cw_balance = 10, cw_connection = Suc 0,
     cw_snapshots = [\<lparr>sn_observation = \<lparr>ro_observed_at = 6, ro_connection_generation = Suc 0\<rparr>, sn_balance = 10, sn_spent = []\<rparr>,
       \<lparr>sn_observation = \<lparr>ro_observed_at = 3, ro_connection_generation = Suc 0\<rparr>, sn_balance = 10, sn_spent = []\<rparr>],
     cw_under_way = [(''t'', 7, Suc 0)], cw_answered = [], cw_keys = [''t'']\<rparr>"
  by (simp add: demo_doubted_def demo_sent indeterminate_dispatch_def take_snapshot_def)

lemma demo_resent:
  "committed_coins (demo_send ''u'' 6 7 demo_doubted) = 14" "cw_balance (demo_send ''u'' 6 7 demo_doubted) = 10"
  by (simp_all add: demo_send_def demo_key validate_coins_def demo_cost demo_view_def malformed_balance_def balance_coins_def
      demo_doubted_eq reserve_coins_def snapshot_predates_def advance_watermark_def reconcile_def debit_settled_def
      repeated_changed_def max_int64_def send_if_reserved_def time_is_zero_def committed_coins_def)

lemma demo_seen_run: "coin_run late floor_coins demo_seen"
proof -
  have "coin_run late floor_coins ((new_coin_world 10)\<lparr>cw_now := 2, cw_connection := Suc 0\<rparr>)"
    using coin_run.Step [OF coin_run.Start coin_step.Connect [of "new_coin_world 10" 2]] by (simp add: new_coin_world_def)
  from coin_run.Step [OF this coin_step.Snapshot [of _ 3]] show ?thesis
    by (simp add: demo_seen_def new_coin_world_def)
qed

lemma demo_send_step:
  assumes "coin_run late floor_coins w" and "floor_coins \<le> 2" and "cw_now w < now" and "view_shows (cw_snapshots w) (demo_view seen)"
    and "coin_dispatch_key id (demo_metadata token) demo_paid \<notin> set (cw_keys w)"
  shows "coin_run late floor_coins (demo_send token seen now w)"
  unfolding demo_send_def
  by (rule coin_run.Step [OF assms(1) coin_step.Validate]) (use assms(2-5) in \<open>simp_all add: demo_cost\<close>)

lemma demo_sent_run: "floor_coins \<le> 2 \<Longrightarrow> coin_run late floor_coins (demo_send ''t'' 3 4 demo_seen)"
  by (rule demo_send_step [OF demo_seen_run])
    (simp_all add: demo_key, simp_all add: demo_seen_def take_snapshot_def new_coin_world_def view_shows_def demo_view_def)


text \<open>If the server may still carry out a command after the gate was told that its outcome is uncertain, as when the
  program stops waiting for the response or awaits none, the next snapshot frees the debit although it cannot
  include the command, and the commands under way can cost more than the account holds.\<close>

theorem uncertain_debit_freed_early:
  "\<exists>w. coin_run True 0 w \<and> cw_balance w < of_int (committed_coins w)"
proof -
  let ?w = "demo_send ''t'' 3 4 demo_seen"
  have run: "coin_run True 0 ?w" by (rule demo_sent_run) simp
  have "coin_run True 0 demo_doubted"
    using coin_run.Step [OF coin_run.Step [OF run coin_step.Uncertain [of ?w 5 True 0 "''t''"]] coin_step.Snapshot [of _ 6]]
    by (simp add: demo_doubted_def demo_sent)
  then have "coin_run True 0 (demo_send ''u'' 6 7 demo_doubted)"
    by (rule demo_send_step)
      (simp_all add: demo_key demo_doubted_eq view_shows_def demo_view_def)
  moreover have "committed_coins (demo_send ''u'' 6 7 demo_doubted) = 14 \<and> cw_balance (demo_send ''u'' 6 7 demo_doubted) = 10"
    by (simp add: demo_resent)
  ultimately show ?thesis by (intro exI [of _ "demo_send ''u'' 6 7 demo_doubted"]) simp
qed

end
