(* ===== verification/StepDispatch.thy ===== *)
theory StepDispatch
  imports ExecutionProofs LaneSafety
begin

text \<open>
  How one step is carried out: \<open>executeStep\<close>, \<open>executeCommandDependencies\<close> and the functions they call, of
  \<^verbatim>\<open>src/Server/Intent/Engine.go\<close>.

  A step waits for its delay, is resolved into a concrete one if need be, and then runs an action or sends a
  command. What surrounds the command (marking it before it leaves, the last validation, compensation,
  the durable phases, the provider that keeps account of what the command costs, the
  response and its commit) is a list of events. The answers of everything that is called (actions,
  transport, observers, clock, session, guard) are the fields of an environment; the theorems hold for all of them.
\<close>

section \<open>The environment of a command\<close>

record response_frame =
  rf_opcode :: string
  rf_code :: "int option"
  rf_payload :: string
  rf_received_at :: gotime
  rf_ingress :: nat
  rf_reduce_error :: string

text \<open>What is read of the session when the engine asks whether it has changed.\<close>

record session_view =
  sv_connection :: nat
  sv_ready :: bool
  sv_session :: session_state

datatype wait_event = Wait_cancelled exec_error | Wait_timer | Wait_tick session_view | Wait_frame response_frame session_view

record dispatch_env =
  de_sender :: bool
  de_ready :: bool
  de_socket_wait :: "exec_error option"
  de_ready_again :: bool
  de_socket_wait_again :: "exec_error option"
  de_namespace :: string
  de_dependencies :: "exec_error option"
  de_encode :: "exec_error option"
  de_request :: "intent_request option"
  de_effect :: "effect option"
  de_correlates :: bool
  de_response_number :: nat
  de_observer :: bool
  de_wire_observer :: bool
  de_correlated_observer :: bool
  de_correlated_wire_observer :: bool
  de_commit_observer :: bool
  de_collector :: bool
  de_metadata :: metadata
  de_session :: session_state
  de_connection :: "nat option"
  de_baseline_wait :: "exec_error option"
  de_permit :: "exec_error option"
  de_registered :: "string \<Rightarrow> bool"
  de_pre_dispatch :: "exec_error option"
  de_send_failure :: "exec_error option"
  de_response_failure :: "exec_error option"
  de_stale_response :: "exec_error option"
  de_provider :: bool
  de_phase :: "effect_phase \<Rightarrow> exec_error option"
  de_send :: "exec_error option"
  de_waits :: "wait_event list"
  de_guard :: "exec_error \<Rightarrow> exec_error"
  de_decode :: "string \<Rightarrow> exec_error + string"
  de_deadline_passed :: bool
  de_commit :: "exec_error + response_frame"
  de_commit_view :: session_view
  de_completed :: "response_frame \<Rightarrow> bool"
  de_refresh :: "exec_error option"

datatype dispatch_event =
    Pre_dispatched | Send_compensated | Phase_advanced effect_phase | Sent
  | Provider_definitive | Provider_indeterminate | Provider_completed
  | Commit_collected nat | Commit_forgotten nat | Commit_awaited nat
  | Response_compensated | Stale_handled | Coins_refreshed | Coin_evidence

text \<open>The exchange is kept if the step captures its response; the response is absent until one has arrived.\<close>

datatype dispatch_result = Still_waiting | Returned "response_frame option option" "exec_error option"

type_synonym command_run = "dispatch_event list \<times> dispatch_result"

definition mark_uncertain :: "exec_error \<Rightarrow> exec_error" where
  "mark_uncertain e = e\<lparr>ee_indeterminate := True\<rparr>"

definition response_code_error :: "response_frame \<Rightarrow> exec_error" where
  "response_code_error f = (plain_error (rf_opcode f))\<lparr>ee_response_code := rf_code f\<rparr>"

text \<open>A compensating action: its failure is joined to the error it compensates.\<close>

definition compensate ::
    "string \<Rightarrow> action_call \<Rightarrow> (string \<Rightarrow> bool) \<Rightarrow> exec_error option \<Rightarrow> dispatch_event \<Rightarrow> exec_error \<Rightarrow> dispatch_event list \<times> exec_error" where
  "compensate kind action registered outcome ev primary =
     (if ac_name action = [] then ([], primary)
      else if \<not> registered (ac_name action)
      then ([], join_errors primary (plain_error (kind @ '' action '' @ ac_name action @ '' is not registered'')))
      else ([ev], case outcome of None \<Rightarrow> primary | Some e \<Rightarrow> join_errors primary (wrap_error (kind @ '' action '' @ ac_name action) e)))"

definition compensate_send :: "dispatch_env \<Rightarrow> step \<Rightarrow> exec_error \<Rightarrow> dispatch_event list \<times> exec_error" where
  "compensate_send env s = compensate ''definitive-send-failure'' (st_send_failure s) (de_registered env) (de_send_failure env) Send_compensated"

definition compensate_response :: "dispatch_env \<Rightarrow> step \<Rightarrow> exec_error \<Rightarrow> dispatch_event list \<times> exec_error" where
  "compensate_response env s =
     compensate ''definitive-response-failure'' (st_response_failure s) (de_registered env) (de_response_failure env) Response_compensated"

definition handle_stale_response :: "dispatch_env \<Rightarrow> step \<Rightarrow> exec_error \<Rightarrow> dispatch_event list \<times> exec_error" where
  "handle_stale_response env s = compensate ''stale-response'' (st_stale_response s) (de_registered env) (de_stale_response env) Stale_handled"

section \<open>Before the command is sent\<close>

text \<open>The command with what the step and the sender fill in.\<close>

definition concrete_command :: "string \<Rightarrow> step \<Rightarrow> command" where
  "concrete_command namespace s =
     (let c = st_command s;
          c = (if cm_opcode c = [] then c\<lparr>cm_opcode := st_opcode s\<rparr> else c);
          c = (if cm_payload c = [] \<and> st_payload s \<noteq> [] then c\<lparr>cm_payload := st_payload s\<rparr> else c)
      in if cm_namespace c = [] \<and> \<not> cm_omit_namespace c then c\<lparr>cm_namespace := namespace\<rparr> else c)"

definition concrete_step :: "string \<Rightarrow> step \<Rightarrow> step" where
  "concrete_step namespace s =
     (let c = concrete_command namespace s in s\<lparr>st_opcode := cm_opcode c, st_payload := cm_payload c, st_command := c\<rparr>)"

text \<open>The responses awaited, and the opcode that is watched for rejections only.\<close>

definition watched_opcodes :: "intent_request option \<Rightarrow> string \<Rightarrow> step \<Rightarrow> string list \<times> string" where
  "watched_opcodes request opcode s =
     (let await_opcodes = step_await_opcodes s
      in case request of
           None \<Rightarrow> (await_opcodes, [])
         | Some r \<Rightarrow>
             if request_lane r = [] then (await_opcodes, [])
             else if await_opcodes = [] then (normalize_await_opcodes [opcode], [])
             else if opcode \<notin> set await_opcodes then (await_opcodes, opcode)
             else (await_opcodes, []))"

definition awaited_opcodes :: "dispatch_env \<Rightarrow> step \<Rightarrow> string list" where
  "awaited_opcodes env s = fst (watched_opcodes (de_request env) (cm_opcode (concrete_command (de_namespace env) s)) s)"

definition strict_response_correlation :: "effect option \<Rightarrow> bool" where
  "strict_response_correlation effect \<longleftrightarrow> effect \<noteq> Some Effect_read"

definition response_token :: "dispatch_env \<Rightarrow> step \<Rightarrow> string" where
  "response_token env s =
     (if de_correlates env \<and> awaited_opcodes env s \<noteq> [] \<and> strict_response_correlation (de_effect env)
      then let operation = trim_space (md_operation_id (de_metadata env))
           in (if operation = [] then ''response'' else operation) @ ''/'' @ show_nat (de_response_number env)
      else [])"

definition response_timeout_millis :: "step \<Rightarrow> int" where
  "response_timeout_millis s = (if st_timeout_millis s \<le> 0 then 10000 else st_timeout_millis s)"

definition observer_error :: "dispatch_env \<Rightarrow> step \<Rightarrow> exec_error option" where
  "observer_error env s =
     (if awaited_opcodes env s = [] then None
      else if \<not> de_observer env then Some (plain_error ''response observer is unavailable'')
      else if st_response_barrier s = barrier_wire \<or> st_response_barrier s = barrier_wire_then_committed then
        (if \<not> de_wire_observer env then Some (plain_error ''wire response observer is unavailable'')
         else if response_token env s \<noteq> [] \<and> \<not> de_correlated_wire_observer env
         then Some (plain_error ''correlated wire response observer is unavailable'') else None)
      else if response_token env s \<noteq> [] \<and> \<not> de_correlated_observer env
      then Some (plain_error ''correlated response observer is unavailable'') else None)"

text \<open>A sender that was not ready makes the plan stale once it is.\<close>

definition readiness_error :: "bool \<Rightarrow> exec_error option \<Rightarrow> exec_error option" where
  "readiness_error ready wait =
     (if ready then None else Some (case wait of Some e \<Rightarrow> e | None \<Rightarrow> stale_error ''game websocket became ready''))"

definition expected_connection :: "dispatch_env \<Rightarrow> nat" where
  "expected_connection env =
     (if md_connection_generation (de_metadata env) = 0 then ss_connection_generation (de_session env)
      else md_connection_generation (de_metadata env))"

definition connection_error :: "dispatch_env \<Rightarrow> exec_error option" where
  "connection_error env =
     (case de_connection env of
        None \<Rightarrow> None
      | Some at_send \<Rightarrow>
          if 0 < at_send \<and> (expected_connection env = 0 \<or> at_send \<noteq> expected_connection env \<or>
             ss_connection_generation (de_session env) \<noteq> expected_connection env)
          then Some (plain_error ''game connection changed'') else None)"

definition baseline_error :: "dispatch_env \<Rightarrow> exec_error option" where
  "baseline_error env =
     (if 0 < ss_generation (de_session env) \<and> \<not> session_has_authoritative_baseline (de_session env)
      then Some (case de_baseline_wait env of Some e \<Rightarrow> e | None \<Rightarrow> stale_error ''game session baseline became ready'')
      else None)"

text \<open>The metadata the command leaves with.\<close>

definition send_metadata :: "dispatch_env \<Rightarrow> step \<Rightarrow> metadata" where
  "send_metadata env s =
     (let md = (de_metadata env)\<lparr>md_response_identity := st_response_identity s\<rparr>
      in if 0 < expected_connection env \<or> response_token env s \<noteq> []
         then md\<lparr>md_connection_generation := expected_connection env, md_response_token := response_token env s,
                md_response_opcodes := awaited_opcodes env s, md_response_timeout_millis := response_timeout_millis s\<rparr>
         else md)"

text \<open>The first of several checks that fails.\<close>

fun first_error :: "exec_error option list \<Rightarrow> exec_error option" where
  "first_error [] = None"
| "first_error (e # es) = (case e of Some err \<Rightarrow> Some err | None \<Rightarrow> first_error es)"

definition preflight :: "dispatch_env \<Rightarrow> step \<Rightarrow> exec_error option" where
  "preflight env s = first_error
     [if de_sender env then None else Some (plain_error ''game websocket sender is unavailable''),
      readiness_error (de_ready env) (de_socket_wait env),
      de_dependencies env,
      readiness_error (de_ready_again env) (de_socket_wait_again env),
      de_encode env,
      observer_error env s,
      connection_error env,
      baseline_error env,
      de_permit env]"

text \<open>Marking the command and making its dispatch durable. From the marker on, a failure is compensated.\<close>

definition arm_dispatch :: "dispatch_env \<Rightarrow> step \<Rightarrow> dispatch_event list \<times> exec_error option" where
  "arm_dispatch env s =
     (let pre = ac_name (st_pre_dispatch s); final = ac_name (st_final_dispatch s) in
      if pre \<noteq> [] \<and> \<not> de_registered env pre then ([], Some (plain_error (''pre-dispatch action '' @ pre @ '' is not registered'')))
      else
        let armed = (if pre \<noteq> [] then [Pre_dispatched] else []);
            failed = (\<lambda>evs e. let (comp, err) = compensate_send env s e in (armed @ evs @ comp, Some err))
        in case (if pre \<noteq> [] then de_pre_dispatch env else None) of
             Some e \<Rightarrow> failed [] (wrap_error (''pre-dispatch action '' @ pre) e)
           | None \<Rightarrow>
               if final \<noteq> [] \<and> \<not> de_registered env final
               then failed [] (plain_error (''final-dispatch action '' @ final @ '' is not registered''))
               else case de_phase env Phase_dispatching of
                 Some e \<Rightarrow> failed [Phase_advanced Phase_dispatching] (wrap_error ''persist dispatching effect'' e)
               | None \<Rightarrow> (armed @ [Phase_advanced Phase_dispatching], None))"

text \<open>The validation the transport repeats right before it writes: the final action of the step, then the provider.\<close>

definition final_dispatch_validation :: "exec_error option option \<Rightarrow> exec_error option option \<Rightarrow> exec_error option" where
  "final_dispatch_validation action provider =
     (case action of
        Some (Some e) \<Rightarrow> Some e
      | _ \<Rightarrow> (case provider of Some (Some e) \<Rightarrow> Some e | _ \<Rightarrow> None))"

section \<open>After the command was sent\<close>

definition polls_session :: "dispatch_env \<Rightarrow> bool" where
  "polls_session env \<longleftrightarrow> 0 < expected_connection env \<or> 0 < ss_generation (de_session env)"

definition session_changed :: "dispatch_env \<Rightarrow> session_view \<Rightarrow> bool" where
  "session_changed env v \<longleftrightarrow>
     (if 0 < expected_connection env \<and> de_connection env \<noteq> None
      then sv_connection v \<noteq> expected_connection env \<or> \<not> sv_ready v
      else ss_generation (sv_session v) \<noteq> ss_generation (de_session env) \<or> \<not> ss_logged_in (sv_session v) \<or>
           \<not> ss_socket_ready (sv_session v))"

definition waiting_for :: "string \<Rightarrow> dispatch_env \<Rightarrow> step \<Rightarrow> string" where
  "waiting_for text env s = text @ '' '' @ join_with '' or '' (awaited_opcodes env s)"

definition captured :: "step \<Rightarrow> response_frame option \<Rightarrow> response_frame option option" where
  "captured s f = (if st_capture_response s then Some f else None)"

text \<open>The deferred call: a provider that has not heard how the command ended is told that it is uncertain.\<close>

definition settle_provider :: "dispatch_env \<Rightarrow> bool \<Rightarrow> dispatch_event list" where
  "settle_provider env handled = (if de_provider env \<and> \<not> handled then [Provider_indeterminate] else [])"

text \<open>The exact confirmation some steps ask for; \<open>decode\<close> gives the JSON value of a text.\<close>

definition validate_expected_response_payload :: "(string \<Rightarrow> exec_error + string) \<Rightarrow> string \<Rightarrow> string \<Rightarrow> exec_error option" where
  "validate_expected_response_payload decode expected actual =
     (if expected = [] then None
      else case decode expected of
             Inl e \<Rightarrow> Some (wrap_error ''decode expected response payload'' e)
           | Inr x \<Rightarrow>
               (case decode actual of
                  Inl e \<Rightarrow> Some (wrap_error ''decode response payload for exact confirmation'' e)
                | Inr y \<Rightarrow>
                    if x = y then None
                    else Some (plain_error ''response payload did not match the exact expected confirmation'')))"

definition rejected_frame :: "response_frame \<Rightarrow> bool" where
  "rejected_frame f = (case rf_code f of None \<Rightarrow> False | Some code \<Rightarrow> code \<noteq> 0)"

definition retried_frame :: "step \<Rightarrow> response_frame \<Rightarrow> bool" where
  "retried_frame s f =
     (case (st_response_retry s, rf_code f) of (Some policy, Some code) \<Rightarrow> code \<in> set (rp_codes policy) | _ \<Rightarrow> False)"

text \<open>What the provider is told of a rejection: a code that will be retried has been paid for.\<close>

definition rejection_told :: "dispatch_env \<Rightarrow> step \<Rightarrow> response_frame \<Rightarrow> dispatch_event list" where
  "rejection_told env s f =
     (if rejected_frame f \<and> de_provider env then [if retried_frame s f then Provider_completed else Provider_definitive] else [])"

text \<open>A code that is missing or none of those that mean success: events and error.\<close>

definition code_verdict :: "dispatch_env \<Rightarrow> step \<Rightarrow> response_frame \<Rightarrow> (dispatch_event list \<times> exec_error) option" where
  "code_verdict env s f =
     (if st_success_codes s = [] then None
      else case rf_code f of
        None \<Rightarrow>
          let err = plain_error ''response did not include a result code''
          in Some (if st_projection_indeterminate s then ([Phase_advanced Phase_reconciliation_required], mark_uncertain err) else ([], err))
      | Some code \<Rightarrow>
          if code \<in> set (st_success_codes s) then None
          else if retried_frame s f then
            Some (case de_phase env Phase_observed of
                    Some e \<Rightarrow> ([Phase_advanced Phase_observed], mark_uncertain (wrap_error ''persist observed retry response'' e))
                  | None \<Rightarrow>
                      if rejected_frame f \<and> de_provider env \<and> de_completed env f
                      then ([Phase_advanced Phase_observed, Coins_refreshed],
                            case de_refresh env of
                              Some e \<Rightarrow> mark_uncertain (wrap_error ''refresh coins after consumed retry'' e)
                            | None \<Rightarrow> response_code_error f)
                      else ([Phase_advanced Phase_observed], response_code_error f))
          else if code \<in> set (st_stale_codes s)
          then Some (handle_stale_response env s ((response_code_error f)\<lparr>ee_plan_stale := True\<rparr>))
          else Some (compensate_response env s (response_code_error f)))"

text \<open>Why a response does not count; \<open>None\<close> if it does.\<close>

definition frame_verdict :: "dispatch_env \<Rightarrow> step \<Rightarrow> response_frame \<Rightarrow> session_view \<Rightarrow> (dispatch_event list \<times> exec_error) option" where
  "frame_verdict env s f v =
     (if rejected_frame f \<and> ee_lane_locked (de_guard env (response_code_error f))
      then Some ([], de_guard env (response_code_error f))
      else if polls_session env \<and> session_changed env v
      then Some ([], mark_uncertain (plain_error (waiting_for ''game session changed while waiting for'' env s)))
      else case code_verdict env s f of
        Some r \<Rightarrow> Some r
      | None \<Rightarrow> map_option (Pair []) (validate_expected_response_payload (de_decode env) (st_expected_payload s) (rf_payload f)))"

text \<open>A response taken from the wire is followed until it has been committed to the state.\<close>

definition two_stage :: "step \<Rightarrow> bool" where
  "two_stage s \<longleftrightarrow> st_response_barrier s = barrier_wire_then_committed"

definition commit_stage :: "dispatch_env \<Rightarrow> step \<Rightarrow> response_frame \<Rightarrow> dispatch_event list \<times> (exec_error + response_frame)" where
  "commit_stage env s f =
     (if \<not> two_stage s then ([], Inr f)
      else if de_deadline_passed env then ([], Inl (plain_error (waiting_for ''timed out waiting for state commit of'' env s)))
      else ([Commit_awaited (rf_ingress f)],
            case de_commit env of
              Inl e \<Rightarrow> Inl (wrap_error (waiting_for ''wait for state commit of'' env s) e)
            | Inr g \<Rightarrow>
                if polls_session env \<and> session_changed env (de_commit_view env)
                then Inl (plain_error (waiting_for ''game session changed while committing'' env s)) else Inr g))"

text \<open>The end of a response that counts: events, whether the provider has been told, and the error.\<close>

definition projection_stage :: "dispatch_env \<Rightarrow> step \<Rightarrow> response_frame \<Rightarrow> dispatch_event list \<times> bool \<times> exec_error option" where
  "projection_stage env s g =
     (if rf_reduce_error g \<noteq> [] then
        let told = (de_provider env \<and> rf_code g = Some 0);
            evs = (if told then [Provider_completed] else []);
            err = plain_error (''response state reduction failed: '' @ rf_reduce_error g)
        in if st_projection_indeterminate s
           then (evs @ [Phase_advanced Phase_reconciliation_required], told, Some (mark_uncertain err)) else (evs, told, Some err)
      else
        let evs = (if de_provider env then [Provider_completed] else []) @ [Phase_advanced Phase_observed]
        in case de_phase env Phase_observed of
             Some e \<Rightarrow> (evs, True, Some (mark_uncertain (wrap_error ''persist observed effect'' e)))
           | None \<Rightarrow> (evs @ (if de_provider env \<and> de_completed env g
                             then Coins_refreshed # (if de_refresh env \<noteq> None then [Coin_evidence] else []) else []), True, None))"

text \<open>The whole handling of a response, with the deferred calls at its end.\<close>

definition handle_frame :: "dispatch_env \<Rightarrow> step \<Rightarrow> response_frame \<Rightarrow> session_view \<Rightarrow> command_run" where
  "handle_frame env s f v =
     (if two_stage s \<and> \<not> de_commit_observer env
      then (settle_provider env False,
            Returned (captured s None) (Some (plain_error ''committed wire response observer is unavailable'')))
      else
        let collected = (if st_response_barrier s = barrier_wire
                         then (if de_collector env then [Commit_collected (rf_ingress f)]
                               else if de_commit_observer env then [Commit_forgotten (rf_ingress f)] else [])
                         else []);
            forget = (if two_stage s then [Commit_forgotten (rf_ingress f)] else []);
            told = rejection_told env s f
        in case frame_verdict env s f v of
             Some (evs, err) \<Rightarrow> (collected @ told @ evs @ forget @ settle_provider env (told \<noteq> []), Returned (captured s (Some f)) (Some err))
           | None \<Rightarrow>
               (case commit_stage env s f of
                  (waited, Inl err) \<Rightarrow>
                    (collected @ told @ waited @ forget @ settle_provider env (told \<noteq> []), Returned (captured s (Some f)) (Some err))
                | (waited, Inr g) \<Rightarrow>
                    (case projection_stage env s g of
                       (evs, confirmed, err) \<Rightarrow>
                         (collected @ told @ waited @ evs @ forget @ settle_provider env (told \<noteq> [] \<or> confirmed),
                          Returned (captured s (Some (if rf_reduce_error g \<noteq> [] then f else g))) err))))"

text \<open>Waiting for the response. A tick of the session timer that shows no change goes on waiting.\<close>

fun await_response :: "dispatch_env \<Rightarrow> step \<Rightarrow> wait_event list \<Rightarrow> command_run" where
  "await_response env s [] = ([], Still_waiting)"
| "await_response env s (Wait_cancelled e # ws) =
     (settle_provider env False, Returned (captured s None) (Some (mark_uncertain e)))"
| "await_response env s (Wait_timer # ws) =
     (settle_provider env False, Returned (captured s None) (Some (mark_uncertain (plain_error (waiting_for ''timed out waiting for'' env s)))))"
| "await_response env s (Wait_tick v # ws) =
     (if polls_session env \<and> session_changed env v
      then (settle_provider env False,
            Returned (captured s None) (Some (mark_uncertain (plain_error (waiting_for ''game session changed while waiting for'' env s)))))
      else await_response env s ws)"
| "await_response env s (Wait_frame f v # ws) = handle_frame env s f v"

definition after_send :: "dispatch_env \<Rightarrow> step \<Rightarrow> command_run" where
  "after_send env s =
     (if awaited_opcodes env s = []
      then (settle_provider env False @ [Phase_advanced Phase_sent],
            Returned (captured s None) (case de_phase env Phase_sent of
              Some e \<Rightarrow> Some (mark_uncertain (wrap_error ''persist sent effect'' e)) | None \<Rightarrow> None))
      else case de_phase env Phase_awaiting_response of
             Some e \<Rightarrow> (Phase_advanced Phase_awaiting_response # settle_provider env False,
                        Returned (captured s None) (Some (mark_uncertain (wrap_error ''persist response wait'' e))))
           | None \<Rightarrow> (let (evs, r) = await_response env s (de_waits env) in (Phase_advanced Phase_awaiting_response # evs, r)))"

definition send_command :: "dispatch_env \<Rightarrow> step \<Rightarrow> command_run" where
  "send_command env s =
     (case de_send env of
        None \<Rightarrow> (let (evs, r) = after_send env s in (Sent # evs, r))
      | Some e \<Rightarrow>
          if ee_indeterminate e
          then (Sent # settle_provider env False @ [Phase_advanced Phase_reconciliation_required], Returned None (Some e))
          else
            let (comp, err) = compensate_send env s e
            in (Sent # (if de_provider env then [Provider_definitive] else []) @ comp, Returned None (Some err)))"

text \<open>The part of \<open>executeStep\<close> for a command.\<close>

definition dispatch_command :: "dispatch_env \<Rightarrow> step \<Rightarrow> command_run" where
  "dispatch_command env s =
     (case preflight env s of
        Some e \<Rightarrow> ([], Returned None (Some e))
      | None \<Rightarrow>
          (case arm_dispatch env s of
             (evs, Some e) \<Rightarrow> (evs, Returned None (Some e))
           | (evs, None) \<Rightarrow> (let (later, r) = send_command env s in (evs @ later, r))))"

section \<open>Resolvers, actions and dependencies\<close>

text \<open>The steps of \<open>normalizePlan\<close>; nothing else of the plan matters here.\<close>

definition normalize_steps :: "step list \<Rightarrow> step list" where
  "normalize_steps steps = apply_automatic_response_barriers (map normalize_step steps)"

lemma normalize_plan_steps: "pn_steps (normalize_plan d n p) = normalize_steps (pn_steps p)"
  by (simp add: normalize_plan_def normalize_steps_def Let_def)

text \<open>The children of a batch, each with whether it has a batch of its own.\<close>

fun batch_error :: "string list \<Rightarrow> (step \<times> bool) list \<Rightarrow> nat \<Rightarrow> exec_error option" where
  "batch_error awaited [] commands = (if commands = 0 then Some (plain_error ''batch resolver returned no commands'') else None)"
| "batch_error awaited ((c, nested) # cs) commands =
     (if ac_name (st_resolver c) \<noteq> [] \<or> nested \<or> st_resume_policy c = resume_rebuild
      then Some (plain_error ''batch resolver must return concrete resumable steps'')
      else if ac_name (st_action c) \<noteq> [] then
        (if st_opcode c \<noteq> [] \<or> step_await_opcodes c \<noteq> [] then Some (plain_error ''batch action cannot declare a command'')
         else batch_error awaited cs commands)
      else if st_opcode c = [] \<or> \<not> same_strings awaited (step_await_opcodes c)
      then Some (plain_error ''batch resolver changed its declared response claims'')
      else batch_error awaited cs (commands + 1))"

datatype step_run = Ran command_run | Expanded "step list"

definition failed_step :: "exec_error \<Rightarrow> step_run" where
  "failed_step e = Ran ([], Returned None (Some e))"

text \<open>A step without a resolver: its delay, then its action or its command.\<close>

definition run_concrete :: "exec_error option \<Rightarrow> exec_error option \<Rightarrow> dispatch_env \<Rightarrow> step \<Rightarrow> command_run" where
  "run_concrete delay_err action_err env s =
     (if 0 < st_delay_millis s \<and> delay_err \<noteq> None then ([], Returned None delay_err)
      else if 0 < st_delay_millis s \<and> ac_name (st_action s) = [] \<and> st_opcode s = [] \<and> cm_opcode (st_command s) = []
      then ([], Returned None None)
      else if ac_name (st_action s) \<noteq> [] then
        (if \<not> de_registered env (ac_name (st_action s))
         then ([], Returned None (Some (plain_error (''action '' @ ac_name (st_action s) @ '' is not registered''))))
         else ([], Returned None (map_option (de_guard env) action_err)))
      else dispatch_command env s)"

text \<open>\<open>executeStep\<close>. The resolver's answer is an error or a step, with the children of its batch;
  \<open>env\<close> is what the resolved step meets.\<close>

definition execute_resolved ::
    "exec_error option \<Rightarrow> exec_error option \<Rightarrow> exec_error option \<Rightarrow> (exec_error + step \<times> (step \<times> bool) list) option \<Rightarrow>
     exec_error option \<Rightarrow> dispatch_env \<Rightarrow> step \<Rightarrow> step_run" where
  "execute_resolved delay_err resolver_dependencies inner_delay_err answer action_err env s =
     (if ac_name (st_resolver s) = [] then Ran (run_concrete delay_err action_err env s)
      else if 0 < st_delay_millis s \<and> delay_err \<noteq> None then failed_step (the delay_err)
      else case answer of
        None \<Rightarrow> failed_step (plain_error (''step resolver '' @ ac_name (st_resolver s) @ '' is not registered''))
      | Some answer \<Rightarrow>
          (case (if st_dependencies s \<noteq> None then resolver_dependencies else None) of
             Some e \<Rightarrow> failed_step e
           | None \<Rightarrow>
               (case answer of
                  Inl e \<Rightarrow> failed_step e
                | Inr (resolved, children) \<Rightarrow>
                    if children \<noteq> [] then
                      (if st_dependencies s \<noteq> None then failed_step (plain_error ''batch resolver cannot cache command dependencies'')
                       else
                         let batch = normalize_steps (map fst children)
                         in case batch_error (step_await_opcodes s) (zip batch (map snd children)) 0 of
                              Some e \<Rightarrow> failed_step e
                            | None \<Rightarrow> Expanded batch)
                    else if trim_space (ac_name (st_resolver resolved)) \<noteq> [] \<or> trim_space (ac_name (st_action resolved)) \<noteq> []
                    then failed_step (plain_error (''step resolver '' @ ac_name (st_resolver s) @ '' must return one concrete command step''))
                    else
                      let r = hd (normalize_steps [resolved])
                      in if \<not> same_strings (step_await_opcodes s) (step_await_opcodes r)
                         then failed_step (plain_error (''step resolver '' @ ac_name (st_resolver s) @ '' changed its declared response claims''))
                         else Ran (run_concrete inner_delay_err action_err env r))))"

text \<open>\<open>executeCommandDependencies\<close>: \<open>exec\<close> runs one dependency. The result is the route key, or an error, and the
  dependencies that were run. \<open>receipt\<close> names the dependencies that were run for the resolver.\<close>

fun run_dependency_steps :: "string \<Rightarrow> (step \<Rightarrow> exec_error option) \<Rightarrow> step list \<Rightarrow> exec_error option \<times> step list" where
  "run_dependency_steps opcode exec [] = (None, [])"
| "run_dependency_steps opcode exec (d # ds) =
     (let n = hd (normalize_steps [d])
      in case exec n of
           Some e \<Rightarrow> (Some (wrap_error (opcode @ '' dependency '' @ step_label n) e), [n])
         | None \<Rightarrow> (let (r, sofar) = run_dependency_steps opcode exec ds in (r, n # sofar)))"

definition execute_command_dependencies ::
    "(string \<Rightarrow> (exec_error + string \<times> step list) option) \<Rightarrow> (string \<times> string) option \<Rightarrow> exec_error option \<Rightarrow>
     (step \<Rightarrow> exec_error option) \<Rightarrow> step \<Rightarrow> (exec_error + string) \<times> step list" where
  "execute_command_dependencies resolvers receipt lane_wait exec s =
     (let opcode = norm_str (cm_opcode (st_command s)) in
      case resolvers opcode of
        None \<Rightarrow> (Inr [], [])
      | Some (Inl e) \<Rightarrow> (Inl e, [])
      | Some (Inr (key, steps)) \<Rightarrow>
          let key = trim_space key in
          if key = [] then (Inl (plain_error (opcode @ '' command dependencies require a route key'')), [])
          else case receipt of
            Some (receipt_opcode, receipt_key) \<Rightarrow>
              if receipt_opcode \<noteq> opcode \<or> receipt_key \<noteq> key
              then (Inl (plain_error (''resolved '' @ opcode @ '' command changed after its dependencies ran'')), [])
              else (Inr key, [])
          | None \<Rightarrow>
              (case (if opcode = ''cra'' then lane_wait else None) of
                 Some e \<Rightarrow> (Inl e, [])
               | None \<Rightarrow>
                   (case run_dependency_steps opcode exec steps of
                      (Some e, sofar) \<Rightarrow> (Inl e, sofar)
                    | (None, sofar) \<Rightarrow> (Inr key, sofar))))"

section \<open>What each stage does\<close>

definition provider_outcomes :: "dispatch_event set" where
  "provider_outcomes = {Provider_definitive, Provider_indeterminate, Provider_completed}"

lemma compensate_set:
  "set (fst (compensate kind action registered outcome ev primary)) = (if ac_name action \<noteq> [] \<and> registered (ac_name action) then {ev} else {})"
  by (simp add: compensate_def)

lemma compensate_flags:
  "ee_indeterminate primary \<Longrightarrow> ee_indeterminate (snd (compensate kind action registered outcome ev primary))"
  by (simp add: compensate_def join_errors_def split: option.split)

lemma settle_provider_set [simp]: "set (settle_provider env handled) = (if de_provider env \<and> \<not> handled then {Provider_indeterminate} else {})"
  by (simp add: settle_provider_def)

lemma mark_uncertain_flag [simp]: "ee_indeterminate (mark_uncertain e)"
  by (simp add: mark_uncertain_def)

lemma rejection_told_outcome: "set (rejection_told env s f) \<subseteq> provider_outcomes"
  by (auto simp: rejection_told_def provider_outcomes_def)

lemma projection_told:
  "projection_stage env s g = (evs, True, err) \<Longrightarrow> de_provider env \<Longrightarrow> Provider_completed \<in> set evs"
  by (auto simp: projection_stage_def Let_def split: if_splits option.splits)

lemma handle_frame_outcome:
  assumes p: "de_provider env"
  shows "set (fst (handle_frame env s f v)) \<inter> provider_outcomes \<noteq> {}"
proof -
  let ?told = "rejection_told env s f"
  have told: "set ?told \<inter> provider_outcomes \<noteq> {}" if "?told \<noteq> []"
    using rejection_told_outcome [of env s f] that by (cases ?told) auto
  have settle: "Provider_indeterminate \<in> provider_outcomes" by (simp add: provider_outcomes_def)
  show ?thesis
  proof (cases "two_stage s \<and> \<not> de_commit_observer env")
    case True
    then show ?thesis using p settle by (simp add: handle_frame_def)
  next
    case False
    note frame = handle_frame_def [of env s f v] if_not_P [OF False] Let_def
    show ?thesis
    proof (cases "frame_verdict env s f v")
      case (Some r)
      then show ?thesis unfolding frame using told p settle by (cases r; cases "?told = []") auto
    next
      case None
      obtain waited c where c: "commit_stage env s f = (waited, c)" by (cases "commit_stage env s f")
      show ?thesis
      proof (cases c)
        case (Inl err)
        with None c show ?thesis unfolding frame using told p settle by (cases "?told = []") auto
      next
        case (Inr g)
        obtain evs confirmed err where g: "projection_stage env s g = (evs, confirmed, err)" by (cases "projection_stage env s g")
        have "confirmed \<Longrightarrow> set evs \<inter> provider_outcomes \<noteq> {}"
          using projection_told [of env s g evs err] g p by (auto simp: provider_outcomes_def)
        with None c Inr g show ?thesis unfolding frame using told p settle by (cases "?told = []"; cases confirmed) auto
      qed
    qed
  qed
qed

lemma handle_frame_cases:
  assumes "handle_frame env s f v = (evs, r)"
  obtains (unobserved) e where "r = Returned (captured s None) (Some e)" "set evs \<subseteq> {Provider_indeterminate}"
  | (refused) es e where "frame_verdict env s f v = Some (es, e)" "r = Returned (captured s (Some f)) (Some e)"
  | (uncommitted) waited e where "frame_verdict env s f v = None" "commit_stage env s f = (waited, Inl e)"
      "r = Returned (captured s (Some f)) (Some e)"
  | (projected) waited g es told err where "frame_verdict env s f v = None" "commit_stage env s f = (waited, Inr g)"
      "projection_stage env s g = (es, told, err)" "r = Returned (captured s (Some (if rf_reduce_error g \<noteq> [] then f else g))) err"
      "set es \<subseteq> set evs"
proof (cases "two_stage s \<and> \<not> de_commit_observer env")
  case True
  with assms show ?thesis by (intro unobserved) (auto simp: handle_frame_def split: if_splits)
next
  case False
  note frame = assms [unfolded handle_frame_def if_not_P [OF False] Let_def]
  show ?thesis
  proof (cases "frame_verdict env s f v")
    case (Some x)
    with frame show ?thesis by (cases x) (auto intro: refused)
  next
    case None
    show ?thesis
    proof (cases "snd (commit_stage env s f)")
      case (Inl e)
      with None frame show ?thesis by (cases "commit_stage env s f") (auto intro: uncommitted)
    next
      case (Inr g)
      obtain es told err where "projection_stage env s g = (es, told, err)" by (cases "projection_stage env s g")
      with None Inr frame show ?thesis by (cases "commit_stage env s f") (auto intro!: projected)
    qed
  qed
qed

lemma await_response_result:
  "await_response env s ws = (evs, r) \<Longrightarrow>
   r = Still_waiting \<and> evs = [] \<or>
   (\<exists>e. ee_indeterminate e \<and> r = Returned (captured s None) (Some e) \<and> evs = settle_provider env False) \<or>
   (\<exists>f v. Wait_frame f v \<in> set ws \<and> handle_frame env s f v = (evs, r))"
proof (induction env s ws rule: await_response.induct)
  case (4 env s v ws)
  then show ?case by (cases "polls_session env \<and> session_changed env v") auto
qed auto

lemma await_response_cases:
  assumes "await_response env s ws = (evs, r)"
  obtains (waiting) "r = Still_waiting" "evs = []"
  | (ended) e where "ee_indeterminate e" "r = Returned (captured s None) (Some e)" "evs = settle_provider env False"
  | (answered) f v where "Wait_frame f v \<in> set ws" "handle_frame env s f v = (evs, r)"
  using await_response_result [OF assms] by blast

lemma preflight_silent: "preflight env s = Some e \<Longrightarrow> dispatch_command env s = ([], Returned None (Some e))"
  by (simp add: dispatch_command_def)

definition send_compensations :: "dispatch_env \<Rightarrow> step \<Rightarrow> dispatch_event list" where
  "send_compensations env s =
     (if ac_name (st_send_failure s) \<noteq> [] \<and> de_registered env (ac_name (st_send_failure s)) then [Send_compensated] else [])"

lemma compensate_send_events: "fst (compensate_send env s e) = send_compensations env s"
  by (simp add: compensate_send_def compensate_def send_compensations_def)

lemma arm_dispatch_cases:
  assumes "arm_dispatch env s = (evs, err)"
  obtains (unregistered) e where "ac_name (st_pre_dispatch s) \<noteq> []" "evs = []" "err = Some e"
  | (failed) ps e where "evs = (if ac_name (st_pre_dispatch s) \<noteq> [] then [Pre_dispatched] else []) @ ps @ send_compensations env s"
      "set ps \<subseteq> {Phase_advanced Phase_dispatching}" "err = Some e"
  | (armed) "evs = (if ac_name (st_pre_dispatch s) \<noteq> [] then [Pre_dispatched] else []) @ [Phase_advanced Phase_dispatching]" "err = None"
proof -
  have comp: "(case compensate_send env s e of (cs, err) \<Rightarrow> (armed @ ps @ cs, Some err)) =
      (armed @ ps @ send_compensations env s, Some (snd (compensate_send env s e)))" for armed ps e
    using compensate_send_events [of env s e] by (simp add: split_beta)
  show ?thesis
    using assms unregistered failed armed
    unfolding arm_dispatch_def Let_def comp
    by (cases "ac_name (st_pre_dispatch s) \<noteq> [] \<and> \<not> de_registered env (ac_name (st_pre_dispatch s))")
      (fastforce split: if_splits option.splits)+
qed

text \<open>The whole dispatch, by how far it came.\<close>

lemma dispatch_command_cases:
  assumes "dispatch_command env s = (evs, r)"
  obtains (stopped) e where "preflight env s = Some e" "evs = []" "r = Returned None (Some e)"
  | (disarmed) e where "arm_dispatch env s = (evs, Some e)" "r = Returned None (Some e)"
  | (sent) as later where "arm_dispatch env s = (as, None)" "send_command env s = (later, r)" "evs = as @ later"
  using assms by (auto simp: dispatch_command_def split: option.splits prod.splits)

lemma send_command_cases:
  assumes "send_command env s = (evs, r)"
  obtains (accepted) later where "de_send env = None" "after_send env s = (later, r)" "evs = Sent # later"
  | (uncertain) e where "de_send env = Some e" "ee_indeterminate e" "r = Returned None (Some e)"
      "evs = Sent # settle_provider env False @ [Phase_advanced Phase_reconciliation_required]"
  | (unsent) e e' where "de_send env = Some e" "\<not> ee_indeterminate e" "r = Returned None (Some e')"
      "evs = Sent # (if de_provider env then [Provider_definitive] else []) @ send_compensations env s"
proof (cases "de_send env")
  case None
  with assms show ?thesis using accepted by (auto simp: send_command_def split: prod.splits)
next
  case (Some e)
  show ?thesis
  proof (cases "ee_indeterminate e")
    case True
    with Some assms show ?thesis by (intro uncertain [of e]) (auto simp: send_command_def)
  next
    case False
    with Some assms compensate_send_events [of env s e] show ?thesis
      by (intro unsent [of e "snd (compensate_send env s e)"]) (auto simp: send_command_def split_beta)
  qed
qed

lemma arm_dispatch_set:
  assumes "arm_dispatch env s = (evs, err)"
  shows "set evs \<subseteq> {Pre_dispatched, Send_compensated, Phase_advanced Phase_dispatching}"
  using assms by (cases rule: arm_dispatch_cases) (auto simp: send_compensations_def split: if_splits)

lemma after_send_outcome:
  assumes "after_send env s = (evs, Returned ex err)" and "de_provider env"
  shows "set evs \<inter> provider_outcomes \<noteq> {}"
proof (cases "awaited_opcodes env s = [] \<or> de_phase env Phase_awaiting_response \<noteq> None")
  case True
  then show ?thesis using assms by (auto simp: after_send_def provider_outcomes_def split: if_splits option.splits)
next
  case False
  then obtain es where es: "await_response env s (de_waits env) = (es, Returned ex err)" "evs = Phase_advanced Phase_awaiting_response # es"
    using assms(1) by (auto simp: after_send_def split: prod.splits)
  from es(1) show ?thesis
  proof (cases rule: await_response_cases)
    case (answered f v)
    then show ?thesis using handle_frame_outcome [OF assms(2), of s f v] es(2) by simp
  qed (use es(2) assms(2) in \<open>auto simp: provider_outcomes_def\<close>)
qed

text \<open>None of the events up to the transport happens after it.\<close>

definition early_events :: "dispatch_event set" where
  "early_events = {Pre_dispatched, Send_compensated, Sent}"

lemma code_verdict_late: "code_verdict env s f = Some (es, e) \<Longrightarrow> set es \<inter> early_events = {}"
  using compensate_set [of "''stale-response''"] compensate_set [of "''definitive-response-failure''"]
  by (auto simp: code_verdict_def early_events_def handle_stale_response_def compensate_response_def compensate_def Let_def
      split: if_splits option.splits)

lemma frame_verdict_late: "frame_verdict env s f v = Some (es, e) \<Longrightarrow> set es \<inter> early_events = {}"
  using code_verdict_late [of env s f es e] by (auto simp: frame_verdict_def split: if_splits option.splits)

lemma commit_stage_late: "set (fst (commit_stage env s f)) \<inter> early_events = {}"
  by (simp add: commit_stage_def early_events_def)

lemma projection_stage_late: "set (fst (projection_stage env s g)) \<inter> early_events = {}"
  by (simp add: projection_stage_def early_events_def Let_def split: option.split)

lemma rejection_told_late: "set (rejection_told env s f) \<inter> early_events = {}"
  by (simp add: rejection_told_def early_events_def)

lemma handle_frame_late: "set (fst (handle_frame env s f v)) \<inter> early_events = {}"
proof -
  have settle: "set (settle_provider env h) \<inter> early_events = {}" for h by (simp add: early_events_def)
  have own: "Commit_collected i \<notin> early_events" "Commit_forgotten i \<notin> early_events" for i by (simp_all add: early_events_def)
  note parts = settle own rejection_told_late [of env s f]
  show ?thesis
  proof (cases "two_stage s \<and> \<not> de_commit_observer env")
    case True
    then show ?thesis by (simp add: handle_frame_def early_events_def)
  next
    case False
    note frame = handle_frame_def [of env s f v] if_not_P [OF False] Let_def
    show ?thesis
    proof (cases "frame_verdict env s f v")
      case (Some x)
      then show ?thesis unfolding frame using parts frame_verdict_late [of env s f v] by (cases x) (auto simp del: settle_provider_set)
    next
      case None
      obtain waited c where c: "commit_stage env s f = (waited, c)" by (cases "commit_stage env s f")
      have w: "set waited \<inter> early_events = {}" using commit_stage_late [of env s f] c by simp
      show ?thesis
      proof (cases c)
        case (Inl err)
        with None c w show ?thesis unfolding frame using parts by (auto simp del: settle_provider_set)
      next
        case (Inr g)
        obtain evs told err where g: "projection_stage env s g = (evs, told, err)" by (cases "projection_stage env s g")
        have "set evs \<inter> early_events = {}" using projection_stage_late [of env s g] g by simp
        with None c Inr g w show ?thesis unfolding frame using parts by (auto simp del: settle_provider_set)
      qed
    qed
  qed
qed

lemma after_send_late: "after_send env s = (evs, r) \<Longrightarrow> set evs \<inter> early_events = {}"
proof (cases "awaited_opcodes env s = [] \<or> de_phase env Phase_awaiting_response \<noteq> None")
  case True
  then show "after_send env s = (evs, r) \<Longrightarrow> ?thesis" by (auto simp: after_send_def early_events_def split: if_splits option.splits)
next
  case False
  assume "after_send env s = (evs, r)"
  with False obtain es where es: "await_response env s (de_waits env) = (es, r)" "evs = Phase_advanced Phase_awaiting_response # es"
    by (auto simp: after_send_def split: prod.splits)
  from es(1) show ?thesis
  proof (cases rule: await_response_cases)
    case (answered f v)
    then show ?thesis using handle_frame_late [of env s f v] es(2) by (simp add: early_events_def)
  qed (use es(2) in \<open>auto simp: early_events_def split: if_splits\<close>)
qed

section \<open>Properties\<close>




text \<open>C14. As long as no response has arrived, a command that the transport has taken never ends as a definite failure, and
  nothing is compensated.\<close>

theorem unanswered_command_is_uncertain:
  assumes "dispatch_command env s = (evs, Returned ex (Some e))" and "de_send env = None" and "Sent \<in> set evs"
    and "\<And>f v. Wait_frame f v \<notin> set (de_waits env)"
  shows "ee_indeterminate e \<and> Send_compensated \<notin> set evs \<and> Response_compensated \<notin> set evs \<and>
    (Provider_indeterminate \<in> set evs \<longleftrightarrow> de_provider env) \<and> Provider_definitive \<notin> set evs \<and> Provider_completed \<notin> set evs"
  using assms(1)
proof (cases rule: dispatch_command_cases)
  case (disarmed e)
  with arm_dispatch_set [OF disarmed(1)] assms(3) show ?thesis by auto
next
  case (sent as later)
  have as: "set as \<subseteq> {Pre_dispatched, Phase_advanced Phase_dispatching}"
    using sent(1) by (cases rule: arm_dispatch_cases) auto
  from sent(2) show ?thesis
  proof (cases rule: send_command_cases)
    case (accepted more)
    have "ee_indeterminate e \<and> set more \<subseteq> {Phase_advanced Phase_sent, Phase_advanced Phase_awaiting_response, Provider_indeterminate} \<and>
        (Provider_indeterminate \<in> set more \<longleftrightarrow> de_provider env)"
    proof (cases "awaited_opcodes env s = [] \<or> de_phase env Phase_awaiting_response \<noteq> None")
      case True
      then show ?thesis using accepted(2) by (auto simp: after_send_def split: if_splits option.splits)
    next
      case False
      with accepted(2) obtain es where es: "await_response env s (de_waits env) = (es, Returned ex (Some e))"
          "more = Phase_advanced Phase_awaiting_response # es"
        by (auto simp: after_send_def split: prod.splits)
      from es(1) show ?thesis
        by (cases rule: await_response_cases) (use es(2) assms(4) in auto)
    qed
    with as sent(3) accepted(3) show ?thesis by auto
  qed (use assms(2) in auto)
qed (use assms(3) in simp)

text \<open>A rejection that locks the lane of an automation ends the step before anything is compensated.\<close>

lemma lane_lock_skips_compensation:
  assumes "rejected_frame f" and "ee_lane_locked (de_guard env (response_code_error f))" and "two_stage s \<longrightarrow> de_commit_observer env"
  shows "snd (handle_frame env s f v) = Returned (captured s (Some f)) (Some (de_guard env (response_code_error f))) \<and>
    Response_compensated \<notin> set (fst (handle_frame env s f v))"
  using assms by (auto simp: handle_frame_def frame_verdict_def Let_def rejection_told_def split: if_splits)

text \<open>A response that counts but could not be committed ends as a definite failure, even if the step asks for failures of
  the projection to be uncertain; the provider is told that the outcome is uncertain.\<close>

lemma uncommitted_response_is_definite:
  assumes "two_stage s" and "de_commit_observer env" and "frame_verdict env s f v = None" and "\<not> rejected_frame f" and "de_provider env"
    and "\<not> de_deadline_passed env" and "de_commit env = Inl e" and "\<not> ee_indeterminate e"
  shows "\<exists>e'. snd (handle_frame env s f v) = Returned (captured s (Some f)) (Some e') \<and> \<not> ee_indeterminate e' \<and>
    Provider_indeterminate \<in> set (fst (handle_frame env s f v))"
  using assms by (simp add: handle_frame_def commit_stage_def rejection_told_def Let_def wrap_error_def)

lemma batch_error_None:
  assumes "batch_error awaited cs n = None" and "(c, nested) \<in> set cs"
  shows "ac_name (st_resolver c) = [] \<and> \<not> nested \<and> st_resume_policy c \<noteq> resume_rebuild \<and>
    (if ac_name (st_action c) \<noteq> [] then st_opcode c = [] \<and> step_await_opcodes c = []
     else st_opcode c \<noteq> [] \<and> same_strings awaited (step_await_opcodes c))"
  using assms by (induction awaited cs n rule: batch_error.induct) (auto split: if_splits)

lemma batch_error_commands:
  "batch_error awaited cs n = None \<Longrightarrow> n = 0 \<Longrightarrow> \<exists>(c, nested)\<in>set cs. ac_name (st_action c) = []"
  by (induction awaited cs n rule: batch_error.induct) (auto split: if_splits)

lemma same_strings_set: "same_strings xs ys \<Longrightarrow> set xs = set ys"
  unfolding same_strings_def by (metis set_sort)

lemma apply_barriers_length: "length (apply_automatic_response_barriers steps) = length steps"
proof (induction steps rule: apply_automatic_response_barriers.induct)
  case (2 s steps)
  have split: "length (takeWhile automatic_wire_candidate steps) + length (dropWhile automatic_wire_candidate steps) = length steps"
    by (metis length_append takeWhile_dropWhile_id)
  have "length (mark_run run) = length run" for run by (cases run) (simp_all add: mark_run_def)
  with 2 split show ?case by simp
qed simp

text \<open>C23. The steps a step is resolved into await no response the step has not claimed, and at least one of them sends a
  command: an expanded plan needs no further claims.\<close>

theorem expansion_keeps_response_claims:
  assumes "execute_resolved delay_err dependencies inner_delay_err answer action_err env s = Expanded batch"
  shows "(\<forall>c\<in>set batch. set (step_await_opcodes c) \<subseteq> set (step_await_opcodes s) \<and> ac_name (st_resolver c) = []) \<and>
    (\<exists>c\<in>set batch. ac_name (st_action c) = [] \<and> st_opcode c \<noteq> [])"
proof -
  from assms obtain children where batch: "batch = normalize_steps (map fst children)"
      and ok: "batch_error (step_await_opcodes s) (zip batch (map snd children)) 0 = None"
    by (auto simp: execute_resolved_def failed_step_def Let_def split: if_splits option.splits sum.splits)
  have len: "length batch = length children" by (simp add: batch normalize_steps_def apply_barriers_length)
  have mem: "\<exists>nested. (c, nested) \<in> set (zip batch (map snd children))" if "c \<in> set batch" for c
    using that len by (metis in_set_impl_in_set_zip1 length_map)
  have "set (step_await_opcodes c) \<subseteq> set (step_await_opcodes s) \<and> ac_name (st_resolver c) = []" if c: "c \<in> set batch" for c
  proof -
    obtain nested where "(c, nested) \<in> set (zip batch (map snd children))" using mem [OF c] by blast
    note c = batch_error_None [OF ok this]
    show ?thesis
      using c same_strings_set [of "step_await_opcodes s" "step_await_opcodes c"] by (cases "ac_name (st_action c) = []") auto
  qed
  moreover from batch_error_commands [OF ok refl] obtain c nested
      where c: "(c, nested) \<in> set (zip batch (map snd children))" "ac_name (st_action c) = []" by auto
  have "c \<in> set batch \<and> st_opcode c \<noteq> []" using set_zip_leftD [OF c(1)] batch_error_None [OF ok c(1)] c(2) by simp
  with c(2) show ?thesis using calculation by blast
qed

section \<open>A concrete dispatch\<close>

definition demo_session :: session_state where
  "demo_session = \<lparr>ss_logged_in = True, ss_socket_ready = True, ss_generation = 5, ss_baseline_generation = 5, ss_connection_generation = 7\<rparr>"

definition demo_session_view :: session_view where
  "demo_session_view = \<lparr>sv_connection = 7, sv_ready = True, sv_session = demo_session\<rparr>"

definition demo_env :: "exec_error option \<Rightarrow> wait_event list \<Rightarrow> dispatch_env" where
  "demo_env send waits =
     \<lparr>de_sender = True, de_ready = True, de_socket_wait = None, de_ready_again = True, de_socket_wait_again = None,
      de_namespace = ''n'', de_dependencies = None, de_encode = None, de_request = None, de_effect = None, de_correlates = True,
      de_response_number = 3, de_observer = True, de_wire_observer = True, de_correlated_observer = True,
      de_correlated_wire_observer = True, de_commit_observer = True, de_collector = False, de_metadata = zero_metadata,
      de_session = demo_session, de_connection = Some 7, de_baseline_wait = None, de_permit = None, de_registered = (\<lambda>_. True),
      de_pre_dispatch = None, de_send_failure = None, de_response_failure = None, de_stale_response = None, de_provider = True,
      de_phase = (\<lambda>_. None), de_send = send, de_waits = waits, de_guard = id, de_decode = Inr, de_deadline_passed = False,
      de_commit = Inl (plain_error ''none''), de_commit_view = demo_session_view, de_completed = (\<lambda>_. False), de_refresh = None\<rparr>"

definition demo_marked :: step where
  "demo_marked = (demo_step ''gbp'' None)\<lparr>st_pre_dispatch := demo_call ''mark'', st_send_failure := demo_call ''unmark''\<rparr>"

definition demo_answer :: response_frame where
  "demo_answer = \<lparr>rf_opcode = ''gbp'', rf_code = Some 0, rf_payload = ''{}'', rf_received_at = 9, rf_ingress = 4, rf_reduce_error = []\<rparr>"

lemma demo_dispatch_refused:
  "dispatch_command (demo_env (Some (plain_error ''full'')) []) demo_marked =
     ([Pre_dispatched, Phase_advanced Phase_dispatching, Sent, Provider_definitive, Send_compensated], Returned None (Some (plain_error ''full'')))"
  by code_simp

lemma demo_dispatch_answered:
  "dispatch_command (demo_env None [Wait_tick demo_session_view, Wait_frame demo_answer demo_session_view]) demo_marked =
     ([Pre_dispatched, Phase_advanced Phase_dispatching, Sent, Phase_advanced Phase_awaiting_response, Provider_completed,
       Phase_advanced Phase_observed], Returned None None)"
  by code_simp

lemma demo_dispatch_unanswered:
  "dispatch_command (demo_env None [Wait_timer]) demo_marked =
     ([Pre_dispatched, Phase_advanced Phase_dispatching, Sent, Phase_advanced Phase_awaiting_response, Provider_indeterminate],
      Returned None (Some (mark_uncertain (plain_error ''timed out waiting for gbp''))))"
  by code_simp

lemma demo_awaits: "awaited_opcodes (demo_env send waits) demo_marked = [''gbp'']"
  by code_simp

lemma demo_env_fields:
  "de_provider (demo_env send waits)" "de_send (demo_env send waits) = send" "de_waits (demo_env send waits) = waits"
  "de_registered (demo_env send waits) name"
  by (simp_all add: demo_env_def)

lemma demo_marked_fields: "ac_name (st_pre_dispatch demo_marked) \<noteq> []" "ac_name (st_send_failure demo_marked) \<noteq> []"
  by (simp_all add: demo_marked_def demo_call_def)




theorem unanswered_command_is_uncertain_witness:
  "\<exists>ex e. snd (dispatch_command (demo_env None [Wait_timer]) demo_marked) = Returned ex (Some e) \<and> ee_indeterminate e"
proof -
  have "ee_indeterminate (mark_uncertain (plain_error ''timed out waiting for gbp''))"
    by (rule conjunct1 [OF unanswered_command_is_uncertain [OF demo_dispatch_unanswered]]) (simp_all add: demo_env_fields)
  then show ?thesis unfolding demo_dispatch_unanswered by auto
qed

definition demo_resolving :: step where
  "demo_resolving = (demo_step ''gbp'' None)\<lparr>st_resolver := demo_call ''split''\<rparr>"

lemma demo_expanded:
  "execute_resolved None None None (Some (Inr (demo_marked, [(demo_marked, False), (demo_marked, False)]))) None (demo_env None []) demo_resolving =
     Expanded (normalize_steps [demo_marked, demo_marked])"
  by code_simp

theorem expansion_keeps_response_claims_witness:
  "set (step_await_opcodes (hd (normalize_steps [demo_marked, demo_marked]))) \<subseteq> {''gbp''}"
proof -
  have "hd (normalize_steps [demo_marked, demo_marked]) \<in> set (normalize_steps [demo_marked, demo_marked])"
    using apply_barriers_length [of "map normalize_step [demo_marked, demo_marked]"]
    by (intro hd_in_set) (auto simp: normalize_steps_def)
  moreover have "step_await_opcodes demo_resolving = [''gbp'']" by code_simp
  ultimately show ?thesis using expansion_keeps_response_claims [OF demo_expanded] by fastforce
qed

end
