(* ===== verification/FeatureActivity.thy ===== *)
theory FeatureActivity
  imports Execution
begin

text \<open>
  What a finished operation adds to the activity of a feature (\<^verbatim>\<open>Server/App/ActivityLogs.go\<close>), and the
  channel of its actor (\<^verbatim>\<open>Server/Telemetry/Store.go\<close>, \<^verbatim>\<open>Server/Telemetry/AttackChannels.go\<close>).

  An activity keeps its severity and its event, the two fields launches are counted by; its texts for users
  are left out. \<open>warning\<close> stands for a failure record whose severity is a warning, which receipts carry
  for presentation only.
\<close>

section \<open>Strings\<close>

fun str_contains :: "string \<Rightarrow> string \<Rightarrow> bool" where
  "str_contains [] p \<longleftrightarrow> p = []"
| "str_contains (c # s) p \<longleftrightarrow> has_prefix (c # s) p \<or> str_contains s p"

definition has_suffix :: "string \<Rightarrow> string \<Rightarrow> bool" where
  "has_suffix s p \<longleftrightarrow> has_prefix (rev s) (rev p)"

section \<open>Channels\<close>

definition attack_feature_channels :: "string list" where
  "attack_feature_channels =
     [''autotowers'', ''autofortress'', ''autoinvasion'', ''autonomad'', ''autoadvisor'', ''autokhan'', ''autoberiworld'', ''autostorm'']"

definition is_attack_feature_channel :: "string \<Rightarrow> bool" where
  "is_attack_feature_channel channel \<longleftrightarrow> channel \<in> set attack_feature_channels"

definition feature_channel_for_actor :: "string \<Rightarrow> string" where
  "feature_channel_for_actor actor0 =
     (let actor = trim_prefix (norm_str actor0) ''automation:'' in
      if has_prefix actor ''autokhan:'' then ''autokhan''
      else if actor \<in> {''autobird'', ''autostation'', ''autorecruit'', ''autotool'', ''autosceatres'', ''autobuyer'', ''autohospital'',
          ''autotci'', ''autoberiworld'', ''autofoodbalance'', ''autotowers'', ''autofortress'', ''autoinvasion'', ''autonomad'',
          ''autoadvisor'', ''autobooster'', ''autokhan'', ''autostorm''} then actor
      else if actor \<in> {''autoequipmentcleanup'', ''auto-equipment-cleanup'', ''ui:auto-equipment-cleanup''} then ''autoequipmentcleanup''
      else if actor \<in> {''scheduler:rift'', ''rift''} then ''rift''
      else [])"

section \<open>Events\<close>

definition attack_intent :: "string \<Rightarrow> bool" where
  "attack_intent intent \<longleftrightarrow> str_contains intent ''attack'' \<or>
     intent \<in> {''advisor.run.launch'', ''rift.maiden_wave.launch'', ''rift.launch.replay'', ''tower.launch'', ''khan.taunt''}"

definition feature_activity_event :: "string \<Rightarrow> string" where
  "feature_activity_event intent0 =
     (let intent = norm_str intent0 in
      if attack_intent intent then ''ATTACK''
      else if intent = ''spy.launch'' then ''ESPIONAGE''
      else if intent = ''production.enqueue'' \<or> intent = ''crafting.start'' then ''QUEUE''
      else if intent = ''resource.ship'' \<or> has_prefix intent ''resource.market.'' \<or> has_prefix intent ''resource.kingdom.'' \<or>
          has_prefix intent ''troops.'' \<or> intent = ''beri.transfer'' \<or> intent = ''movement.recall'' \<or> intent = ''storm.island.return''
        then ''TRANSPORT''
      else if str_contains intent ''purchase'' \<or> intent = ''khan.defense_tools.replenish'' then ''PURCHASE''
      else if intent = ''autobuyer.boosters.refresh'' \<or> intent = ''autobuyer.feast.reconcile'' then ''PURCHASE''
      else if has_prefix intent ''construction.'' then ''CONSTRUCTION''
      else if has_prefix intent ''building.'' \<or> has_prefix intent ''decoration.'' then ''BUILDING''
      else if has_prefix intent ''hospital.'' then ''HOSPITAL''
      else if has_prefix intent ''equipment.'' then ''EQUIPMENT''
      else if has_prefix intent ''crafting.'' then ''CRAFTING''
      else if intent = ''alliance.help.request'' \<or> intent = ''alliance.help.answer_all'' then ''ALLIANCE HELP''
      else if str_contains intent ''cooldown'' \<or> has_suffix intent ''.skip'' then ''TIME SKIP''
      else if str_contains intent ''difficulty'' \<or> intent = ''advisor.activate'' then ''EVENT''
      else if has_prefix intent ''defense.'' \<or> has_prefix intent ''khan.protection'' \<or> intent = ''khan.open_gate'' then ''DEFENSE''
      else ''ACTION'')"

definition supporting_feature_intent :: "string \<Rightarrow> bool" where
  "supporting_feature_intent intent0 =
     (let intent = norm_str intent0 in
      intent \<in> {''config.update'', ''game.focus_castle'', ''map.query'', ''construction.shop'', ''shop.package.history'', ''alliance.inspect''} \<or>
      str_contains intent ''.refresh'' \<or> has_suffix intent ''.scan'')"

definition failed_status :: "status \<Rightarrow> bool" where
  "failed_status s \<longleftrightarrow> s \<in> {Status_failed, Status_partially_succeeded, Status_indeterminate}"

definition record_supporting_feature_failure :: "exec_receipt \<Rightarrow> bool" where
  "record_supporting_feature_failure r \<longleftrightarrow>
     norm_str (rc_intent r) \<in> {''autobuyer.boosters.refresh'', ''autobuyer.feast.reconcile''} \<and> failed_status (rc_status r)"

section \<open>Launch steps\<close>

definition plan_has_game_command :: "plan \<Rightarrow> bool" where
  "plan_has_game_command p \<longleftrightarrow>
     list_ex (\<lambda>s. trim_space (st_opcode s) \<noteq> [] \<or> trim_space (cm_opcode (st_command s)) \<noteq> [] \<or> trim_space (st_await_opcode s) \<noteq> [] \<or>
       st_await_opcodes s \<noteq> [] \<or> st_dependencies s \<noteq> None) (pn_steps p)"

definition attack_launch_step :: "step \<Rightarrow> bool" where
  "attack_launch_step s =
     (let opcode = norm_str (st_opcode s);
          opcode = (if opcode = [] then norm_str (cm_opcode (st_command s)) else opcode);
          dependency = (case st_dependencies s of None \<Rightarrow> [] | Some d \<Rightarrow> norm_str (dq_opcode d))
      in opcode = ''cra'' \<or> dependency = ''cra'')"

definition indexed_attack_launch_steps :: "step list \<Rightarrow> (nat \<times> step) list" where
  "indexed_attack_launch_steps steps = filter (\<lambda>(_, s). attack_launch_step s) (enumerate 0 steps)"

definition attack_launch_steps :: "step list \<Rightarrow> step list" where
  "attack_launch_steps steps = map snd (indexed_attack_launch_steps steps)"

section \<open>Activities\<close>

datatype severity = Sev_info | Sev_warn | Sev_error

record feature_activity =
  fa_severity :: severity
  fa_event :: string

definition availability_gate_failure :: "string \<Rightarrow> bool" where
  "availability_gate_failure v =
     (let lower = norm_str v in
      if str_contains lower ''not enough troops'' \<or> str_contains lower ''insufficient troops'' then True
      else if str_contains lower ''no commander'' \<or> str_contains lower ''no commanders'' \<or>
          str_contains lower ''commander availability changed'' \<or>
          (str_contains lower ''no available'' \<and> str_contains lower ''commander'') then True
      else str_contains lower '' commander(s) require '' \<or> str_contains lower '' attack formation requires '')"

definition completed_feature_activities :: "exec_receipt \<Rightarrow> feature_activity list" where
  "completed_feature_activities r =
     (case eb_plan (rc_body r) of
        None \<Rightarrow> []
      | Some p \<Rightarrow>
          if pn_effect p = Effect_read \<or> \<not> plan_has_game_command p then []
          else
            let event = feature_activity_event (rc_intent r);
                launches = attack_launch_steps (pn_steps p)
            in if event = ''ATTACK'' \<and> length launches > 1
               then map (\<lambda>_. \<lparr>fa_severity = Sev_info, fa_event = event\<rparr>) launches
               else [\<lparr>fa_severity = Sev_info, fa_event = event\<rparr>])"

definition completed_attack_activities :: "exec_receipt \<Rightarrow> feature_activity list" where
  "completed_attack_activities r =
     (case eb_plan (rc_body r) of
        None \<Rightarrow> []
      | Some p \<Rightarrow>
          if feature_activity_event (rc_intent r) \<noteq> ''ATTACK'' \<or> eb_completed_steps (rc_body r) = [] then []
          else map (\<lambda>_. \<lparr>fa_severity = Sev_info, fa_event = ''ATTACK''\<rparr>)
                 (filter (\<lambda>(i, _). i \<in> set (eb_completed_steps (rc_body r))) (indexed_attack_launch_steps (pn_steps p))))"

definition feature_activities :: "bool \<Rightarrow> exec_receipt \<Rightarrow> feature_activity list" where
  "feature_activities warning r =
     (if supporting_feature_intent (rc_intent r) \<and> \<not> record_supporting_feature_failure r then []
      else if rc_status r = Status_succeeded then completed_feature_activities r
      else if failed_status (rc_status r) then
        (case eb_plan (rc_body r) of
           Some p \<Rightarrow>
             if pn_effect p = Effect_read \<and> \<not> record_supporting_feature_failure r \<or> \<not> plan_has_game_command p then []
             else completed_attack_activities r @
               [\<lparr>fa_severity = (if warning \<or> availability_gate_failure (rc_error r) then Sev_warn else Sev_error),
                 fa_event = feature_activity_event (rc_intent r)\<rparr>]
         | None \<Rightarrow>
             completed_attack_activities r @
               [\<lparr>fa_severity = (if warning \<or> availability_gate_failure (rc_error r) then Sev_warn else Sev_error),
                 fa_event = feature_activity_event (rc_intent r)\<rparr>])
      else [])"

text \<open>The launches among them, as \<open>attackLaunchRows\<close> and \<open>loadAttackLaunches\<close> recognise them.\<close>

definition launch_activity :: "feature_activity \<Rightarrow> bool" where
  "launch_activity a \<longleftrightarrow> fa_severity a = Sev_info \<and> fa_event a = ''ATTACK''"

definition launch_count :: "bool \<Rightarrow> exec_receipt \<Rightarrow> nat" where
  "launch_count warning r = length (filter launch_activity (feature_activities warning r))"

section \<open>What is counted\<close>

lemma has_prefix_Nil [simp]: "has_prefix s []"
  by (simp add: has_prefix_def)

lemma enumerate_fst_distinct: "distinct (map fst (enumerate n xs))"
  by simp

lemma indexed_launches: "(i, s) \<in> set (indexed_attack_launch_steps steps) \<longleftrightarrow> i < length steps \<and> steps ! i = s \<and> attack_launch_step s"
  by (auto simp: indexed_attack_launch_steps_def in_set_enumerate_eq)

lemma filter_all [simp]: "filter (\<lambda>x. P) xs = (if P then xs else [])"
  by (induction xs) auto

lemma launch_activity_simps [simp]:
  "launch_activity \<lparr>fa_severity = Sev_info, fa_event = ''ATTACK''\<rparr>"
  "s \<noteq> Sev_info \<Longrightarrow> \<not> launch_activity \<lparr>fa_severity = s, fa_event = e\<rparr>"
  by (simp_all add: launch_activity_def)

lemma launches_of_attack_activities:
  "filter launch_activity (completed_attack_activities r) = completed_attack_activities r"
  by (rule filter_True) (auto simp: completed_attack_activities_def split: option.splits if_splits)

lemma launch_count_warning: "launch_count w r = launch_count w' r"
  by (simp add: launch_count_def feature_activities_def launches_of_attack_activities split: option.splits)

text \<open>The launch steps of a plan that have completed.\<close>

definition confirmed_launch_steps :: "exec_receipt \<Rightarrow> plan \<Rightarrow> nat set" where
  "confirmed_launch_steps r p =
     {i. i < length (pn_steps p) \<and> attack_launch_step (pn_steps p ! i) \<and> i \<in> set (eb_completed_steps (rc_body r))}"

lemma completed_attack_activities_length:
  assumes "eb_plan (rc_body r) = Some p" "feature_activity_event (rc_intent r) = ''ATTACK''"
  shows "length (completed_attack_activities r) = card (confirmed_launch_steps r p)"
proof -
  let ?xs = "filter (\<lambda>(i, _). i \<in> set (eb_completed_steps (rc_body r))) (indexed_attack_launch_steps (pn_steps p))"
  have d: "distinct (map fst ?xs)"
    unfolding indexed_attack_launch_steps_def by (intro distinct_map_filter) simp
  have "set (map fst ?xs) = confirmed_launch_steps r p"
    by (force simp: confirmed_launch_steps_def indexed_launches)
  then have "card (confirmed_launch_steps r p) = length ?xs" using distinct_card [OF d] by simp
  moreover have "confirmed_launch_steps r p = {}" if "eb_completed_steps (rc_body r) = []"
    using that by (simp add: confirmed_launch_steps_def)
  ultimately show ?thesis using assms by (auto simp: completed_attack_activities_def)
qed

text \<open>An attack that failed, succeeded in part or ended uncertain counts exactly the launch steps it has
  confirmed, whatever the failure.\<close>

theorem launch_count_failed:
  assumes "eb_plan (rc_body r) = Some p" "failed_status (rc_status r)" "feature_activity_event (rc_intent r) = ''ATTACK''"
    "\<not> supporting_feature_intent (rc_intent r)" "pn_effect p \<noteq> Effect_read"
  shows "launch_count w r = card (confirmed_launch_steps r p)"
proof -
  have "plan_has_game_command p" if "i \<in> confirmed_launch_steps r p" for i
  proof -
    from that have s: "pn_steps p ! i \<in> set (pn_steps p)" "attack_launch_step (pn_steps p ! i)"
      by (auto simp: confirmed_launch_steps_def)
    have "trim_space x \<noteq> []" if "norm_str x = ''cra''" for x using that by (auto simp: norm_str_def)
    then show ?thesis
      using s by (fastforce simp: plan_has_game_command_def list_ex_iff attack_launch_step_def Let_def split: if_splits option.splits)
  qed
  then have "\<not> plan_has_game_command p \<Longrightarrow> confirmed_launch_steps r p = {}" by blast
  with assms show ?thesis
    by (auto simp: launch_count_def feature_activities_def launches_of_attack_activities completed_attack_activities_length failed_status_def)
qed

lemma launch_count_succeeded:
  assumes "eb_plan (rc_body r) = Some p" "rc_status r = Status_succeeded" "feature_activity_event (rc_intent r) = ''ATTACK''"
    "\<not> supporting_feature_intent (rc_intent r)" "pn_effect p \<noteq> Effect_read" "plan_has_game_command p"
  shows "launch_count w r = max 1 (length (attack_launch_steps (pn_steps p)))"
  using assms by (auto simp: launch_count_def feature_activities_def completed_feature_activities_def Let_def filter_map o_def)

lemma launch_count_unfinished: "rc_status r \<noteq> Status_succeeded \<Longrightarrow> \<not> failed_status (rc_status r) \<Longrightarrow> launch_count w r = 0"
  by (simp add: launch_count_def feature_activities_def)

section \<open>An attack of two launches\<close>

definition demo_attack_plan :: plan where
  "demo_attack_plan = demo_plan\<lparr>pn_effect := Effect_launch, pn_steps := [demo_step ''gbp'' None, demo_step ''cra'' None, demo_step ''cra'' None]\<rparr>"

definition demo_attack :: "string \<Rightarrow> status \<Rightarrow> gotime \<Rightarrow> exec_receipt" where
  "demo_attack i s t =
     \<lparr>rc_id = i, rc_intent = ''tower.attack'', rc_actor = ''automation:autotowers'', rc_status = s, rc_phase = Phase_completed,
      rc_plan_effect = Some Effect_launch, rc_error = [], rc_raw_error = [], rc_submitted_at = t, rc_completed_at = Some t,
      rc_body = \<lparr>eb_plan = Some demo_attack_plan, eb_attempt = 1, eb_started_at = None, eb_completed_steps = [0, 2],
        eb_evidence = [], eb_exchanges = []\<rparr>\<rparr>"

lemma demo_attack_confirmed: "confirmed_launch_steps (demo_attack i s t) demo_attack_plan = {2}"
proof -
  have "map attack_launch_step (pn_steps demo_attack_plan) = [False, True, True]" by code_simp
  moreover have "length (pn_steps demo_attack_plan) = 3" by code_simp
  moreover have "eb_completed_steps (rc_body (demo_attack i s t)) = [0, 2]" by (simp add: demo_attack_def)
  ultimately show ?thesis unfolding confirmed_launch_steps_def
    by (auto simp: nth_map [symmetric] simp del: nth_map)
qed

theorem launch_count_failed_witness:
  "launch_count False (demo_attack ''op-1'' Status_partially_succeeded 7) = card {2 :: nat}"
proof -
  let ?r = "demo_attack ''op-1'' Status_partially_succeeded 7"
  have "eb_plan (rc_body ?r) = Some demo_attack_plan" "failed_status (rc_status ?r)" "rc_intent ?r = ''tower.attack''"
    "feature_activity_event ''tower.attack'' = ''ATTACK''" "\<not> supporting_feature_intent ''tower.attack''" "pn_effect demo_attack_plan \<noteq> Effect_read"
    by (simp add: demo_attack_def, simp add: demo_attack_def failed_status_def, simp add: demo_attack_def, code_simp, code_simp,
        simp add: demo_attack_plan_def)
  then show ?thesis using launch_count_failed [of ?r demo_attack_plan False] by (simp add: demo_attack_confirmed)
qed

end
