(* ===== verification/LaunchLedger.thy ===== *)
theory LaunchLedger
  imports FeatureActivity
begin

text \<open>
  The counter of confirmed attack launches of a hosted worker (\<^verbatim>\<open>Server/App/AttackLaunchLedger.go\<close>) and its
  tables in the operation database (\<^verbatim>\<open>Server/Intent/AttackLaunchLedgerStore.go\<close>).

  \<^item> \<open>launch_ledger\<close> is the memory of the counter: per channel the launch times in ascending order, the
    identities already counted, the instant from which nothing is missing, the rows still to be stored.
  \<^item> \<open>launch_tables\<close> are the two tables. Each statement is the list function it denotes; an answer of
    the database says whether the transaction took effect and whether the caller was told so.
  \<^item> \<open>sort_search\<close> is \<open>sort.Search\<close>, the binary search of Go's library.
  \<^item> Instants below the year 1678 or above 2262 do not fit the stored nanoseconds; they do not occur.
\<close>

section \<open>Binary search\<close>

function sort_search_from :: "nat \<Rightarrow> nat \<Rightarrow> (nat \<Rightarrow> bool) \<Rightarrow> nat" where
  "sort_search_from i j p =
     (if i < j then let h = (i + j) div 2 in if \<not> p h then sort_search_from (h + 1) j p else sort_search_from i h p else i)"
  by pat_completeness auto
termination by (relation "measure (\<lambda>(i, j, _). j - i)") auto

declare sort_search_from.simps [simp del]

definition sort_search :: "nat \<Rightarrow> (nat \<Rightarrow> bool) \<Rightarrow> nat" where
  "sort_search n p = sort_search_from 0 n p"

section \<open>Rows and tables\<close>

record launch_row =
  lr_operation :: string
  lr_ordinal :: nat
  lr_feature :: string
  lr_launched_at :: gotime

type_synonym launch_identity = "string \<times> nat"

definition launch_key :: "launch_row \<Rightarrow> launch_identity" where
  "launch_key row = (lr_operation row, lr_ordinal row)"

record stored_launch =
  sl_operation :: string
  sl_ordinal :: nat
  sl_feature :: string
  sl_launched_at :: int

text \<open>\<open>lt_covered_from\<close> is the row of the meta table, absent until the ledger was seeded.\<close>

record launch_tables =
  lt_covered_from :: "int option"
  lt_rows :: "stored_launch list"

text \<open>The Unix epoch, counted from the zero time.\<close>

definition unix_epoch :: gotime where
  "unix_epoch = 62135596800000000000"

definition ledger_nanos :: "gotime \<Rightarrow> int" where
  "ledger_nanos t = (if time_is_zero t then 0 else t - unix_epoch)"

definition ledger_time :: "int \<Rightarrow> gotime" where
  "ledger_time n = (if n = 0 then time_zero else n + unix_epoch)"

definition store_launch :: "launch_row \<Rightarrow> stored_launch" where
  "store_launch row = \<lparr>sl_operation = lr_operation row, sl_ordinal = lr_ordinal row, sl_feature = lr_feature row,
     sl_launched_at = ledger_nanos (lr_launched_at row)\<rparr>"

definition scan_launch :: "stored_launch \<Rightarrow> launch_row" where
  "scan_launch s = \<lparr>lr_operation = sl_operation s, lr_ordinal = sl_ordinal s, lr_feature = sl_feature s,
     lr_launched_at = ledger_time (sl_launched_at s)\<rparr>"

definition stored_key :: "stored_launch \<Rightarrow> launch_identity" where
  "stored_key s = (sl_operation s, sl_ordinal s)"

section \<open>Statements\<close>

text \<open>\<open>INSERT \<dots> ON CONFLICT(operation_id, ordinal) DO NOTHING\<close>, row by row.\<close>

definition insert_attack_launch_row :: "launch_row \<Rightarrow> stored_launch list \<Rightarrow> stored_launch list" where
  "insert_attack_launch_row row rows = (if launch_key row \<in> set (map stored_key rows) then rows else rows @ [store_launch row])"

definition insert_attack_launch_rows :: "launch_row list \<Rightarrow> stored_launch list \<Rightarrow> stored_launch list" where
  "insert_attack_launch_rows batch rows = fold insert_attack_launch_row batch rows"

definition append_attack_launches :: "launch_row list \<Rightarrow> launch_tables \<Rightarrow> launch_tables" where
  "append_attack_launches batch db = db\<lparr>lt_rows := insert_attack_launch_rows batch (lt_rows db)\<rparr>"

definition initialize_attack_launch_ledger :: "gotime \<Rightarrow> launch_row list \<Rightarrow> launch_tables \<Rightarrow> launch_tables" where
  "initialize_attack_launch_ledger covered seed db =
     (case lt_covered_from db of
        None \<Rightarrow> db\<lparr>lt_covered_from := Some (ledger_nanos covered), lt_rows := insert_attack_launch_rows seed (lt_rows db)\<rparr>
      | Some _ \<Rightarrow> db)"

definition mark_attack_launch_gap :: "gotime \<Rightarrow> launch_tables \<Rightarrow> launch_tables" where
  "mark_attack_launch_gap now db = db\<lparr>lt_covered_from := map_option (\<lambda>c. max c (ledger_nanos now)) (lt_covered_from db)\<rparr>"

definition prune_attack_launches :: "gotime \<Rightarrow> launch_tables \<Rightarrow> launch_tables" where
  "prune_attack_launches before db = db\<lparr>lt_rows := filter (\<lambda>s. \<not> sl_launched_at s < ledger_nanos before) (lt_rows db)\<rparr>"

text \<open>\<open>LoadAttackLaunchLedger\<close>: nothing while the ledger is not initialised.\<close>

definition load_attack_launch_ledger :: "gotime \<Rightarrow> launch_tables \<Rightarrow> (gotime \<times> launch_row list) option" where
  "load_attack_launch_ledger since db =
     map_option (\<lambda>c. (ledger_time c,
         map scan_launch (stable_sort (\<lambda>a b. sl_launched_at a < sl_launched_at b)
           (filter (\<lambda>s. ledger_nanos since \<le> sl_launched_at s) (lt_rows db)))))
       (lt_covered_from db)"

text \<open>\<open>TerminalOperationHistory\<close>: the finished operations, whether older ones may be gone, the oldest
  update. \<open>parse\<close> is \<open>time.Parse(time.RFC3339Nano, _)\<close>.\<close>

record terminal_history =
  th_receipts :: "exec_receipt list"
  th_possibly_pruned :: bool
  th_oldest :: gotime

definition older :: "gotime option \<Rightarrow> gotime \<Rightarrow> gotime" where
  "older parsed oldest =
     (case parsed of None \<Rightarrow> oldest | Some t \<Rightarrow> if time_is_zero oldest \<or> t < oldest then t else oldest)"

definition terminal_operation_history :: "(string \<Rightarrow> gotime option) \<Rightarrow> exec_body operation_table \<Rightarrow> terminal_history" where
  "terminal_operation_history parse tbl =
     (let rows = by_updated_desc (filter (\<lambda>ro. \<not> status_recoverable (ro_status ro)) tbl) in
      \<lparr>th_receipts = map ro_receipt rows, th_possibly_pruned = (operation_history_limit \<le> length rows),
       th_oldest = fold (\<lambda>ro. older (parse (ro_updated_at ro))) rows time_zero\<rparr>)"

section \<open>The ledger in memory\<close>

definition attack_launch_retention :: duration where
  "attack_launch_retention = 48 * hour"

definition attack_launch_prune_interval :: duration where
  "attack_launch_prune_interval = hour"

record launch_ledger =
  ll_launches :: "string \<Rightarrow> gotime list"
  ll_seen :: "launch_identity \<Rightarrow> gotime option"
  ll_covered_from :: gotime
  ll_pending :: "launch_row list"
  ll_last_prune :: gotime

definition new_ledger :: launch_ledger where
  "new_ledger = \<lparr>ll_launches = (\<lambda>_. []), ll_seen = (\<lambda>_. None), ll_covered_from = time_zero, ll_pending = [], ll_last_prune = time_zero\<rparr>"

text \<open>A receipt as the stream delivers it, with the severity its failure record carries.\<close>

record stream_receipt =
  dl_receipt :: exec_receipt
  dl_gap :: bool
  dl_warning :: bool

definition receipt_launch_time :: "exec_receipt \<Rightarrow> gotime \<Rightarrow> gotime" where
  "receipt_launch_time r fallback =
     (case rc_completed_at r of Some t \<Rightarrow> if time_is_zero t then fallback else t | None \<Rightarrow> fallback)"

definition attack_launch_rows :: "bool \<Rightarrow> exec_receipt \<Rightarrow> gotime \<Rightarrow> gotime \<Rightarrow> launch_row list" where
  "attack_launch_rows warning r launched horizon =
     (if launched < horizon \<or> feature_activity_event (rc_intent r) \<noteq> ''ATTACK'' then []
      else
        let channel = feature_channel_for_actor (rc_actor r) in
        if \<not> is_attack_feature_channel channel \<or> trim_space (rc_id r) = [] then []
        else map (\<lambda>i. \<lparr>lr_operation = rc_id r, lr_ordinal = i, lr_feature = channel, lr_launched_at = launched\<rparr>)
               [0..<launch_count warning r])"

definition insert_locked :: "launch_row \<Rightarrow> launch_ledger \<Rightarrow> bool \<times> launch_ledger" where
  "insert_locked row l =
     (if ll_seen l (launch_key row) \<noteq> None then (False, l)
      else
        let ts = ll_launches l (lr_feature row);
            position = sort_search (length ts) (\<lambda>i. lr_launched_at row < ts ! i)
        in (True, l\<lparr>ll_seen := (ll_seen l)(launch_key row \<mapsto> lr_launched_at row),
              ll_launches := (ll_launches l)(lr_feature row := take position ts @ lr_launched_at row # drop position ts)\<rparr>))"

fun insert_all :: "launch_row list \<Rightarrow> launch_ledger \<Rightarrow> launch_row list \<times> launch_ledger" where
  "insert_all [] l = ([], l)"
| "insert_all (row # rows) l =
     (let (new, l) = insert_locked row l;
          (fresh, l) = insert_all rows l
      in (if new then row # fresh else fresh, l))"

definition prune_locked :: "gotime \<Rightarrow> launch_ledger \<Rightarrow> launch_ledger" where
  "prune_locked before l =
     l\<lparr>ll_launches := (\<lambda>feature. let ts = ll_launches l feature
          in drop (sort_search (length ts) (\<lambda>i. \<not> ts ! i < before)) ts),
       ll_seen := (\<lambda>key. case ll_seen l key of None \<Rightarrow> None | Some t \<Rightarrow> if t < before then None else Some t)\<rparr>"

text \<open>What the database does with a statement.\<close>

datatype store_answer = Stored | Refused | Unreported

definition ask_store :: "store_answer \<Rightarrow> (launch_tables \<Rightarrow> launch_tables) \<Rightarrow> launch_tables \<Rightarrow> bool \<times> launch_tables" where
  "ask_store answer f db = (answer \<noteq> Stored, if answer = Refused then db else f db)"

record store_answers =
  sa_gap :: store_answer
  sa_append :: store_answer
  sa_prune :: store_answer

definition mark_gap :: "store_answer \<Rightarrow> gotime \<Rightarrow> launch_ledger \<times> launch_tables \<Rightarrow> launch_ledger \<times> launch_tables" where
  "mark_gap answer now w =
     (let (l, db) = w
      in (if ll_covered_from l < now then l\<lparr>ll_covered_from := now\<rparr> else l, snd (ask_store answer (mark_attack_launch_gap now) db)))"

definition record_rows :: "store_answers \<Rightarrow> gotime \<Rightarrow> launch_row list \<Rightarrow> launch_ledger \<times> launch_tables \<Rightarrow> launch_ledger \<times> launch_tables" where
  "record_rows answers now rows w =
     (let (l, db) = w;
          (fresh, l) = insert_all rows l;
          batch = ll_pending l @ fresh;
          l = l\<lparr>ll_pending := []\<rparr>;
          prune_due = (attack_launch_prune_interval \<le> time_sub now (ll_last_prune l));
          horizon = now - attack_launch_retention;
          l = (if prune_due then prune_locked horizon (l\<lparr>ll_last_prune := now\<rparr>) else l);
          (failed, db) = (if batch = [] then (False, db) else ask_store (sa_append answers) (append_attack_launches batch) db);
          l = (if failed then l\<lparr>ll_pending := batch @ ll_pending l\<rparr> else l);
          db = (if prune_due then snd (ask_store (sa_prune answers) (prune_attack_launches horizon) db) else db)
      in (l, db))"

definition record_receipt :: "store_answers \<Rightarrow> gotime \<Rightarrow> stream_receipt \<Rightarrow> launch_ledger \<times> launch_tables \<Rightarrow> launch_ledger \<times> launch_tables" where
  "record_receipt answers now d w =
     (let w = (if dl_gap d then mark_gap (sa_gap answers) now w else w);
          r = dl_receipt d
      in record_rows answers now (attack_launch_rows (dl_warning d) r (receipt_launch_time r now) (now - attack_launch_retention)) w)"

text \<open>\<open>OpenAttackLaunchLedger\<close>. \<open>readable\<close> says which of its reads succeed: of the ledger, of the
  history, of the ledger again; \<open>seeding\<close> is the answer to the seed.\<close>

definition ledger_from :: "gotime \<Rightarrow> gotime \<times> launch_row list \<Rightarrow> launch_ledger" where
  "ledger_from now state =
     (snd (insert_all (snd state) (new_ledger\<lparr>ll_covered_from := fst state\<rparr>)))\<lparr>ll_last_prune := now\<rparr>"

definition history_seed :: "gotime \<Rightarrow> terminal_history \<Rightarrow> launch_row list" where
  "history_seed now h =
     concat (map (\<lambda>r. attack_launch_rows False r (receipt_launch_time r now) (now - attack_launch_retention)) (th_receipts h))"

definition open_attack_launch_ledger ::
  "bool \<times> bool \<times> bool \<Rightarrow> store_answer \<Rightarrow> gotime \<Rightarrow> terminal_history \<Rightarrow> launch_tables \<Rightarrow> launch_ledger option \<times> launch_tables" where
  "open_attack_launch_ledger readable seeding now h db =
     (let (first, past, again) = readable; horizon = now - attack_launch_retention in
      if \<not> first then (None, db)
      else case load_attack_launch_ledger horizon db of
        Some state \<Rightarrow> (Some (ledger_from now state), db)
      | None \<Rightarrow>
          if \<not> past then (None, db)
          else
            let covered = (if th_possibly_pruned h then th_oldest h else time_zero);
                (failed, db) = ask_store seeding (initialize_attack_launch_ledger covered (history_seed now h)) db
            in if failed \<or> \<not> again then (None, db)
               else case load_attack_launch_ledger horizon db of
                 Some state \<Rightarrow> (Some (ledger_from now state), db)
               | None \<Rightarrow> (Some (ledger_from now (time_zero, [])), db))"

text \<open>\<open>AttackLaunchCountsSince\<close>: the counts, or nothing where the code answers \<open>ok = false\<close>.\<close>

definition launches_since :: "gotime \<Rightarrow> gotime list \<Rightarrow> nat" where
  "launches_since since ts = length ts - sort_search (length ts) (\<lambda>i. \<not> ts ! i < since)"

definition attack_launch_counts_since :: "gotime \<Rightarrow> gotime \<Rightarrow> gotime \<Rightarrow> launch_ledger \<Rightarrow> (string \<times> nat) list option" where
  "attack_launch_counts_since clock since now0 l =
     (let now = (if time_is_zero now0 then clock else now0) in
      if time_is_zero since \<or> now < since \<or> since < now - attack_launch_retention then None
      else if \<not> time_is_zero (ll_covered_from l) \<and> \<not> ll_covered_from l < since then None
      else Some (map (\<lambda>channel. (channel, launches_since since (ll_launches l channel))) attack_feature_channels))"

section \<open>The counters of the telemetry store\<close>

text \<open>The desktop counts in \<^verbatim>\<open>Server/Telemetry/Store.go\<close>: a linear scan, which also drops what is no
  longer retained.\<close>

fun skip_before :: "gotime \<Rightarrow> gotime list \<Rightarrow> nat" where
  "skip_before cutoff [] = 0"
| "skip_before cutoff (t # ts) = (if t < cutoff then Suc (skip_before cutoff ts) else 0)"

definition record_attack_launch :: "string \<Rightarrow> gotime \<Rightarrow> (string \<Rightarrow> gotime list) \<Rightarrow> string \<Rightarrow> gotime list" where
  "record_attack_launch channel observed m =
     (let ts = m channel in m(channel := drop (skip_before (observed - attack_launch_retention) ts) ts @ [observed]))"

definition telemetry_counts :: "gotime \<Rightarrow> gotime \<Rightarrow> (string \<Rightarrow> gotime list) \<Rightarrow> (string \<times> nat) list \<times> (string \<Rightarrow> gotime list)" where
  "telemetry_counts since now m =
     (let kept = (\<lambda>channel. drop (skip_before (now - attack_launch_retention) (m channel)) (m channel)) in
      (map (\<lambda>channel. (channel, length (kept channel) - skip_before since (kept channel))) attack_feature_channels,
       \<lambda>channel. if is_attack_feature_channel channel then kept channel else m channel))"

definition telemetry_counts_since :: "gotime \<Rightarrow> gotime \<Rightarrow> gotime \<Rightarrow> (string \<Rightarrow> gotime list) \<Rightarrow> (string \<times> nat) list option" where
  "telemetry_counts_since clock since now0 m =
     (let now = (if time_is_zero now0 then clock else now0) in
      if time_is_zero since \<or> now < since \<or> since < now - attack_launch_retention then None
      else Some (fst (telemetry_counts since now m)))"

end
