(* ===== verification/LaunchLedgerProofs.thy ===== *)
theory LaunchLedgerProofs
  imports LaunchLedger
begin

text \<open>
  What the counter of \<^verbatim>\<open>Server/App/AttackLaunchLedger.go\<close> promises. The memory represents a list of launches
  with distinct identities (\<open>represents\<close>): inserting and pruning are \<open>remember\<close> and \<open>forget\<close> on
  that list, a count is the length of a filter. The tables hold every represented launch that is not waiting to
  be stored (\<open>stored_ok\<close>). From the two follow what a window counts, and what a restart restores.
\<close>

section \<open>Binary search on ascending lists\<close>

definition splits_at :: "nat \<Rightarrow> nat \<Rightarrow> (nat \<Rightarrow> bool) \<Rightarrow> bool" where
  "splits_at n m p \<longleftrightarrow> m \<le> n \<and> (\<forall>k < m. \<not> p k) \<and> (\<forall>k. m \<le> k \<longrightarrow> k < n \<longrightarrow> p k)"

lemma sort_search_from_spec:
  assumes up: "\<forall>k m. k \<le> m \<longrightarrow> m < n \<longrightarrow> p k \<longrightarrow> p m"
  shows "i \<le> j \<Longrightarrow> j \<le> n \<Longrightarrow> \<forall>k < i. \<not> p k \<Longrightarrow> \<forall>k. j \<le> k \<longrightarrow> k < n \<longrightarrow> p k \<Longrightarrow> splits_at n (sort_search_from i j p) p"
proof (induction "j - i" arbitrary: i j rule: less_induct)
  case less
  let ?h = "(i + j) div 2"
  show ?case
  proof (cases "i < j")
    case True
    then have h: "i \<le> ?h" "?h < j" by auto
    show ?thesis
    proof (cases "p ?h")
      case t: True
      have "\<forall>k. ?h \<le> k \<longrightarrow> k < n \<longrightarrow> p k" using up t by blast
      moreover have "?h - i < j - i" "?h \<le> n" using h less.prems(2) by linarith+
      ultimately have "splits_at n (sort_search_from i ?h p) p" using less.hyps [of ?h i] less.prems(3) h(1) by blast
      moreover have "sort_search_from i j p = sort_search_from i ?h p"
        using True t by (simp only: sort_search_from.simps [of i j p] Let_def if_True if_False not_True_eq_False)
      ultimately show ?thesis by simp
    next
      case f: False
      have "\<forall>k < ?h + 1. \<not> p k"
      proof (intro allI impI notI)
        fix k assume k: "k < ?h + 1" "p k"
        then have "k \<le> ?h" "?h < n" using h less.prems by simp_all
        with up k f show False by blast
      qed
      moreover have "j - (?h + 1) < j - i" "?h + 1 \<le> j" using h by linarith+
      ultimately have "splits_at n (sort_search_from (?h + 1) j p) p" using less.hyps [of j "?h + 1"] less.prems(2,4) by blast
      moreover have "sort_search_from i j p = sort_search_from (?h + 1) j p"
        using True f by (simp only: sort_search_from.simps [of i j p] Let_def if_True if_False not_False_eq_True)
      ultimately show ?thesis by simp
    qed
  next
    case False
    then have "i = j" using less.prems(1) by simp
    moreover from False have "sort_search_from i j p = i" by (simp add: sort_search_from.simps [of i j p])
    ultimately show ?thesis using less.prems(2-4) by (auto simp: splits_at_def)
  qed
qed

lemma sort_search_takeWhile:
  assumes "sorted xs" "\<And>x y. x \<le> y \<Longrightarrow> p x \<Longrightarrow> p y"
  shows "sort_search (length xs) (\<lambda>i. p (xs ! i)) = length (takeWhile (\<lambda>x. \<not> p x) xs)"
proof -
  let ?s = "sort_search (length xs) (\<lambda>i. p (xs ! i))"
  have up: "\<forall>k m. k \<le> m \<longrightarrow> m < length xs \<longrightarrow> p (xs ! k) \<longrightarrow> p (xs ! m)"
    using assms(2) sorted_nth_mono [OF assms(1)] by blast
  have "splits_at (length xs) ?s (\<lambda>i. p (xs ! i))"
    unfolding sort_search_def by (rule sort_search_from_spec [OF up]) simp_all
  then have s: "?s \<le> length xs" "\<forall>k < ?s. \<not> p (xs ! k)" "\<forall>k. ?s \<le> k \<longrightarrow> k < length xs \<longrightarrow> p (xs ! k)"
    unfolding splits_at_def by blast+
  let ?t = "length (takeWhile (\<lambda>x. \<not> p x) xs)"
  have t: "\<not> p (xs ! k)" if "k < ?t" for k using that by (metis nth_mem set_takeWhileD takeWhile_nth)
  have tl: "?t \<le> length xs" by (rule length_takeWhile_le)
  show ?thesis
  proof (rule linorder_cases [of ?s ?t])
    assume "?s < ?t"
    then have "?s < length xs" using tl by (rule less_le_trans)
    then have "p (xs ! ?s)" using s(3) by blast
    with t [OF \<open>?s < ?t\<close>] show ?thesis by blast
  next
    assume "?t < ?s"
    then have "?t < length xs" using s(1) by (rule less_le_trans)
    then have "\<not> \<not> p (xs ! ?t)" by (rule nth_length_takeWhile)
    with s(2) \<open>?t < ?s\<close> show ?thesis by blast
  qed
qed

lemma sorted_takeWhile_filter:
  assumes "sorted xs" "\<And>x y. x \<le> y \<Longrightarrow> p x \<Longrightarrow> p y"
  shows "takeWhile (\<lambda>x. \<not> p x) xs = filter (\<lambda>x. \<not> p x) xs \<and> dropWhile (\<lambda>x. \<not> p x) xs = filter p xs"
  using assms(1)
proof (induction xs)
  case (Cons x xs)
  show ?case
  proof (cases "p x")
    case True
    with Cons.prems assms(2) have "\<forall>y \<in> set xs. p y" by auto
    then have "filter (\<lambda>x. \<not> p x) xs = []" "filter p xs = xs" by (simp_all add: filter_empty_conv filter_id_conv)
    with True show ?thesis by simp
  qed (use Cons in simp)
qed simp

lemma sort_search_drop:
  assumes "sorted xs" "\<And>x y. x \<le> y \<Longrightarrow> p x \<Longrightarrow> p y"
  shows "drop (sort_search (length xs) (\<lambda>i. p (xs ! i))) xs = filter p xs"
    and "take (sort_search (length xs) (\<lambda>i. p (xs ! i))) xs = filter (\<lambda>x. \<not> p x) xs"
proof -
  have "takeWhile (\<lambda>x. \<not> p x) xs = filter (\<lambda>x. \<not> p x) xs \<and> dropWhile (\<lambda>x. \<not> p x) xs = filter p xs"
    by (rule sorted_takeWhile_filter) (use assms in auto)
  moreover have "sort_search (length xs) (\<lambda>i. p (xs ! i)) = length (takeWhile (\<lambda>x. \<not> p x) xs)"
    by (rule sort_search_takeWhile) (use assms in auto)
  ultimately show "drop (sort_search (length xs) (\<lambda>i. p (xs ! i))) xs = filter p xs"
    and "take (sort_search (length xs) (\<lambda>i. p (xs ! i))) xs = filter (\<lambda>x. \<not> p x) xs"
    by (metis dropWhile_eq_drop, metis takeWhile_eq_take)
qed

section \<open>The launches a ledger represents\<close>

definition represents :: "launch_ledger \<Rightarrow> launch_row list \<Rightarrow> bool" where
  "represents l kept \<longleftrightarrow>
     distinct (map launch_key kept) \<and>
     ll_seen l = map_of (map (\<lambda>row. (launch_key row, lr_launched_at row)) kept) \<and>
     (\<forall>channel. ll_launches l channel = sort (map lr_launched_at (filter (\<lambda>row. lr_feature row = channel) kept)))"

definition remember :: "launch_row \<Rightarrow> launch_row list \<Rightarrow> launch_row list" where
  "remember row kept = (if launch_key row \<in> set (map launch_key kept) then kept else row # kept)"

definition forget :: "gotime \<Rightarrow> launch_row list \<Rightarrow> launch_row list" where
  "forget before kept = filter (\<lambda>row. \<not> lr_launched_at row < before) kept"

lemma represents_seen:
  "represents l kept \<Longrightarrow> ll_seen l key = None \<longleftrightarrow> key \<notin> set (map launch_key kept)"
  by (simp add: represents_def map_of_eq_None_iff o_def image_image)

lemma represents_frame [simp]:
  "represents (l\<lparr>ll_pending := p\<rparr>) kept \<longleftrightarrow> represents l kept"
  "represents (l\<lparr>ll_last_prune := t\<rparr>) kept \<longleftrightarrow> represents l kept"
  "represents (l\<lparr>ll_covered_from := t\<rparr>) kept \<longleftrightarrow> represents l kept"
  by (simp_all add: represents_def)

lemma new_ledger_represents [simp]: "represents new_ledger []"
  by (simp add: new_ledger_def represents_def)

lemma insert_sorted_eq:
  fixes t :: int
  assumes "sorted xs"
  shows "filter (\<lambda>x. \<not> t < x) xs @ t # filter (\<lambda>x. t < x) xs = insort t xs"
  using assms
proof (induction xs)
  case (Cons x xs)
  show ?case
  proof (cases "t < x")
    case True
    with Cons.prems have "filter (\<lambda>x. \<not> t < x) xs = []" "filter (\<lambda>x. t < x) xs = xs"
      by (auto simp: filter_empty_conv intro!: filter_True)
    with True show ?thesis by simp
  next
    case f: False
    show ?thesis
    proof (cases "x = t")
      case True
      have "insort t xs = t # xs" using Cons.prems True by (cases xs) auto
      moreover have "insort t xs = filter (\<lambda>x. \<not> t < x) xs @ t # filter (\<lambda>x. t < x) xs" using Cons by simp
      ultimately show ?thesis using True by (simp add: insort_is_Cons)
    next
      case False
      with f Cons show ?thesis by simp
    qed
  qed
qed simp

lemma insert_locked_represents:
  assumes "represents l kept"
  shows "represents (snd (insert_locked row l)) (remember row kept)"
    and "fst (insert_locked row l) \<longleftrightarrow> launch_key row \<notin> set (map launch_key kept)"
proof -
  let ?ts = "ll_launches l (lr_feature row)" and ?t = "lr_launched_at row"
  have "sorted ?ts" using assms by (simp add: represents_def)
  then have "take (sort_search (length ?ts) (\<lambda>i. ?t < ?ts ! i)) ?ts @ ?t # drop (sort_search (length ?ts) (\<lambda>i. ?t < ?ts ! i)) ?ts =
      insort ?t ?ts"
    using sort_search_drop [of ?ts "\<lambda>x. ?t < x"] by (simp add: insert_sorted_eq)
  with assms represents_seen [OF assms, of "launch_key row"]
  show "represents (snd (insert_locked row l)) (remember row kept)"
    by (auto simp: insert_locked_def remember_def represents_def Let_def fun_eq_iff)
  show "fst (insert_locked row l) \<longleftrightarrow> launch_key row \<notin> set (map launch_key kept)"
    using represents_seen [OF assms, of "launch_key row"] by (simp add: insert_locked_def Let_def)
qed

lemma map_of_forget:
  "distinct (map launch_key kept) \<Longrightarrow>
     map_of (map (\<lambda>row. (launch_key row, lr_launched_at row)) (forget b kept)) key =
     (case map_of (map (\<lambda>row. (launch_key row, lr_launched_at row)) kept) key of
        None \<Rightarrow> None | Some t \<Rightarrow> if t < b then None else Some t)"
proof (induction kept)
  case (Cons row kept)
  have "map_of (map (\<lambda>row. (launch_key row, lr_launched_at row)) kept) (launch_key row) = None"
    using Cons.prems by (simp add: map_of_eq_None_iff o_def image_image)
  with Cons show ?case by (auto simp: forget_def)
qed (simp add: forget_def)

lemma prune_locked_represents:
  assumes "represents l kept"
  shows "represents (prune_locked b l) (forget b kept)"
proof -
  have s: "\<And>channel. sorted (ll_launches l channel)" using assms by (simp add: represents_def)
  have "drop (sort_search (length (ll_launches l channel)) (\<lambda>i. \<not> ll_launches l channel ! i < b)) (ll_launches l channel) =
      sort (map lr_launched_at (filter (\<lambda>row. lr_feature row = channel) (forget b kept)))" for channel
  proof -
    have "drop (sort_search (length (ll_launches l channel)) (\<lambda>i. \<not> ll_launches l channel ! i < b)) (ll_launches l channel) =
        filter (\<lambda>x. \<not> x < b) (ll_launches l channel)"
      by (rule sort_search_drop(1) [OF s]) simp
    also have "\<dots> = sort (filter (\<lambda>x. \<not> x < b) (map lr_launched_at (filter (\<lambda>row. lr_feature row = channel) kept)))"
      using assms by (simp add: represents_def filter_sort)
    finally show ?thesis by (simp add: forget_def filter_map o_def conj_commute)
  qed
  then show ?thesis
    using assms map_of_forget [of kept b] by (auto simp: represents_def prune_locked_def Let_def forget_def distinct_map_filter)
qed

lemma launches_since_represents:
  assumes "represents l kept"
  shows "launches_since since (ll_launches l channel) = length (filter (\<lambda>row. lr_feature row = channel \<and> since \<le> lr_launched_at row) kept)"
proof -
  have s: "sorted (ll_launches l channel)" using assms by (simp add: represents_def)
  have "launches_since since (ll_launches l channel) =
      length (drop (sort_search (length (ll_launches l channel)) (\<lambda>i. \<not> ll_launches l channel ! i < since)) (ll_launches l channel))"
    by (simp add: launches_since_def)
  also have "\<dots> = length (filter (\<lambda>x. \<not> x < since) (ll_launches l channel))"
    by (subst sort_search_drop(1) [OF s]) simp_all
  also have "\<dots> = length (filter (\<lambda>x. since \<le> x) (map lr_launched_at (filter (\<lambda>row. lr_feature row = channel) kept)))"
    using assms by (simp add: represents_def filter_sort not_less)
  finally show ?thesis by (simp add: filter_map o_def conj_commute)
qed

lemma insert_all_represents:
  "represents l kept \<Longrightarrow> represents (snd (insert_all rows l)) (fold remember rows kept)"
proof (induction rows arbitrary: l kept)
  case (Cons row rows)
  from Cons.IH [OF insert_locked_represents(1) [OF Cons.prems, of row]]
  show ?case by (simp add: case_prod_beta Let_def)
qed simp

lemma insert_all_fresh:
  "represents l kept \<Longrightarrow> set (fst (insert_all rows l)) \<subseteq> set rows \<and> (\<forall>row \<in> set rows. launch_key row \<in> set (map launch_key kept) \<or>
     launch_key row \<in> launch_key ` set (fst (insert_all rows l)))"
proof (induction rows arbitrary: l kept)
  case (Cons row rows)
  note i = insert_locked_represents [OF Cons.prems, of row]
  from Cons.IH [OF i(1)] i(2) show ?case
    by (auto simp: case_prod_beta Let_def remember_def split: if_splits)
qed simp

lemma insert_locked_frame [simp]:
  "ll_pending (snd (insert_locked row l)) = ll_pending l" "ll_covered_from (snd (insert_locked row l)) = ll_covered_from l"
  "ll_last_prune (snd (insert_locked row l)) = ll_last_prune l"
  by (simp_all add: insert_locked_def Let_def)

lemma insert_all_frame [simp]:
  "ll_pending (snd (insert_all rows l)) = ll_pending l" "ll_covered_from (snd (insert_all rows l)) = ll_covered_from l"
  "ll_last_prune (snd (insert_all rows l)) = ll_last_prune l"
  by (induction rows arbitrary: l) (simp_all add: case_prod_beta Let_def)

lemma fold_remember_set:
  assumes "inj_on launch_key K" "set kept \<subseteq> K" "set rows \<subseteq> K"
  shows "set (fold remember rows kept) = set kept \<union> set rows"
  using assms(2,3)
proof (induction rows arbitrary: kept)
  case (Cons row rows)
  have "set (remember row kept) = insert row (set kept)"
    using Cons.prems assms(1) by (auto simp: remember_def dest: inj_onD)
  with Cons show ?case by simp
qed simp

section \<open>What a ledger knows\<close>

text \<open>All launches a delivery confirms, however old.\<close>

definition confirmed_launches :: "gotime \<Rightarrow> stream_receipt \<Rightarrow> launch_row list" where
  "confirmed_launches now d =
     (let r = dl_receipt d in attack_launch_rows (dl_warning d) r (receipt_launch_time r now) (receipt_launch_time r now))"

lemma attack_launch_rows_horizon:
  "attack_launch_rows w r t horizon = (if t < horizon then [] else attack_launch_rows w r t t)"
  by (simp add: attack_launch_rows_def)

lemma attack_launch_rows_time: "row \<in> set (attack_launch_rows w r t horizon) \<Longrightarrow> lr_launched_at row = t"
  by (auto simp: attack_launch_rows_def Let_def split: if_splits)

text \<open>Of the launches in \<open>K\<close>, the ledger has counted all from \<open>since\<close> on, and no others.\<close>

definition knows :: "gotime \<Rightarrow> launch_row set \<Rightarrow> launch_ledger \<Rightarrow> bool" where
  "knows since K l \<longleftrightarrow> (\<exists>kept. represents l kept \<and> set kept \<subseteq> K \<and> (\<forall>row \<in> K. since \<le> lr_launched_at row \<longrightarrow> row \<in> set kept))"

text \<open>The tables hold what is not waiting to be stored.\<close>

definition stored_ok :: "gotime \<Rightarrow> launch_row set \<Rightarrow> launch_row list \<Rightarrow> launch_tables \<Rightarrow> bool" where
  "stored_ok since K pending db \<longleftrightarrow> set (lt_rows db) \<subseteq> store_launch ` K \<and> set pending \<subseteq> K \<and>
     (\<forall>row \<in> K. since \<le> lr_launched_at row \<longrightarrow> store_launch row \<in> set (lt_rows db) \<or> row \<in> set pending)"

lemma knows_frame [simp]:
  "knows since K (l\<lparr>ll_pending := p\<rparr>) \<longleftrightarrow> knows since K l"
  "knows since K (l\<lparr>ll_last_prune := t\<rparr>) \<longleftrightarrow> knows since K l"
  "knows since K (l\<lparr>ll_covered_from := t\<rparr>) \<longleftrightarrow> knows since K l"
  by (simp_all add: knows_def)

lemma knows_launches_since:
  assumes "knows since0 K l" "inj_on launch_key K" "since0 \<le> since"
  shows "launches_since since (ll_launches l channel) = card {row \<in> K. lr_feature row = channel \<and> since \<le> lr_launched_at row}"
proof -
  from assms(1) obtain kept where k: "represents l kept" "set kept \<subseteq> K" "\<forall>row \<in> K. since0 \<le> lr_launched_at row \<longrightarrow> row \<in> set kept"
    by (auto simp: knows_def)
  let ?f = "filter (\<lambda>row. lr_feature row = channel \<and> since \<le> lr_launched_at row) kept"
  have "distinct kept" using k(1) by (auto simp: represents_def distinct_map)
  then have "distinct ?f" by simp
  then have "length ?f = card (set ?f)" by (rule distinct_card [symmetric])
  also have "set ?f = {row \<in> K. lr_feature row = channel \<and> since \<le> lr_launched_at row}"
    using k(2,3) assms(3) by (auto dest: order_trans)
  finally show ?thesis using launches_since_represents [OF k(1)] by simp
qed

lemma knows_insert_all:
  assumes "knows since K l" "inj_on launch_key K'" "K \<subseteq> K'" "set rows \<subseteq> K'" "\<And>row. row \<in> K' \<Longrightarrow> row \<notin> K \<Longrightarrow> since \<le> lr_launched_at row \<Longrightarrow> row \<in> set rows"
  shows "knows since K' (snd (insert_all rows l))"
proof -
  from assms(1) obtain kept where k: "represents l kept" "set kept \<subseteq> K" "\<forall>row \<in> K. since \<le> lr_launched_at row \<longrightarrow> row \<in> set kept"
    by (auto simp: knows_def)
  have "set (fold remember rows kept) = set kept \<union> set rows"
    by (rule fold_remember_set [OF assms(2)]) (use assms(3,4) k(2) in auto)
  with k assms(3-5) insert_all_represents [OF k(1), of rows] show ?thesis
    unfolding knows_def by (intro exI [of _ "fold remember rows kept"]) auto
qed

lemma knows_prune:
  assumes "knows since K l" "b \<le> since"
  shows "knows since K (prune_locked b l)"
proof -
  from assms(1) obtain kept where k: "represents l kept" "set kept \<subseteq> K" "\<forall>row \<in> K. since \<le> lr_launched_at row \<longrightarrow> row \<in> set kept"
    by (auto simp: knows_def)
  with assms(2) prune_locked_represents [OF k(1), of b] show ?thesis
    unfolding knows_def by (intro exI [of _ "forget b kept"]) (auto simp: forget_def)
qed

section \<open>The tables\<close>

lemma stored_key_store [simp]: "stored_key (store_launch row) = launch_key row"
  by (simp add: stored_key_def store_launch_def launch_key_def)

lemma insert_rows_set:
  assumes "inj_on launch_key K" "set rows \<subseteq> store_launch ` K" "set batch \<subseteq> K"
  shows "set (insert_attack_launch_rows batch rows) = set rows \<union> store_launch ` set batch"
  using assms(2,3) unfolding insert_attack_launch_rows_def
proof (induction batch arbitrary: rows)
  case (Cons row batch)
  have "set (insert_attack_launch_row row rows) = insert (store_launch row) (set rows)"
  proof (cases "launch_key row \<in> set (map stored_key rows)")
    case True
    then obtain row' where "row' \<in> K" "store_launch row' \<in> set rows" "launch_key row = launch_key row'"
      using Cons.prems(1) by auto
    moreover then have "row' = row" using assms(1) Cons.prems(2) by (auto dest: inj_onD)
    ultimately show ?thesis using True by (auto simp: insert_attack_launch_row_def)
  qed (auto simp: insert_attack_launch_row_def)
  with Cons show ?case by simp
qed simp

lemma ledger_nanos_mono: "unix_epoch < t \<Longrightarrow> b \<le> t \<Longrightarrow> ledger_nanos b \<le> ledger_nanos t"
  by (auto simp: ledger_nanos_def time_is_zero_def unix_epoch_def)

lemma ledger_time_nanos: "unix_epoch < t \<Longrightarrow> ledger_time (ledger_nanos t) = t"
  by (auto simp: ledger_nanos_def ledger_time_def time_is_zero_def unix_epoch_def)

lemma scan_store: "unix_epoch < lr_launched_at row \<Longrightarrow> scan_launch (store_launch row) = row"
  by (simp add: scan_launch_def store_launch_def ledger_time_nanos)

lemma stored_append:
  assumes "stored_ok since K (pending @ fresh) db" "inj_on launch_key K"
  shows "stored_ok since K (if fst (ask_store a (append_attack_launches (pending @ fresh)) db) then pending @ fresh else [])
    (snd (ask_store a (append_attack_launches (pending @ fresh)) db))"
proof -
  have "set (insert_attack_launch_rows (pending @ fresh) (lt_rows db)) = set (lt_rows db) \<union> store_launch ` set (pending @ fresh)"
    by (rule insert_rows_set [OF assms(2)]) (use assms(1) in \<open>auto simp: stored_ok_def\<close>)
  with assms(1) show ?thesis by (cases a) (auto simp: ask_store_def append_attack_launches_def stored_ok_def)
qed

lemma stored_prune:
  assumes "stored_ok since K pending db" "b \<le> since" "\<forall>row \<in> K. unix_epoch < lr_launched_at row"
  shows "stored_ok since K pending (snd (ask_store a (prune_attack_launches b) db))"
proof -
  have keep: "ledger_nanos b \<le> sl_launched_at (store_launch row)" if "row \<in> K" "since \<le> lr_launched_at row" for row
    using that assms(2,3) ledger_nanos_mono [of "lr_launched_at row" b] by (simp add: store_launch_def)
  show ?thesis
  proof (cases "a = Refused")
    case False
    from assms(1) have "\<forall>row \<in> K. since \<le> lr_launched_at row \<longrightarrow>
        store_launch row \<in> set (lt_rows (prune_attack_launches b db)) \<or> row \<in> set pending"
      using keep by (auto simp: stored_ok_def prune_attack_launches_def not_less)
    moreover have "set (lt_rows (prune_attack_launches b db)) \<subseteq> store_launch ` K"
      using assms(1) by (auto simp: stored_ok_def prune_attack_launches_def)
    ultimately show ?thesis using False assms(1) by (simp add: ask_store_def stored_ok_def)
  qed (use assms(1) in \<open>simp add: ask_store_def\<close>)
qed

lemma stored_gap [simp]: "stored_ok since K pending (snd (ask_store a (mark_attack_launch_gap t) db)) \<longleftrightarrow> stored_ok since K pending db"
  by (simp add: ask_store_def mark_attack_launch_gap_def stored_ok_def)

section \<open>One receipt\<close>

lemma prune_locked_frame [simp]:
  "ll_pending (prune_locked b l) = ll_pending l" "ll_covered_from (prune_locked b l) = ll_covered_from l"
  "ll_last_prune (prune_locked b l) = ll_last_prune l"
  by (simp_all add: prune_locked_def)

lemma record_rows_eq:
  assumes "insert_all rows l = (fresh, l1)"
  shows "record_rows a now rows (l, db) =
    (let batch = ll_pending l1 @ fresh; due = attack_launch_prune_interval \<le> time_sub now (ll_last_prune l1);
         horizon = now - attack_launch_retention;
         l2 = (if due then prune_locked horizon (l1\<lparr>ll_pending := [], ll_last_prune := now\<rparr>) else l1\<lparr>ll_pending := []\<rparr>);
         q = (if batch = [] then (False, db) else ask_store (sa_append a) (append_attack_launches batch) db)
     in (if fst q then l2\<lparr>ll_pending := batch @ ll_pending l2\<rparr> else l2,
         if due then snd (ask_store (sa_prune a) (prune_attack_launches horizon) (snd q)) else snd q))"
  unfolding record_rows_def prod.case assms Let_def by (simp add: split_def)

lemma record_rows_step:
  assumes "knows since K l" "stored_ok since K (ll_pending l) db" "inj_on launch_key K'" "K' = K \<union> N" "set rows \<subseteq> N"
    "\<And>row. row \<in> N \<Longrightarrow> since \<le> lr_launched_at row \<Longrightarrow> row \<in> set rows"
    "now - attack_launch_retention \<le> since" "\<forall>row \<in> K'. unix_epoch < lr_launched_at row"
    "record_rows a now rows (l, db) = (l', db')"
  shows "knows since K' l' \<and> stored_ok since K' (ll_pending l') db'"
proof -
  obtain fresh l1 where i: "insert_all rows l = (fresh, l1)" by fastforce
  have k: "knows since K' l1"
    using knows_insert_all [OF assms(1,3), of rows] assms(4-6) i by auto
  from assms(1) obtain kept where kept: "represents l kept" "set kept \<subseteq> K" by (auto simp: knows_def)
  have fr: "set fresh \<subseteq> set rows" "\<And>row. row \<in> set rows \<Longrightarrow> row \<in> set kept \<or> row \<in> set fresh"
  proof -
    note f = insert_all_fresh [OF kept(1), of rows, unfolded i fst_conv]
    then show 1: "set fresh \<subseteq> set rows" by blast
    fix row assume r: "row \<in> set rows"
    with f obtain row' where row': "row' \<in> set kept \<union> set fresh" "launch_key row = launch_key row'" by auto
    then have "row' \<in> K'" "row \<in> K'" using r 1 kept(2) assms(4,5) by auto
    with row' assms(3) show "row \<in> set kept \<or> row \<in> set fresh" by (auto dest: inj_onD)
  qed
  have s: "stored_ok since K' (ll_pending l @ fresh) db"
    unfolding stored_ok_def
  proof (intro conjI ballI impI)
    show "set (lt_rows db) \<subseteq> store_launch ` K'" "set (ll_pending l @ fresh) \<subseteq> K'"
      using assms(2,4,5) fr(1) by (auto simp: stored_ok_def)
    fix row assume row: "row \<in> K'" "since \<le> lr_launched_at row"
    then have "row \<in> K \<or> row \<in> set fresh" using assms(4,6) fr(2) kept(2) by blast
    with row assms(2) show "store_launch row \<in> set (lt_rows db) \<or> row \<in> set (ll_pending l @ fresh)"
      by (auto simp: stored_ok_def)
  qed
  have p: "ll_pending l1 = ll_pending l" and last_prune: "ll_last_prune l1 = ll_last_prune l"
    using insert_all_frame(1,3) [of rows l] i by simp_all
  note a = stored_append [OF s assms(3), of "sa_append a"]
  let ?batch = "ll_pending l @ fresh" and ?b = "now - attack_launch_retention"
  let ?due = "attack_launch_prune_interval \<le> time_sub now (ll_last_prune l)"
  let ?l2 = "if ?due then prune_locked ?b (l1\<lparr>ll_pending := [], ll_last_prune := now\<rparr>) else l1\<lparr>ll_pending := []\<rparr>"
  let ?q = "if ?batch = [] then (False, db) else ask_store (sa_append a) (append_attack_launches ?batch) db"
  have q: "stored_ok since K' (if fst ?q then ?batch else []) (snd ?q)"
    using s a by (cases "?batch = []") auto
  have "ll_pending ?l2 = []" by simp
  moreover have "l' = (if fst ?q then ?l2\<lparr>ll_pending := ?batch @ ll_pending ?l2\<rparr> else ?l2)"
    and db': "db' = (if ?due then snd (ask_store (sa_prune a) (prune_attack_launches ?b) (snd ?q)) else snd ?q)"
    using assms(9) by (simp_all only: record_rows_eq [OF i] p last_prune Let_def prod.inject)
  ultimately have l': "l' = (if fst ?q then ?l2\<lparr>ll_pending := ?batch\<rparr> else ?l2)" "ll_pending l' = (if fst ?q then ?batch else [])"
    by simp_all
  have "knows since K' ?l2" using k assms(7) by (simp add: knows_prune)
  with l' db' q stored_prune [OF q assms(7,8)] show ?thesis by auto
qed

section \<open>Runs\<close>

type_synonym ledger_event = "store_answers \<times> gotime \<times> stream_receipt"

definition run_ledger :: "ledger_event list \<Rightarrow> launch_ledger \<times> launch_tables \<Rightarrow> launch_ledger \<times> launch_tables" where
  "run_ledger events w = fold (\<lambda>(answers, now, d) w. record_receipt answers now d w) events w"

definition confirmed_by :: "ledger_event list \<Rightarrow> launch_row set" where
  "confirmed_by events = set (concat (map (\<lambda>(answers, now, d). confirmed_launches now d) events))"

definition clocks_until :: "gotime \<Rightarrow> ledger_event list \<Rightarrow> bool" where
  "clocks_until now events = list_all (\<lambda>(answers, t, d). t \<le> now) events"

definition gap_after :: "gotime \<Rightarrow> ledger_event list \<Rightarrow> bool" where
  "gap_after t events = list_ex (\<lambda>(answers, now, d). dl_gap d \<and> t \<le> now) events"

lemma receipt_rows_cut:
  "set (attack_launch_rows w r t horizon) \<subseteq> set (attack_launch_rows w r t t)"
  "row \<in> set (attack_launch_rows w r t t) \<Longrightarrow> horizon \<le> lr_launched_at row \<Longrightarrow> row \<in> set (attack_launch_rows w r t horizon)"
  using attack_launch_rows_horizon [of w r t horizon] attack_launch_rows_time [of row w r t t] by auto

lemma record_receipt_step:
  assumes "knows since K l" "stored_ok since K (ll_pending l) db" "inj_on launch_key (K \<union> set (confirmed_launches now d))"
    "now - attack_launch_retention \<le> since" "\<forall>row \<in> K \<union> set (confirmed_launches now d). unix_epoch < lr_launched_at row"
    "record_receipt a now d (l, db) = (l', db')"
  shows "knows since (K \<union> set (confirmed_launches now d)) l' \<and> stored_ok since (K \<union> set (confirmed_launches now d)) (ll_pending l') db'"
proof -
  define w where "w = (if dl_gap d then mark_gap (sa_gap a) now (l, db) else (l, db))"
  let ?r = "dl_receipt d"
  let ?rows = "attack_launch_rows (dl_warning d) ?r (receipt_launch_time ?r now) (now - attack_launch_retention)"
  have w: "knows since K (fst w)" "stored_ok since K (ll_pending (fst w)) (snd w)"
    using assms(1,2) by (simp_all add: w_def mark_gap_def)
  have "record_rows a now ?rows (fst w, snd w) = (l', db')"
    using assms(6) by (simp add: record_receipt_def w_def Let_def)
  moreover have "set ?rows \<subseteq> set (confirmed_launches now d)"
    by (simp add: confirmed_launches_def Let_def receipt_rows_cut(1))
  moreover have "row \<in> set ?rows" if "row \<in> set (confirmed_launches now d)" "since \<le> lr_launched_at row" for row
    by (rule receipt_rows_cut(2)) (use that assms(4) in \<open>simp_all add: confirmed_launches_def Let_def\<close>)
  ultimately show ?thesis using record_rows_step [OF w assms(3) refl _ _ assms(4,5)] by blast
qed

lemma record_receipt_covered:
  "ll_covered_from (fst (record_receipt a now d (l, db))) = (if dl_gap d \<and> ll_covered_from l < now then now else ll_covered_from l)"
proof -
  have "ll_covered_from (fst (record_rows a now rows (l, db))) = ll_covered_from l" for rows l db
    by (cases "insert_all rows l") (use insert_all_frame(2) [of rows l] in \<open>simp add: record_rows_eq Let_def\<close>)
  then show ?thesis by (simp add: record_receipt_def mark_gap_def Let_def)
qed

lemma confirmed_by_Cons: "confirmed_by ((a, now, d) # events) = set (confirmed_launches now d) \<union> confirmed_by events"
  by (simp add: confirmed_by_def)

lemma run_ledger_Cons: "run_ledger ((a, now, d) # events) w = run_ledger events (record_receipt a now d w)"
  by (simp add: run_ledger_def)

lemma run_ledger_knows:
  assumes "knows since K l" "stored_ok since K (ll_pending l) db" "inj_on launch_key (K \<union> confirmed_by events)"
    "clocks_until now events" "now - attack_launch_retention \<le> since" "\<forall>row \<in> K \<union> confirmed_by events. unix_epoch < lr_launched_at row"
    "run_ledger events (l, db) = (l', db')"
  shows "knows since (K \<union> confirmed_by events) l' \<and> stored_ok since (K \<union> confirmed_by events) (ll_pending l') db'"
  using assms
proof (induction events arbitrary: K l db)
  case (Cons e events)
  obtain a t d where e: "e = (a, t, d)" by (cases e)
  obtain l1 db1 where r: "record_receipt a t d (l, db) = (l1, db1)" by fastforce
  let ?K = "K \<union> set (confirmed_launches t d)"
  have K: "?K \<union> confirmed_by events = K \<union> confirmed_by (e # events)" by (auto simp: e confirmed_by_Cons)
  have inj: "inj_on launch_key ?K" using Cons.prems(3) K by (metis inj_on_subset sup_ge1)
  have t: "t - attack_launch_retention \<le> since" "clocks_until now events"
    using Cons.prems(4,5) by (auto simp: clocks_until_def e)
  have epoch: "\<forall>row \<in> ?K. unix_epoch < lr_launched_at row" using Cons.prems(6) K by blast
  note step = record_receipt_step [OF Cons.prems(1,2) inj t(1) epoch r]
  show ?case
    unfolding K [symmetric]
    by (rule Cons.IH [of ?K l1 db1])
      (use step t Cons.prems(3,5,6,7) K in \<open>simp_all add: e run_ledger_Cons r\<close>)
qed (auto simp: run_ledger_def confirmed_by_def)

lemma run_ledger_covered:
  "run_ledger events (l, db) = (l', db') \<Longrightarrow> ll_covered_from l \<le> ll_covered_from l' \<and> (gap_after t events \<longrightarrow> t \<le> ll_covered_from l')"
proof (induction events arbitrary: l db)
  case (Cons e events)
  obtain a now d where e: "e = (a, now, d)" by (cases e)
  obtain l1 db1 where r: "record_receipt a now d (l, db) = (l1, db1)" by fastforce
  from Cons.IH [of l1 db1] Cons.prems have "ll_covered_from l1 \<le> ll_covered_from l' \<and> (gap_after t events \<longrightarrow> t \<le> ll_covered_from l')"
    by (simp add: e run_ledger_Cons r)
  moreover have "ll_covered_from l1 = (if dl_gap d \<and> ll_covered_from l < now then now else ll_covered_from l)"
    using record_receipt_covered [of a now d l db] by (simp add: r)
  ultimately show ?case by (auto simp: gap_after_def e split: if_splits)
qed (simp add: run_ledger_def gap_after_def)

section \<open>Opening\<close>

definition stored_launches :: "launch_tables \<Rightarrow> launch_row set" where
  "stored_launches db = scan_launch ` set (lt_rows db)"

definition load_rows :: "gotime \<Rightarrow> launch_tables \<Rightarrow> launch_row list" where
  "load_rows horizon db = map scan_launch (stable_sort (\<lambda>a b. sl_launched_at a < sl_launched_at b)
     (filter (\<lambda>s. ledger_nanos horizon \<le> sl_launched_at s) (lt_rows db)))"

lemma open_ledger_opens:
  assumes "open_attack_launch_ledger readable seeding now h db = (Some l, db')"
  obtains c where "lt_covered_from db' = Some c" "l = ledger_from now (ledger_time c, load_rows (now - attack_launch_retention) db')"
    "lt_covered_from db = Some c \<Longrightarrow> db' = db"
proof (cases "lt_covered_from db")
  case (Some c)
  with assms that show ?thesis
    by (auto simp: open_attack_launch_ledger_def load_attack_launch_ledger_def load_rows_def Let_def split: prod.splits if_splits)
next
  case None
  let ?covered = "if th_possibly_pruned h then th_oldest h else time_zero"
  let ?q = "ask_store seeding (initialize_attack_launch_ledger ?covered (history_seed now h)) db"
  have "\<not> fst ?q" "snd ?q = db'" "load_attack_launch_ledger (now - attack_launch_retention) db' \<noteq> None \<longrightarrow>
      Some l = map_option (ledger_from now) (load_attack_launch_ledger (now - attack_launch_retention) db')"
    using assms None
    by (auto simp: open_attack_launch_ledger_def load_attack_launch_ledger_def Let_def split_def split: if_splits option.splits)
  moreover from this have "lt_covered_from db' = Some (ledger_nanos ?covered)"
    using None by (cases seeding) (auto simp: ask_store_def initialize_attack_launch_ledger_def)
  ultimately show ?thesis using None that by (auto simp: load_attack_launch_ledger_def load_rows_def)
qed

lemma ledger_from_frame [simp]: "ll_pending (ledger_from now s) = []" "ll_covered_from (ledger_from now s) = fst s"
  by (simp_all add: ledger_from_def new_ledger_def)

lemma stored_scan:
  assumes "unix_epoch < lr_launched_at (scan_launch s)"
  shows "store_launch (scan_launch s) = s"
proof -
  have "sl_launched_at s \<noteq> 0" "0 < sl_launched_at s" using assms by (auto simp: scan_launch_def ledger_time_def unix_epoch_def split: if_splits)
  then show ?thesis
    by (auto simp: store_launch_def scan_launch_def ledger_time_def ledger_nanos_def time_is_zero_def unix_epoch_def)
qed

lemma ledger_from_knows:
  assumes "inj_on launch_key K" "\<forall>row \<in> K. unix_epoch < lr_launched_at row" "stored_ok since K [] db" "now - attack_launch_retention \<le> since"
  shows "knows since K (ledger_from now (c, load_rows (now - attack_launch_retention) db))"
proof -
  let ?b = "now - attack_launch_retention"
  have rows: "set (load_rows ?b db) = scan_launch ` {s \<in> set (lt_rows db). ledger_nanos ?b \<le> sl_launched_at s}"
    by (simp add: load_rows_def)
  have sub: "set (load_rows ?b db) \<subseteq> K"
    using assms(2,3) scan_store unfolding rows stored_ok_def by force
  have all: "row \<in> set (load_rows ?b db)" if "row \<in> K" "since \<le> lr_launched_at row" for row
  proof -
    have s: "store_launch row \<in> set (lt_rows db)" using assms(3) that by (auto simp: stored_ok_def)
    have e: "scan_launch (store_launch row) = row" using assms(2) that(1) scan_store by blast
    have "ledger_nanos ?b \<le> sl_launched_at (store_launch row)"
      using ledger_nanos_mono [of "lr_launched_at row" ?b] assms(2,4) that by (simp add: store_launch_def)
    with s e show ?thesis unfolding rows by force
  qed
  have "knows since {} (new_ledger\<lparr>ll_covered_from := c\<rparr>)" by (auto simp: knows_def intro: exI [of _ "[]"])
  from knows_insert_all [OF this assms(1) _ sub] all show ?thesis by (simp add: ledger_from_def)
qed

lemma opened_ledger_knows:
  assumes "open_attack_launch_ledger readable seeding now h db = (Some l, db')"
    "inj_on launch_key (stored_launches db')" "\<forall>row \<in> stored_launches db'. unix_epoch < lr_launched_at row" "now - attack_launch_retention \<le> since"
  shows "knows since (stored_launches db') l \<and> stored_ok since (stored_launches db') (ll_pending l) db'"
proof -
  have s: "stored_ok since (stored_launches db') [] db'"
    using assms(3) by (force simp: stored_ok_def stored_launches_def stored_scan)
  obtain c where "l = ledger_from now (ledger_time c, load_rows (now - attack_launch_retention) db')"
    using open_ledger_opens [OF assms(1)] by blast
  with ledger_from_knows [OF assms(2,3) s assms(4)] s show ?thesis by simp
qed

section \<open>Coverage in the tables\<close>

definition covered_ok :: "launch_ledger \<Rightarrow> launch_tables \<Rightarrow> bool" where
  "covered_ok l db \<longleftrightarrow> (case lt_covered_from db of None \<Rightarrow> False | Some c \<Rightarrow> 0 \<le> c \<and> ledger_time c = ll_covered_from l)"

lemma ask_store_covered [simp]:
  "lt_covered_from (snd (ask_store a (append_attack_launches batch) db)) = lt_covered_from db"
  "lt_covered_from (snd (ask_store a (prune_attack_launches b) db)) = lt_covered_from db"
  by (simp_all add: ask_store_def append_attack_launches_def prune_attack_launches_def)

lemma record_rows_covered:
  "ll_covered_from (fst (record_rows a now rows (l, db))) = ll_covered_from l"
  "lt_covered_from (snd (record_rows a now rows (l, db))) = lt_covered_from db"
  by (cases "insert_all rows l", use insert_all_frame(2) [of rows l] in \<open>simp add: record_rows_eq Let_def\<close>)+

lemma mark_gap_covered:
  assumes "covered_ok l db" "a \<noteq> Refused" "unix_epoch < now"
  shows "covered_ok (fst (mark_gap a now (l, db))) (snd (mark_gap a now (l, db)))"
  using assms
  by (auto simp: covered_ok_def mark_gap_def ask_store_def mark_attack_launch_gap_def ledger_nanos_def ledger_time_def time_is_zero_def
      unix_epoch_def max_def split: option.splits if_splits)

definition marked :: "ledger_event list \<Rightarrow> bool" where
  "marked events = list_all (\<lambda>(answers, now, d). dl_gap d \<longrightarrow> sa_gap answers \<noteq> Refused \<and> unix_epoch < now) events"

lemma record_receipt_covered_ok:
  assumes "covered_ok l db" "dl_gap d \<longrightarrow> sa_gap a \<noteq> Refused \<and> unix_epoch < now"
  shows "covered_ok (fst (record_receipt a now d (l, db))) (snd (record_receipt a now d (l, db)))"
proof -
  have "covered_ok (fst (record_rows a now rows w)) (snd (record_rows a now rows w)) = covered_ok (fst w) (snd w)" for rows w
    using record_rows_covered [of a now rows "fst w" "snd w"] by (simp add: covered_ok_def split: option.split)
  with assms mark_gap_covered [of l db "sa_gap a" now] show ?thesis by (simp add: record_receipt_def Let_def)
qed

lemma run_ledger_covered_ok:
  "covered_ok l db \<Longrightarrow> marked events \<Longrightarrow> run_ledger events (l, db) = (l', db') \<Longrightarrow> covered_ok l' db'"
proof (induction events arbitrary: l db)
  case (Cons e events)
  obtain a now d where e: "e = (a, now, d)" by (cases e)
  with Cons record_receipt_covered_ok [of l db d a now] show ?case
    by (cases "record_receipt a now d (l, db)") (simp add: run_ledger_Cons marked_def)
qed (simp add: run_ledger_def)

section \<open>What a window counts\<close>

lemma channel_count:
  "attack_launch_counts_since clock since now l = Some counts \<Longrightarrow> (channel, n) \<in> set counts \<Longrightarrow> n = launches_since since (ll_launches l channel)"
  by (auto simp: attack_launch_counts_since_def Let_def split: if_splits)

lemma answered_window:
  assumes "attack_launch_counts_since clock since now l = Some counts" "\<not> time_is_zero now"
  shows "now - attack_launch_retention \<le> since" "time_is_zero (ll_covered_from l) \<or> ll_covered_from l < since"
  using assms by (auto simp: attack_launch_counts_since_def Let_def split: if_splits)



section \<open>Two sources\<close>

lemma skip_before_drop: "drop (skip_before c ts) ts = dropWhile (\<lambda>t. t < c) ts" "length ts - skip_before c ts = length (dropWhile (\<lambda>t. t < c) ts)"
  by (induction ts) auto

lemma sorted_dropWhile_before: "sorted ts \<Longrightarrow> dropWhile (\<lambda>t. t < c) ts = filter (\<lambda>t. (c :: int) \<le> t) ts"
  using sorted_takeWhile_filter [of ts "\<lambda>t. c \<le> t"] by (simp add: not_le)

definition telemetry_of :: "launch_row list \<Rightarrow> string \<Rightarrow> gotime list" where
  "telemetry_of rows = fold (\<lambda>row. record_attack_launch (lr_feature row) (lr_launched_at row)) rows (\<lambda>_. [])"

lemma telemetry_of_snoc: "telemetry_of (rows @ [row]) = record_attack_launch (lr_feature row) (lr_launched_at row) (telemetry_of rows)"
  by (simp add: telemetry_of_def)

lemma telemetry_of_filter:
  assumes "sorted (map lr_launched_at rows)" "\<forall>row \<in> set rows. lr_launched_at row - attack_launch_retention \<le> c"
  shows "sorted (telemetry_of rows channel) \<and> set (telemetry_of rows channel) \<subseteq> lr_launched_at ` set rows \<and>
    filter (\<lambda>t. c \<le> t) (telemetry_of rows channel) = filter (\<lambda>t. c \<le> t) (map lr_launched_at (filter (\<lambda>row. lr_feature row = channel) rows))"
  using assms
proof (induction rows rule: rev_induct)
  case (snoc row rows)
  then have IH: "sorted (telemetry_of rows channel)" "set (telemetry_of rows channel) \<subseteq> lr_launched_at ` set rows"
    "filter (\<lambda>t. c \<le> t) (telemetry_of rows channel) = filter (\<lambda>t. c \<le> t) (map lr_launched_at (filter (\<lambda>row. lr_feature row = channel) rows))"
    by (auto simp: sorted_append)
  let ?ts = "telemetry_of rows channel" and ?b = "lr_launched_at row - attack_launch_retention"
  have "dropWhile (\<lambda>t. t < ?b) ?ts = filter (\<lambda>t. ?b \<le> t) ?ts" by (rule sorted_dropWhile_before [OF IH(1)])
  moreover have "filter (\<lambda>t. c \<le> t) (filter (\<lambda>t. ?b \<le> t) ?ts) = filter (\<lambda>t. c \<le> t) ?ts"
    using snoc.prems(2) by (auto intro!: filter_cong)
  moreover have "\<forall>t \<in> set ?ts. t \<le> lr_launched_at row" using IH(2) snoc.prems(1) by (auto simp: sorted_append)
  ultimately show ?case
    using IH by (auto simp: telemetry_of_snoc record_attack_launch_def skip_before_drop sorted_append sorted_wrt_filter Let_def)
qed (simp add: telemetry_of_def)

lemma ledger_of_rows:
  assumes "distinct (map launch_key rows)"
  shows "represents (snd (insert_all rows new_ledger)) (rev rows)"
proof -
  have "distinct (map launch_key (rev kept @ rows)) \<Longrightarrow> fold remember rows kept = rev rows @ kept" for kept
    by (induction rows arbitrary: kept) (auto simp: remember_def)
  from this [of "[]"] insert_all_represents [OF new_ledger_represents, of rows] assms show ?thesis by simp
qed

text \<open>C20. The two sources of launch counts agree: launches in the order of their times, with distinct identities,
  recorded by the counters of the telemetry store and by the ledger, give the same answer for every window.\<close>

theorem launch_sources_agree:
  assumes "sorted (map lr_launched_at rows)" "distinct (map launch_key rows)" "\<forall>row \<in> set rows. lr_launched_at row \<le> now"
    and "\<not> time_is_zero now"
  shows "telemetry_counts_since clock since now (telemetry_of rows) = attack_launch_counts_since clock since now (snd (insert_all rows new_ledger))"
proof -
  have r: "represents (snd (insert_all rows new_ledger)) (rev rows)" by (rule ledger_of_rows [OF assms(2)])
  let ?b = "now - attack_launch_retention"
  have "length (drop (skip_before ?b ts) ts) - skip_before since (drop (skip_before ?b ts) ts) =
      launches_since since (ll_launches (snd (insert_all rows new_ledger)) channel)"
    if "ts = telemetry_of rows channel" "?b \<le> since" for ts channel
  proof -
    have until: "\<forall>row \<in> set rows. lr_launched_at row - attack_launch_retention \<le> since" using assms(3) that(2) by fastforce
    have t: "sorted ts" "filter (\<lambda>t. since \<le> t) ts = filter (\<lambda>t. since \<le> t) (map lr_launched_at (filter (\<lambda>row. lr_feature row = channel) rows))"
      using telemetry_of_filter [OF assms(1) until, of channel] that(1) by simp_all
    have "dropWhile (\<lambda>t. t < since) (dropWhile (\<lambda>t. t < ?b) ts) = filter (\<lambda>t. since \<le> t) (filter (\<lambda>t. ?b \<le> t) ts)"
      using t(1) by (simp add: sorted_dropWhile_before sorted_wrt_filter)
    also have "\<dots> = filter (\<lambda>t. since \<le> t) ts" using that(2) by (auto intro!: filter_cong)
    finally show ?thesis
      unfolding launches_since_represents [OF r] skip_before_drop
      by (simp add: t(2) filter_map o_def rev_filter [symmetric] conj_commute)
  qed
  moreover have "ll_covered_from (snd (insert_all rows new_ledger)) = time_zero" by (simp add: new_ledger_def)
  ultimately show ?thesis
    using assms(4) by (auto simp: telemetry_counts_since_def attack_launch_counts_since_def telemetry_counts_def time_is_zero_def Let_def)
qed

section \<open>A ledger through a gap and a restart\<close>

definition demo_open :: gotime where
  "demo_open = unix_epoch + 1000 * hour"

definition demo_answers :: "store_answer \<Rightarrow> store_answers" where
  "demo_answers a = \<lparr>sa_gap = Stored, sa_append = a, sa_prune = Stored\<rparr>"

definition demo_delivery :: "bool \<Rightarrow> string \<Rightarrow> status \<Rightarrow> duration \<Rightarrow> store_answer \<Rightarrow> ledger_event" where
  "demo_delivery gap i s after a =
     (demo_answers a, demo_open + after, \<lparr>dl_receipt = demo_attack i s (demo_open + after), dl_gap = gap, dl_warning = False\<rparr>)"

definition demo_history :: terminal_history where
  "demo_history = \<lparr>th_receipts = [], th_possibly_pruned = False, th_oldest = time_zero\<rparr>"

definition demo_opened :: "launch_ledger option \<times> launch_tables" where
  "demo_opened = open_attack_launch_ledger (True, True, True) Stored demo_open demo_history \<lparr>lt_covered_from = None, lt_rows = []\<rparr>"

text \<open>A failed attack, a success after a gap, then a success that arrives twice; the append of the last one is
  answered by \<open>a\<close>.\<close>

definition demo_events :: "store_answer \<Rightarrow> ledger_event list" where
  "demo_events a = [demo_delivery False ''op-1'' Status_failed second Stored, demo_delivery True ''op-2'' Status_succeeded minute Stored,
     demo_delivery False ''op-3'' Status_succeeded (2 * minute) a, demo_delivery False ''op-3'' Status_succeeded (2 * minute) a]"

definition demo_run :: "store_answer \<Rightarrow> launch_ledger \<times> launch_tables" where
  "demo_run a = run_ledger (demo_events a) (the (fst demo_opened), snd demo_opened)"

definition demo_row :: "string \<Rightarrow> nat \<Rightarrow> duration \<Rightarrow> launch_row" where
  "demo_row i k after = \<lparr>lr_operation = i, lr_ordinal = k, lr_feature = ''autotowers'', lr_launched_at = demo_open + after\<rparr>"

definition demo_rows :: "launch_row list" where
  "demo_rows = [demo_row ''op-1'' 0 second, demo_row ''op-2'' 0 minute, demo_row ''op-2'' 1 minute,
     demo_row ''op-3'' 0 (2 * minute), demo_row ''op-3'' 1 (2 * minute)]"

definition demo_missed :: "launch_row list" where
  "demo_missed = [demo_row ''op-0'' 0 (30 * second)]"

lemma demo_opens: "fst demo_opened \<noteq> None" "lt_rows (snd demo_opened) = []" "lt_covered_from (snd demo_opened) = Some 0"
  "ll_covered_from (the (fst demo_opened)) = 0"
  by code_simp+

lemma demo_confirmed:
  "concat (map (\<lambda>(answers, now, d). confirmed_launches now d) (demo_events a)) =
     demo_rows @ [demo_row ''op-3'' 0 (2 * minute), demo_row ''op-3'' 1 (2 * minute)]"
  by (induct a; code_simp)

lemma demo_known: "stored_launches (snd demo_opened) \<union> confirmed_by (demo_events a) = set demo_rows"
  unfolding confirmed_by_def demo_confirmed stored_launches_def demo_opens by (auto simp: demo_rows_def)

lemma demo_distinct: "distinct (map launch_key (demo_missed @ demo_rows))" "distinct (demo_missed @ demo_rows)"
  "list_all (\<lambda>row. unix_epoch < lr_launched_at row) (demo_missed @ demo_rows)"
  by code_simp+

lemma demo_inj: "inj_on launch_key (set demo_missed \<union> set demo_rows)" "\<forall>row \<in> set demo_missed \<union> set demo_rows. unix_epoch < lr_launched_at row"
proof -
  have "inj_on launch_key (set (demo_missed @ demo_rows))" using demo_distinct(1) distinct_map by blast
  then show "inj_on launch_key (set demo_missed \<union> set demo_rows)" by simp
  have "\<forall>row \<in> set (demo_missed @ demo_rows). unix_epoch < lr_launched_at row" using demo_distinct(3) by (simp add: list_all_iff)
  then show "\<forall>row \<in> set demo_missed \<union> set demo_rows. unix_epoch < lr_launched_at row" by simp
qed

definition demo_answer :: "nat \<Rightarrow> (string \<times> nat) list option" where
  "demo_answer n = Some [(''autotowers'', n), (''autofortress'', 0), (''autoinvasion'', 0), (''autonomad'', 0), (''autoadvisor'', 0),
     (''autokhan'', 0), (''autoberiworld'', 0), (''autostorm'', 0)]"

definition demo_window :: "launch_ledger \<Rightarrow> (string \<times> nat) list option" where
  "demo_window l = attack_launch_counts_since 7 (demo_open + minute + second) (demo_open + hour) l"

lemma demo_counts: "demo_window (fst (demo_run a)) = demo_answer 2"
  by (induct a; code_simp)

lemma demo_clocks: "clocks_until (demo_open + hour) (demo_events a)" "marked (demo_events a)"
  "gap_after (demo_open + 30 * second) (demo_events a)" "\<not> time_is_zero (demo_open + hour)"
  by (induct a; code_simp)+

lemma demo_open_eq: "open_attack_launch_ledger (True, True, True) Stored demo_open demo_history \<lparr>lt_covered_from = None, lt_rows = []\<rparr> =
    (Some (the (fst demo_opened)), snd demo_opened)"
  using demo_opens(1) by (cases demo_opened) (auto simp: demo_opened_def [symmetric])


definition demo_reopened :: "store_answer \<Rightarrow> launch_ledger option \<times> launch_tables" where
  "demo_reopened a = open_attack_launch_ledger (True, True, True) Stored (demo_open + hour) demo_history (snd (demo_run a))"

lemma demo_reopens: "fst (demo_reopened a) \<noteq> None"
  by (induct a; code_simp)

lemma demo_saved: "ll_pending (fst (demo_run Stored)) = []"
  by code_simp


text \<open>Launches whose append the database refused are only in the memory of the process: after a restart the same
  window is answered with a smaller number.\<close>

lemma refused_launches_are_forgotten:
  "demo_window (fst (demo_run Refused)) = demo_answer 2 \<and> demo_window (the (fst (demo_reopened Refused))) = demo_answer 0"
  by (intro conjI, rule demo_counts) code_simp

theorem launch_sources_agree_witness:
  "telemetry_counts_since 7 (demo_open + minute + second) (demo_open + hour) (telemetry_of demo_rows) =
     attack_launch_counts_since 7 (demo_open + minute + second) (demo_open + hour) (snd (insert_all demo_rows new_ledger))"
proof (rule launch_sources_agree)
  have "sorted (map lr_launched_at demo_rows)" "list_all (\<lambda>row. lr_launched_at row \<le> demo_open + hour) demo_rows" by code_simp+
  then show "sorted (map lr_launched_at demo_rows)" "\<forall>row \<in> set demo_rows. lr_launched_at row \<le> demo_open + hour"
    by (simp_all add: list_all_iff)
  show "distinct (map launch_key demo_rows)" using demo_distinct(1) by simp
qed (rule demo_clocks(4))

end
