(* ===== verification/Schedule.thy ===== *)
theory Schedule
  imports WaitOrder
begin

text \<open>
  The weekly schedules of automation features (\<^verbatim>\<open>Server/Automation/Schedule.go\<close>): whether a feature may run
  now, until when, and when it may run next.

  \<^item> A time zone is the function its \<open>lookup\<close> computes: the offset from UTC at an instant, and the stretch of
    instants that offset is valid for. \<open>go_date\<close> and \<open>add_days\<close> are \<open>time.Date\<close> and
    \<open>Time.AddDate(0, 0, n)\<close> of Go's library on top of it, with the dates of the calendar counted as days
    from the zero time, a Monday.
  \<^item> The section of the configuration is given decoded: absent, not JSON, or its schedules, each with what its
    decoding yields. The options of a slot are carried along.
\<close>

section \<open>Time zones\<close>

type_synonym zone = "gotime \<Rightarrow> duration \<times> gotime \<times> gotime"

abbreviation (input) day_length :: duration where "day_length \<equiv> 86400000000000"

definition local_time :: "zone \<Rightarrow> gotime \<Rightarrow> int" where
  "local_time z t = t + fst (z t)"

definition local_day :: "zone \<Rightarrow> gotime \<Rightarrow> int" where
  "local_day z t = local_time z t div day_length"

definition local_minute :: "zone \<Rightarrow> gotime \<Rightarrow> int" where
  "local_minute z t = (local_time z t mod day_length) div minute"

definition weekday :: "int \<Rightarrow> int" where
  "weekday d = (d + 1) mod 7"

definition go_date :: "zone \<Rightarrow> int \<Rightarrow> duration \<Rightarrow> gotime" where
  "go_date z d clock =
     (let unix = d * day_length + clock;
          (offset, from, until) = z unix
      in if offset = 0 then unix
         else let utc = unix - offset in if utc < from \<or> until \<le> utc then unix - fst (z utc) else utc)"

definition add_days :: "zone \<Rightarrow> int \<Rightarrow> gotime \<Rightarrow> gotime" where
  "add_days z n t = go_date z (local_day z t + n) (local_time z t mod day_length)"

section \<open>Schedules\<close>

record 'a schedule_slot =
  ss_day :: int
  ss_start :: int
  ss_end :: int
  ss_options :: 'a

record 'a weekly_schedule =
  ws_enabled :: bool
  ws_zone :: string
  ws_slot_options :: bool
  ws_slots :: "'a schedule_slot list"

record 'a schedule_resolution =
  sr_allowed :: bool
  sr_next :: gotime
  sr_slot_options :: bool
  sr_options :: "'a option"
  sr_valid_until :: gotime

datatype 'a scheduler_section = Section_absent | Section_undecodable | Section "(string \<times> 'a weekly_schedule option) list"

record 'a parsed_scheduler =
  pa_valid :: bool
  pa_outer_valid :: bool
  pa_schedules :: "(string \<times> 'a weekly_schedule) list"

definition parse_scheduler :: "'a scheduler_section \<Rightarrow> 'a parsed_scheduler" where
  "parse_scheduler section =
     (case section of
        Section_absent \<Rightarrow> \<lparr>pa_valid = True, pa_outer_valid = True, pa_schedules = []\<rparr>
      | Section_undecodable \<Rightarrow> \<lparr>pa_valid = False, pa_outer_valid = False, pa_schedules = []\<rparr>
      | Section entries \<Rightarrow>
          if list_ex (\<lambda>(_, s). s = None) entries then \<lparr>pa_valid = False, pa_outer_valid = True, pa_schedules = []\<rparr>
          else \<lparr>pa_valid = True, pa_outer_valid = True, pa_schedules = map (\<lambda>(k, s). (k, the s)) entries\<rparr>)"

text \<open>The names of time zones the system knows are an argument; an unknown or empty one is the local zone.\<close>

definition schedule_location :: "(string \<Rightarrow> zone option) \<Rightarrow> zone \<Rightarrow> string \<Rightarrow> zone" where
  "schedule_location load_location local_zone name0 =
     (let name = trim_space name0 in
      if name = [] then local_zone else case load_location name of None \<Rightarrow> local_zone | Some z \<Rightarrow> z)"

definition valid_schedule_slot :: "'a schedule_slot \<Rightarrow> bool" where
  "valid_schedule_slot s \<longleftrightarrow> 0 \<le> ss_day s \<and> ss_day s \<le> 6 \<and> 0 \<le> ss_start s \<and> ss_start s < 1440 \<and>
     ss_start s < ss_end s \<and> ss_end s \<le> 1440"

definition slot_before :: "'a schedule_slot \<Rightarrow> 'a schedule_slot \<Rightarrow> bool" where
  "slot_before l r = (if ss_day l \<noteq> ss_day r then ss_day l < ss_day r else ss_start l < ss_start r)"

fun first_start_on :: "zone \<Rightarrow> gotime \<Rightarrow> gotime \<Rightarrow> 'a schedule_slot list \<Rightarrow> gotime option" where
  "first_start_on z now candidate [] = None"
| "first_start_on z now candidate (s # slots) =
     (if ss_day s \<noteq> weekday (local_day z candidate) then first_start_on z now candidate slots
      else
        let start = go_date z (local_day z candidate) (ss_start s * minute)
        in if now < start then Some start else first_start_on z now candidate slots)"

fun first_start_from :: "zone \<Rightarrow> gotime \<Rightarrow> int list \<Rightarrow> 'a schedule_slot list \<Rightarrow> gotime" where
  "first_start_from z now [] slots = time_zero"
| "first_start_from z now (k # ks) slots =
     (case first_start_on z now (add_days z k now) slots of Some t \<Rightarrow> t | None \<Rightarrow> first_start_from z now ks slots)"

definition next_schedule_start :: "zone \<Rightarrow> 'a schedule_slot list \<Rightarrow> gotime \<Rightarrow> gotime" where
  "next_schedule_start z slots now =
     first_start_from z now [0, 1, 2, 3, 4, 5, 6, 7] (stable_sort slot_before (filter valid_schedule_slot slots))"

definition slot_open :: "zone \<Rightarrow> gotime \<Rightarrow> 'a schedule_slot \<Rightarrow> bool" where
  "slot_open z now s \<longleftrightarrow> valid_schedule_slot s \<and> ss_day s = weekday (local_day z now) \<and>
     ss_start s \<le> local_minute z now \<and> local_minute z now < ss_end s"

definition unrestricted :: "'a schedule_resolution" where
  "unrestricted = \<lparr>sr_allowed = True, sr_next = time_zero, sr_slot_options = False, sr_options = None, sr_valid_until = time_zero\<rparr>"

definition resolve_schedule :: "zone \<Rightarrow> 'a weekly_schedule \<Rightarrow> gotime \<Rightarrow> 'a schedule_resolution" where
  "resolve_schedule z w now =
     (case List.find (slot_open z now) (ws_slots w) of
        Some s \<Rightarrow> unrestricted\<lparr>sr_slot_options := ws_slot_options w, sr_options := Some (ss_options s),
          sr_valid_until := go_date z (local_day z now) (ss_end s * minute)\<rparr>
      | None \<Rightarrow> unrestricted\<lparr>sr_allowed := False, sr_slot_options := ws_slot_options w, sr_next := next_schedule_start z (ws_slots w) now\<rparr>)"

definition resolve_weekly_schedule ::
  "(string \<Rightarrow> zone option) \<Rightarrow> zone \<Rightarrow> 'a scheduler_section \<Rightarrow> string \<Rightarrow> gotime \<Rightarrow> 'a schedule_resolution" where
  "resolve_weekly_schedule load_location local_zone section feature now =
     (if section = Section_absent then unrestricted
      else
        let document = parse_scheduler section in
        if \<not> pa_valid document then unrestricted
        else case map_of (pa_schedules document) feature of
          None \<Rightarrow> unrestricted
        | Some w \<Rightarrow>
            if \<not> ws_enabled w then unrestricted
            else resolve_schedule (schedule_location load_location local_zone (ws_zone w)) w now)"

definition schedule_allows ::
  "(string \<Rightarrow> zone option) \<Rightarrow> zone \<Rightarrow> 'a scheduler_section \<Rightarrow> string \<Rightarrow> gotime \<Rightarrow> bool \<times> gotime" where
  "schedule_allows load_location local_zone section feature now =
     (let r = resolve_weekly_schedule load_location local_zone section feature now in (sr_allowed r, sr_next r))"

section \<open>Where the offset is steady\<close>

text \<open>Around \<open>now\<close> the zone keeps its offset: from two days before to ten days after.\<close>

definition steady :: "zone \<Rightarrow> duration \<Rightarrow> gotime \<Rightarrow> bool" where
  "steady z offset now \<longleftrightarrow> \<bar>offset\<bar> < day_length \<and>
     (\<forall>t. now - 2 * day_length \<le> t \<longrightarrow> t \<le> now + 10 * day_length \<longrightarrow>
        fst (z t) = offset \<and> fst (snd (z t)) \<le> now - 2 * day_length \<and> now + 10 * day_length < snd (snd (z t)))"

lemma steady_local: "steady z offset now \<Longrightarrow> now - 2 * day_length \<le> t \<Longrightarrow> t \<le> now + 10 * day_length \<Longrightarrow> local_time z t = t + offset"
  by (simp add: steady_def local_time_def)

lemma steady_date:
  assumes "steady z offset now" "now - day_length \<le> d * day_length + clock - offset" "d * day_length + clock - offset \<le> now + 9 * day_length"
  shows "go_date z d clock = d * day_length + clock - offset"
proof -
  let ?u = "d * day_length + clock"
  have u: "now - 2 * day_length \<le> ?u" "?u \<le> now + 10 * day_length" "now - 2 * day_length \<le> ?u - offset" "?u - offset \<le> now + 10 * day_length"
    using assms by (auto simp: steady_def)
  have "fst (z ?u) = offset" "fst (snd (z ?u)) \<le> now - 2 * day_length" "now + 10 * day_length < snd (snd (z ?u))"
    using assms(1) u(1,2) unfolding steady_def by blast+
  then show ?thesis using u by (auto simp: go_date_def Let_def split_def)
qed

lemma steady_add_days:
  assumes "steady z offset now" "0 \<le> k" "k \<le> 7"
  shows "local_day z (add_days z k now) = local_day z now + k"
proof -
  have l: "local_time z now = now + offset" using steady_local [OF assms(1), of now] by simp
  have e: "(local_day z now + k) * day_length + local_time z now mod day_length - offset = now + k * day_length"
    by (simp add: local_day_def l algebra_simps)
  have "add_days z k now = now + k * day_length"
    unfolding add_days_def by (subst steady_date [OF assms(1)]) (use assms(2,3) e in auto)
  moreover have "local_time z (now + k * day_length) = now + offset + k * day_length"
    using steady_local [OF assms(1), of "now + k * day_length"] assms(2,3) by simp
  ultimately show ?thesis by (simp add: local_day_def l)
qed

text \<open>The start of a slot on the day \<open>k\<close> days from now.\<close>

definition start_on :: "zone \<Rightarrow> duration \<Rightarrow> gotime \<Rightarrow> int \<Rightarrow> 'a schedule_slot \<Rightarrow> gotime" where
  "start_on z offset now k s = (local_day z now + k) * day_length + ss_start s * minute - offset"

lemma local_day_bounds:
  assumes "steady z offset now"
  shows "local_day z now * day_length - offset \<le> now" "now < (local_day z now + 1) * day_length - offset"
proof -
  have l: "local_time z now = now + offset" using steady_local [OF assms, of now] by simp
  have "now + offset = (now + offset) div day_length * day_length + (now + offset) mod day_length" by simp
  moreover have "0 \<le> (now + offset) mod day_length" "(now + offset) mod day_length < day_length" by simp_all
  ultimately show "local_day z now * day_length - offset \<le> now" "now < (local_day z now + 1) * day_length - offset"
    unfolding local_day_def l distrib_right by linarith+
qed

lemma start_on_date:
  assumes "steady z offset now" "0 \<le> k" "k \<le> 7" "valid_schedule_slot s"
  shows "go_date z (local_day z (add_days z k now)) (ss_start s * minute) = start_on z offset now k s"
proof -
  have s: "0 \<le> ss_start s" "ss_start s < 1440" using assms(4) by (simp_all add: valid_schedule_slot_def)
  show ?thesis
    unfolding steady_add_days [OF assms(1-3)] start_on_def
    by (rule steady_date [OF assms(1)]) (use local_day_bounds [OF assms(1)] assms(2,3) s in \<open>simp_all add: algebra_simps\<close>)
qed

section \<open>The next start\<close>

lemma slot_before_weak: "slot_before l r \<Longrightarrow> \<not> slot_before r l" "\<not> slot_before l m \<Longrightarrow> \<not> slot_before m r \<Longrightarrow> \<not> slot_before l r"
  by (auto simp: slot_before_def split: if_splits)

lemma sorted_slots: "sorted_wrt (\<lambda>l r. \<not> slot_before r l) (stable_sort slot_before xs)"
proof (induction xs)
  case (Cons x xs)
  have "sorted_wrt (\<lambda>l r. \<not> slot_before r l) ys \<Longrightarrow> sorted_wrt (\<lambda>l r. \<not> slot_before r l) (insert_stable slot_before x ys)" for ys
  proof (induction ys)
    case (Cons y ys)
    have s: "set (insert_stable slot_before x ys) = insert x (set ys)"
      by (metis mset_insert_stable set_mset_add_mset_insert set_mset_mset)
    show ?case
    proof (cases "slot_before y x")
      case True
      with Cons show ?thesis by (auto simp: s dest: slot_before_weak(1))
    next
      case False
      have "\<not> slot_before v x" if "v \<in> set ys" for v
        using Cons.prems that False slot_before_weak(2) [of v y x] by simp
      with False Cons.prems show ?thesis by simp
    qed
  qed simp
  with Cons show ?case by (simp add: stable_sort_def)
qed (simp add: stable_sort_def)

text \<open>The starts after \<open>now\<close> within the days \<open>ks\<close>.\<close>

definition starts_after :: "zone \<Rightarrow> duration \<Rightarrow> gotime \<Rightarrow> int set \<Rightarrow> 'a schedule_slot list \<Rightarrow> gotime set" where
  "starts_after z offset now ks slots =
     {t. \<exists>k \<in> ks. \<exists>s \<in> set slots. ss_day s = weekday (local_day z now + k) \<and> t = start_on z offset now k s \<and> now < t}"

definition is_first :: "gotime set \<Rightarrow> gotime \<Rightarrow> bool" where
  "is_first T t \<longleftrightarrow> t \<in> T \<and> (\<forall>u \<in> T. t \<le> u)"

lemma first_start_on_first:
  assumes "steady z offset now" "0 \<le> k" "k \<le> 7" "\<forall>s \<in> set slots. valid_schedule_slot s" "sorted_wrt (\<lambda>l r. \<not> slot_before r l) slots"
  shows "case first_start_on z now (add_days z k now) slots of
      None \<Rightarrow> starts_after z offset now {k} slots = {} | Some t \<Rightarrow> is_first (starts_after z offset now {k} slots) t"
  using assms(4,5)
proof (induction slots)
  case (Cons s slots)
  let ?T = "\<lambda>slots. starts_after z offset now {k} slots"
  have d: "local_day z (add_days z k now) = local_day z now + k" by (rule steady_add_days [OF assms(1-3)])
  have e: "go_date z (local_day z (add_days z k now)) (ss_start s * minute) = start_on z offset now k s"
    by (rule start_on_date [OF assms(1-3)]) (use Cons.prems in simp)
  show ?case
  proof (cases "ss_day s = weekday (local_day z now + k) \<and> now < start_on z offset now k s")
    case True
    have "start_on z offset now k s \<le> u" if "u \<in> ?T (s # slots)" for u
    proof -
      from that obtain r where r: "r = s \<or> r \<in> set slots" "ss_day r = ss_day s" "u = start_on z offset now k r"
        using True by (auto simp: starts_after_def)
      have "ss_start s \<le> ss_start r" using r(1,2) Cons.prems(2) by (fastforce simp: slot_before_def)
      then show ?thesis by (simp add: r(3) start_on_def)
    qed
    with True show ?thesis by (auto simp: d e [unfolded d] is_first_def starts_after_def)
  next
    case False
    then have "?T (s # slots) = ?T slots" by (auto simp: starts_after_def)
    moreover have "first_start_on z now (add_days z k now) (s # slots) = first_start_on z now (add_days z k now) slots"
      using False by (simp add: d e [unfolded d])
    moreover have "case first_start_on z now (add_days z k now) slots of
        None \<Rightarrow> ?T slots = {} | Some t \<Rightarrow> is_first (?T slots) t"
      by (rule Cons.IH) (use Cons.prems in simp_all)
    ultimately show ?thesis by presburger
  qed
qed (simp add: starts_after_def)

lemma start_on_day:
  assumes "valid_schedule_slot s"
  shows "(local_day z now + k) * day_length - offset \<le> start_on z offset now k s" "start_on z offset now k s < (local_day z now + (k + 1)) * day_length - offset"
  using assms by (simp_all add: start_on_def valid_schedule_slot_def distrib_right)

lemma first_start_from_first:
  assumes "steady z offset now" "\<forall>k \<in> set ks. 0 \<le> k \<and> k \<le> 7" "sorted_wrt (<) ks" "\<forall>s \<in> set slots. valid_schedule_slot s"
    "sorted_wrt (\<lambda>l r. \<not> slot_before r l) slots"
  shows "if starts_after z offset now (set ks) slots = {} then first_start_from z now ks slots = time_zero
    else is_first (starts_after z offset now (set ks) slots) (first_start_from z now ks slots)"
  using assms(2,3)
proof (induction ks)
  case (Cons k ks)
  let ?T = "\<lambda>ks. starts_after z offset now ks slots"
  have u: "?T (set (k # ks)) = ?T {k} \<union> ?T (set ks)" by (auto simp: starts_after_def)
  note f = first_start_on_first [OF assms(1) _ _ assms(4,5), of k]
  show ?case
  proof (cases "first_start_on z now (add_days z k now) slots")
    case None
    with f Cons have "?T {k} = {}" by simp
    with Cons None u show ?thesis by simp
  next
    case (Some t)
    with f Cons.prems have t: "is_first (?T {k}) t" by simp
    have "t \<le> v" if v: "v \<in> ?T (set ks)" for v
    proof -
      from v obtain k' s' where s': "k' \<in> set ks" "s' \<in> set slots" "v = start_on z offset now k' s'" by (auto simp: starts_after_def)
      from t obtain s where s: "s \<in> set slots" "t = start_on z offset now k s" by (auto simp: is_first_def starts_after_def)
      have "k < k'" using Cons.prems(2) s'(1) by simp
      then have "k + 1 \<le> k'" by linarith
      then have "(local_day z now + (k + 1)) * day_length \<le> (local_day z now + k') * day_length" by (intro mult_right_mono) simp_all
      with start_on_day(2) [where s = s and k = k and z = z and now = now and offset = offset]
        start_on_day(1) [where s = s' and k = k' and z = z and now = now and offset = offset] assms(4) s s'
      show ?thesis by fastforce
    qed
    with t Some u show ?thesis by (auto simp: is_first_def)
  qed
qed (simp add: starts_after_def)

lemma next_schedule_start_first:
  assumes "steady z offset now"
  shows "if starts_after z offset now {0..7} (filter valid_schedule_slot slots) = {} then next_schedule_start z slots now = time_zero
    else is_first (starts_after z offset now {0..7} (filter valid_schedule_slot slots)) (next_schedule_start z slots now)"
proof -
  let ?v = "stable_sort slot_before (filter valid_schedule_slot slots)"
  let ?ks = "[0, 1, 2, 3, 4, 5, 6, 7 :: int]"
  have "set ?ks = {0..7}" by auto
  then have T: "starts_after z offset now (set ?ks) ?v = starts_after z offset now {0..7} (filter valid_schedule_slot slots)"
    by (simp add: starts_after_def)
  have "if starts_after z offset now (set ?ks) ?v = {} then first_start_from z now ?ks ?v = time_zero
    else is_first (starts_after z offset now (set ?ks) ?v) (first_start_from z now ?ks ?v)"
    by (rule first_start_from_first [OF assms]) (simp_all add: sorted_slots)
  then show ?thesis unfolding T next_schedule_start_def .
qed

section \<open>Being open\<close>

lemma le_div_minute: "(a :: int) \<le> m div minute \<longleftrightarrow> a * minute \<le> m" "m div minute < a \<longleftrightarrow> m < a * minute"
  by linarith+

text \<open>A slot is open at \<open>t\<close> on the day it starts, from its start to its end.\<close>

lemma slot_open_iff:
  assumes "steady z offset now" "now \<le> t" "t \<le> now + 8 * day_length" "k = local_day z t - local_day z now"
  shows "slot_open z t s \<longleftrightarrow> valid_schedule_slot s \<and> ss_day s = weekday (local_day z now + k) \<and> start_on z offset now k s \<le> t \<and>
    t < start_on z offset now k s + (ss_end s - ss_start s) * minute"
proof -
  have l: "local_time z t = t + offset" using steady_local [OF assms(1), of t] assms(2,3) by simp
  have d: "local_day z now + k = (t + offset) div day_length" by (simp add: assms(4) local_day_def l)
  have "(t + offset) div day_length * day_length + (t + offset) mod day_length = t + offset" by simp
  then have m: "(t + offset) mod day_length = t + offset - (local_day z now + k) * day_length" unfolding d by linarith
  show ?thesis
    unfolding slot_open_def local_minute_def l le_div_minute m start_on_def using assms(4) by (auto simp: left_diff_distrib)
qed

lemma local_day_mono: "steady z offset now \<Longrightarrow> now \<le> t \<Longrightarrow> t \<le> u \<Longrightarrow> u \<le> now + 8 * day_length \<Longrightarrow> local_day z t \<le> local_day z u"
  using steady_local [of z offset now t] steady_local [of z offset now u] by (simp add: local_day_def zdiv_mono1)

lemma open_at_start:
  assumes "steady z offset now" "0 \<le> k" "k \<le> 7" "valid_schedule_slot s" "ss_day s = weekday (local_day z now + k)" "now < start_on z offset now k s"
  shows "slot_open z (start_on z offset now k s) s"
proof -
  let ?t = "start_on z offset now k s"
  note b = start_on_day [OF assms(4), where k = k and z = z and now = now and offset = offset] and n = local_day_bounds [OF assms(1)]
  have "k * day_length \<le> 7 * day_length" using assms(3) by simp
  then have t: "now \<le> ?t" "?t \<le> now + 8 * day_length" using assms(6) b(2) n by (auto simp: distrib_right)
  have "local_day z ?t = (?t + offset) div day_length" using steady_local [OF assms(1), of ?t] t by (simp add: local_day_def)
  also have "\<dots> = local_day z now + k"
    by (rule int_div_pos_eq [where r = "?t + offset - (local_day z now + k) * day_length"]) (use b in \<open>simp_all add: algebra_simps\<close>)
  finally have "local_day z ?t = local_day z now + k" .
  with assms(4,5) show ?thesis
    by (subst slot_open_iff [OF assms(1) t refl]) (auto simp: valid_schedule_slot_def)
qed

lemma resolve_allowed: "sr_allowed (resolve_schedule z w t) \<longleftrightarrow> (\<exists>s \<in> set (ws_slots w). slot_open z t s)"
proof (cases "List.find (slot_open z t) (ws_slots w)")
  case None
  then have "\<not> (\<exists>s \<in> set (ws_slots w). slot_open z t s)" by (auto simp: find_None_iff)
  with None show ?thesis by (simp add: resolve_schedule_def unrestricted_def)
next
  case (Some s)
  then have "s \<in> set (ws_slots w)" "slot_open z t s" by (auto simp: find_Some_iff)
  with Some show ?thesis by (auto simp: resolve_schedule_def unrestricted_def)
qed

lemma div_day: "x < m * day_length \<Longrightarrow> x div day_length < (m :: int)"
  by linarith

lemma weekday_reached: "weekday (d + (e - 1 - d) mod 7) = e mod 7" "weekday (d + ((e - 1 - d) mod 7 + 7)) = e mod 7"
proof -
  have "(d + (e - 1 - d) mod 7 + 1) mod 7 = ((e - 1 - d) mod 7 + (d + 1)) mod 7" by (simp only: ac_simps)
  also have "\<dots> = (e - 1 - d + (d + 1)) mod 7" by (rule mod_add_left_eq)
  finally show "weekday (d + (e - 1 - d) mod 7) = e mod 7" by (simp add: weekday_def)
  moreover have "weekday (x + 7) = weekday x" for x
    using mod_add_self2 [of "x + 1" "7 :: int"] by (simp add: weekday_def algebra_simps)
  ultimately show "weekday (d + ((e - 1 - d) mod 7 + 7)) = e mod 7" by (metis add.assoc)
qed

lemma valid_slot_starts:
  assumes "steady z offset now" "valid_schedule_slot s" "\<not> slot_open z now s"
  obtains k where "0 \<le> k" "k \<le> 7" "ss_day s = weekday (local_day z now + k)" "now < start_on z offset now k s"
proof -
  define k where "k = (ss_day s - 1 - local_day z now) mod 7"
  have k: "0 \<le> k" "k \<le> 6" by (simp_all add: k_def)
  have d: "ss_day s = weekday (local_day z now + k)" "ss_day s = weekday (local_day z now + (k + 7))"
    using assms(2) unfolding k_def weekday_reached by (simp_all add: valid_schedule_slot_def)
  have later: "now < start_on z offset now j s" if "1 \<le> j" for j
  proof -
    have "(local_day z now + 1) * day_length \<le> (local_day z now + j) * day_length" using that by (intro mult_right_mono) simp_all
    with local_day_bounds(2) [OF assms(1)] start_on_day(1) [OF assms(2), where k = j and z = z and now = now and offset = offset] show ?thesis by linarith
  qed
  show ?thesis
  proof (cases "now < start_on z offset now k s")
    case True
    with that [of k] k d(1) show ?thesis by simp
  next
    case False
    with later [of k] k have "k = 0" by linarith
    with that [of 7] d(2) later [of 7] show ?thesis by simp
  qed
qed


text \<open>A slot keeps a feature allowed until the instant the resolution names, which is later than now.\<close>

theorem schedule_open_until:
  assumes "steady z offset now" "sr_allowed (resolve_schedule z w now)" "until = sr_valid_until (resolve_schedule z w now)"
  shows "now < until \<and> (\<forall>t. now \<le> t \<longrightarrow> t < until \<longrightarrow> sr_allowed (resolve_schedule z w t))"
proof -
  obtain s where f: "List.find (slot_open z now) (ws_slots w) = Some s"
    using assms(2) by (auto simp: resolve_schedule_def unrestricted_def split: option.splits)
  then have s: "s \<in> set (ws_slots w)" "slot_open z now s" by (auto simp: find_Some_iff)
  have o: "valid_schedule_slot s" "ss_day s = weekday (local_day z now)" "start_on z offset now 0 s \<le> now"
    "now < start_on z offset now 0 s + (ss_end s - ss_start s) * minute"
    using slot_open_iff [OF assms(1) order_refl, of 0 s] s(2) by auto
  have e: "start_on z offset now 0 s + (ss_end s - ss_start s) * minute = local_day z now * day_length + ss_end s * minute - offset"
    by (simp add: start_on_def left_diff_distrib)
  have v: "ss_end s \<le> 1440" "0 \<le> ss_end s" using o(1) by (simp_all add: valid_schedule_slot_def)
  have until: "until = local_day z now * day_length + ss_end s * minute - offset"
    using assms(3) f
    by (simp add: resolve_schedule_def unrestricted_def, intro steady_date [OF assms(1)])
      (use local_day_bounds [OF assms(1)] v o(4) e in \<open>simp_all add: distrib_right\<close>)
  have "sr_allowed (resolve_schedule z w t)" if t: "now \<le> t" "t < until" for t
  proof -
    have bound: "t \<le> now + 8 * day_length" using t(2) until local_day_bounds(1) [OF assms(1)] v by simp
    have l: "local_time z t = t + offset" using steady_local [OF assms(1), of t] t(1) bound by simp
    have "local_day z t \<le> local_day z now"
    proof -
      have "t + offset < (local_day z now + 1) * day_length" using t(2) until v(1) by (simp add: distrib_right)
      from div_day [OF this] show ?thesis by (simp only: local_day_def [of z t] l)
    qed
    then have "local_day z t - local_day z now = 0" using local_day_mono [OF assms(1) order_refl t(1) bound] by simp
    then have "slot_open z t s"
      using slot_open_iff [OF assms(1) t(1) bound, of 0 s] o t e until by simp
    with s(1) show ?thesis by (auto simp: resolve_allowed)
  qed
  with o(4) e until show ?thesis by auto
qed

section \<open>A week an hour east of Greenwich\<close>

definition demo_zone :: zone where
  "demo_zone t = (hour, 0, 1000000 * day_length)"

definition demo_slot :: "int \<Rightarrow> int \<Rightarrow> int \<Rightarrow> nat schedule_slot" where
  "demo_slot d from until = \<lparr>ss_day = d, ss_start = from, ss_end = until, ss_options = 0\<rparr>"

definition demo_week :: "nat weekly_schedule" where
  "demo_week = \<lparr>ws_enabled = True, ws_zone = [], ws_slot_options = False, ws_slots = [demo_slot 3 60 1440, demo_slot 1 600 700]\<rparr>"

text \<open>A Monday at noon, local time.\<close>

definition demo_noon :: gotime where
  "demo_noon = 700 * day_length + 11 * hour"

lemma demo_steady: "steady demo_zone hour demo_noon"
  by (simp add: steady_def demo_zone_def demo_noon_def)

lemma demo_closed: "\<not> sr_allowed (resolve_schedule demo_zone demo_week demo_noon)" "list_ex valid_schedule_slot (ws_slots demo_week)"
  "sr_next (resolve_schedule demo_zone demo_week demo_noon) = 702 * day_length"
  by code_simp+


definition demo_morning :: gotime where
  "demo_morning = 702 * day_length + hour"

lemma demo_morning_open: "sr_allowed (resolve_schedule demo_zone demo_week demo_morning)"
  "sr_valid_until (resolve_schedule demo_zone demo_week demo_morning) = 703 * day_length - hour"
  by code_simp+

theorem schedule_open_until_witness: "sr_allowed (resolve_schedule demo_zone demo_week (702 * day_length + 20 * hour))"
proof -
  have "steady demo_zone hour demo_morning" by (simp add: steady_def demo_zone_def demo_morning_def)
  from schedule_open_until [OF this demo_morning_open(1) demo_morning_open(2) [symmetric]]
  have "demo_morning \<le> 702 * day_length + 20 * hour \<longrightarrow> 702 * day_length + 20 * hour < 703 * day_length - hour \<longrightarrow>
      sr_allowed (resolve_schedule demo_zone demo_week (702 * day_length + 20 * hour))" by blast
  then show ?thesis by (simp add: demo_morning_def)
qed

text \<open>A zone whose clocks go back from two to one o'clock. In the first of the two hours a slot of that hour is said to
  stay open until its end in the second one; in between the feature is forbidden.\<close>

definition demo_change :: gotime where
  "demo_change = 703 * day_length + hour"

definition demo_winter :: zone where
  "demo_winter t = (if t < demo_change then (hour, 0, demo_change) else (0, demo_change, 1000000 * day_length))"

definition demo_night :: "nat weekly_schedule" where
  "demo_night = \<lparr>ws_enabled = True, ws_zone = [], ws_slot_options = False, ws_slots = [demo_slot 4 75 105]\<rparr>"

lemma repeated_hour_overruns_slot:
  "sr_allowed (resolve_schedule demo_winter demo_night (demo_change - 40 * minute)) \<and>
   demo_change < sr_valid_until (resolve_schedule demo_winter demo_night (demo_change - 40 * minute)) \<and>
   \<not> sr_allowed (resolve_schedule demo_winter demo_night demo_change)"
  by (intro conjI; code_simp)

end
