(* ===== verification/ControlFence.thy ===== *)
theory ControlFence
  imports Decimal
begin

text \<open>
  The fence of the control interface (\<^verbatim>\<open>Server/Accounts/ControlFence.go\<close>): controllers name an epoch, the largest
  one seen is kept in a file of the cell's data root, and requests of older controllers, or of controllers that name
  none, are rejected.

  \<^item> The file is the text last renamed into place. Which texts a loss of power may bring back is
    \<open>dk_survivors\<close>: until the directory has been synced, the earlier ones as well as the new one.
  \<^item> Reading accepts exactly the canonical text of a document (the code compares the bytes with their own
    encoding), so decoding is comparison with \<open>fence_text\<close>. Cell ids need no escaping.
  \<^item> Several processes may share the data root. The lock (\<^verbatim>\<open>flock\<close>) is held by one request at a time,
    from before the check until the request has been served; it ends with its process.
\<close>

section \<open>The journal\<close>

abbreviation (input) max_epoch :: nat where "max_epoch \<equiv> 9223372036854775807"

abbreviation (input) quote_char :: char where "quote_char \<equiv> CHR 0x22"

definition fence_prefix :: "string \<Rightarrow> string" where
  "fence_prefix cell =
     ''{'' @ [quote_char] @ ''schemaVersion'' @ [quote_char] @ '':1,'' @ [quote_char] @ ''cellId'' @ [quote_char] @ '':'' @
     [quote_char] @ cell @ [quote_char] @ '','' @ [quote_char] @ ''epoch'' @ [quote_char] @ '':''"

definition fence_text :: "string \<Rightarrow> nat \<Rightarrow> string" where
  "fence_text cell epoch = fence_prefix cell @ show_nat epoch @ ''}''"

record disk =
  dk_visible :: "string option"
  dk_survivors :: "string option list"

definition decode_fence :: "string \<Rightarrow> string \<Rightarrow> nat option" where
  "decode_fence cell raw =
     (let digits = takeWhile is_digit (drop (length (fence_prefix cell)) raw);
          (epoch, status) = parse_uint64 digits
      in if status = NumOk \<and> raw = fence_text cell epoch \<and> epoch \<noteq> 0 \<and> epoch \<le> max_epoch then Some epoch else None)"

text \<open>\<open>readable\<close> says whether the file can be inspected, is regular and can be read.\<close>

definition read_control_fence :: "string \<Rightarrow> bool \<Rightarrow> string option \<Rightarrow> nat option" where
  "read_control_fence cell readable visible =
     (case visible of
        None \<Rightarrow> if readable then Some 0 else None
      | Some raw \<Rightarrow> if \<not> readable \<or> 4096 < length raw then None else decode_fence cell raw)"

text \<open>How far writing gets: before the rename, up to the rename, through the sync of the directory.\<close>

datatype fence_write = Write_failed | Write_renamed | Write_durable

definition write_control_fence :: "string \<Rightarrow> nat \<Rightarrow> fence_write \<Rightarrow> disk \<Rightarrow> bool \<times> disk" where
  "write_control_fence cell epoch result d =
     (let text = Some (fence_text cell epoch) in
      case result of
        Write_failed \<Rightarrow> (False, d)
      | Write_renamed \<Rightarrow> (False, d\<lparr>dk_visible := text, dk_survivors := text # dk_survivors d\<rparr>)
      | Write_durable \<Rightarrow> (True, d\<lparr>dk_visible := text, dk_survivors := [text]\<rparr>))"

section \<open>A request\<close>

text \<open>\<open>strconv.ParseUint(_, 10, 63)\<close>, rendered again and compared.\<close>

definition parse_control_epoch :: "string list \<Rightarrow> nat option" where
  "parse_control_epoch header =
     (case header of
        [] \<Rightarrow> Some 0
      | [v] \<Rightarrow>
          let (epoch, status) = parse_uint64 v
          in if status \<noteq> NumOk \<or> max_epoch < epoch \<or> epoch = 0 \<or> show_nat epoch \<noteq> v then None else Some epoch
      | _ \<Rightarrow> None)"

record fence_env =
  fe_directory :: bool
  fe_lock_file :: bool
  fe_locked :: bool
  fe_readable :: bool
  fe_write :: fence_write

datatype fence_reply = Rejected nat string | Admitted nat

text \<open>The reply, what the process remembers (\<open>controlEpoch\<close>) and the disk. \<open>Admitted\<close> means the request
  is handed to the handler behind the fence.\<close>

definition with_control_fence :: "string \<Rightarrow> fence_env \<Rightarrow> string list \<Rightarrow> nat \<Rightarrow> disk \<Rightarrow> fence_reply \<times> nat \<times> disk" where
  "with_control_fence cell env header mem d =
     (case parse_control_epoch header of
        None \<Rightarrow> (Rejected 400 ''invalid_control_epoch'', mem, d)
      | Some epoch \<Rightarrow>
          if \<not> fe_directory env then (Rejected 503 ''control_fence_unavailable'', mem, d)
          else if \<not> fe_lock_file env then (Rejected 503 ''control_fence_unavailable'', mem, d)
          else if \<not> fe_locked env then (Rejected 503 ''control_fence_busy'', mem, d)
          else case read_control_fence cell (fe_readable env) (dk_visible d) of
            None \<Rightarrow> (Rejected 503 ''control_fence_unavailable'', mem, d)
          | Some persisted \<Rightarrow>
              let minimum = max mem persisted in
              if epoch < minimum then (Rejected 409 ''stale_control_epoch'', minimum, d)
              else if epoch = 0 then (Admitted 0, minimum, d)
              else
                let (written, d) = write_control_fence cell epoch (fe_write env) d
                in if written then (Admitted epoch, epoch, d) else (Rejected 503 ''control_fence_unavailable'', epoch, d))"

section \<open>Processes sharing a data root\<close>

text \<open>\<open>fw_serving\<close>: the request behind the fence, with the lock; \<open>fw_admitted\<close>: the epochs of all
  requests let through so far, the latest first.\<close>

record fence_world =
  fw_disk :: disk
  fw_processes :: "nat \<Rightarrow> nat option"
  fw_serving :: "nat option"
  fw_admitted :: "nat list"

definition fresh_world :: fence_world where
  "fresh_world = \<lparr>fw_disk = \<lparr>dk_visible = None, dk_survivors = [None]\<rparr>, fw_processes = (\<lambda>_. None), fw_serving = None, fw_admitted = []\<rparr>"

definition handle_request :: "string \<Rightarrow> nat \<Rightarrow> fence_env \<Rightarrow> string list \<Rightarrow> nat \<Rightarrow> fence_world \<Rightarrow> fence_world" where
  "handle_request cell p env header mem w =
     (let (reply, mem, d) = with_control_fence cell env header mem (fw_disk w);
          w = w\<lparr>fw_disk := d, fw_processes := (fw_processes w)(p \<mapsto> mem)\<rparr>
      in case reply of Rejected _ _ \<Rightarrow> w | Admitted e \<Rightarrow> w\<lparr>fw_serving := Some p, fw_admitted := e # fw_admitted w\<rparr>)"

inductive fence_step :: "string \<Rightarrow> fence_world \<Rightarrow> fence_world \<Rightarrow> bool" for cell where
  start: "fw_processes w p = None \<Longrightarrow> read_control_fence cell readable (dk_visible (fw_disk w)) = Some e \<Longrightarrow>
    fence_step cell w (w\<lparr>fw_processes := (fw_processes w)(p \<mapsto> e)\<rparr>)"
| request: "fw_processes w p = Some mem \<Longrightarrow> fw_serving w \<noteq> None \<longrightarrow> \<not> fe_locked env \<Longrightarrow>
    fence_step cell w (handle_request cell p env header mem w)"
| finish: "fence_step cell w (w\<lparr>fw_serving := None\<rparr>)"
| stop: "fence_step cell w (w\<lparr>fw_processes := (fw_processes w)(p := None), fw_serving := (if fw_serving w = Some p then None else fw_serving w)\<rparr>)"
| power_loss: "x \<in> set (dk_survivors (fw_disk w)) \<Longrightarrow>
    fence_step cell w (w\<lparr>fw_disk := \<lparr>dk_visible = x, dk_survivors = [x]\<rparr>, fw_processes := (\<lambda>_. None), fw_serving := None\<rparr>)"

inductive fence_reachable :: "string \<Rightarrow> fence_world \<Rightarrow> bool" for cell where
  init: "fence_reachable cell fresh_world"
| step: "fence_reachable cell w \<Longrightarrow> fence_step cell w w' \<Longrightarrow> fence_reachable cell w'"

section \<open>Reading back\<close>

lemma parse_uint64_show: "n \<le> max_uint64 \<Longrightarrow> parse_uint64 (show_nat n) = (n, NumOk)"
  using parse_uint_loop_ok [OF show_nat_digits [of n], of 0] by (simp add: parse_uint64_def)

lemma takeWhile_show_nat: "takeWhile is_digit (show_nat n @ ''}'') = show_nat n"
  using show_nat_digits [of n] by (simp add: takeWhile_append2 is_digit_def)

lemma decode_fence_text:
  "decode_fence cell (fence_text cell n) = (if 0 < n \<and> n \<le> max_epoch then Some n else None)"
proof (cases "n \<le> max_uint64")
  case True
  then show ?thesis
    by (auto simp: decode_fence_def fence_text_def takeWhile_show_nat parse_uint64_show)
next
  case False
  have "raw = fence_text cell e \<Longrightarrow> raw = fence_text cell n \<Longrightarrow> e = n" for raw e
    by (auto simp: fence_text_def dest: show_nat_inj)
  with False show ?thesis by (auto simp: decode_fence_def Let_def split: prod.split)
qed

lemma decode_fence_iff: "decode_fence cell raw = Some n \<longleftrightarrow> raw = fence_text cell n \<and> 0 < n \<and> n \<le> max_epoch"
proof
  assume "decode_fence cell raw = Some n"
  then show "raw = fence_text cell n \<and> 0 < n \<and> n \<le> max_epoch"
    by (auto simp: decode_fence_def Let_def split: prod.splits if_splits)
qed (simp add: decode_fence_text)

lemma parse_control_epoch_iff:
  "parse_control_epoch header = Some e \<longleftrightarrow> header = [] \<and> e = 0 \<or> header = [show_nat e] \<and> 0 < e \<and> e \<le> max_epoch"
proof (cases header)
  case (Cons v rest)
  show ?thesis
  proof (cases rest)
    case Nil
    obtain n status where p: "parse_uint64 v = (n, status)" by fastforce
    have "parse_control_epoch [v] = (if status \<noteq> NumOk \<or> max_epoch < n \<or> n = 0 \<or> show_nat n \<noteq> v then None else Some n)"
      by (simp add: parse_control_epoch_def p)
    moreover have "n = e \<and> status = NumOk" if "v = show_nat e" "e \<le> max_epoch"
      using p parse_uint64_show [of e] that by simp
    ultimately show ?thesis unfolding Cons Nil by (auto split: if_splits)
  qed (simp add: Cons parse_control_epoch_def)
qed (auto simp: parse_control_epoch_def)

text \<open>Exactly when a request is let through: its header names one epoch in canonical form or is absent, the
  journal can be locked and read, the epoch is not below what the process or the journal knows, and a positive epoch
  has been written and synced.\<close>

lemma fence_admits_iff:
  "fst (with_control_fence cell env header mem d) = Admitted e \<longleftrightarrow>
     (header = [] \<and> e = 0 \<or> header = [show_nat e] \<and> 0 < e \<and> e \<le> max_epoch) \<and>
     fe_directory env \<and> fe_lock_file env \<and> fe_locked env \<and>
     (\<exists>persisted. read_control_fence cell (fe_readable env) (dk_visible d) = Some persisted \<and> max mem persisted \<le> e) \<and>
     (e = 0 \<or> fe_write env = Write_durable)"
proof (cases "parse_control_epoch header = Some e")
  case True
  then have "header = [] \<and> e = 0 \<or> header = [show_nat e] \<and> 0 < e \<and> e \<le> max_epoch"
    using parse_control_epoch_iff [of header e] by blast
  with True show ?thesis
    by (cases "fe_write env") (auto simp: with_control_fence_def write_control_fence_def Let_def not_less split: option.splits)
next
  case False
  then have "\<not> (header = [] \<and> e = 0 \<or> header = [show_nat e] \<and> 0 < e \<and> e \<le> max_epoch)"
    using parse_control_epoch_iff [of header e] by blast
  moreover have "fst (with_control_fence cell env header mem d) \<noteq> Admitted e"
    using False
    by (cases "fe_write env") (auto simp: with_control_fence_def write_control_fence_def Let_def split: option.splits if_splits)
  ultimately show ?thesis by blast
qed

section \<open>Epochs do not go back\<close>

text \<open>The epoch a text stands for.\<close>

definition epoch_of :: "string \<Rightarrow> string option \<Rightarrow> nat" where
  "epoch_of cell x = (case x of None \<Rightarrow> 0 | Some raw \<Rightarrow> the (decode_fence cell raw))"

definition journal_text :: "string \<Rightarrow> string option \<Rightarrow> bool" where
  "journal_text cell x \<longleftrightarrow> x = None \<or> (\<exists>n. x = Some (fence_text cell n) \<and> 0 < n \<and> n \<le> max_epoch)"

definition fence_inv :: "string \<Rightarrow> fence_world \<Rightarrow> bool" where
  "fence_inv cell w \<longleftrightarrow>
     (\<forall>x \<in> insert (dk_visible (fw_disk w)) (set (dk_survivors (fw_disk w))). journal_text cell x \<and>
        epoch_of cell x \<le> epoch_of cell (dk_visible (fw_disk w)) \<and> (\<forall>e \<in> set (fw_admitted w). e \<le> epoch_of cell x)) \<and>
     sorted_wrt (\<ge>) (fw_admitted w)"

lemma epoch_of_text [simp]: "0 < n \<Longrightarrow> n \<le> max_epoch \<Longrightarrow> epoch_of cell (Some (fence_text cell n)) = n" "epoch_of cell None = 0"
  by (simp_all add: epoch_of_def decode_fence_text)

lemma read_epoch: "journal_text cell x \<Longrightarrow> read_control_fence cell readable x = Some e \<Longrightarrow> e = epoch_of cell x"
  by (auto simp: journal_text_def read_control_fence_def decode_fence_text split: if_splits)

lemma write_inv:
  assumes "fence_inv cell w" "0 < e" "e \<le> max_epoch" "epoch_of cell (dk_visible (fw_disk w)) \<le> e"
    "write_control_fence cell e r (fw_disk w) = (ok, d)"
  shows "fence_inv cell (w\<lparr>fw_disk := d\<rparr>) \<and> (ok \<longrightarrow> fence_inv cell (w\<lparr>fw_disk := d, fw_admitted := e # fw_admitted w\<rparr>))"
proof -
  have t: "journal_text cell (Some (fence_text cell e))" using assms(2,3) by (auto simp: journal_text_def)
  have a: "a \<le> e" if "a \<in> set (fw_admitted w)" for a using assms(1,4) that by (fastforce simp: fence_inv_def)
  show ?thesis
    using assms t a by (cases r) (auto 4 4 simp: write_control_fence_def fence_inv_def Let_def dest: order_trans [OF _ assms(4)])
qed

lemma handle_request_inv:
  assumes "fence_inv cell w"
  shows "fence_inv cell (handle_request cell p env header mem w)"
proof -
  let ?v = "dk_visible (fw_disk w)"
  have j: "journal_text cell ?v" using assms by (simp add: fence_inv_def)
  have frame: "fence_inv cell (w\<lparr>fw_disk := d, fw_processes := f\<rparr>) = fence_inv cell (w\<lparr>fw_disk := d\<rparr>)"
    "fence_inv cell (w\<lparr>fw_disk := d, fw_processes := f, fw_serving := s, fw_admitted := as\<rparr>) = fence_inv cell (w\<lparr>fw_disk := d, fw_admitted := as\<rparr>)"
    "fence_inv cell (w\<lparr>fw_processes := f\<rparr>) = fence_inv cell w"
    "fence_inv cell (w\<lparr>fw_processes := f, fw_serving := s, fw_admitted := as\<rparr>) = fence_inv cell (w\<lparr>fw_admitted := as\<rparr>)" for d f s as
    by (simp_all add: fence_inv_def)
  obtain reply mem' d where r: "with_control_fence cell env header mem (fw_disk w) = (reply, mem', d)" by (metis prod_cases3)
  consider (same) "d = fw_disk w" "\<And>e. reply \<noteq> Admitted e" | (unfenced) "d = fw_disk w" "reply = Admitted 0" "epoch_of cell ?v = 0"
    | (written) e ok where "write_control_fence cell e (fe_write env) (fw_disk w) = (ok, d)" "0 < e" "e \<le> max_epoch" "epoch_of cell ?v \<le> e"
        "\<And>a. reply = Admitted a \<Longrightarrow> ok \<and> a = e"
  proof (cases "parse_control_epoch header")
    case None
    with r have "d = fw_disk w" "reply = Rejected 400 ''invalid_control_epoch''" by (auto simp: with_control_fence_def)
    then show ?thesis by (intro same) auto
  next
    case (Some epoch)
    show ?thesis
    proof (cases "fe_directory env \<and> fe_lock_file env \<and> fe_locked env \<and> read_control_fence cell (fe_readable env) ?v \<noteq> None")
      case False
      with r Some have "d = fw_disk w" "\<exists>c t. reply = Rejected c t"
        by (auto simp: with_control_fence_def split: if_splits option.splits)
      then show ?thesis by (intro same) auto
    next
      case True
      then obtain persisted where p: "read_control_fence cell (fe_readable env) ?v = Some persisted" by auto
      then have e: "persisted = epoch_of cell ?v" by (rule read_epoch [OF j])
      obtain ok d' where wr: "write_control_fence cell epoch (fe_write env) (fw_disk w) = (ok, d')" by fastforce
      from Some have range: "epoch = 0 \<or> 0 < epoch \<and> epoch \<le> max_epoch" by (auto simp: parse_control_epoch_iff)
      consider (stale) "epoch < max mem persisted" | (zero) "max mem persisted \<le> epoch" "epoch = 0"
        | (fenced) "max mem persisted \<le> epoch" "0 < epoch" by linarith
      then show ?thesis
      proof cases
        case stale
        with r Some True p have "d = fw_disk w" "\<exists>c t. reply = Rejected c t" by (auto simp: with_control_fence_def Let_def)
        then show ?thesis by (intro same) auto
      next
        case zero
        with r Some True p e have "d = fw_disk w" "reply = Admitted 0" "epoch_of cell ?v = 0" by (auto simp: with_control_fence_def Let_def)
        then show ?thesis by (rule unfenced)
      next
        case fenced
        with r Some True p wr have "d = d'" "reply = (if ok then Admitted epoch else Rejected 503 ''control_fence_unavailable'')"
          by (cases ok; simp add: with_control_fence_def Let_def)+
        with fenced wr range e show ?thesis by (intro written [of epoch ok]) (auto split: if_splits)
      qed
    qed
  qed
  then show ?thesis
  proof cases
    case same
    then obtain c t where "reply = Rejected c t" by (cases reply) auto
    with assms r same show ?thesis by (simp add: handle_request_def frame)
  next
    case unfenced
    have "fence_inv cell (w\<lparr>fw_admitted := 0 # fw_admitted w\<rparr>)" using assms unfenced(3) by (fastforce simp: fence_inv_def)
    with r unfenced show ?thesis by (simp add: handle_request_def frame)
  next
    case written
    from write_inv [OF assms written(2-4,1)] r written(5) show ?thesis by (cases reply) (auto simp: handle_request_def frame)
  qed
qed

lemma fence_reachable_inv: "fence_reachable cell w \<Longrightarrow> fence_inv cell w"
proof (induction rule: fence_reachable.induct)
  case init
  show ?case by (simp add: fence_inv_def fresh_world_def journal_text_def)
next
  case (step w w')
  from step.hyps(2) step.IH show ?case
  proof cases
    case (request p mem env header)
    with step.IH show ?thesis by (simp add: handle_request_inv)
  qed (auto simp: fence_inv_def)
qed

text \<open>C21. The epochs of the requests let through never go back, whatever processes share the data root, are killed
  and restarted, whichever writes fail, and after a loss of power: once a controller with a positive epoch was
  served, no older controller and none without an epoch is served again.\<close>

theorem admitted_epochs_never_decrease:
  assumes "fence_reachable cell w"
  shows "sorted_wrt (\<ge>) (fw_admitted w)"
  using fence_reachable_inv [OF assms] by (simp add: fence_inv_def)

section \<open>A controller replaced\<close>

definition demo_fence_env :: "fence_write \<Rightarrow> fence_env" where
  "demo_fence_env r = \<lparr>fe_directory = True, fe_lock_file = True, fe_locked = True, fe_readable = True, fe_write = r\<rparr>"

text \<open>Process 1 serves epoch 8, then fails to sync epoch 9; power is lost and epoch 9 with it; process 2 serves epoch
  8 again and epoch 10.\<close>

definition demo_started :: fence_world where
  "demo_started = fresh_world\<lparr>fw_processes := (fw_processes fresh_world)(1 \<mapsto> 0)\<rparr>"

definition demo_first :: fence_world where
  "demo_first = (handle_request ''one'' 1 (demo_fence_env Write_durable) [''8''] 0 demo_started)\<lparr>fw_serving := None\<rparr>"

definition demo_unsynced :: fence_world where
  "demo_unsynced = handle_request ''one'' 1 (demo_fence_env Write_renamed) [''9''] 8 demo_first"

definition demo_lost :: fence_world where
  "demo_lost = demo_unsynced\<lparr>fw_disk := \<lparr>dk_visible = Some (fence_text ''one'' 8), dk_survivors = [Some (fence_text ''one'' 8)]\<rparr>,
     fw_processes := (\<lambda>_. None), fw_serving := None\<rparr>"

definition demo_back :: fence_world where
  "demo_back = demo_lost\<lparr>fw_processes := (fw_processes demo_lost)(2 \<mapsto> 8)\<rparr>"

definition demo_again :: fence_world where
  "demo_again = (handle_request ''one'' 2 (demo_fence_env Write_durable) [''8''] 8 demo_back)\<lparr>fw_serving := None\<rparr>"

definition demo_last :: fence_world where
  "demo_last = handle_request ''one'' 2 (demo_fence_env Write_durable) [''10''] 8 demo_again"

lemma demo_digits: "show_nat 8 = ''8''" "show_nat 9 = ''9''" "show_nat 10 = ''10''"
  by code_simp+

lemma demo_epochs: "parse_control_epoch [''8''] = Some 8" "parse_control_epoch [''9''] = Some 9" "parse_control_epoch [''10''] = Some 10"
  by (simp_all add: parse_control_epoch_iff demo_digits)

lemma demo_read: "read_control_fence ''one'' True (Some (fence_text ''one'' 8)) = Some 8"
  by (simp add: read_control_fence_def decode_fence_text) (simp add: fence_text_def fence_prefix_def demo_digits)

lemmas demo_fence_simps = with_control_fence_def write_control_fence_def handle_request_def demo_fence_env_def demo_epochs demo_read Let_def

lemma demo_first_eq: "demo_first = fresh_world\<lparr>fw_disk := \<lparr>dk_visible = Some (fence_text ''one'' 8), dk_survivors = [Some (fence_text ''one'' 8)]\<rparr>,
    fw_processes := (\<lambda>_. None)(1 \<mapsto> 8), fw_admitted := [8]\<rparr>"
  by (simp add: demo_first_def demo_started_def fresh_world_def demo_fence_simps read_control_fence_def [of _ _ None])

lemma demo_fence_facts:
  "fw_processes demo_first 1 = Some 8" "Some (fence_text ''one'' 8) \<in> set (dk_survivors (fw_disk demo_unsynced))"
  by (simp_all add: demo_unsynced_def demo_first_eq fresh_world_def demo_fence_simps)

lemma demo_last_facts: "fw_processes demo_again 2 = Some 8" "fw_admitted demo_last = [10, 8, 8]"
  by (simp_all add: demo_last_def demo_again_def demo_back_def demo_lost_def demo_unsynced_def demo_first_eq fresh_world_def demo_fence_simps)

lemma demo_last_reachable: "fence_reachable ''one'' demo_last"
proof -
  note go = fence_reachable.step
  have "fence_reachable ''one'' demo_started"
    unfolding demo_started_def
    by (rule go [OF fence_reachable.init fence_step.start [where readable = True]]) (simp_all add: fresh_world_def read_control_fence_def)
  then have "fence_reachable ''one'' demo_first"
    unfolding demo_first_def
    by (rule go [OF go [OF _ fence_step.request] fence_step.finish]) (simp_all add: demo_started_def fresh_world_def)
  then have "fence_reachable ''one'' demo_unsynced"
    unfolding demo_unsynced_def
    by (rule go [OF _ fence_step.request [OF demo_fence_facts(1)]]) (simp add: demo_first_def)
  then have "fence_reachable ''one'' demo_lost"
    unfolding demo_lost_def by (rule go [OF _ fence_step.power_loss [OF demo_fence_facts(2)]])
  then have "fence_reachable ''one'' demo_back"
    unfolding demo_back_def
    by (rule go [OF _ fence_step.start [where readable = True]])
      (simp_all add: demo_lost_def demo_read)
  then have "fence_reachable ''one'' demo_again"
    unfolding demo_again_def
    by (rule go [OF go [OF _ fence_step.request] fence_step.finish]) (simp_all add: demo_back_def demo_lost_def)
  then show ?thesis
    unfolding demo_last_def by (rule go [OF _ fence_step.request [OF demo_last_facts(1)]]) (simp add: demo_again_def)
qed

theorem admitted_epochs_never_decrease_witness: "sorted_wrt (\<ge>) [10, 8, 8 :: nat]"
  using admitted_epochs_never_decrease [OF demo_last_reachable] unfolding demo_last_facts(2) .

end
