(* ===== verification/MovementStore.thy ===== *)
theory MovementStore
  imports Prelude "HOL-Library.Word" "HOL-Library.AList"
begin

unbundle bit_operations_syntax

text \<open>
  The movements of a game state (\<^verbatim>\<open>Server/State/MovementMutation.go\<close>): 256 shards, Go maps that published
  states share and a mutation copies before it writes to them.

  Maps and generations (the arrays of pointers to the shards) live in \<open>'m store\<close>, and states point to them: what
  is shared, and what a write reaches, is as in Go. A Go map is an association list; the map of movements a state
  carries before it is initialised is kept in the state. Movements themselves are values of any type; they are
  replaced, never changed in place.
\<close>

section \<open>Memory\<close>

type_synonym 'm movement_map = "(int \<times> 'm) list"

record 'm store =
  sr_next :: nat
  sr_maps :: "nat \<Rightarrow> 'm movement_map"
  sr_gens :: "nat \<Rightarrow> nat option list"

definition new_map :: "'m movement_map \<Rightarrow> 'm store \<Rightarrow> nat \<times> 'm store" where
  "new_map m st = (sr_next st, st\<lparr>sr_next := sr_next st + 1, sr_maps := (sr_maps st)(sr_next st := m)\<rparr>)"

definition new_generation :: "nat option list \<Rightarrow> 'm store \<Rightarrow> nat \<times> 'm store" where
  "new_generation shards st = (sr_next st, st\<lparr>sr_next := sr_next st + 1, sr_gens := (sr_gens st)(sr_next st := shards)\<rparr>)"

text \<open>\<open>gs_records\<close> is the pointer to the generation, \<open>gs_movements\<close> the plain map, \<open>gs_mutable\<close> the bit set of
  shards already copied.\<close>

record 'm game_movements =
  gs_movements :: "'m movement_map option"
  gs_records :: "nat option"
  gs_cow :: bool
  gs_mutable :: "64 word list"
  gs_pending :: "int list"
  gs_replace :: bool

abbreviation (input) movement_shard_count :: nat where "movement_shard_count \<equiv> 256"

definition movement_shard_index :: "int \<Rightarrow> nat" where
  "movement_shard_index i =
     (let v = word_of_int i :: 64 word;
          v = v XOR drop_bit 33 v;
          v = v * 0xff51afd7ed558ccd;
          v = v XOR drop_bit 33 v
      in unat (ucast v :: 8 word))"

section \<open>Generations\<close>

definition add_movement :: "int \<times> 'm \<Rightarrow> nat option list \<times> 'm store \<Rightarrow> nat option list \<times> 'm store" where
  "add_movement e w =
     (let (i, m) = e; (shards, st) = w in
      if i \<le> 0 then (shards, st)
      else
        let k = movement_shard_index i in
        case shards ! k of
          None \<Rightarrow> (let (a, st) = new_map [(i, m)] st in (shards[k := Some a], st))
        | Some a \<Rightarrow> (shards, st\<lparr>sr_maps := (sr_maps st)(a := AList.update i m (sr_maps st a))\<rparr>))"

definition movement_generation_from_map :: "'m movement_map option \<Rightarrow> 'm store \<Rightarrow> nat \<times> 'm store" where
  "movement_generation_from_map source st =
     (let entries = (case source of None \<Rightarrow> [] | Some m \<Rightarrow> m);
          (shards, st) = fold add_movement entries (replicate movement_shard_count None, st)
      in new_generation shards st)"

definition initialize_movements :: "'m game_movements \<times> 'm store \<Rightarrow> 'm game_movements \<times> 'm store" where
  "initialize_movements w =
     (let (gs, st) = w in
      case gs_records gs of
        Some _ \<Rightarrow> (gs, st)
      | None \<Rightarrow>
          let (g, st) = movement_generation_from_map (gs_movements gs) st
          in (gs\<lparr>gs_records := Some g, gs_movements := None\<rparr>, st))"

definition prepare_movement_mutation :: "'m game_movements \<Rightarrow> 'm game_movements \<times> 'm store \<Rightarrow> 'm game_movements \<times> 'm store" where
  "prepare_movement_mutation source w =
     (let (gs, st) = w;
          (base, st) = (case gs_records source of
              Some g \<Rightarrow> (g, st) | None \<Rightarrow> movement_generation_from_map (gs_movements source) st);
          (g, st) = new_generation (sr_gens st base) st
      in (gs\<lparr>gs_records := Some g, gs_movements := None, gs_cow := True, gs_mutable := replicate 4 0, gs_pending := [], gs_replace := False\<rparr>,
          st))"

section \<open>Shards a mutation may write to\<close>

definition shard_bit :: "nat \<Rightarrow> 64 word" where
  "shard_bit k = push_bit (k mod 64) 1"

definition shard_is_mutable :: "64 word list \<Rightarrow> nat \<Rightarrow> bool" where
  "shard_is_mutable mutable k \<longleftrightarrow> mutable ! (k div 64) AND shard_bit k \<noteq> 0"

definition set_shard :: "nat \<Rightarrow> nat \<Rightarrow> nat \<Rightarrow> 'm store \<Rightarrow> 'm store" where
  "set_shard g k a st = st\<lparr>sr_gens := (sr_gens st)(g := (sr_gens st g)[k := Some a])\<rparr>"

definition clone_shard :: "nat \<Rightarrow> nat \<Rightarrow> 'm store \<Rightarrow> 'm store" where
  "clone_shard g k st =
     (let (a, st) = new_map (case sr_gens st g ! k of None \<Rightarrow> [] | Some a \<Rightarrow> sr_maps st a) st in set_shard g k a st)"

text \<open>The address of the shard for an identifier, after it has been made writable.\<close>

definition mutable_movement_shard :: "int \<Rightarrow> 'm game_movements \<times> 'm store \<Rightarrow> nat \<times> 'm game_movements \<times> 'm store" where
  "mutable_movement_shard i w =
     (let (gs, st) = initialize_movements w;
          g = the (gs_records gs);
          k = movement_shard_index i;
          (gs, st) = (if \<not> gs_cow gs \<or> \<not> shard_is_mutable (gs_mutable gs) k
            then (if gs_cow gs then gs\<lparr>gs_mutable := (gs_mutable gs)[k div 64 := gs_mutable gs ! (k div 64) OR shard_bit k]\<rparr> else gs,
                  clone_shard g k st)
            else (gs, st))
      in case sr_gens st g ! k of
           Some a \<Rightarrow> (a, gs, st)
         | None \<Rightarrow> (let (a, st) = new_map [] st in (a, gs, set_shard g k a st)))"

section \<open>Reading\<close>

definition lookup_movement :: "'m game_movements \<Rightarrow> 'm store \<Rightarrow> int \<Rightarrow> 'm option" where
  "lookup_movement gs st i =
     (if i \<le> 0 then None
      else case gs_records gs of
        Some g \<Rightarrow> (case sr_gens st g ! movement_shard_index i of None \<Rightarrow> None | Some a \<Rightarrow> map_of (sr_maps st a) i)
      | None \<Rightarrow> (case gs_movements gs of None \<Rightarrow> None | Some m \<Rightarrow> map_of m i))"

text \<open>What \<open>RangeMovements\<close> visits, in one of the orders Go may choose.\<close>

definition range_movements :: "'m game_movements \<Rightarrow> 'm store \<Rightarrow> 'm movement_map" where
  "range_movements gs st =
     (case gs_records gs of
        None \<Rightarrow> (case gs_movements gs of None \<Rightarrow> [] | Some m \<Rightarrow> m)
      | Some g \<Rightarrow> concat (map (\<lambda>s. case s of None \<Rightarrow> [] | Some a \<Rightarrow> sr_maps st a) (sr_gens st g)))"

definition movement_count :: "'m game_movements \<Rightarrow> 'm store \<Rightarrow> nat" where
  "movement_count gs st = length (range_movements gs st)"

definition movement_view_map :: "'m game_movements \<Rightarrow> 'm store \<Rightarrow> 'm movement_map" where
  "movement_view_map gs st = fold (\<lambda>(i, m). AList.update i m) (range_movements gs st) []"

definition movement_change_ids :: "'m game_movements \<Rightarrow> int list" where
  "movement_change_ids gs = sort (gs_pending gs)"

section \<open>Writing\<close>

definition mark_movement :: "int \<Rightarrow> 'm game_movements \<Rightarrow> 'm game_movements" where
  "mark_movement i gs =
     (if gs_cow gs \<and> \<not> gs_replace gs \<and> 0 < i then gs\<lparr>gs_pending := List.insert i (gs_pending gs)\<rparr> else gs)"

definition set_movement :: "int \<Rightarrow> 'm \<Rightarrow> 'm game_movements \<times> 'm store \<Rightarrow> 'm game_movements \<times> 'm store" where
  "set_movement i m w =
     (let (gs, st) = w in
      if i \<le> 0 then (gs, st)
      else if \<not> gs_cow gs \<and> gs_records gs = None
      then (gs\<lparr>gs_movements := Some (AList.update i m (case gs_movements gs of None \<Rightarrow> [] | Some ms \<Rightarrow> ms))\<rparr>, st)
      else
        let (a, gs, st) = mutable_movement_shard i (gs, st)
        in (mark_movement i gs, st\<lparr>sr_maps := (sr_maps st)(a := AList.update i m (sr_maps st a))\<rparr>))"

definition delete_movement :: "int \<Rightarrow> 'm game_movements \<times> 'm store \<Rightarrow> 'm game_movements \<times> 'm store" where
  "delete_movement i w =
     (let (gs, st) = w in
      if i \<le> 0 then (gs, st)
      else if \<not> gs_cow gs \<and> gs_records gs = None
      then (gs\<lparr>gs_movements := map_option (AList.delete i) (gs_movements gs)\<rparr>, st)
      else
        let (a, gs, st) = mutable_movement_shard i (gs, st)
        in (mark_movement i gs, st\<lparr>sr_maps := (sr_maps st)(a := AList.delete i (sr_maps st a))\<rparr>))"

definition same_movements :: "'m movement_map option \<Rightarrow> 'm movement_map \<Rightarrow> bool" where
  "same_movements current new =
     (case current of None \<Rightarrow> False | Some m \<Rightarrow> list_all (\<lambda>(i, _). map_of m i = map_of new i) (m @ new))"

definition replace_entry :: "int \<times> 'm \<Rightarrow> bool \<times> 'm game_movements \<times> 'm store \<Rightarrow> bool \<times> 'm game_movements \<times> 'm store" where
  "replace_entry e w =
     (let (i, m) = e; (changed, gs, st) = w
      in if lookup_movement gs st i = Some m then (changed, gs, st) else (True, set_movement i m (gs, st)))"

definition remove_entry :: "int \<Rightarrow> bool \<times> 'm game_movements \<times> 'm store \<Rightarrow> bool \<times> 'm game_movements \<times> 'm store" where
  "remove_entry i w = (let (changed, gs, st) = w in (True, delete_movement i (gs, st)))"

definition replace_movements :: "'m movement_map \<Rightarrow> 'm game_movements \<times> 'm store \<Rightarrow> bool \<times> 'm game_movements \<times> 'm store" where
  "replace_movements new w =
     (let (gs, st) = w in
      if \<not> gs_cow gs \<and> gs_records gs = None then (\<not> same_movements (gs_movements gs) new, gs\<lparr>gs_movements := Some new\<rparr>, st)
      else if gs_cow gs then
        let (changed, gs, st) = fold replace_entry new (False, gs, st);
            removals = filter (\<lambda>i. i \<notin> fst ` set new) (map fst (range_movements gs st));
            (changed, gs, st) = fold remove_entry removals (changed, gs, st)
        in (changed, gs\<lparr>gs_movements := None\<rparr>, st)
      else
        let (g, st) = movement_generation_from_map (Some new) st
        in (True, gs\<lparr>gs_records := Some g, gs_movements := None\<rparr>, st))"

end
