(* ===== verification/MovementProofs.thy ===== *)
theory MovementProofs
  imports MovementStore
begin

unbundle bit_operations_syntax

text \<open>
  What the shared movements of \<^verbatim>\<open>Server/State/MovementMutation.go\<close> promise. A mutation writes only to memory
  allocated after it was prepared (\<open>cow_inv\<close>, \<open>frozen\<close>), so every state published before reads as it did;
  to itself it reads like a map; and the identifiers it reports as changed cover every difference.
\<close>

section \<open>Shards and bits\<close>

lemma movement_shard_index_less [simp]: "movement_shard_index i < 256"
proof -
  have "unat w < 256" for w :: "8 word" using unsigned_less [of w] by simp
  then show ?thesis by (simp only: movement_shard_index_def Let_def)
qed

lemma shard_is_mutable_bit: "shard_is_mutable ws k \<longleftrightarrow> bit (ws ! (k div 64)) (k mod 64)"
  by (simp add: shard_is_mutable_def shard_bit_def bit_iff_and_push_bit_not_eq_0)

lemma shard_bit_bit: "bit (shard_bit k) j \<longleftrightarrow> j = k mod 64"
  by (auto simp: shard_bit_def bit_exp_iff)

lemma shard_set_mutable:
  assumes "length ws = 4" "k < 256" "j < 256"
  shows "shard_is_mutable (ws[k div 64 := ws ! (k div 64) OR shard_bit k]) j \<longleftrightarrow> shard_is_mutable ws j \<or> j = k"
proof (cases "j div 64 = k div 64")
  case True
  have "k div 64 < length ws" using assms by simp
  then have "shard_is_mutable (ws[k div 64 := ws ! (k div 64) OR shard_bit k]) j \<longleftrightarrow> shard_is_mutable ws j \<or> j mod 64 = k mod 64"
    using True by (simp add: shard_is_mutable_bit bit_or_iff shard_bit_bit)
  moreover have "j mod 64 = k mod 64 \<longleftrightarrow> j = k" using True by (metis div_mult_mod_eq)
  ultimately show ?thesis by simp
next
  case False
  then have "j \<noteq> k" by auto
  with False show ?thesis by (simp add: shard_is_mutable_bit)
qed

lemma no_mutable [simp]: "k < 256 \<Longrightarrow> \<not> shard_is_mutable (replicate 4 0) k"
proof -
  assume "k < 256"
  then have "k div 64 < 4" by simp
  then show ?thesis by (simp add: shard_is_mutable_bit)
qed

section \<open>Generations\<close>

definition generation_view :: "'m store \<Rightarrow> nat \<Rightarrow> int \<Rightarrow> 'm option" where
  "generation_view st g i =
     (if i \<le> 0 then None else case sr_gens st g ! movement_shard_index i of None \<Rightarrow> None | Some a \<Rightarrow> map_of (sr_maps st a) i)"

definition map_ok :: "nat \<Rightarrow> 'm movement_map \<Rightarrow> bool" where
  "map_ok k m \<longleftrightarrow> distinct (map fst m) \<and> (\<forall>i \<in> fst ` set m. 0 < i \<and> movement_shard_index i = k)"

definition shards_ok :: "'m store \<Rightarrow> nat option list \<Rightarrow> bool" where
  "shards_ok st shards \<longleftrightarrow> length shards = 256 \<and>
     (\<forall>k < 256. \<forall>a. shards ! k = Some a \<longrightarrow> a < sr_next st \<and> map_ok k (sr_maps st a)) \<and>
     (\<forall>k < 256. \<forall>j < 256. \<forall>a. shards ! k = Some a \<longrightarrow> shards ! j = Some a \<longrightarrow> k = j)"

definition generation_ok :: "'m store \<Rightarrow> nat \<Rightarrow> bool" where
  "generation_ok st g \<longleftrightarrow> g < sr_next st \<and> shards_ok st (sr_gens st g)"

text \<open>What was allocated before \<open>n\<close> has not changed.\<close>

definition frozen :: "nat \<Rightarrow> 'm store \<Rightarrow> 'm store \<Rightarrow> bool" where
  "frozen n st st' \<longleftrightarrow> n \<le> sr_next st \<and> sr_next st \<le> sr_next st' \<and> (\<forall>a < n. sr_maps st' a = sr_maps st a \<and> sr_gens st' a = sr_gens st a)"

lemma frozen_trans: "frozen n st st' \<Longrightarrow> frozen n st' st'' \<Longrightarrow> frozen n st st''"
  by (simp add: frozen_def)

lemma frozen_refl: "n \<le> sr_next st \<Longrightarrow> frozen n st st"
  by (simp add: frozen_def)

lemma shards_okD:
  assumes "shards_ok st shards" "k < 256" "shards ! k = Some a"
  shows "a < sr_next st" "map_ok k (sr_maps st a)"
  using assms by (auto simp: shards_ok_def)

lemma generation_view_frozen:
  assumes "generation_ok st g" "frozen (sr_next st) st st'"
  shows "generation_view st' g i = generation_view st g i" "generation_ok st' g"
proof -
  have g: "sr_gens st' g = sr_gens st g" using assms by (simp add: generation_ok_def frozen_def)
  have m: "sr_maps st' a = sr_maps st a" if "sr_gens st g ! k = Some a" "k < 256" for a k
    using assms that by (auto simp: generation_ok_def frozen_def shards_ok_def)
  show "generation_view st' g i = generation_view st g i"
    by (auto simp: generation_view_def g m split: option.split)
  have "g < sr_next st'" "\<And>a. a < sr_next st \<Longrightarrow> a < sr_next st'" using assms by (auto simp: generation_ok_def frozen_def)
  then show "generation_ok st' g" using assms(1) m by (auto simp: generation_ok_def shards_ok_def g)
qed

section \<open>Filling a generation\<close>

definition shards_view :: "'m store \<Rightarrow> nat option list \<Rightarrow> int \<Rightarrow> 'm option" where
  "shards_view st shards i =
     (if i \<le> 0 then None else case shards ! movement_shard_index i of None \<Rightarrow> None | Some a \<Rightarrow> map_of (sr_maps st a) i)"

lemma shards_view_maps: "sr_maps st' = sr_maps st \<Longrightarrow> shards_view st' shards = shards_view st shards"
  by (auto simp: shards_view_def fun_eq_iff split: option.split)

lemma generation_view_shards: "generation_view st g = shards_view st (sr_gens st g)"
  by (simp add: generation_view_def shards_view_def fun_eq_iff)

lemma map_ok_update: "map_ok k m \<Longrightarrow> 0 < i \<Longrightarrow> movement_shard_index i = k \<Longrightarrow> map_ok k (AList.update i x m)"
  by (auto simp: map_ok_def dom_update distinct_update)

lemma map_ok_delete: "map_ok k m \<Longrightarrow> map_ok k (AList.delete i m)"
  by (auto simp: map_ok_def AList.delete_eq distinct_map_filter)

lemma shards_write:
  assumes "shards_ok st shards" "shards ! movement_shard_index i = Some a" "0 < i" "map_ok (movement_shard_index i) m"
    "\<And>j. j \<noteq> i \<Longrightarrow> map_of m j = map_of (sr_maps st a) j"
  shows "shards_ok (st\<lparr>sr_maps := (sr_maps st)(a := m)\<rparr>) shards"
    and "shards_view (st\<lparr>sr_maps := (sr_maps st)(a := m)\<rparr>) shards = (shards_view st shards)(i := map_of m i)"
proof -
  have u: "k = movement_shard_index i" if "shards ! k = Some a" "k < 256" for k
    using assms(1,2) that unfolding shards_ok_def by (metis movement_shard_index_less)
  show "shards_ok (st\<lparr>sr_maps := (sr_maps st)(a := m)\<rparr>) shards"
    using assms(1,4) by (auto simp: shards_ok_def dest: u)
  show "shards_view (st\<lparr>sr_maps := (sr_maps st)(a := m)\<rparr>) shards = (shards_view st shards)(i := map_of m i)"
  proof
    fix j
    show "shards_view (st\<lparr>sr_maps := (sr_maps st)(a := m)\<rparr>) shards j = ((shards_view st shards)(i := map_of m i)) j"
    proof (cases "j = i")
      case True
      then show ?thesis using assms(2,3) by (simp add: shards_view_def)
    next
      case False
      then show ?thesis using assms(5) [OF False] by (auto simp: shards_view_def split: option.split)
    qed
  qed
qed

lemma shards_new:
  assumes "shards_ok st shards" "k < 256" "map_ok k m" "new_map m st = (a, st')"
  shows "shards_ok st' (shards[k := Some a])"
    and "shards_view st' (shards[k := Some a]) i = (if 0 < i \<and> movement_shard_index i = k then map_of m i else shards_view st shards i)"
    and "frozen n st st' \<longleftrightarrow> n \<le> sr_next st" "a = sr_next st" "sr_gens st' = sr_gens st"
proof -
  have st': "a = sr_next st" "st' = st\<lparr>sr_next := sr_next st + 1, sr_maps := (sr_maps st)(a := m)\<rparr>"
    using assms(4) by (auto simp: new_map_def)
  have old: "b < sr_next st" if "shards ! j = Some b" "j < 256" for j b using assms(1) that by (auto simp: shards_ok_def)
  have len: "length shards = 256" using assms(1) by (simp add: shards_ok_def)
  have n: "b \<noteq> sr_next st" if "shards ! j = Some b" "j < 256" for j b using old [OF that] by simp
  show "shards_ok st' (shards[k := Some a])"
    using assms(1-3) old n len by (auto simp: shards_ok_def st' nth_list_update less_Suc_eq)
  show "shards_view st' (shards[k := Some a]) i = (if 0 < i \<and> movement_shard_index i = k then map_of m i else shards_view st shards i)"
    using assms(2) n len by (auto simp: shards_view_def st' nth_list_update split: option.split)
  show "frozen n st st' \<longleftrightarrow> n \<le> sr_next st" "a = sr_next st" "sr_gens st' = sr_gens st"
    by (auto simp: frozen_def st')
qed

lemma frozen_new_map: "new_map m st = (a, st') \<Longrightarrow> n \<le> sr_next st \<Longrightarrow> frozen n st st' \<and> n \<le> a \<and> n \<le> sr_next st'"
  by (auto simp: new_map_def frozen_def)

lemma frozen_write: "n \<le> a \<Longrightarrow> n \<le> sr_next st \<Longrightarrow> frozen n st (st\<lparr>sr_maps := (sr_maps st)(a := m)\<rparr>)"
  by (simp add: frozen_def)

text \<open>Of equal keys a list fills in the last; a Go map has none.\<close>

lemma add_movement_fills:
  assumes "shards_ok st shards" "\<forall>k < 256. \<forall>a. shards ! k = Some a \<longrightarrow> n \<le> a" "n \<le> sr_next st" "add_movement e (shards, st) = (shards', st')"
  shows "shards_ok st' shards' \<and> (\<forall>k < 256. \<forall>a. shards' ! k = Some a \<longrightarrow> n \<le> a) \<and> frozen n st st' \<and>
    shards_view st' shards' = (if 0 < fst e then (shards_view st shards)(fst e \<mapsto> snd e) else shards_view st shards)"
proof (cases "fst e \<le> 0")
  case True
  with assms show ?thesis by (auto simp: add_movement_def split_def frozen_refl)
next
  case False
  obtain i m where e: "e = (i, m)" by (cases e)
  let ?k = "movement_shard_index i"
  have i: "0 < i" using False e by simp
  have len: "length shards = 256" using assms(1) by (simp add: shards_ok_def)
  show ?thesis
  proof (cases "shards ! ?k")
    case None
    obtain a st1 where nm: "new_map [(i, m)] st = (a, st1)" by fastforce
    with None assms(4) i have eq: "shards' = shards[?k := Some a]" "st' = st1" by (auto simp: add_movement_def e)
    have ok: "map_ok ?k [(i, m)]" using i by (simp add: map_ok_def)
    note new = shards_new [OF assms(1) movement_shard_index_less ok nm]
    have "shards_view st1 (shards[?k := Some a]) = (shards_view st shards)(i \<mapsto> m)"
      using new(2) None i by (auto simp: fun_eq_iff shards_view_def)
    moreover have "\<forall>k < 256. \<forall>b. shards[?k := Some a] ! k = Some b \<longrightarrow> n \<le> b"
      using assms(2,3) new(4) len by (auto simp: nth_list_update)
    ultimately show ?thesis using new(1,3) assms(3) e i eq by simp
  next
    case (Some a)
    with assms(4) i have eq: "shards' = shards" "st' = st\<lparr>sr_maps := (sr_maps st)(a := AList.update i m (sr_maps st a))\<rparr>"
      by (auto simp: add_movement_def e)
    have ok: "map_ok ?k (AList.update i m (sr_maps st a))"
      by (rule map_ok_update [OF shards_okD(2) [OF assms(1) movement_shard_index_less Some] i refl])
    have other: "map_of (AList.update i m (sr_maps st a)) j = map_of (sr_maps st a) j" if "j \<noteq> i" for j
      using that by (simp add: update_conv')
    note w = shards_write [OF assms(1) Some i ok other]
    have "n \<le> a" using assms(2) Some movement_shard_index_less by blast
    then show ?thesis using w assms(2,3) e i eq by (auto simp: update_conv' frozen_write)
  qed
qed

definition positive_map :: "'m movement_map \<Rightarrow> int \<Rightarrow> 'm option" where
  "positive_map m i = (if 0 < i then map_of m i else None)"

lemma fill_generation:
  assumes "shards_ok st shards" "\<forall>k < 256. \<forall>a. shards ! k = Some a \<longrightarrow> n \<le> a" "n \<le> sr_next st" "distinct (map fst m)"
    "fold add_movement m (shards, st) = (shards', st')"
  shows "shards_ok st' shards' \<and> (\<forall>k < 256. \<forall>a. shards' ! k = Some a \<longrightarrow> n \<le> a) \<and> frozen n st st' \<and>
    shards_view st' shards' = shards_view st shards ++ positive_map m"
  using assms
proof (induction m arbitrary: shards st)
  case Nil
  then show ?case by (auto simp: frozen_refl positive_map_def map_add_def fun_eq_iff)
next
  case (Cons e m)
  obtain shards1 st1 where s: "add_movement e (shards, st) = (shards1, st1)" by fastforce
  note a = add_movement_fills [OF Cons.prems(1-3) s]
  have n: "n \<le> sr_next st1" using a Cons.prems(3) by (auto simp: frozen_def)
  have f: "fold add_movement m (shards1, st1) = (shards', st')" using Cons.prems(5) s by simp
  note IH = Cons.IH [of st1 shards1, OF conjunct1 [OF a] _ n _ f]
  have "fst e \<notin> fst ` set m" using Cons.prems(4) by simp
  then have "positive_map m (fst e) = None" by (simp add: positive_map_def map_of_eq_None_iff)
  then have "shards_view st1 shards1 ++ positive_map m = shards_view st shards ++ positive_map (e # m)"
    using a by (auto simp: fun_eq_iff map_add_def positive_map_def split: option.split)
  with IH a Cons.prems(4) show ?case by (auto intro: frozen_trans)
qed

lemma shards_ok_next: "shards_ok st shards \<Longrightarrow> sr_maps st' = sr_maps st \<Longrightarrow> sr_next st \<le> sr_next st' \<Longrightarrow> shards_ok st' shards"
  by (auto simp: shards_ok_def)

lemma generation_from_map_ok:
  assumes "movement_generation_from_map source st = (g, st')" "source \<noteq> None \<longrightarrow> distinct (map fst (the source))"
  shows "generation_ok st' g" "frozen (sr_next st) st st'" "g \<ge> sr_next st" "sr_next st \<le> sr_next st'"
    "generation_view st' g = positive_map (case source of None \<Rightarrow> [] | Some m \<Rightarrow> m)"
    "\<forall>k < 256. \<forall>a. sr_gens st' g ! k = Some a \<longrightarrow> sr_next st \<le> a"
proof -
  let ?m = "case source of None \<Rightarrow> [] | Some m \<Rightarrow> m" and ?e = "replicate 256 None :: nat option list"
  obtain shards st1 where f: "fold add_movement ?m (?e, st) = (shards, st1)" by fastforce
  have d: "distinct (map fst ?m)" using assms(2) by (auto split: option.split)
  have e: "shards_ok st ?e" "\<forall>k < 256. \<forall>a. ?e ! k = Some a \<longrightarrow> sr_next st \<le> a" by (simp_all add: shards_ok_def)
  note fg = fill_generation [OF e order_refl d f]
  have g: "g = sr_next st1" "st' = st1\<lparr>sr_next := sr_next st1 + 1, sr_gens := (sr_gens st1)(sr_next st1 := shards)\<rparr>"
    using assms(1) f by (auto simp: movement_generation_from_map_def new_generation_def)
  have "shards_view st ?e = Map.empty" by (simp add: shards_view_def fun_eq_iff)
  moreover have "shards_view st' shards = shards_view st1 shards" by (auto simp: shards_view_def g fun_eq_iff split: option.split)
  ultimately show "generation_view st' g = positive_map ?m" using fg by (simp add: generation_view_shards g)
  have "shards_ok st' shards" using fg shards_ok_next [of st1 shards st'] by (simp add: g)
  then show "generation_ok st' g" by (simp add: generation_ok_def g)
  show "frozen (sr_next st) st st'" "g \<ge> sr_next st" "sr_next st \<le> sr_next st'" using fg by (auto simp: frozen_def g)
  show "\<forall>k < 256. \<forall>a. sr_gens st' g ! k = Some a \<longrightarrow> sr_next st \<le> a" using fg by (simp add: g)
qed

section \<open>A mutation\<close>

text \<open>The generation of the mutation and the shards it has copied were allocated at \<open>n\<close> or later.\<close>

definition cow_inv :: "nat \<Rightarrow> 'm game_movements \<Rightarrow> 'm store \<Rightarrow> bool" where
  "cow_inv n gs st \<longleftrightarrow> gs_cow gs \<and> \<not> gs_replace gs \<and> length (gs_mutable gs) = 4 \<and> n \<le> sr_next st \<and>
     (case gs_records gs of
        None \<Rightarrow> False
      | Some g \<Rightarrow> n \<le> g \<and> generation_ok st g \<and>
          (\<forall>k < 256. shard_is_mutable (gs_mutable gs) k \<longrightarrow> (\<exists>a. sr_gens st g ! k = Some a \<and> n \<le> a)))"

lemma cow_invE:
  assumes "cow_inv n gs st"
  obtains g where "gs_cow gs" "\<not> gs_replace gs" "length (gs_mutable gs) = 4" "n \<le> sr_next st" "gs_records gs = Some g" "n \<le> g"
    "g < sr_next st" "shards_ok st (sr_gens st g)"
    "\<And>k. k < 256 \<Longrightarrow> shard_is_mutable (gs_mutable gs) k \<Longrightarrow> \<exists>a. sr_gens st g ! k = Some a \<and> n \<le> a"
  using assms that by (auto simp: cow_inv_def generation_ok_def split: option.splits)

lemma lookup_view: "gs_records gs = Some g \<Longrightarrow> lookup_movement gs st = generation_view st g"
  by (simp add: lookup_movement_def generation_view_def fun_eq_iff)

lemma clone_shard_ok:
  assumes "shards_ok st (sr_gens st g)" "k < 256" "n \<le> sr_next st" "n \<le> g" "g < sr_next st"
  shows "shards_ok (clone_shard g k st) (sr_gens (clone_shard g k st) g)" "frozen n st (clone_shard g k st)"
    "sr_gens (clone_shard g k st) g = (sr_gens st g)[k := Some (sr_next st)]"
    "generation_view (clone_shard g k st) g = generation_view st g" "sr_next (clone_shard g k st) = sr_next st + 1"
proof -
  let ?m = "case sr_gens st g ! k of None \<Rightarrow> [] | Some a \<Rightarrow> sr_maps st a"
  obtain a st0 where nm: "new_map ?m st = (a, st0)" by fastforce
  have ok: "map_ok k ?m"
  proof (cases "sr_gens st g ! k")
    case (Some b)
    with shards_okD(2) [OF assms(1,2) Some] show ?thesis by simp
  qed (simp add: map_ok_def)
  note new = shards_new [OF assms(1,2) ok nm]
  have c: "clone_shard g k st = set_shard g k a st0" by (simp add: clone_shard_def nm)
  have len: "g < sr_next st" by (rule assms(5))
  show gens: "sr_gens (clone_shard g k st) g = (sr_gens st g)[k := Some (sr_next st)]"
    by (simp add: c set_shard_def new(4,5))
  show "shards_ok (clone_shard g k st) (sr_gens (clone_shard g k st) g)"
    unfolding gens using shards_ok_next [OF new(1), of "clone_shard g k st"] by (simp add: c set_shard_def new(4))
  show "sr_next (clone_shard g k st) = sr_next st + 1" using nm by (auto simp: c set_shard_def new_map_def)
  show "frozen n st (clone_shard g k st)"
    using new(3) [of n] assms(3,4) nm by (auto simp: c set_shard_def frozen_def new_map_def)
  have "shards_view st0 ((sr_gens st g)[k := Some a]) = shards_view st (sr_gens st g)"
    unfolding fun_eq_iff new(2) by (auto simp: shards_view_def split: option.split)
  then show "generation_view (clone_shard g k st) g = generation_view st g"
    unfolding generation_view_shards gens new(4) [symmetric]
    using shards_view_maps [of "clone_shard g k st" st0] by (simp add: c set_shard_def)
qed

lemma mutable_shard_writable:
  assumes "cow_inv n gs st" "mutable_movement_shard i (gs, st) = (a, gs', st')" "gs_records gs = Some g"
  shows "cow_inv n gs' st' \<and> frozen n st st' \<and> n \<le> a \<and> gs_records gs' = Some g \<and> sr_gens st' g ! movement_shard_index i = Some a \<and>
    generation_view st' g = generation_view st g \<and> gs_pending gs' = gs_pending gs \<and> gs_cow gs' \<and> \<not> gs_replace gs'"
proof -
  let ?k = "movement_shard_index i"
  from assms(1,3) have c: "gs_cow gs" "\<not> gs_replace gs" "length (gs_mutable gs) = 4" "n \<le> sr_next st" "n \<le> g"
    "g < sr_next st" "shards_ok st (sr_gens st g)"
    "\<And>k. k < 256 \<Longrightarrow> shard_is_mutable (gs_mutable gs) k \<Longrightarrow> \<exists>a. sr_gens st g ! k = Some a \<and> n \<le> a"
    by (auto elim!: cow_invE)
  show ?thesis
  proof (cases "shard_is_mutable (gs_mutable gs) ?k")
    case True
    then obtain b where b: "sr_gens st g ! ?k = Some b" "n \<le> b" using c(8) [OF movement_shard_index_less True] by auto
    with assms(2,3) c(1) True have "a = b" "gs' = gs" "st' = st" by (auto simp: mutable_movement_shard_def initialize_movements_def)
    with assms(1,3) b c show ?thesis by (simp add: frozen_refl)
  next
    case False
    let ?gs = "gs\<lparr>gs_mutable := (gs_mutable gs)[?k div 64 := gs_mutable gs ! (?k div 64) OR shard_bit ?k]\<rparr>"
    note cl = clone_shard_ok [OF c(7) movement_shard_index_less c(4,5,6), of i]
    have at_k: "sr_gens (clone_shard g ?k st) g ! ?k = Some (sr_next st)"
      using c(7) by (simp add: cl(3) shards_ok_def)
    with assms(2,3) c(1) False have r: "a = sr_next st" "gs' = ?gs" "st' = clone_shard g ?k st"
      by (auto simp: mutable_movement_shard_def initialize_movements_def Let_def)
    have m: "\<exists>a. sr_gens (clone_shard g ?k st) g ! k = Some a \<and> n \<le> a" if "k < 256" "shard_is_mutable (gs_mutable ?gs) k" for k
    proof (cases "k = ?k")
      case True
      with at_k c(4) show ?thesis by auto
    next
      case f: False
      then have "shard_is_mutable (gs_mutable gs) k"
        using that shard_set_mutable [OF c(3) movement_shard_index_less that(1)] by simp
      with c(8) that(1) f show ?thesis by (auto simp: cl(3))
    qed
    have "cow_inv n gs' st'"
      unfolding cow_inv_def using assms(3) c cl m by (simp add: r generation_ok_def)
    with assms(3) cl at_k c r show ?thesis by simp
  qed
qed

definition write_shard :: "nat \<Rightarrow> 'm movement_map \<Rightarrow> 'm store \<Rightarrow> 'm store" where
  "write_shard a m st = st\<lparr>sr_maps := (sr_maps st)(a := m)\<rparr>"

lemma write_mutable_shard:
  assumes "cow_inv n gs st" "mutable_movement_shard i (gs, st) = (a, gs1, st1)" "0 < i"
    "\<And>m. map_ok (movement_shard_index i) m \<Longrightarrow> map_ok (movement_shard_index i) (f m) \<and> (\<forall>j. j \<noteq> i \<longrightarrow> map_of (f m) j = map_of m j)"
    "\<And>m. map_of (f m) i = x"
    "gs' = mark_movement i gs1" "st' = write_shard a (f (sr_maps st1 a)) st1"
  shows "cow_inv n gs' st' \<and> frozen n st st' \<and> gs_records gs' = gs_records gs \<and>
    lookup_movement gs' st' = (lookup_movement gs st)(i := x) \<and> gs_pending gs' = List.insert i (gs_pending gs)"
proof -
  from assms(1) obtain g where g: "gs_records gs = Some g" by (auto elim: cow_invE)
  note w = mutable_shard_writable [OF assms(1,2) g]
  from w have c: "n \<le> sr_next st1" "n \<le> g" "g < sr_next st1" "shards_ok st1 (sr_gens st1 g)" "length (gs_mutable gs1) = 4"
    "\<And>k. k < 256 \<Longrightarrow> shard_is_mutable (gs_mutable gs1) k \<Longrightarrow> \<exists>a. sr_gens st1 g ! k = Some a \<and> n \<le> a"
    by (auto elim!: cow_invE)
  have a: "sr_gens st1 g ! movement_shard_index i = Some a" "n \<le> a" using w by auto
  have ok: "map_ok (movement_shard_index i) (sr_maps st1 a)" by (rule shards_okD(2) [OF c(4) movement_shard_index_less a(1)])
  note s = shards_write [OF c(4) a(1) assms(3) conjunct1 [OF assms(4) [OF ok]]]
  have s1: "shards_ok st' (sr_gens st1 g)" "shards_view st' (sr_gens st1 g) = (shards_view st1 (sr_gens st1 g))(i := x)"
    using s assms(4) [OF ok] by (simp_all add: assms(5,7) write_shard_def)
  have st': "sr_gens st' = sr_gens st1" "sr_next st' = sr_next st1" by (simp_all add: assms(7) write_shard_def)
  have gs': "gs_records gs' = Some g" "gs_cow gs'" "\<not> gs_replace gs'" "gs_mutable gs' = gs_mutable gs1" "gs_pending gs' = List.insert i (gs_pending gs)"
    using w assms(3) by (simp_all add: assms(6) mark_movement_def)
  have "cow_inv n gs' st'" unfolding cow_inv_def using c s1(1) by (simp add: gs' st' generation_ok_def)
  moreover have "frozen n st st'"
    using w frozen_write [OF a(2) c(1)] by (auto simp: assms(7) write_shard_def intro: frozen_trans)
  moreover have "lookup_movement gs' st' = (lookup_movement gs st)(i := x)"
    using s1(2) w by (simp add: lookup_view [OF gs'(1)] lookup_view [OF g] generation_view_shards st')
  ultimately show ?thesis using gs' g by simp
qed

lemma set_movement_cow:
  assumes "cow_inv n gs st" "set_movement i m (gs, st) = (gs', st')"
  shows "cow_inv n gs' st' \<and> frozen n st st' \<and>
    lookup_movement gs' st' = (if 0 < i then (lookup_movement gs st)(i \<mapsto> m) else lookup_movement gs st) \<and>
    gs_pending gs' = (if 0 < i then List.insert i (gs_pending gs) else gs_pending gs)"
proof (cases "0 < i")
  case True
  obtain a gs1 st1 where s: "mutable_movement_shard i (gs, st) = (a, gs1, st1)" by (metis prod_cases3)
  have "gs_cow gs" using assms(1) by (auto elim: cow_invE)
  with True assms(2) s have r: "gs' = mark_movement i gs1" "st' = write_shard a (AList.update i m (sr_maps st1 a)) st1"
    by (auto simp: set_movement_def write_shard_def)
  have "map_ok (movement_shard_index i) (AList.update i m x) \<and> (\<forall>j. j \<noteq> i \<longrightarrow> map_of (AList.update i m x) j = map_of x j)"
    if "map_ok (movement_shard_index i) x" for x
    using map_ok_update [OF that True refl] by (simp add: update_conv')
  from write_mutable_shard [where f = "AList.update i m", OF assms(1) s True this _ r, of "Some m"] True show ?thesis
    by (simp add: update_conv')
next
  case False
  with assms show ?thesis by (auto simp: set_movement_def intro: frozen_refl elim: cow_invE)
qed

lemma delete_movement_cow:
  assumes "cow_inv n gs st" "delete_movement i (gs, st) = (gs', st')"
  shows "cow_inv n gs' st' \<and> frozen n st st' \<and>
    lookup_movement gs' st' = (if 0 < i then (lookup_movement gs st)(i := None) else lookup_movement gs st) \<and>
    gs_pending gs' = (if 0 < i then List.insert i (gs_pending gs) else gs_pending gs)"
proof (cases "0 < i")
  case True
  obtain a gs1 st1 where s: "mutable_movement_shard i (gs, st) = (a, gs1, st1)" by (metis prod_cases3)
  have "gs_cow gs" using assms(1) by (auto elim: cow_invE)
  with True assms(2) s have r: "gs' = mark_movement i gs1" "st' = write_shard a (AList.delete i (sr_maps st1 a)) st1"
    by (auto simp: delete_movement_def write_shard_def)
  have "map_ok (movement_shard_index i) (AList.delete i x) \<and> (\<forall>j. j \<noteq> i \<longrightarrow> map_of (AList.delete i x) j = map_of x j)"
    if "map_ok (movement_shard_index i) x" for x
    using map_ok_delete [OF that] by simp
  from write_mutable_shard [where f = "AList.delete i", OF assms(1) s True this _ r, of None] True show ?thesis
    by (simp add: AList.delete_conv')
next
  case False
  with assms show ?thesis by (auto simp: delete_movement_def intro: frozen_refl elim: cow_invE)
qed

lemma prepare_mutation_cow:
  assumes "prepare_movement_mutation source (gs, st) = (gs', st')"
    "case gs_records source of Some g \<Rightarrow> generation_ok st g | None \<Rightarrow> (\<forall>m. gs_movements source = Some m \<longrightarrow> distinct (map fst m))"
  shows "cow_inv (sr_next st) gs' st' \<and> frozen (sr_next st) st st' \<and> lookup_movement gs' st' = lookup_movement source st \<and> gs_pending gs' = []"
proof -
  define p where "p = (case gs_records source of Some g \<Rightarrow> (g, st) | None \<Rightarrow> movement_generation_from_map (gs_movements source) st)"
  obtain base st1 where b: "p = (base, st1)" by fastforce
  have base: "generation_ok st1 base" "frozen (sr_next st) st st1" "generation_view st1 base = lookup_movement source st"
  proof (atomize (full), cases "gs_records source")
    case (Some g)
    with b assms(2) show "generation_ok st1 base \<and> frozen (sr_next st) st st1 \<and> generation_view st1 base = lookup_movement source st"
      by (simp add: p_def lookup_view frozen_refl)
  next
    case None
    then have m: "movement_generation_from_map (gs_movements source) st = (base, st1)" using b by (simp add: p_def)
    have d: "gs_movements source \<noteq> None \<longrightarrow> distinct (map fst (the (gs_movements source)))" using assms(2) None by auto
    note g = generation_from_map_ok [OF m d]
    have "positive_map (case gs_movements source of None \<Rightarrow> [] | Some m \<Rightarrow> m) = lookup_movement source st"
      using None by (auto simp: positive_map_def lookup_movement_def fun_eq_iff split: option.split)
    with g show "generation_ok st1 base \<and> frozen (sr_next st) st st1 \<and> generation_view st1 base = lookup_movement source st" by simp
  qed
  have r: "gs' = gs\<lparr>gs_records := Some (sr_next st1), gs_movements := None, gs_cow := True, gs_mutable := replicate 4 0, gs_pending := [],
      gs_replace := False\<rparr>" "st' = st1\<lparr>sr_next := sr_next st1 + 1, sr_gens := (sr_gens st1)(sr_next st1 := sr_gens st1 base)\<rparr>"
    using assms(1) b by (simp_all add: prepare_movement_mutation_def p_def [symmetric] new_generation_def)
  have "shards_ok st' (sr_gens st1 base)" using base(1) shards_ok_next [of st1 "sr_gens st1 base" st'] by (simp add: generation_ok_def r)
  moreover have "generation_view st' (sr_next st1) = generation_view st1 base"
    by (simp add: generation_view_shards r) (auto simp: shards_view_def fun_eq_iff split: option.split)
  moreover have "frozen (sr_next st) st st'" "sr_next st \<le> sr_next st1" using base(2) by (auto simp: frozen_def r)
  ultimately show ?thesis using base(3)
    by (auto simp: cow_inv_def r generation_ok_def lookup_view)
qed

section \<open>Sequences of writes\<close>

text \<open>What every write leaves behind: earlier memory, and a report of each difference.\<close>

definition mutated :: "nat \<Rightarrow> 'm game_movements \<times> 'm store \<Rightarrow> 'm game_movements \<times> 'm store \<Rightarrow> bool" where
  "mutated n w w' \<longleftrightarrow> cow_inv n (fst w') (snd w') \<and> frozen n (snd w) (snd w') \<and> set (gs_pending (fst w)) \<subseteq> set (gs_pending (fst w')) \<and>
     (\<forall>i. lookup_movement (fst w') (snd w') i \<noteq> lookup_movement (fst w) (snd w) i \<longrightarrow> i \<in> set (gs_pending (fst w')))"

lemma mutated_trans: "mutated n w w' \<Longrightarrow> mutated n w' w'' \<Longrightarrow> mutated n w w''"
proof -
  assume a: "mutated n w w'" "mutated n w' w''"
  then have "i \<in> set (gs_pending (fst w''))"
    if "lookup_movement (fst w'') (snd w'') i \<noteq> lookup_movement (fst w) (snd w) i" for i
    using that unfolding mutated_def by (metis subsetD)
  with a show ?thesis unfolding mutated_def by (auto intro: frozen_trans)
qed

lemma mutated_refl: "cow_inv n gs st \<Longrightarrow> mutated n (gs, st) (gs, st)"
  by (auto simp: mutated_def intro: frozen_refl elim: cow_invE)

lemma set_movement_mutated:
  assumes "cow_inv n gs st"
  shows "mutated n (gs, st) (set_movement i m (gs, st))"
    and "case_prod lookup_movement (set_movement i m (gs, st)) =
      (if 0 < i then (lookup_movement gs st)(i \<mapsto> m) else lookup_movement gs st)"
  using set_movement_cow [OF assms, of i m] by (cases "set_movement i m (gs, st)"; auto simp: mutated_def split: if_splits)+

lemma delete_movement_mutated:
  assumes "cow_inv n gs st"
  shows "mutated n (gs, st) (delete_movement i (gs, st))"
    and "case_prod lookup_movement (delete_movement i (gs, st)) =
      (if 0 < i then (lookup_movement gs st)(i := None) else lookup_movement gs st)"
  using delete_movement_cow [OF assms, of i] by (cases "delete_movement i (gs, st)"; auto simp: mutated_def split: if_splits)+

lemma range_movements_iff:
  assumes "cow_inv n gs st"
  shows "(i, m) \<in> set (range_movements gs st) \<longleftrightarrow> lookup_movement gs st i = Some m"
proof -
  from assms obtain g where g: "gs_records gs = Some g" "shards_ok st (sr_gens st g)" by (auto elim: cow_invE)
  have len: "length (sr_gens st g) = 256" using g(2) by (simp add: shards_ok_def)
  have ok: "map_ok k (sr_maps st a)" if "sr_gens st g ! k = Some a" "k < 256" for k a using g(2) that by (auto simp: shards_ok_def)
  have "(i, m) \<in> set (range_movements gs st) \<longleftrightarrow> (\<exists>k < 256. \<exists>a. sr_gens st g ! k = Some a \<and> (i, m) \<in> set (sr_maps st a))"
    by (force simp: range_movements_def g(1) in_set_conv_nth [of "_ :: nat option"] len split: option.splits)
  also have "\<dots> \<longleftrightarrow> lookup_movement gs st i = Some m"
  proof
    assume "\<exists>k < 256. \<exists>a. sr_gens st g ! k = Some a \<and> (i, m) \<in> set (sr_maps st a)"
    then obtain k a where k: "k < 256" "sr_gens st g ! k = Some a" "(i, m) \<in> set (sr_maps st a)" by blast
    with ok [OF k(2,1)] have "0 < i" "movement_shard_index i = k" "map_of (sr_maps st a) i = Some m" by (auto simp: map_ok_def)
    with k(2) show "lookup_movement gs st i = Some m" by (simp add: lookup_movement_def g(1))
  next
    assume l: "lookup_movement gs st i = Some m"
    then obtain a where a: "sr_gens st g ! movement_shard_index i = Some a" "map_of (sr_maps st a) i = Some m"
      by (auto simp: lookup_movement_def g(1) split: if_splits option.splits)
    then have "(i, m) \<in> set (sr_maps st a)" by (simp add: map_of_SomeD)
    with a(1) show "\<exists>k < 256. \<exists>a. sr_gens st g ! k = Some a \<and> (i, m) \<in> set (sr_maps st a)" using movement_shard_index_less by blast
  qed
  finally show ?thesis .
qed

lemma replace_entries:
  assumes "cow_inv n gs st" "distinct (map fst new)" "fold replace_entry new (changed, gs, st) = (changed', gs', st')"
  shows "mutated n (gs, st) (gs', st') \<and> lookup_movement gs' st' = lookup_movement gs st ++ positive_map new \<and>
    (\<not> changed' \<longrightarrow> \<not> changed \<and> lookup_movement gs' st' = lookup_movement gs st)"
  using assms
proof (induction new arbitrary: changed gs st)
  case Nil
  then show ?case by (auto simp: mutated_refl positive_map_def map_add_def fun_eq_iff)
next
  case (Cons e new)
  obtain i m where e: "e = (i, m)" by (cases e)
  obtain c1 gs1 st1 where s: "replace_entry e (changed, gs, st) = (c1, gs1, st1)" by (metis prod_cases3)
  have i: "positive_map new i = None" using Cons.prems(2) by (simp add: e positive_map_def map_of_eq_None_iff)
  have step: "mutated n (gs, st) (gs1, st1) \<and> lookup_movement gs1 st1 = (if 0 < i then (lookup_movement gs st)(i \<mapsto> m) else lookup_movement gs st) \<and>
      (\<not> c1 \<longrightarrow> \<not> changed \<and> lookup_movement gs1 st1 = lookup_movement gs st)"
  proof (cases "lookup_movement gs st i = Some m")
    case True
    with s have "c1 = changed" "gs1 = gs" "st1 = st" by (simp_all add: replace_entry_def e)
    with True Cons.prems(1) show ?thesis by (simp add: mutated_refl fun_upd_idem)
  next
    case False
    with s have "c1" "set_movement i m (gs, st) = (gs1, st1)" by (simp_all add: replace_entry_def e)
    with set_movement_mutated [OF Cons.prems(1), of i m] show ?thesis by simp
  qed
  have "lookup_movement gs1 st1 ++ positive_map new = lookup_movement gs st ++ positive_map (e # new)"
    using step i by (auto simp: e fun_eq_iff map_add_def positive_map_def split: option.split)
  moreover have "cow_inv n gs1 st1" using step by (simp add: mutated_def)
  ultimately show ?case using Cons.IH [of gs1 st1 c1] Cons.prems(2,3) s step by (auto intro: mutated_trans)
qed

lemma remove_entries:
  assumes "cow_inv n gs st" "fold remove_entry rs (changed, gs, st) = (changed', gs', st')"
  shows "mutated n (gs, st) (gs', st') \<and>
    lookup_movement gs' st' = (\<lambda>i. if i \<in> set rs then None else lookup_movement gs st i) \<and> changed' = (changed \<or> rs \<noteq> [])"
  using assms
proof (induction rs arbitrary: changed gs st)
  case Nil
  then show ?case by (simp add: mutated_refl)
next
  case (Cons r rs)
  obtain gs1 st1 where s: "delete_movement r (gs, st) = (gs1, st1)" by fastforce
  with delete_movement_mutated [OF Cons.prems(1), of r]
  have d: "mutated n (gs, st) (gs1, st1)" "lookup_movement gs1 st1 = (if 0 < r then (lookup_movement gs st)(r := None) else lookup_movement gs st)"
    by simp_all
  have "\<not> 0 < r \<Longrightarrow> lookup_movement gs st r = None" by (simp add: lookup_movement_def)
  then have "lookup_movement gs1 st1 = (lookup_movement gs st)(r := None)" using d(2) by (auto simp: fun_eq_iff)
  moreover have "cow_inv n gs1 st1" using d(1) by (simp add: mutated_def)
  ultimately show ?case using Cons.IH [of gs1 st1 True] Cons.prems(2) s d(1)
    by (auto simp: remove_entry_def fun_eq_iff intro: mutated_trans)
qed

lemma replace_movements_cow:
  assumes "cow_inv n gs st" "distinct (map fst new)" "replace_movements new (gs, st) = (changed, gs', st')"
  shows "mutated n (gs, st) (gs', st') \<and> lookup_movement gs' st' = positive_map new \<and>
    (\<not> changed \<longrightarrow> lookup_movement gs' st' = lookup_movement gs st)"
proof -
  obtain c1 gs1 st1 where f1: "fold replace_entry new (False, gs, st) = (c1, gs1, st1)" by (metis prod_cases3)
  let ?rs = "filter (\<lambda>i. i \<notin> fst ` set new) (map fst (range_movements gs1 st1))"
  obtain c2 gs2 st2 where f2: "fold remove_entry ?rs (c1, gs1, st1) = (c2, gs2, st2)" by (metis prod_cases3)
  note r1 = replace_entries [OF assms(1,2) f1]
  then have c1: "cow_inv n gs1 st1" by (simp add: mutated_def)
  note r2 = remove_entries [OF c1 f2]
  have "gs_cow gs" using assms(1) by (auto elim: cow_invE)
  with assms(3) f1 f2 have r: "changed = c2" "gs' = gs2\<lparr>gs_movements := None\<rparr>" "st' = st2"
    by (simp_all add: replace_movements_def)
  have c2: "cow_inv n gs2 st2" using r2 by (simp add: mutated_def)
  then obtain g where "gs_records gs2 = Some g" by (auto elim: cow_invE)
  then have same: "lookup_movement gs' st' = lookup_movement gs2 st2" by (simp add: r lookup_movement_def fun_eq_iff)
  have "cow_inv n gs' st'" using c2 by (auto simp: r cow_inv_def split: option.splits)
  moreover have "mutated n (gs1, st1) (gs2, st2)" using r2 by blast
  ultimately have "mutated n (gs1, st1) (gs', st')" using same r by (auto simp: mutated_def)
  then have "mutated n (gs, st) (gs', st')" using r1 by (auto intro: mutated_trans)
  moreover have "lookup_movement gs' st' = positive_map new"
  proof
    fix i
    have mem: "i \<in> set ?rs \<longleftrightarrow> i \<notin> fst ` set new \<and> lookup_movement gs1 st1 i \<noteq> None"
      using range_movements_iff [OF c1, of i] by (force simp: image_iff)
    show "lookup_movement gs' st' i = positive_map new i"
    proof (cases "positive_map new i")
      case None
      have "0 < i \<Longrightarrow> i \<notin> fst ` set new" using None by (simp add: positive_map_def map_of_eq_None_iff)
      then have "lookup_movement gs1 st1 i = None \<or> i \<in> set ?rs" unfolding mem by (auto simp: lookup_movement_def)
      with r2 same None show ?thesis by auto
    next
      case (Some m)
      then have "i \<in> fst ` set new" by (auto simp: positive_map_def map_of_SomeD image_iff split: if_splits dest!: map_of_SomeD intro!: bexI)
      with mem r1 r2 same Some show ?thesis by (auto simp: map_add_def)
    qed
  qed
  moreover have "lookup_movement gs' st' = lookup_movement gs st" if "\<not> changed"
  proof -
    have "c2 = (c1 \<or> ?rs \<noteq> [])" using r2 by blast
    then have e: "?rs = []" "\<not> c1" using that by (simp_all only: r(1)) simp_all
    have "lookup_movement gs2 st2 = (\<lambda>i. if i \<in> set ?rs then None else lookup_movement gs1 st1 i)" using r2 by blast
    then have "lookup_movement gs2 st2 = lookup_movement gs1 st1" by (simp only: e(1) list.set empty_iff if_False)
    moreover have "lookup_movement gs1 st1 = lookup_movement gs st" using r1 e(2) by blast
    ultimately show ?thesis using same by (simp only:)
  qed
  ultimately show ?thesis by blast
qed

datatype 'm movement_op = Set_movement int 'm | Delete_movement int | Replace_movements "'m movement_map"

fun run_op :: "'m movement_op \<Rightarrow> 'm game_movements \<times> 'm store \<Rightarrow> 'm game_movements \<times> 'm store" where
  "run_op (Set_movement i m) w = set_movement i m w"
| "run_op (Delete_movement i) w = delete_movement i w"
| "run_op (Replace_movements new) w = snd (replace_movements new w)"

text \<open>The same on a map, whose identifiers are positive.\<close>

fun map_op :: "'m movement_op \<Rightarrow> (int \<Rightarrow> 'm option) \<Rightarrow> int \<Rightarrow> 'm option" where
  "map_op (Set_movement i m) f = (if 0 < i then f(i \<mapsto> m) else f)"
| "map_op (Delete_movement i) f = f(i := None)"
| "map_op (Replace_movements new) f = positive_map new"

definition op_ok :: "'m movement_op \<Rightarrow> bool" where
  "op_ok c \<longleftrightarrow> (case c of Replace_movements new \<Rightarrow> distinct (map fst new) | _ \<Rightarrow> True)"

lemma run_op_mutated:
  assumes "cow_inv n gs st" "op_ok c" "run_op c (gs, st) = (gs', st')"
  shows "mutated n (gs, st) (gs', st') \<and> lookup_movement gs' st' = map_op c (lookup_movement gs st)"
proof (cases c)
  case (Set_movement i m)
  with assms set_movement_mutated [OF assms(1), of i m] show ?thesis by simp
next
  case (Delete_movement i)
  have "\<not> 0 < i \<Longrightarrow> lookup_movement gs st i = None" by (simp add: lookup_movement_def)
  with Delete_movement assms delete_movement_mutated [OF assms(1), of i] show ?thesis by (auto simp: fun_eq_iff)
next
  case (Replace_movements new)
  obtain changed gs1 st1 where "replace_movements new (gs, st) = (changed, gs1, st1)" by (metis prod_cases3)
  with Replace_movements assms replace_movements_cow [OF assms(1), of new changed gs1 st1] show ?thesis by (simp add: op_ok_def)
qed

lemma run_ops_mutated:
  assumes "cow_inv n gs st" "list_all op_ok cs" "fold run_op cs (gs, st) = (gs', st')"
  shows "mutated n (gs, st) (gs', st') \<and> lookup_movement gs' st' = fold map_op cs (lookup_movement gs st)"
  using assms
proof (induction cs arbitrary: gs st)
  case (Cons c cs)
  obtain gs1 st1 where s: "run_op c (gs, st) = (gs1, st1)" by fastforce
  with Cons.prems run_op_mutated [OF Cons.prems(1) _ s] have c: "mutated n (gs, st) (gs1, st1)" "cow_inv n gs1 st1"
    "lookup_movement gs1 st1 = map_op c (lookup_movement gs st)"
    by (auto simp: mutated_def)
  with Cons.IH [of gs1 st1] Cons.prems s show ?case by (auto intro: mutated_trans)
qed (simp add: mutated_refl)

section \<open>A mutation and the states before it\<close>

text \<open>A state whose movements can be read.\<close>

definition movements_ok :: "'m game_movements \<Rightarrow> 'm store \<Rightarrow> bool" where
  "movements_ok gs st \<longleftrightarrow> (case gs_records gs of
     Some g \<Rightarrow> generation_ok st g | None \<Rightarrow> (\<forall>m. gs_movements gs = Some m \<longrightarrow> distinct (map fst m)))"

definition mutate_movements :: "'m game_movements \<Rightarrow> 'm movement_op list \<Rightarrow> 'm game_movements \<times> 'm store \<Rightarrow> 'm game_movements \<times> 'm store" where
  "mutate_movements source cs w = fold run_op cs (prepare_movement_mutation source w)"

lemma mutate_movements_run:
  assumes "movements_ok source st" "list_all op_ok cs" "mutate_movements source cs (gs, st) = (gs', st')"
  shows "frozen (sr_next st) st st' \<and> cow_inv (sr_next st) gs' st' \<and> lookup_movement gs' st' = fold map_op cs (lookup_movement source st) \<and>
    (\<forall>i. lookup_movement gs' st' i \<noteq> lookup_movement source st i \<longrightarrow> i \<in> set (gs_pending gs'))"
proof -
  obtain gs1 st1 where p: "prepare_movement_mutation source (gs, st) = (gs1, st1)" by fastforce
  note c = prepare_mutation_cow [OF p assms(1) [unfolded movements_ok_def]]
  have "fold run_op cs (gs1, st1) = (gs', st')" using assms(3) p by (simp add: mutate_movements_def)
  from run_ops_mutated [OF conjunct1 [OF c] assms(2) this] c show ?thesis
    by (auto simp: mutated_def intro: frozen_trans)
qed

text \<open>C18. A mutation reads like the map it was prepared from with its writes applied, in order.\<close>

theorem mutation_applies:
  assumes "movements_ok source st" "list_all op_ok cs" "mutate_movements source cs (gs, st) = (gs', st')"
  shows "lookup_movement gs' st' = fold map_op cs (lookup_movement source st)"
  using mutate_movements_run [OF assms] by blast

text \<open>C17. No state that could be read before a mutation reads differently after it, although they share memory.\<close>

theorem mutation_is_isolated:
  assumes "movements_ok source st" "list_all op_ok cs" "mutate_movements source cs (gs, st) = (gs', st')"
    and "movements_ok published st"
  shows "lookup_movement published st' = lookup_movement published st"
proof (cases "gs_records published")
  case (Some g)
  then have g: "generation_ok st g" using assms(4) by (simp add: movements_ok_def)
  have "frozen (sr_next st) st st'" using mutate_movements_run [OF assms(1-3)] by blast
  with generation_view_frozen(1) [OF g] Some show ?thesis by (simp add: lookup_view fun_eq_iff)
qed (simp add: lookup_movement_def fun_eq_iff)

text \<open>C19. The identifiers a mutation reports cover every movement it has added, changed or removed.\<close>

theorem mutation_reports_changes:
  assumes "movements_ok source st" "list_all op_ok cs" "mutate_movements source cs (gs, st) = (gs', st')"
    and "lookup_movement gs' st' i \<noteq> lookup_movement source st i"
  shows "i \<in> set (movement_change_ids gs')"
  using mutate_movements_run [OF assms(1-3)] assms(4) by (simp add: movement_change_ids_def)

section \<open>Three movements\<close>

definition empty_store :: "nat store" where
  "empty_store = \<lparr>sr_next = 0, sr_maps = (\<lambda>_. []), sr_gens = (\<lambda>_. [])\<rparr>"

definition plain_state :: "(int \<times> nat) list \<Rightarrow> nat game_movements" where
  "plain_state m = \<lparr>gs_movements = Some m, gs_records = None, gs_cow = False, gs_mutable = [], gs_pending = [], gs_replace = False\<rparr>"

definition demo_published :: "nat game_movements \<times> nat store" where
  "demo_published = initialize_movements (plain_state [(1, 10), (2, 20), (3, 30)], empty_store)"

definition demo_writes :: "nat movement_op list" where
  "demo_writes = [Set_movement 2 21, Delete_movement 1, Set_movement 4 40]"

lemma published_ok:
  assumes "distinct (map fst m)" "initialize_movements (plain_state m, empty_store) = (gs, st)"
  shows "movements_ok gs st \<and> lookup_movement gs st = positive_map m"
proof -
  obtain g st1 where f: "movement_generation_from_map (Some m) empty_store = (g, st1)" by fastforce
  with assms(2) have r: "gs_records gs = Some g" "st = st1" by (auto simp: initialize_movements_def plain_state_def)
  have "generation_ok st1 g" "generation_view st1 g = positive_map m" using generation_from_map_ok(1,5) [OF f] assms(1) by simp_all
  with r show ?thesis by (simp add: movements_ok_def lookup_view)
qed

lemma demo_published_ok: "movements_ok (fst demo_published) (snd demo_published)"
  "lookup_movement (fst demo_published) (snd demo_published) = positive_map [(1, 10), (2, 20), (3, 30)]"
  using published_ok [of "[(1, 10), (2, 20), (3, 30)]" "fst demo_published" "snd demo_published"] by (simp_all add: demo_published_def)

lemma demo_writes_ok: "list_all op_ok demo_writes"
  by (simp add: demo_writes_def op_ok_def)

definition demo_mutated :: "nat game_movements \<times> nat store" where
  "demo_mutated = mutate_movements (fst demo_published) demo_writes demo_published"

lemma demo_mutated_eq: "mutate_movements (fst demo_published) demo_writes (fst demo_published, snd demo_published) = (fst demo_mutated, snd demo_mutated)"
  by (simp add: demo_mutated_def)

theorem mutation_applies_witness:
  "map (lookup_movement (fst demo_mutated) (snd demo_mutated)) [1, 2, 3, 4] = [None, Some 21, Some 30, Some 40]"
  using mutation_applies [OF demo_published_ok(1) demo_writes_ok demo_mutated_eq]
  by (simp add: demo_writes_def demo_published_ok(2) positive_map_def)

theorem mutation_is_isolated_witness:
  "map (lookup_movement (fst demo_published) (snd demo_mutated)) [1, 2, 3, 4] = [Some 10, Some 20, Some 30, None]"
  using mutation_is_isolated [OF demo_published_ok(1) demo_writes_ok demo_mutated_eq demo_published_ok(1)]
  by (simp add: demo_published_ok(2) positive_map_def)

theorem mutation_reports_changes_witness: "1 \<in> set (movement_change_ids (fst demo_mutated))"
proof (rule mutation_reports_changes [OF demo_published_ok(1) demo_writes_ok demo_mutated_eq])
  have "lookup_movement (fst demo_mutated) (snd demo_mutated) 1 = None"
    using conjunct1 [OF conjunct2 [OF conjunct2 [OF mutate_movements_run [OF demo_published_ok(1) demo_writes_ok demo_mutated_eq]]]]
    by (simp add: demo_writes_def demo_published_ok(2) positive_map_def)
  then show "lookup_movement (fst demo_mutated) (snd demo_mutated) 1 \<noteq> lookup_movement (fst demo_published) (snd demo_published) 1"
    by (simp add: demo_published_ok(2) positive_map_def)
qed

text \<open>A write to a copy that was not prepared reaches the generation it shares with the state it was copied from.\<close>

lemma unprepared_write_is_shared:
  "lookup_movement (fst demo_published) (snd (set_movement 2 21 demo_published)) 2 \<noteq> lookup_movement (fst demo_published) (snd demo_published) 2"
  by code_simp

end
