(* ===== verification/EventActivity.thy ===== *)
theory EventActivity
  imports Prelude
begin

text \<open>
  What the game state keeps of an event (\<^verbatim>\<open>Server/State/EventScores.go\<close>, \<^verbatim>\<open>EventScoreMutation.go\<close>,
  \<^verbatim>\<open>KhanRage.go\<close>): the score last reported, the activity counted for one occurrence of it, and the cursor that
  keeps the Khan from being taunted twice for one fill of the rage bar.

  Scores and activities are maps from event identifiers; how their shards are shared between states is as for
  movements (\<^verbatim>\<open>MovementStore.thy\<close>) and is left out here.
\<close>

section \<open>Durations of wire values\<close>

text \<open>Arithmetic of \<open>int64\<close>, and \<open>time.Duration(n) * time.Second\<close>, which wraps around.\<close>

definition int64 :: "int \<Rightarrow> int" where
  "int64 n = (n + 2 ^ 63) mod 2 ^ 64 - 2 ^ 63"

definition seconds :: "int \<Rightarrow> duration" where
  "seconds n = int64 (n * second)"

lemma int64_id: "- (2 ^ 63) \<le> n \<Longrightarrow> n < 2 ^ 63 \<Longrightarrow> int64 n = n"
  by (simp add: int64_def)

lemma int64_mod: "int64 a mod 2 ^ 64 = a mod 2 ^ 64"
  using mod_diff_left_eq [of "a + 2 ^ 63" "2 ^ 64" "2 ^ 63"] by (simp add: int64_def)

lemma int64_cong: "a mod 2 ^ 64 = b mod 2 ^ 64 \<Longrightarrow> int64 a = int64 b"
  using mod_add_cong [of a "2 ^ 64" b "2 ^ 63" "2 ^ 63"] by (simp add: int64_def)

lemma int64_int64_add: "int64 (int64 a + int64 b) = int64 (a + b)"
  by (rule int64_cong) (rule mod_add_cong; rule int64_mod)

lemma int64_idem [simp]: "int64 (int64 a) = int64 a"
  by (rule int64_cong) (rule int64_mod)

lemma seconds_small: "0 \<le> n \<Longrightarrow> n < 2 ^ 33 \<Longrightarrow> seconds n = n * second"
  by (simp add: seconds_def int64_id)

section \<open>Occurrences\<close>

definition same_event_occurrence :: "gotime \<Rightarrow> gotime \<Rightarrow> bool" where
  "same_event_occurrence left right \<longleftrightarrow>
     (if time_is_zero left \<or> time_is_zero right then time_is_zero left \<and> time_is_zero right
      else (let delta = time_sub left right in -10 * minute \<le> delta \<and> delta \<le> 10 * minute))"

record event_score =
  es_player_score :: int
  es_remaining_sec :: int
  es_observed_at :: gotime

definition scalable_event_ends_at :: "event_score \<Rightarrow> gotime" where
  "scalable_event_ends_at s =
     (if time_is_zero (es_observed_at s) \<or> es_remaining_sec s \<le> 0 then time_zero
      else es_observed_at s + seconds (es_remaining_sec s))"

record combat_totals =
  ct_launches :: int
  ct_battles :: int
  ct_victories :: int
  ct_defeats :: int
  ct_troop_losses :: int
  ct_tools_used :: int
  ct_loot :: int

definition no_totals :: combat_totals where
  "no_totals = \<lparr>ct_launches = 0, ct_battles = 0, ct_victories = 0, ct_defeats = 0, ct_troop_losses = 0, ct_tools_used = 0,
     ct_loot = 0\<rparr>"

datatype activity_kind = Kind_invasion | Kind_camp | Kind_advisor | Kind_khan | Kind_khan_defense | Kind_other string

record attack_record =
  ar_movement :: int
  ar_kind :: activity_kind
  ar_kingdom :: int
  ar_target_type :: int
  ar_target_x :: int
  ar_target_y :: int
  ar_launched_at :: gotime
  ar_arrives_at :: gotime

record event_activity =
  ea_event :: int
  ea_ends_at :: gotime
  ea_observed_from :: gotime
  ea_invasion :: combat_totals
  ea_camp :: combat_totals
  ea_advisor :: combat_totals
  ea_khan :: combat_totals
  ea_khan_defense :: combat_totals
  ea_advisor_observed_at :: gotime
  ea_launch_ids :: "int list"
  ea_pending :: "attack_record list"
  ea_processed_reports :: "int list"

record event_scores =
  ev_active :: int
  ev_scores :: "int \<rightharpoonup> event_score"
  ev_activities :: "int \<rightharpoonup> event_activity"

definition lookup_score :: "event_scores \<Rightarrow> int \<Rightarrow> event_score option" where
  "lookup_score e i = (if i \<le> 0 then None else ev_scores e i)"

definition lookup_activity :: "event_scores \<Rightarrow> int \<Rightarrow> event_activity option" where
  "lookup_activity e i = (if i \<le> 0 then None else ev_activities e i)"

definition set_activity :: "int \<Rightarrow> event_activity \<Rightarrow> event_scores \<Rightarrow> event_scores" where
  "set_activity i a e = (if i \<le> 0 then e else e\<lparr>ev_activities := (ev_activities e)(i \<mapsto> a)\<rparr>)"

definition active_score :: "event_scores \<Rightarrow> event_score option" where
  "active_score e = (if ev_active e \<le> 0 then None else lookup_score e (ev_active e))"

definition score_reached :: "event_scores \<Rightarrow> int \<Rightarrow> int \<Rightarrow> bool" where
  "score_reached e i threshold \<longleftrightarrow>
     0 < threshold \<and> (case lookup_score e i of None \<Rightarrow> False | Some s \<Rightarrow> threshold \<le> es_player_score s)"

definition active_score_reached :: "event_scores \<Rightarrow> int \<Rightarrow> bool" where
  "active_score_reached e threshold \<longleftrightarrow>
     0 < threshold \<and> (case active_score e of None \<Rightarrow> False | Some s \<Rightarrow> threshold \<le> es_player_score s)"

text \<open>An occurrence is when it ends and from when it has been observed.\<close>

type_synonym occurrence = "gotime \<times> gotime"

definition lookup_occurrence :: "event_scores \<Rightarrow> int \<Rightarrow> occurrence option" where
  "lookup_occurrence e i =
     (let ends = (case lookup_score e i of None \<Rightarrow> time_zero | Some s \<Rightarrow> scalable_event_ends_at s);
          ends = (case lookup_activity e i of
              None \<Rightarrow> ends
            | Some a \<Rightarrow>
                if \<not> time_is_zero (ea_ends_at a) \<and> (time_is_zero ends \<or> same_event_occurrence (ea_ends_at a) ends)
                then ea_ends_at a else ends)
      in if time_is_zero ends then None
         else Some (ends, case lookup_activity e i of
             None \<Rightarrow> time_zero
           | Some a \<Rightarrow> if same_event_occurrence (ea_ends_at a) ends then ea_observed_from a else time_zero))"

section \<open>Activities\<close>

definition new_activity :: "int \<Rightarrow> gotime \<Rightarrow> gotime \<Rightarrow> event_activity" where
  "new_activity i ends observed =
     \<lparr>ea_event = i, ea_ends_at = ends, ea_observed_from = observed, ea_invasion = no_totals, ea_camp = no_totals,
      ea_advisor = no_totals, ea_khan = no_totals, ea_khan_defense = no_totals, ea_advisor_observed_at = time_zero,
      ea_launch_ids = [], ea_pending = [], ea_processed_reports = []\<rparr>"

definition ensure_activity :: "int \<Rightarrow> gotime \<Rightarrow> event_scores \<Rightarrow> event_activity option \<times> event_scores" where
  "ensure_activity i observed e =
     (case lookup_score e i of
        None \<Rightarrow> (None, e)
      | Some s \<Rightarrow>
          let ends = scalable_event_ends_at s;
              fresh = new_activity i ends (if time_is_zero observed then es_observed_at s else observed)
          in case lookup_activity e i of
               None \<Rightarrow> (Some fresh, set_activity i fresh e)
             | Some a \<Rightarrow> if same_event_occurrence (ea_ends_at a) ends then (Some a, e) else (Some fresh, set_activity i fresh e))"

fun totals_for :: "activity_kind \<Rightarrow> event_activity \<Rightarrow> combat_totals option" where
  "totals_for Kind_invasion a = Some (ea_invasion a)"
| "totals_for Kind_camp a = Some (ea_camp a)"
| "totals_for Kind_advisor a = Some (ea_advisor a)"
| "totals_for Kind_khan a = Some (ea_khan a)"
| "totals_for Kind_khan_defense a = Some (ea_khan_defense a)"
| "totals_for (Kind_other _) a = None"

text \<open>\<open>EventCombatTotalsFor\<close> returns a pointer; this writes through it.\<close>

fun set_totals_for :: "activity_kind \<Rightarrow> combat_totals \<Rightarrow> event_activity \<Rightarrow> event_activity" where
  "set_totals_for Kind_invasion t a = a\<lparr>ea_invasion := t\<rparr>"
| "set_totals_for Kind_camp t a = a\<lparr>ea_camp := t\<rparr>"
| "set_totals_for Kind_advisor t a = a\<lparr>ea_advisor := t\<rparr>"
| "set_totals_for Kind_khan t a = a\<lparr>ea_khan := t\<rparr>"
| "set_totals_for Kind_khan_defense t a = a\<lparr>ea_khan_defense := t\<rparr>"
| "set_totals_for (Kind_other _) t a = a"

text \<open>The last entries of a list that is appended to and trimmed.\<close>

definition keep_last :: "nat \<Rightarrow> 'a list \<Rightarrow> 'a list" where
  "keep_last n xs = (if n < length xs then drop (length xs - n) xs else xs)"

abbreviation (input) launch_id_limit :: nat where "launch_id_limit \<equiv> 12000"
abbreviation (input) pending_attack_limit :: nat where "pending_attack_limit \<equiv> 512"

definition record_launch :: "int \<Rightarrow> event_activity \<Rightarrow> attack_record \<Rightarrow> event_scores \<Rightarrow> bool \<times> event_scores" where
  "record_launch i a r e =
     (if ar_movement r \<in> set (ea_launch_ids a) then (False, e)
      else
        let a = a\<lparr>ea_launch_ids := keep_last launch_id_limit (ea_launch_ids a @ [ar_movement r]),
                  ea_pending := keep_last pending_attack_limit (ea_pending a @ [r])\<rparr>
        in case totals_for (ar_kind r) a of
             None \<Rightarrow> (False, e)
           | Some t \<Rightarrow> (True, set_activity i (set_totals_for (ar_kind r) (t\<lparr>ct_launches := ct_launches t + 1\<rparr>) a) e))"

definition record_event_attack_launch :: "int \<Rightarrow> attack_record \<Rightarrow> event_scores \<Rightarrow> bool \<times> event_scores" where
  "record_event_attack_launch i r e =
     (case ensure_activity i (ar_launched_at r) e of
        (None, e) \<Rightarrow> (False, e)
      | (Some a, e) \<Rightarrow> if ar_movement r \<le> 0 then (False, e) else record_launch i a r e)"

definition record_launch_for_occurrence :: "int \<Rightarrow> gotime \<Rightarrow> attack_record \<Rightarrow> event_scores \<Rightarrow> bool \<times> event_scores" where
  "record_launch_for_occurrence i ends r e =
     (if i \<le> 0 \<or> time_is_zero ends \<or> ar_movement r \<le> 0 then (False, e)
      else if (case lookup_occurrence e i of None \<Rightarrow> False | Some (current, _) \<Rightarrow> \<not> same_event_occurrence current ends)
      then (False, e)
      else case lookup_activity e i of
        None \<Rightarrow> record_launch i (new_activity i ends (ar_launched_at r)) r e
      | Some a \<Rightarrow> if same_event_occurrence (ea_ends_at a) ends then record_launch i a r e else (False, e))"

definition update_advisor ::
  "int \<Rightarrow> gotime \<Rightarrow> int \<Rightarrow> int \<Rightarrow> int \<Rightarrow> int \<Rightarrow> int \<Rightarrow> event_scores \<Rightarrow> bool \<times> event_scores" where
  "update_advisor i observed current_attack wins defeats troop_losses tools_used e =
     (case ensure_activity i observed e of
        (None, e) \<Rightarrow> (False, e)
      | (Some a, e) \<Rightarrow>
          if \<not> time_is_zero (ea_advisor_observed_at a) \<and> observed < ea_advisor_observed_at a then (False, e)
          else
            let completed = int64 (max 0 wins + max 0 defeats);
                t = (ea_advisor a)\<lparr>ct_launches := max (max (ct_launches (ea_advisor a)) current_attack) completed,
                    ct_battles := completed, ct_victories := max 0 wins, ct_defeats := max 0 defeats,
                    ct_troop_losses := max 0 troop_losses, ct_tools_used := max 0 tools_used\<rparr>;
                b = a\<lparr>ea_advisor := t, ea_advisor_observed_at := observed\<rparr>
            in (ea_advisor a \<noteq> t \<or> ea_advisor_observed_at a \<noteq> observed, set_activity i b e))"

definition khan_defense_launches :: "event_scores \<Rightarrow> int \<Rightarrow> occurrence \<Rightarrow> int" where
  "khan_defense_launches e i oc =
     (case lookup_activity e i of
        None \<Rightarrow> 0
      | Some a \<Rightarrow> if time_is_zero (fst oc) \<or> \<not> same_event_occurrence (ea_ends_at a) (fst oc) then 0
                  else max 0 (ct_launches (ea_khan_defense a)))"

section \<open>The cursor of the taunts\<close>

record khan_rage =
  kr_camp :: int
  kr_camp_revision :: int
  kr_balance_revision :: int
  kr_rage :: int
  kr_rage_cap :: int
  kr_total_rage :: int
  kr_observed_at :: gotime
  kr_triggered_at :: gotime
  kr_triggered_rage :: int
  kr_triggered_ends_at :: gotime

definition taunt_cursor_includes :: "khan_rage \<Rightarrow> int \<Rightarrow> occurrence \<Rightarrow> bool" where
  "taunt_cursor_includes k rage oc =
     (let (ends, from) = oc in
      if time_is_zero (kr_triggered_at k) then False
      else if \<not> time_is_zero (kr_triggered_ends_at k) \<and> \<not> time_is_zero ends
      then same_event_occurrence (kr_triggered_ends_at k) ends \<and> rage \<le> kr_triggered_rage k
      else if time_is_zero (kr_triggered_ends_at k) \<and> \<not> time_is_zero from \<and> kr_triggered_at k < from then False
      else rage \<le> kr_triggered_rage k)"

definition full_rage_taunt_due :: "khan_rage \<Rightarrow> occurrence \<Rightarrow> bool" where
  "full_rage_taunt_due k oc \<longleftrightarrow>
     \<not> (kr_camp k \<le> 0 \<or> kr_camp_revision k = 0 \<or> kr_balance_revision k \<noteq> kr_camp_revision k \<or>
        kr_rage_cap k \<le> 0 \<or> kr_rage k < kr_rage_cap k \<or> time_is_zero (kr_observed_at k)) \<and>
     \<not> taunt_cursor_includes k (kr_total_rage k) oc"

section \<open>Every launch is counted once\<close>

definition record_launches :: "int \<Rightarrow> attack_record list \<Rightarrow> event_scores \<Rightarrow> event_scores" where
  "record_launches i rs e = fold (\<lambda>r e. snd (record_event_attack_launch i r e)) rs e"

definition launches_of :: "activity_kind \<Rightarrow> event_activity \<Rightarrow> int" where
  "launches_of k a = (case totals_for k a of None \<Rightarrow> 0 | Some t \<Rightarrow> ct_launches t)"

text \<open>The activity \<open>EnsureEventActivity\<close> works with.\<close>

definition current_activity :: "int \<Rightarrow> event_scores \<Rightarrow> event_activity \<Rightarrow> bool" where
  "current_activity i e a \<longleftrightarrow>
     lookup_activity e i = Some a \<and>
     (\<exists>s. lookup_score e i = Some s \<and> same_event_occurrence (ea_ends_at a) (scalable_event_ends_at s))"

lemma ensure_activity_current: "current_activity i e a \<Longrightarrow> ensure_activity i t e = (Some a, e)"
  by (auto simp: current_activity_def ensure_activity_def)

lemma keep_last_short: "length xs \<le> n \<Longrightarrow> keep_last n xs = xs"
  by (simp add: keep_last_def)

lemma length_keep_last: "length (keep_last n xs) \<le> n"
  by (simp add: keep_last_def)

lemma set_keep_last: "set (keep_last n xs) \<subseteq> set xs"
  by (auto simp: keep_last_def dest: in_set_dropD)

lemma set_totals_for_simps [simp]:
  "ea_launch_ids (set_totals_for k t a) = ea_launch_ids a" "ea_pending (set_totals_for k t a) = ea_pending a"
  "ea_ends_at (set_totals_for k t a) = ea_ends_at a"
  by (cases k; simp)+

lemma totals_for_update [simp]:
  "totals_for k (a\<lparr>ea_launch_ids := l, ea_pending := p\<rparr>) = totals_for k a"
  by (cases k) simp_all

lemma totals_set: "totals_for k a \<noteq> None \<Longrightarrow> totals_for k (set_totals_for k t a) = Some t"
  by (cases k) simp_all

lemma lookup_set_activity:
  "0 < i \<Longrightarrow> lookup_activity (set_activity i a e) i = Some a" "lookup_score (set_activity i a e) j = lookup_score e j"
  by (simp_all add: lookup_activity_def set_activity_def lookup_score_def)

lemma record_launch_new:
  assumes cur: "current_activity i e a" and r: "0 < ar_movement r" "ar_movement r \<notin> set (ea_launch_ids a)" "totals_for (ar_kind r) a \<noteq> None"
    and room: "length (ea_launch_ids a) < launch_id_limit"
  obtains b where "record_event_attack_launch i r e = (True, set_activity i b e)" "current_activity i (set_activity i b e) b"
    "ea_launch_ids b = ea_launch_ids a @ [ar_movement r]" "launches_of (ar_kind r) b = launches_of (ar_kind r) a + 1"
    "totals_for (ar_kind r) b \<noteq> None" "length (ea_pending b) \<le> pending_attack_limit"
proof -
  obtain t where t: "totals_for (ar_kind r) a = Some t" using r(3) by auto
  let ?a = "a\<lparr>ea_launch_ids := keep_last launch_id_limit (ea_launch_ids a @ [ar_movement r]),
    ea_pending := keep_last pending_attack_limit (ea_pending a @ [r])\<rparr>"
  let ?b = "set_totals_for (ar_kind r) (t\<lparr>ct_launches := ct_launches t + 1\<rparr>) ?a"
  have i: "0 < i" using cur by (auto simp: current_activity_def lookup_score_def split: if_splits)
  have b: "totals_for (ar_kind r) ?b = Some (t\<lparr>ct_launches := ct_launches t + 1\<rparr>)" using t by (intro totals_set) simp
  show thesis
  proof (rule that [of ?b])
    show "record_event_attack_launch i r e = (True, set_activity i ?b e)"
      using r t by (simp add: record_event_attack_launch_def ensure_activity_current [OF cur] record_launch_def Let_def)
    show "current_activity i (set_activity i ?b e) ?b"
      using cur i by (simp add: current_activity_def lookup_set_activity)
    show "ea_launch_ids ?b = ea_launch_ids a @ [ar_movement r]" using room by (simp add: keep_last_short)
    show "launches_of (ar_kind r) ?b = launches_of (ar_kind r) a + 1" using b t by (simp add: launches_of_def)
    show "totals_for (ar_kind r) ?b \<noteq> None" using b by simp
    show "length (ea_pending ?b) \<le> pending_attack_limit" by (simp add: length_keep_last)
  qed
qed

lemma record_launch_again:
  "current_activity i e a \<Longrightarrow> ar_movement r \<in> set (ea_launch_ids a) \<Longrightarrow> snd (record_event_attack_launch i r e) = e"
  by (simp add: record_event_attack_launch_def ensure_activity_current record_launch_def)

text \<open>
  C: However often the movements of one occurrence are reported, the launches counted are the distinct movements, as
  long as the activity still remembers their identifiers.
\<close>

lemma launches_counted_once:
  assumes "current_activity i e a" "distinct (ea_launch_ids a)" "\<forall>r\<in>set rs. 0 < ar_movement r \<and> ar_kind r = k"
    and "totals_for k a \<noteq> None" "card (set (ea_launch_ids a) \<union> ar_movement ` set rs) \<le> launch_id_limit"
  shows "\<exists>b. current_activity i (record_launches i rs e) b \<and>
    set (ea_launch_ids b) = set (ea_launch_ids a) \<union> ar_movement ` set rs \<and>
    launches_of k b = launches_of k a + int (card (ar_movement ` set rs - set (ea_launch_ids a)))"
  using assms
proof (induction rs arbitrary: e a)
  case Nil
  then show ?case by (auto simp: record_launches_def)
next
  case (Cons r rs)
  have run: "record_launches i (r # rs) e = record_launches i rs (snd (record_event_attack_launch i r e))"
    by (simp add: record_launches_def)
  show ?case
  proof (cases "ar_movement r \<in> set (ea_launch_ids a)")
    case True
    then have "set (ea_launch_ids a) \<union> ar_movement ` set (r # rs) = set (ea_launch_ids a) \<union> ar_movement ` set rs"
      "ar_movement ` set (r # rs) - set (ea_launch_ids a) = ar_movement ` set rs - set (ea_launch_ids a)" by auto
    with Cons.IH [of e a] Cons.prems show ?thesis by (simp only: run record_launch_again [OF Cons.prems(1) True]) simp
  next
    case False
    have "card (insert (ar_movement r) (set (ea_launch_ids a))) \<le> launch_id_limit"
      using Cons.prems(5) by (intro order_trans [OF card_mono Cons.prems(5)]) auto
    then have room: "length (ea_launch_ids a) < launch_id_limit"
      using False distinct_card [OF Cons.prems(2)] by simp
    have kind: "ar_kind r = k" "0 < ar_movement r" using Cons.prems(3) by auto
    obtain b where b: "record_event_attack_launch i r e = (True, set_activity i b e)" "current_activity i (set_activity i b e) b"
      "ea_launch_ids b = ea_launch_ids a @ [ar_movement r]" "launches_of k b = launches_of k a + 1" "totals_for k b \<noteq> None"
      using record_launch_new [OF Cons.prems(1) kind(2) False _ room] Cons.prems(4) kind(1) by metis
    have known: "set (ea_launch_ids b) \<union> ar_movement ` set rs = set (ea_launch_ids a) \<union> ar_movement ` set (r # rs)"
      unfolding b(3) by auto
    have fresh: "ar_movement ` set (r # rs) - set (ea_launch_ids a) =
        insert (ar_movement r) (ar_movement ` set rs - set (ea_launch_ids b))"
      unfolding b(3) using False by auto
    have "card (ar_movement ` set (r # rs) - set (ea_launch_ids a)) = Suc (card (ar_movement ` set rs - set (ea_launch_ids b)))"
      unfolding fresh by (rule card_insert_disjoint) (auto simp: b(3))
    moreover have "distinct (ea_launch_ids b)" using Cons.prems(2) False by (simp add: b(3))
    moreover obtain c where "current_activity i (record_launches i rs (set_activity i b e)) c"
      "set (ea_launch_ids c) = set (ea_launch_ids b) \<union> ar_movement ` set rs"
      "launches_of k c = launches_of k b + int (card (ar_movement ` set rs - set (ea_launch_ids b)))"
      using Cons.IH [OF b(2) calculation(2) _ b(5)] Cons.prems(3,5) unfolding known by auto
    ultimately show ?thesis using known b(4) by (intro exI [of _ c]) (simp only: run b(1), simp)
  qed
qed

end
