(* ===== verification/Movements.thy ===== *)
theory Movements
  imports EventActivity Complex_Main "HOL-Library.AList"
begin

text \<open>
  Observed movements of troops, carts and commanders (\<^verbatim>\<open>Server/State/Models.go\<close>), when each of them releases what it
  holds (\<^verbatim>\<open>StationingLeases.go\<close>, \<^verbatim>\<open>MarketBarrowLeases.go\<close>, \<^verbatim>\<open>CommanderAvailability.go\<close>), and the clock that wakes at the
  next release (\<^verbatim>\<open>Server/App/MovementClock.go\<close>).

  Go maps are association lists with distinct keys, in one of the orders Go may visit them. An optional time is a
  pointer; amounts of goods, floats read from the wire, are rationals. Where the code replaces a zero \<open>now\<close> by the clock, \<open>now\<close> is the value after that.
\<close>

section \<open>Movements\<close>

record movement =
  mv_id :: int
  mv_type :: int
  mv_direction :: int
  mv_owner :: int
  mv_target_player :: int
  mv_source_type :: int
  mv_source_castle :: int
  mv_target_castle :: int
  mv_target_type :: int
  mv_commander :: "int option"
  mv_kingdom :: int
  mv_source_x :: int
  mv_source_y :: int
  mv_target_x :: int
  mv_target_y :: int
  mv_travel_seconds :: int
  mv_wait_seconds :: int
  mv_progress_seconds :: int
  mv_spy_count :: int
  mv_arrives_at :: "gotime option"
  mv_returns_at :: "gotime option"
  mv_started_at :: gotime
  mv_observed_at :: gotime
  mv_units :: "(int \<times> int) list"
  mv_market_barrows :: int
  mv_market_goods :: "(int \<times> rat) list"
  mv_leader :: "int option"
  mv_leader_d :: "int option"
  mv_leader_w :: "int option"
  mv_advisor_type :: int
  mv_advisor_attack :: int
  mv_advisor_attacks :: int
  mv_advisor_launch :: int

definition projected_completion_at :: "movement \<Rightarrow> gotime option" where
  "projected_completion_at m =
     (if mv_direction m = 1 then mv_returns_at m
      else if mv_direction m \<noteq> 0 then None
      else mv_arrives_at m)"

text \<open>A pointer to a time that is neither nil nor the zero time.\<close>

definition time_set :: "gotime option \<Rightarrow> bool" where
  "time_set t \<longleftrightarrow> (case t of None \<Rightarrow> False | Some u \<Rightarrow> \<not> time_is_zero u)"

definition holds_until :: "gotime option \<Rightarrow> gotime \<Rightarrow> bool" where
  "holds_until t now \<longleftrightarrow> time_set t \<and> now < the t"

text \<open>What is still held where the end is not known.\<close>

definition holds_unless :: "gotime option \<Rightarrow> gotime \<Rightarrow> bool" where
  "holds_unless t now \<longleftrightarrow> \<not> time_set t \<or> now < the t"

section \<open>Stationed troops\<close>

record stationing =
  sg_purpose :: string
  sg_source :: int
  sg_target :: int
  sg_movement :: int
  sg_movements :: "int list"
  sg_safe_after :: "gotime option"
  sg_cooldown_until :: "gotime option"
  sg_updated_at :: gotime

definition matches_movement :: "stationing \<Rightarrow> movement \<Rightarrow> bool" where
  "matches_movement op m \<longleftrightarrow>
     (if sg_movements op \<noteq> [] then mv_id m \<in> set (sg_movements op)
      else if 0 < sg_movement op then mv_id m = sg_movement op
      else if mv_direction m = 1 then mv_source_castle m = sg_target op \<and> mv_target_castle m = sg_source op
      else mv_source_castle m = sg_source op \<and> mv_target_castle m = sg_target op)"

definition station_release_at :: "movement \<Rightarrow> gotime option" where
  "station_release_at m =
     (if time_set (mv_returns_at m) then mv_returns_at m
      else if mv_direction m \<noteq> 0 \<or> \<not> time_set (mv_arrives_at m) then projected_completion_at m
      else Some (the (mv_arrives_at m) + seconds (int64 (max 0 (mv_wait_seconds m) + max 0 (mv_travel_seconds m)))))"

definition station_active_at :: "movement \<Rightarrow> gotime \<Rightarrow> bool" where
  "station_active_at m now = holds_until (station_release_at m) now"

definition operation_active_at :: "stationing \<Rightarrow> movement list \<Rightarrow> gotime \<Rightarrow> bool" where
  "operation_active_at op ms now \<longleftrightarrow>
     (\<exists>m\<in>set ms. matches_movement op m \<and> station_active_at m now) \<or>
     \<not> (0 < sg_movement op \<or> sg_movements op \<noteq> []) \<and>
     ((case sg_cooldown_until op of None \<Rightarrow> False | Some t \<Rightarrow> now < t) \<or>
      \<not> time_is_zero (sg_updated_at op) \<and> now < sg_updated_at op + 30 * second)"

section \<open>The state movements are judged in\<close>

record castle =
  ca_id :: int
  ca_kingdom :: int
  ca_slot_type :: int
  ca_x :: int
  ca_y :: int
  ca_stationed :: "(int \<times> int) list"
  ca_traveling :: "(int \<times> int) list"
  ca_units_observed_at :: gotime

record taunt =
  tn_movement :: int
  tn_observed_at :: gotime
  tn_impact_at :: gotime

record khan =
  kh_target_x :: int
  kh_target_y :: int
  kh_rage :: khan_rage
  kh_launches :: "int list"
  kh_taunts :: "(int \<times> taunt) list"
  kh_resolved :: "taunt list"
  kh_triggered :: int
  kh_observed :: int
  kh_resolved_count :: int
  kh_last_resolved_at :: gotime

record snapshot_identity =
  si_version :: nat
  si_generation :: nat
  si_observed_at :: gotime

record game =
  gm_player :: int
  gm_generation :: nat
  gm_castles :: "(int \<times> castle) list"
  gm_movements :: "(int \<times> movement) list"
  gm_commanders :: "(int \<times> bool) list"
  gm_stationing :: "stationing list"
  gm_khan :: khan
  gm_events :: event_scores
  gm_snapshot :: snapshot_identity

definition owned_by_player :: "game \<Rightarrow> movement \<Rightarrow> bool" where
  "owned_by_player g m \<longleftrightarrow>
     (if 0 < mv_owner m then 0 < gm_player g \<and> mv_owner m = gm_player g
      else if mv_source_castle m \<le> 0 then False
      else map_of (gm_castles g) (mv_source_castle m) \<noteq> None)"

definition tracked_release_at :: "game \<Rightarrow> movement \<Rightarrow> gotime option" where
  "tracked_release_at g m = (if \<exists>op\<in>set (gm_stationing g). matches_movement op m then station_release_at m else None)"

definition tracked_active_at :: "game \<Rightarrow> movement \<Rightarrow> gotime \<Rightarrow> bool" where
  "tracked_active_at g m now = holds_until (tracked_release_at g m) now"

text \<open>The Khan automation waits for automatic stationing (\<open>KhanAutoStationYieldActiveAt\<close>).\<close>

definition khan_station_active_at :: "movement \<Rightarrow> gotime \<Rightarrow> bool" where
  "khan_station_active_at m now \<longleftrightarrow>
     (if mv_direction m = 0 then holds_unless (mv_arrives_at m) now
      else if mv_direction m = 1 then holds_unless (mv_returns_at m) now else True)"

definition operation_movements :: "stationing \<Rightarrow> int list" where
  "operation_movements op = (if sg_movements op = [] \<and> 0 < sg_movement op then [sg_movement op] else sg_movements op)"

definition lookup_mv :: "game \<Rightarrow> int \<Rightarrow> movement option" where
  "lookup_mv g i = (if i \<le> 0 then None else map_of (gm_movements g) i)"

definition khan_yields_to_station :: "game \<Rightarrow> gotime \<Rightarrow> bool" where
  "khan_yields_to_station g now \<longleftrightarrow>
     (\<exists>op\<in>set (gm_stationing g). sg_purpose op = ''autoStation'' \<and>
        ((case sg_safe_after op of None \<Rightarrow> False | Some t \<Rightarrow> now < t + 5 * second) \<or>
         (\<exists>i\<in>set (operation_movements op). 0 < i \<and>
            (case lookup_mv g i of None \<Rightarrow> False | Some m \<Rightarrow> khan_station_active_at m now))))"

section \<open>Carts\<close>

definition market_release_at :: "movement \<Rightarrow> gotime option" where
  "market_release_at m =
     (if mv_market_barrows m \<le> 0 then None
      else if time_set (mv_returns_at m) then mv_returns_at m
      else if mv_direction m = 0 \<and> time_set (mv_arrives_at m)
      then Some (the (mv_arrives_at m) + (if 0 < mv_travel_seconds m then seconds (mv_travel_seconds m) else 0))
      else projected_completion_at m)"

definition market_active_at :: "movement \<Rightarrow> gotime \<Rightarrow> bool" where
  "market_active_at m now = holds_until (market_release_at m) now"

definition home_castle :: "movement \<Rightarrow> int" where
  "home_castle m = (if mv_direction m = 1 then mv_target_castle m else mv_source_castle m)"

definition leases_barrows :: "game \<Rightarrow> gotime \<Rightarrow> movement \<Rightarrow> bool" where
  "leases_barrows g now m \<longleftrightarrow> 0 < mv_market_barrows m \<and> owned_by_player g m \<and> market_active_at m now"

definition earliest :: "gotime \<Rightarrow> gotime \<Rightarrow> gotime" where
  "earliest next t = (if time_is_zero next \<or> t < next then t else next)"

text \<open>\<open>MarketBarrowLeaseAt\<close>: the carts away from a castle and when the first of them is back.\<close>

definition barrow_lease_at :: "game \<Rightarrow> int \<Rightarrow> gotime \<Rightarrow> int \<times> gotime" where
  "barrow_lease_at g c now =
     fold (\<lambda>(i, m) (barrows, releases).
         if home_castle m = c \<and> leases_barrows g now m
         then (int64 (barrows + mv_market_barrows m),
               case market_release_at m of None \<Rightarrow> releases | Some t \<Rightarrow> earliest releases t)
         else (barrows, releases))
       (gm_movements g) (0, time_zero)"

definition next_barrow_release :: "game \<Rightarrow> gotime \<Rightarrow> gotime" where
  "next_barrow_release g now =
     fold (\<lambda>(i, m) next.
         if leases_barrows g now m then (case market_release_at m of None \<Rightarrow> next | Some t \<Rightarrow> earliest next t) else next)
       (gm_movements g) time_zero"

definition available_barrows_at :: "game \<Rightarrow> int \<Rightarrow> int \<Rightarrow> int \<Rightarrow> gotime \<Rightarrow> int" where
  "available_barrows_at g c available owned now =
     (let lease = fst (barrow_lease_at g c now) in
      if 0 < owned then min (max 0 available) (max 0 (int64 (owned - lease)))
      else if 0 < lease then 0 else max 0 available)"

section \<open>Commanders\<close>

abbreviation (input) return_grace :: duration where "return_grace \<equiv> 5 * second"

definition nominal_end_at :: "movement \<Rightarrow> gotime option" where
  "nominal_end_at m =
     (if mv_direction m = 0 \<and> 0 < mv_wait_seconds m then station_release_at m
      else if time_set (mv_returns_at m) then mv_returns_at m
      else if mv_direction m \<noteq> 0 \<or> \<not> time_set (mv_arrives_at m)
      then (if time_set (projected_completion_at m) then projected_completion_at m else None)
      else Some (the (mv_arrives_at m) + (if 0 < mv_travel_seconds m then seconds (mv_travel_seconds m) else 0)))"

definition commander_release_at :: "movement \<Rightarrow> gotime option" where
  "commander_release_at m =
     (case nominal_end_at m of
        None \<Rightarrow> None
      | Some nominal \<Rightarrow>
          let release = nominal + return_grace;
              seen = mv_observed_at m + return_grace
          in if \<not> time_is_zero (mv_observed_at m) \<and> nominal \<le> mv_observed_at m \<and> release < seen
             then Some seen else Some release)"

definition commander_active_at :: "movement \<Rightarrow> gotime \<Rightarrow> bool" where
  "commander_active_at m now = holds_unless (commander_release_at m) now"

definition commander_has_active_movement :: "game \<Rightarrow> int \<Rightarrow> gotime \<Rightarrow> bool" where
  "commander_has_active_movement g c now \<longleftrightarrow>
     (\<exists>(i, m)\<in>set (gm_movements g). mv_commander m = Some c \<and> owned_by_player g m \<and> commander_active_at m now)"

text \<open>\<open>syncCommanderAvailability\<close>; the clock is read once for each commander.\<close>

definition sync_commanders :: "gotime \<Rightarrow> game \<Rightarrow> bool \<times> game" where
  "sync_commanders now g =
     (let cs = map (\<lambda>(c, _). (c, \<not> commander_has_active_movement g c now)) (gm_commanders g)
      in (cs \<noteq> gm_commanders g, g\<lparr>gm_commanders := cs\<rparr>))"

section \<open>The clock\<close>

text \<open>When \<open>nextMovementCompletion\<close> takes a movement to be over.\<close>

definition clock_completion :: "game \<Rightarrow> movement \<Rightarrow> gotime option" where
  "clock_completion g m =
     (let owned = owned_by_player g m;
          held = (if mv_direction m = 0 \<and> 0 < mv_wait_seconds m then station_release_at m
                  else if owned then tracked_release_at g m else None);
          held = (case held of
              Some t \<Rightarrow> Some t
            | None \<Rightarrow>
                if 0 < mv_market_barrows m \<and> owned then market_release_at m
                else if mv_commander m \<noteq> None \<and> owned then commander_release_at m
                else if mv_direction m = 0 then mv_arrives_at m
                else if mv_direction m = 1 then mv_returns_at m else None)
      in case held of
           None \<Rightarrow> None
         | Some t \<Rightarrow>
             if owned \<and> mv_commander m \<noteq> None
             then (case commander_release_at m of None \<Rightarrow> Some t | Some u \<Rightarrow> if t < u then Some u else Some t)
             else Some t)"

definition next_movement_completion :: "game \<Rightarrow> gotime" where
  "next_movement_completion g =
     fold (\<lambda>(i, m) next. if time_set (clock_completion g m) then earliest next (the (clock_completion g m)) else next)
       (gm_movements g) time_zero"

end
