(* ===== verification/MovementReducer.thy ===== *)
theory MovementReducer
  imports Movements
begin

text \<open>
  What changes the movements of a game state (\<^verbatim>\<open>Server/Ingest/MovementReducers.go\<close>): the lists of movements the game
  sends, whole or in part, the removals it announces, and the expiry of movements whose end has passed. With each of
  them go the taunts of the Khan, the troops that came home and the commanders that are free again.
\<close>

section \<open>Reading a movement\<close>

text \<open>
  The JSON of a movement after its numbers have been read: an absent field is \<open>None\<close>, a field that is no integer
  \<open>Some None\<close>; the rows of a place list their numbers. Goods carry the resource they were looked up as.
\<close>

record wire_leader =
  wl_id :: "int option option"
  wl_dlid :: "int option option"
  wl_wid :: "int option option"

record wire_unit_movement =
  wu_wait_seconds :: int
  wu_leader :: "wire_leader option"
  wu_advisor_type :: int
  wu_advisor_attack :: int
  wu_advisor_attacks :: int
  wu_advisor_launch :: int

record wire_movement =
  wm_id :: "int option"
  wm_progress :: "int option"
  wm_travel :: "int option"
  wm_direction :: "int option"
  wm_type :: int
  wm_kingdom :: "int option"
  wm_owner :: "int option option"
  wm_target_player :: "int option option"
  wm_source :: "int option list"
  wm_target :: "int option list"
  wm_spies :: "int option"
  wm_unit_movement :: "wire_unit_movement option option"
  wm_units :: "(int \<times> int) list"
  wm_market :: "(int \<times> (int option \<times> rat option) list) option"

abbreviation (input) khan_taunt_type :: int where "khan_taunt_type \<equiv> 20"
abbreviation (input) khan_camp_map_type :: int where "khan_camp_map_type \<equiv> 35"
abbreviation (input) player_castle_map_type :: int where "player_castle_map_type \<equiv> 1"

text \<open>An optional identity: absent is zero.\<close>

definition optional_identity :: "int option option \<Rightarrow> int option" where
  "optional_identity raw = (case raw of None \<Rightarrow> Some 0 | Some v \<Rightarrow> v)"

definition khan_npc_leader :: "movement \<Rightarrow> bool" where
  "khan_npc_leader m \<longleftrightarrow>
     mv_type m = khan_taunt_type \<and> mv_source_type m = khan_camp_map_type \<and> mv_target_type m = player_castle_map_type \<and>
     mv_kingdom m = 0 \<and> mv_direction m = 0 \<and> mv_owner m < 0 \<and> 0 < mv_target_player m \<and>
     mv_source_castle m < 0 \<and> 0 < mv_target_castle m"

definition read_leader :: "wire_leader \<Rightarrow> movement \<Rightarrow> movement option" where
  "read_leader l m =
     (if wl_id l = Some None \<or> wl_dlid l = Some None then None
      else if (case wl_wid l of None \<Rightarrow> False | Some None \<Rightarrow> True | Some (Some i) \<Rightarrow> i \<le> 0) then None
      else
        let m = m\<lparr>mv_leader := Option.bind (wl_id l) id, mv_leader_d := Option.bind (wl_dlid l) id,
                  mv_leader_w := Option.bind (wl_wid l) id\<rparr>
        in if mv_leader m = None \<and> mv_leader_d m = None \<and> (mv_leader_w m = None \<or> \<not> khan_npc_leader m) then None
           else Some (case mv_leader m of
               None \<Rightarrow> m
             | Some i \<Rightarrow> if 0 \<le> i then m\<lparr>mv_commander := Some i\<rparr> else m))"

definition read_unit_movement :: "wire_unit_movement option option \<Rightarrow> movement \<Rightarrow> movement option" where
  "read_unit_movement w m =
     (case w of
        None \<Rightarrow> Some m
      | Some None \<Rightarrow> None
      | Some (Some u) \<Rightarrow>
          let m = m\<lparr>mv_wait_seconds := max 0 (wu_wait_seconds u), mv_advisor_type := wu_advisor_type u,
                    mv_advisor_attack := wu_advisor_attack u, mv_advisor_attacks := wu_advisor_attacks u,
                    mv_advisor_launch := wu_advisor_launch u\<rparr>
          in case wu_leader u of None \<Rightarrow> Some m | Some l \<Rightarrow> read_leader l m)"

text \<open>\<open>decodeUnitCounts\<close>: rows of the same unit are added up.\<close>

definition unit_counts :: "(int \<times> int) list \<Rightarrow> (int \<times> int) list" where
  "unit_counts rows =
     fold (\<lambda>(i, n) us. if 0 < i \<and> 0 \<le> n
         then AList.update i (int64 ((case map_of us i of None \<Rightarrow> 0 | Some k \<Rightarrow> k) + n)) us else us)
       rows []"

definition read_goods :: "(int option \<times> rat option) list \<Rightarrow> (int \<times> rat) list" where
  "read_goods goods =
     concat (map (\<lambda>(i, a). case (i, a) of (Some i, Some a) \<Rightarrow> if a \<le> 0 then [] else [(i, a)] | _ \<Rightarrow> []) goods)"

text \<open>A place: its type, its coordinates, its castle and, where the row is longer, its owner.\<close>

definition read_place :: "int option list \<Rightarrow> (int \<times> int \<times> int \<times> int \<times> int) option" where
  "read_place row =
     (case row of
        t # x # y # c # rest \<Rightarrow>
          (case (t, x, y, c, (case rest of [] \<Rightarrow> Some 0 | p # _ \<Rightarrow> p)) of
             (Some t, Some x, Some y, Some c, Some p) \<Rightarrow> if x < 0 \<or> y < 0 then None else Some (t, x, y, c, p)
           | _ \<Rightarrow> None)
      | _ \<Rightarrow> None)"

definition parse_movement :: "wire_movement \<Rightarrow> gotime \<Rightarrow> movement option" where
  "parse_movement w observed =
     (case (wm_id w, wm_progress w, wm_travel w, wm_direction w, wm_kingdom w) of
        (Some i, Some progress, Some travel, Some direction, Some kingdom) \<Rightarrow>
          if i \<le> 0 \<or> progress < 0 \<or> travel < 0 \<or> direction < 0 \<or> 1 < direction \<or> kingdom < 0 then None
          else (case (optional_identity (wm_owner w), optional_identity (wm_target_player w),
                      read_place (wm_source w), read_place (wm_target w)) of
             (Some owner, Some target, Some (st, sx, sy, sc, sp), Some (tt, tx, ty, tc, tp)) \<Rightarrow>
               let started = observed + seconds (- progress);
                   completion = started + seconds travel;
                   m = \<lparr>mv_id = i, mv_type = wm_type w, mv_direction = direction,
                        mv_owner = (if owner = 0 then sp else owner), mv_target_player = (if tp \<noteq> 0 then tp else target),
                        mv_source_type = st, mv_source_castle = sc, mv_target_castle = tc, mv_target_type = tt,
                        mv_commander = None, mv_kingdom = kingdom, mv_source_x = sx, mv_source_y = sy, mv_target_x = tx,
                        mv_target_y = ty, mv_travel_seconds = travel, mv_wait_seconds = 0, mv_progress_seconds = progress,
                        mv_spy_count = (case wm_spies w of None \<Rightarrow> 0 | Some n \<Rightarrow> max 0 n),
                        mv_arrives_at = None, mv_returns_at = None, mv_started_at = started, mv_observed_at = observed,
                        mv_units = [], mv_market_barrows = 0, mv_market_goods = [], mv_leader = None, mv_leader_d = None,
                        mv_leader_w = None, mv_advisor_type = 0, mv_advisor_attack = 0, mv_advisor_attacks = 0,
                        mv_advisor_launch = 0\<rparr>
               in (case read_unit_movement (wm_unit_movement w) m of
                     None \<Rightarrow> None
                   | Some m \<Rightarrow>
                       Some (m\<lparr>mv_units := unit_counts (wm_units w),
                               mv_market_barrows := (case wm_market w of None \<Rightarrow> 0 | Some (n, _) \<Rightarrow> n),
                               mv_market_goods := (case wm_market w of None \<Rightarrow> [] | Some (_, goods) \<Rightarrow> read_goods goods),
                               mv_arrives_at := (if direction = 0 then Some completion else None),
                               mv_returns_at := (if direction = 0 then None else Some completion)\<rparr>))
           | _ \<Rightarrow> None)
      | _ \<Rightarrow> None)"

section \<open>The same movement seen again\<close>

abbreviation (input) time_tolerance :: duration where "time_tolerance \<equiv> 2 * second"

definition times_within :: "gotime \<Rightarrow> gotime \<Rightarrow> bool" where
  "times_within left right \<longleftrightarrow>
     (if time_is_zero left \<or> time_is_zero right then time_is_zero left \<and> time_is_zero right
      else (let difference = time_sub left right in - time_tolerance \<le> difference \<and> difference \<le> time_tolerance))"

definition optional_times_within :: "gotime option \<Rightarrow> gotime option \<Rightarrow> bool" where
  "optional_times_within left right \<longleftrightarrow>
     (case (left, right) of (Some l, Some r) \<Rightarrow> times_within l r | _ \<Rightarrow> left = None \<and> right = None)"

definition movements_equivalent :: "movement \<Rightarrow> movement \<Rightarrow> bool" where
  "movements_equivalent left right \<longleftrightarrow>
     times_within (mv_started_at left) (mv_started_at right) \<and>
     optional_times_within (mv_arrives_at left) (mv_arrives_at right) \<and>
     optional_times_within (mv_returns_at left) (mv_returns_at right) \<and>
     optional_times_within (commander_release_at left) (commander_release_at right) \<and>
     left = right\<lparr>mv_observed_at := mv_observed_at left, mv_progress_seconds := mv_progress_seconds left,
       mv_started_at := mv_started_at left, mv_arrives_at := mv_arrives_at left, mv_returns_at := mv_returns_at left\<rparr>"

text \<open>A commander is on one movement: the latest observation supersedes the others.\<close>

definition superseded :: "game \<Rightarrow> movement \<Rightarrow> int \<times> movement \<Rightarrow> bool" where
  "superseded g observed e \<longleftrightarrow>
     mv_commander observed \<noteq> None \<and> owned_by_player g observed \<and>
     (let (i, existing) = e in
      i \<noteq> mv_id observed \<and> mv_commander existing = mv_commander observed \<and> owned_by_player g existing \<and>
      \<not> mv_observed_at observed < mv_observed_at existing)"

definition discard_superseded :: "game \<Rightarrow> movement \<Rightarrow> (int \<times> movement) list \<Rightarrow> (int \<times> movement) list" where
  "discard_superseded g observed ms = filter (\<lambda>e. \<not> superseded g observed e) ms"

section \<open>Taunts of the Khan\<close>

abbreviation (input) khan_event :: int where "khan_event \<equiv> 72"
abbreviation (input) resolved_taunt_limit :: nat where "resolved_taunt_limit \<equiv> 256"

definition resolved_taunt_exists :: "khan \<Rightarrow> int \<Rightarrow> bool" where
  "resolved_taunt_exists k i \<longleftrightarrow> 0 < i \<and> i \<in> tn_movement ` set (kh_resolved k)"

definition record_resolved_taunt :: "taunt \<Rightarrow> khan \<Rightarrow> bool \<times> khan" where
  "record_resolved_taunt t k =
     (if tn_movement t \<le> 0 \<or> resolved_taunt_exists k (tn_movement t) then (False, k)
      else (True, k\<lparr>kh_resolved := keep_last resolved_taunt_limit (kh_resolved k @ [t])\<rparr>))"

text \<open>Taking a taunt off the list of those under way; it counts as resolved once.\<close>

definition close_taunt :: "int \<Rightarrow> taunt \<Rightarrow> gotime \<Rightarrow> khan \<Rightarrow> khan" where
  "close_taunt i t resolved k =
     (let (recorded, k) = record_resolved_taunt t (k\<lparr>kh_taunts := AList.delete i (kh_taunts k)\<rparr>) in
      if recorded
      then k\<lparr>kh_resolved_count := kh_resolved_count k + 1,
             kh_last_resolved_at := max (kh_last_resolved_at k) resolved\<rparr>
      else k)"

definition resolve_taunt :: "int \<Rightarrow> gotime \<Rightarrow> khan \<Rightarrow> bool \<times> khan" where
  "resolve_taunt i resolved k =
     (case map_of (kh_taunts k) i of None \<Rightarrow> (False, k) | Some t \<Rightarrow> (True, close_taunt i t resolved k))"

definition main_castle :: "game \<Rightarrow> castle option" where
  "main_castle g = find (\<lambda>c. ca_kingdom c = 0 \<and> ca_slot_type c = 1) (map snd (gm_castles g))"

definition is_khan_taunt :: "game \<Rightarrow> movement \<Rightarrow> bool" where
  "is_khan_taunt g m \<longleftrightarrow>
     \<not> (mv_type m \<noteq> khan_taunt_type \<or> mv_source_type m \<noteq> khan_camp_map_type \<or> mv_kingdom m \<noteq> 0 \<or> mv_commander m \<noteq> None \<or>
        mv_direction m \<noteq> 0 \<and> mv_direction m \<noteq> 1) \<and>
     mv_id m \<notin> set (kh_launches (gm_khan g)) \<and>
     (case main_castle g of
        None \<Rightarrow> False
      | Some c \<Rightarrow>
          mv_target_x m = ca_x c \<and> mv_target_y m = ca_y c \<and> \<not> (0 < mv_target_castle m \<and> mv_target_castle m \<noteq> ca_id c) \<and>
          (if kh_target_x (gm_khan g) \<noteq> 0 \<or> kh_target_y (gm_khan g) \<noteq> 0
           then mv_source_x m = kh_target_x (gm_khan g) \<and> mv_source_y m = kh_target_y (gm_khan g)
           else lookup_score (gm_events g) khan_event \<noteq> None))"

definition taunt_impact_at :: "game \<Rightarrow> movement \<Rightarrow> gotime option" where
  "taunt_impact_at g m =
     (if \<not> is_khan_taunt g m then None
      else let impact = (if mv_direction m = 1 then mv_returns_at m else mv_arrives_at m)
           in if time_set impact then impact else None)"

text \<open>A taunt seen for the first time: it is counted, moves the cursor unless it belongs to the fill the cursor is
  already at, and is an attack launched by the Khan.\<close>

definition taunt_first_seen :: "movement \<Rightarrow> gotime \<Rightarrow> gotime \<Rightarrow> game \<Rightarrow> game" where
  "taunt_first_seen m impact observed g =
     (let k = gm_khan g;
          oc = (case lookup_occurrence (gm_events g) khan_event of None \<Rightarrow> (time_zero, time_zero) | Some oc \<Rightarrow> oc);
          r = kh_rage k;
          k = k\<lparr>kh_observed := kh_observed k + 1\<rparr>;
          k = (if taunt_cursor_includes r (kr_total_rage r) oc then k
               else k\<lparr>kh_triggered := kh_triggered k + 1,
                      kh_rage := r\<lparr>kr_triggered_at := observed, kr_triggered_rage := kr_total_rage r, kr_triggered_ends_at := fst oc\<rparr>\<rparr>);
          launched = (if time_is_zero (mv_observed_at m) then observed else mv_observed_at m);
          r = \<lparr>ar_movement = mv_id m, ar_kind = Kind_khan_defense, ar_kingdom = mv_kingdom m, ar_target_type = mv_target_type m,
               ar_target_x = mv_target_x m, ar_target_y = mv_target_y m, ar_launched_at = launched, ar_arrives_at = impact\<rparr>
      in g\<lparr>gm_khan := k, gm_events := snd (record_event_attack_launch khan_event r (gm_events g))\<rparr>)"

definition observe_taunt :: "gotime \<Rightarrow> movement \<Rightarrow> bool \<times> game \<Rightarrow> bool \<times> game" where
  "observe_taunt observed m w =
     (let (changed, g) = w in
      case taunt_impact_at g m of
        None \<Rightarrow> (changed, g)
      | Some impact \<Rightarrow>
          (case map_of (kh_taunts (gm_khan g)) (mv_id m) of
             Some current \<Rightarrow>
               let t = \<lparr>tn_movement = mv_id m, tn_observed_at = tn_observed_at current, tn_impact_at = impact\<rparr>
               in if current = t then (changed, g)
                  else (True, g\<lparr>gm_khan := (gm_khan g)\<lparr>kh_taunts := AList.update (mv_id m) t (kh_taunts (gm_khan g))\<rparr>\<rparr>)
           | None \<Rightarrow>
               if resolved_taunt_exists (gm_khan g) (mv_id m) then (changed, g)
               else
                 let t = \<lparr>tn_movement = mv_id m, tn_observed_at = observed, tn_impact_at = impact\<rparr>;
                     g = g\<lparr>gm_khan := (gm_khan g)\<lparr>kh_taunts := AList.update (mv_id m) t (kh_taunts (gm_khan g))\<rparr>\<rparr>
                 in (True, taunt_first_seen m impact observed g)))"

definition drop_taunt :: "(int \<times> movement) list \<Rightarrow> gotime \<Rightarrow> int \<times> taunt \<Rightarrow> bool \<times> khan \<Rightarrow> bool \<times> khan" where
  "drop_taunt ms observed e w =
     (let (i, t) = e; (changed, k) = w in
      if map_of ms i \<noteq> None \<or> observed + 2 * second < tn_impact_at t then (changed, k)
      else (True, close_taunt i t observed k))"

definition reconcile_taunts :: "(int \<times> movement) list \<Rightarrow> gotime \<Rightarrow> bool \<Rightarrow> game \<Rightarrow> bool \<times> game" where
  "reconcile_taunts ms observed authoritative g =
     (let (changed, g) = fold (\<lambda>(i, m). observe_taunt observed m) ms (False, g) in
      if \<not> authoritative then (changed, g)
      else
        let (changed, k) = fold (drop_taunt ms observed) (kh_taunts (gm_khan g)) (changed, gm_khan g)
        in (changed, g\<lparr>gm_khan := k\<rparr>))"

section \<open>Movement frames\<close>

text \<open>What a reducer remembers of the last snapshot: when its frame came and on which connection.\<close>

record snapshot_window =
  sw_last_frame :: gotime
  sw_last_generation :: nat

definition stays_held :: "game \<Rightarrow> gotime \<Rightarrow> movement \<Rightarrow> bool" where
  "stays_held g received m \<longleftrightarrow>
     owned_by_player g m \<and>
     (mv_commander m \<noteq> None \<and> commander_active_at m received \<or>
      0 < mv_market_barrows m \<and> market_active_at m received \<or>
      mv_direction m = 0 \<and> 0 < mv_wait_seconds m \<and> station_active_at m received \<or>
      tracked_active_at g m received)"

text \<open>One movement of the frame. Where no new snapshot was begun, \<open>before\<close> is the map being changed itself.\<close>

definition take_movement ::
  "game \<Rightarrow> (int \<times> movement) list option \<Rightarrow> movement \<Rightarrow> (int \<times> movement) list \<Rightarrow> (int \<times> movement) list" where
  "take_movement g before m ms =
     (let ms = discard_superseded g m ms;
          m = (case map_of (case before of None \<Rightarrow> ms | Some b \<Rightarrow> b) (mv_id m) of
              Some prior \<Rightarrow> if movements_equivalent prior m then prior else m
            | None \<Rightarrow> m)
      in AList.update (mv_id m) m ms)"

definition same_map :: "(int \<times> movement) list \<Rightarrow> (int \<times> movement) list \<Rightarrow> bool" where
  "same_map ms ns \<longleftrightarrow> list_all (\<lambda>(i, _). map_of ms i = map_of ns i) (ms @ ns)"

text \<open>The movements of a frame that begins a snapshot (\<open>Some\<close>), or extends what is held.\<close>

definition begin_snapshot :: "bool \<Rightarrow> gotime \<Rightarrow> game \<Rightarrow> (int \<times> movement) list" where
  "begin_snapshot fresh received g = (if fresh then [] else filter (\<lambda>(i, m). stays_held g received m) (gm_movements g))"

definition reduced_movements :: "bool \<Rightarrow> bool \<Rightarrow> gotime \<Rightarrow> movement list \<Rightarrow> game \<Rightarrow> (int \<times> movement) list" where
  "reduced_movements reset fresh received parsed g =
     (if reset then fold (take_movement g (Some (gm_movements g))) parsed (begin_snapshot fresh received g)
      else fold (take_movement g None) parsed (gm_movements g))"

definition fresh_baseline :: "snapshot_window \<Rightarrow> nat \<Rightarrow> bool" where
  "fresh_baseline w gen \<longleftrightarrow> time_is_zero (sw_last_frame w) \<or> 0 < gen \<and> gen \<noteq> sw_last_generation w"

definition resets_snapshot :: "snapshot_window \<Rightarrow> gotime \<Rightarrow> nat \<Rightarrow> bool" where
  "resets_snapshot w received gen \<longleftrightarrow> fresh_baseline w gen \<or> 250000000 < time_sub received (sw_last_frame w)"

definition note_snapshot :: "gotime \<Rightarrow> game \<Rightarrow> bool \<times> game" where
  "note_snapshot received g =
     (let s = gm_snapshot g
      in (si_version s = 0 \<or> si_generation s \<noteq> gm_generation g,
          g\<lparr>gm_snapshot := \<lparr>si_version = si_version s + 1, si_generation = gm_generation g, si_observed_at = received\<rparr>\<rparr>))"

text \<open>
  \<open>newMovementReducer\<close>, from the items of the frame on (\<open>None\<close> for an item that could not be read). The domains that
  changed are empty where the frame changed nothing.
\<close>

definition reduce_movements ::
  "bool \<Rightarrow> gotime \<Rightarrow> gotime \<Rightarrow> movement option list \<times> bool \<Rightarrow> snapshot_window \<Rightarrow> game \<Rightarrow>
   (string + string list) \<times> snapshot_window \<times> game" where
  "reduce_movements authoritative clock received items win g =
     (let (rows, full) = items in
      if authoritative \<and> \<not> full then (Inl ''gam response does not contain a movement array'', win, g)
      else
        let parsed = List.map_filter id rows;
            complete = (None \<notin> set rows);
            whole = (authoritative \<and> complete);
            fresh = fresh_baseline win (gm_generation g);
            reset = (whole \<and> resets_snapshot win received (gm_generation g));
            win = (if whole then \<lparr>sw_last_frame = received, sw_last_generation = gm_generation g\<rparr> else win);
            ms = reduced_movements reset fresh received parsed g;
            (khan_changed, g) = reconcile_taunts ms received whole g;
            moved = (\<not> same_map (gm_movements g) ms);
            g = g\<lparr>gm_movements := ms\<rparr>;
            (identity_changed, g) = (if whole then note_snapshot received g else (False, g));
            (commanders_changed, g) = (if moved \<or> khan_changed \<or> whole then sync_commanders clock g else (False, g))
        in if \<not> moved \<and> \<not> khan_changed \<and> \<not> commanders_changed \<and> \<not> identity_changed then (Inr [], win, g)
           else (Inr ([''movements'', ''commanders''] @ (if whole then [''movement-snapshot''] else []) @
                  (if khan_changed then [''khan'', ''event-scores''] else [])), win, g))"

section \<open>Removals and expiry\<close>

definition reduce_removal :: "gotime \<Rightarrow> gotime \<Rightarrow> int \<Rightarrow> game \<Rightarrow> string list \<times> game" where
  "reduce_removal clock received i g =
     (if lookup_mv g i = None then ([], g)
      else
        let g = g\<lparr>gm_movements := AList.delete i (gm_movements g)\<rparr>;
            (khan_changed, k) = resolve_taunt i received (gm_khan g);
            g = snd (sync_commanders clock (g\<lparr>gm_khan := k\<rparr>))
        in ([''movements'', ''commanders''] @ (if khan_changed then [''khan'', ''event-scores''] else []), g))"

definition movement_active_at :: "movement \<Rightarrow> gotime \<Rightarrow> bool" where
  "movement_active_at m now =
     (if mv_direction m = 0 \<and> 0 < mv_wait_seconds m then station_active_at m now
      else holds_unless (projected_completion_at m) now)"

definition expired_at :: "game \<Rightarrow> gotime \<Rightarrow> movement \<Rightarrow> bool" where
  "expired_at g now m \<longleftrightarrow>
     \<not> (movement_active_at m now \<or>
        owned_by_player g m \<and>
        (mv_commander m \<noteq> None \<and> commander_active_at m now \<or>
         0 < mv_market_barrows m \<and> market_active_at m now \<or> tracked_active_at g m now))"

definition count_of :: "(int \<times> int) list \<Rightarrow> int \<Rightarrow> int" where
  "count_of us i = (case map_of us i of None \<Rightarrow> 0 | Some n \<Rightarrow> n)"

definition land_unit :: "int \<times> int \<Rightarrow> castle \<Rightarrow> castle" where
  "land_unit e c =
     (let (i, amount) = e; remaining = int64 (count_of (ca_traveling c) i - amount)
      in c\<lparr>ca_stationed := AList.update i (int64 (count_of (ca_stationed c) i + amount)) (ca_stationed c),
           ca_traveling := (if remaining = 0 then AList.delete i (ca_traveling c)
                            else AList.update i remaining (ca_traveling c))\<rparr>)"

text \<open>\<open>reconcileReturnedMovementUnits\<close>; castles have positive identifiers.\<close>

definition lands :: "game \<Rightarrow> movement \<Rightarrow> castle \<Rightarrow> bool" where
  "lands g m c \<longleftrightarrow>
     mv_direction m = 1 \<and> time_set (mv_returns_at m) \<and> mv_units m \<noteq> [] \<and> owned_by_player g m \<and>
     (time_is_zero (ca_units_observed_at c) \<or> ca_units_observed_at c < the (mv_returns_at m)) \<and>
     (\<forall>(i, amount)\<in>set (mv_units m). 0 < amount \<and> amount \<le> count_of (ca_traveling c) i)"

definition land_units :: "movement \<Rightarrow> game \<Rightarrow> game" where
  "land_units m g =
     (case map_of (gm_castles g) (mv_target_castle m) of
        None \<Rightarrow> g
      | Some c \<Rightarrow>
          if lands g m c
          then g\<lparr>gm_castles := AList.update (mv_target_castle m) (fold land_unit (mv_units m) c) (gm_castles g)\<rparr>
          else g)"

definition expire_movement :: "gotime \<Rightarrow> int \<times> movement \<Rightarrow> game \<times> int list \<Rightarrow> game \<times> int list" where
  "expire_movement now e w =
     (let (i, m) = e; (g, removals) = w in
      if \<not> expired_at g now m then (g, removals)
      else
        let g = land_units m g
        in (g\<lparr>gm_khan := snd (resolve_taunt i now (gm_khan g))\<rparr>, removals @ [i]))"

definition reconcile_expired :: "gotime \<Rightarrow> game \<Rightarrow> bool \<times> game" where
  "reconcile_expired now g =
     (let (g, removals) = fold (expire_movement now) (gm_movements g) (g, []);
          g = g\<lparr>gm_movements := fold AList.delete removals (gm_movements g)\<rparr>;
          (freed, g) = sync_commanders now g
      in (removals \<noteq> [] \<or> freed, g))"

end
