(* ===== verification/Spec2Isabelle.thy ===== *)
theory Spec2Isabelle
  imports Decimal ResourceKeys LegacyClaims Claims Admission Latency RouterRun LaneSafety OperationStore
    Layout TargetRejections Scheduler Partitions Plans Operations CoinWorld StepDispatch LaunchLedgerProofs Schedule ControlFence MovementProofs MovementReducer
begin

text \<open>
  A verification of the core of CitadelOps Desktop: the machinery that decides which operation may
  touch which part of a game account, and when its commands leave for the game server. The
  program is written in Go; its server lives under \<^verbatim>\<open>src/Server\<close>.

  \<^bold>\<open>How the parts interact.\<close> A request (from the user, the scheduler or an automation policy)
  becomes a plan with claims on resources. The intent engine (\<^verbatim>\<open>Intent/Engine.go\<close>) first waits
  for \<^emph>\<open>admission\<close> to the plan's class, then for its \<^emph>\<open>claims\<close>, and then sends the
  plan's commands through the \<^emph>\<open>outbound router\<close>, which queues them per lane, paces them and
  reports how each ended. Priorities travel with a command as metadata in its context.

  \<^bold>\<open>Theories.\<close>
  \<^item> \<^verbatim>\<open>Prelude\<close>: instants and durations, Go's integer division, ASCII strings.
  \<^item> \<^verbatim>\<open>Decimal\<close> (\<^verbatim>\<open>Protocol/Integers.go\<close>): which JSON numbers count as plain 64-bit
    integers.
  \<^item> \<^verbatim>\<open>ResourceKeys\<close> (\<^verbatim>\<open>Intent/Resources.go\<close>): structured resource keys, their
    normal form, when two overlap and when one contains another.
  \<^item> \<^verbatim>\<open>LegacyClaims\<close> (\<^verbatim>\<open>Intent/Resources.go\<close>, \<^verbatim>\<open>Intent/Claims.go\<close>):
    the translation of the older string claims into resource keys, and its consequences for
    which plans conflict.
  \<^item> \<^verbatim>\<open>WaitOrder\<close>: sorting and selecting by a comparison; the locales \<open>waiter_order\<close>
    (what a queue needs of its comparison) and \<open>conflict_relation\<close> (what exclusive access
    needs of the conflict relation), interpreted for the model by the theories below.
  \<^item> \<^verbatim>\<open>Priority\<close> (\<^verbatim>\<open>Outbound/Priority.go\<close>): ageing priorities, metadata.
  \<^item> \<^verbatim>\<open>Claims\<close> (\<^verbatim>\<open>Intent/Claims.go\<close>): the claim manager; mutual exclusion, no lost
    wake-up, no overtaking, and what ageing does and does not guarantee.
  \<^item> \<^verbatim>\<open>Admission\<close> (\<^verbatim>\<open>Intent/Admission.go\<close>): the admission manager; exclusive
    classes, sound and work-conserving grants, independence of Go's order of map iteration, and
    a wake-up that can be lost.
  \<^item> \<^verbatim>\<open>Latency\<close> (\<^verbatim>\<open>Outbound/Latency.go\<close>): the window of latency samples and its
    percentiles.
  \<^item> \<^verbatim>\<open>Router\<close>, \<^verbatim>\<open>RouterProofs\<close>, \<^verbatim>\<open>RouterRun\<close> (\<^verbatim>\<open>Outbound/Router.go\<close>,
    \<^verbatim>\<open>Outbound/Outcome.go\<close>): the outbound router, the accounting for every command, the
    properties of selection, waiting, reset and answers, and a run at which they are applied.
  \<^item> \<^verbatim>\<open>LaneSafety\<close> (\<^verbatim>\<open>Intent/LaneSafety.go\<close>, \<^verbatim>\<open>State/AutomationSafety.go\<close>): the
    lock that a rejection by the game puts on an automation lane, its expiry, review and refresh.
  \<^item> \<^verbatim>\<open>OperationStore\<close> (\<^verbatim>\<open>Intent/OperationStore.go\<close>): the journal of operations:
    reservation of ids, paging, recovery after a restart, pruning.
  \<^item> \<^verbatim>\<open>Scheduler\<close> (\<^verbatim>\<open>Scheduling/Scheduler.go\<close>): scheduled operations: at most
    one execution at a time, one operation id per version, a dispatch that ends and misses
    nothing, and a rescheduling that is forgotten.
  \<^item> \<^verbatim>\<open>TargetRejections\<close> (\<^verbatim>\<open>State/AttackTargetRejections.go\<close>): the bounded
    registry of targets the game refused, and their doubling deferral.
  \<^item> \<^verbatim>\<open>Layout\<close> (\<^verbatim>\<open>Buildings/Layout.go\<close>, \<^verbatim>\<open>Buildings/GroundCoverage.go\<close>): which
    cells of a castle are unlocked and built over, whether its layout is valid, where a building
    fits and which expansions are acceptable.
  \<^item> \<^verbatim>\<open>Partitions\<close> (\<^verbatim>\<open>State/Partitions.go\<close>): the parts of the game state a plan can
    depend on, their versions, when dependencies are current, a version that repeats, and the
    protocol context whose epoch detects changes of focus.
  \<^item> \<^verbatim>\<open>Plans\<close> (\<^verbatim>\<open>Intent/Engine.go\<close>, \<^verbatim>\<open>Intent/Types.go\<close>): steps and plans, the
    normal form with its claims and response barriers, and the checks a plan passes before it
    is carried out.
  \<^item> \<^verbatim>\<open>Execution\<close>, \<^verbatim>\<open>ExecutionProofs\<close> (\<open>execute\<close> in \<^verbatim>\<open>Intent/Engine.go\<close>): the life of one
    operation as a machine: planning, gate, admission, claims, revalidation, durable reservation,
    the steps with their retries and expansions, pauses, replanning and the final report. What is
    held while a step is executed, that nothing is held or repeated afterwards, what a success
    means and how failures are reported.
  \<^item> \<^verbatim>\<open>StepDispatch\<close> (\<open>executeStep\<close> in \<^verbatim>\<open>Intent/Engine.go\<close>): how one step is carried out, from its resolution to
    the response of the game: what is marked and taken back around a command, what its success means,
    which failures are uncertain, and what the provider that accounts for costs is told.
  \<^item> \<^verbatim>\<open>EventStream\<close> (\<open>Subscribe\<close>, \<open>publishLocked\<close> and \<open>Await\<close> in \<^verbatim>\<open>Intent/Engine.go\<close>): the stream of
    receipts: what a slow subscriber loses is marked, and waiting for an operation misses nothing.
  \<^item> \<^verbatim>\<open>OperationCache\<close> (\<^verbatim>\<open>Intent/Engine.go\<close>, \<^verbatim>\<open>Intent/Drain.go\<close>): the receipts kept in
    memory and their budget, submissions that run once, and the drain.
  \<^item> \<^verbatim>\<open>Operations\<close>: properties of several of these parts together: conflicting operations do
    not execute at the same time, and a success that is published before it is saved.
  \<^item> \<^verbatim>\<open>CoinGate\<close>, \<^verbatim>\<open>CoinWorld\<close> (\<^verbatim>\<open>App/CoinGate.go\<close>): the gate every command that costs coins
    passes before it is sent: when it lets a command through, and, with the game server around it, that
    the coins on the account cover the commands under way.
  \<^item> \<^verbatim>\<open>FeatureActivity\<close> (\<^verbatim>\<open>App/ActivityLogs.go\<close>, \<^verbatim>\<open>Telemetry/AttackChannels.go\<close>): the
    activities a finished operation adds to its feature, and which attack launches they confirm.
  \<^item> \<^verbatim>\<open>LaunchLedger\<close>, \<^verbatim>\<open>LaunchLedgerProofs\<close> (\<^verbatim>\<open>App/AttackLaunchLedger.go\<close>,
    \<^verbatim>\<open>Intent/AttackLaunchLedgerStore.go\<close>, \<^verbatim>\<open>Telemetry/Store.go\<close>): the durable counter of attack launches, fed by the
    stream of receipts, and the counters of the desktop: what a window counts, through gaps,
    failures of the database and restarts.
  \<^item> \<^verbatim>\<open>Schedule\<close> (\<^verbatim>\<open>Automation/Schedule.go\<close>): the weekly schedules of automation features: until when a
    feature is allowed, and when it is allowed next.
  \<^item> \<^verbatim>\<open>ControlFence\<close> (\<^verbatim>\<open>Accounts/ControlFence.go\<close>): the fence between successive controllers of a hosted
    cell: the epochs of the requests served never go back, through failed writes, restarts and losses
    of power.
  \<^item> \<^verbatim>\<open>MovementStore\<close>, \<^verbatim>\<open>MovementProofs\<close> (\<^verbatim>\<open>State/MovementMutation.go\<close>): the movements of the
    game state in shards that successive states share: a mutation that was prepared changes no state
    published before it, and reports what it has changed.

  \<^bold>\<open>State and concurrency.\<close> Each component's state is a record with the fields of its Go
  struct. A mutex-protected section is one function on that state, and the component is the
  relation whose steps are these functions in any order with any arguments; invariants are proved
  by induction over the reachable states. Clocks, contexts, cancellations, the transport and the
  callbacks handed to a component are arguments of the steps, so the theorems hold for every
  behaviour of theirs. A Go map whose order of iteration could matter is a list or is shown not
  to matter. Counters of type \<open>uint64\<close> that only number things are natural numbers.

  \<^bold>\<open>Bounds.\<close> Nearly all loops of the modelled code run over finite lists, so the functions are total
  by structural recursion. Fuel is used twice: \<open>dispatch_run\<close> (the dispatch loop run without
  interruption) is given twice the number of scheduled operations plus one, which the
  termination theorem of \<^verbatim>\<open>Scheduler\<close> shows to be enough, and the walk along the pages of the
  journal is given one more than the number of its rows, enough by the theorem on pages of
  \<^verbatim>\<open>OperationStore\<close>. Durations saturate as in Go.

  \<^bold>\<open>Not modelled.\<close> Goroutine scheduling inside a critical section, the texts of errors, log
  output, and the parts of the server listed as such in the manifest.
\<close>

end
